(* ===== verification/Prelude.thy ===== *)
theory Prelude
  imports Main "HOL-Library.Word" "HOL-Library.AList" "HOL-Library.Multiset"
    "HOL-Library.Sublist" "HOL-Library.Char_ord" "HOL-Library.List_Lexorder"
    "HOL-Library.Product_Lexorder"
begin

text \<open>
  What every component shares: the machine integers of the Rust sources, byte buffers,
  the two map containers (\<open>HashMap\<close> as an association list with distinct keys, in the order
  of one possible iteration; \<open>BTreeMap\<close> as an association list sorted by key), substring
  search, and three interfaces as locales.

  \<^item> \<open>kv_table\<close>: what a key/value container promises its clients. It is interpreted below on
    both containers, and the flow table, the joiner, the session buffers and the in-flight
    table rest on the interpretations \<open>hm\<close> and \<open>bt\<close>.
  \<^item> \<open>incremental_reader\<close>: a parser step that consumes the front of a buffer and whose result
    does not change when bytes are appended. Its clients get that a run does not depend on
    how the stream was cut into pieces.
  \<^item> \<open>machine_invariant\<close>: a partial step function that keeps an invariant; its clients get the
    invariant for whole runs.
\<close>

section \<open>Integers and buffers\<close>

type_synonym u8 = "8 word"
type_synonym u16 = "16 word"
type_synonym u32 = "32 word"
type_synonym u64 = "64 word"
type_synonym bytes = "u8 list"

named_theorems model_defs \<open>definitions that component proofs unfold together\<close>

text \<open>\<open>u16::from_be_bytes\<close>, \<open>u32::from_be_bytes\<close>, and the \<open>[u8; 16]\<close> to \<open>Ipv6Addr\<close> reading.\<close>

definition be_word :: "bytes \<Rightarrow> 'a::len word" where
  "be_word bs = foldl (\<lambda>w b. push_bit 8 w + ucast b) 0 bs"

definition le_word :: "bytes \<Rightarrow> 'a::len word" where
  "le_word bs = be_word (rev bs)"

text \<open>\<open>a.saturating_sub(b)\<close> and \<open>a.saturating_add(b)\<close> on unsigned words.\<close>

definition sat_sub :: "'a::len word \<Rightarrow> 'a word \<Rightarrow> 'a word" where
  "sat_sub a b = (if b \<le> a then a - b else 0)"

definition sat_add :: "'a::len word \<Rightarrow> 'a word \<Rightarrow> 'a word" where
  "sat_add a b = (if unat a + unat b < 2 ^ LENGTH('a) then a + b else - 1)"

text \<open>\<open>BytesMut::split_to(at)\<close>: the first \<open>at\<close> bytes and the rest; it panics (here \<open>None\<close>) when
  \<open>at\<close> exceeds the length.\<close>

definition split_to :: "nat \<Rightarrow> 'a list \<Rightarrow> ('a list \<times> 'a list) option" where
  "split_to n xs = (if n \<le> length xs then Some (take n xs, drop n xs) else None)"

text \<open>First occurrence of a pattern: \<open>windows(n).position\<close> and \<open>str::find\<close>.\<close>

fun find_sub :: "'a list \<Rightarrow> 'a list \<Rightarrow> nat option" where
  "find_sub p [] = (if p = [] then Some 0 else None)"
| "find_sub p (x # xs) =
     (if prefix p (x # xs) then Some 0 else map_option Suc (find_sub p xs))"

section \<open>Containers\<close>

text \<open>\<open>BTreeMap\<close>: \<open>insert\<close>, \<open>remove\<close>; \<open>get\<close> is \<^const>\<open>map_of\<close>, iteration is the list itself.\<close>

fun bt_insert :: "'k::linorder \<Rightarrow> 'v \<Rightarrow> ('k \<times> 'v) list \<Rightarrow> ('k \<times> 'v) list" where
  "bt_insert k v [] = [(k, v)]"
| "bt_insert k v ((k', v') # m) =
     (if k < k' then (k, v) # (k', v') # m
      else if k = k' then (k, v) # m
      else (k', v') # bt_insert k v m)"

definition bt_remove :: "'k::linorder \<Rightarrow> ('k \<times> 'v) list \<Rightarrow> ('k \<times> 'v) list" where
  "bt_remove k m = filter (\<lambda>e. fst e \<noteq> k) m"

definition bt_valid :: "('k::linorder \<times> 'v) list \<Rightarrow> bool" where
  "bt_valid m = sorted_wrt (<) (map fst m)"

definition hm_valid :: "('k \<times> 'v) list \<Rightarrow> bool" where
  "hm_valid m = distinct (map fst m)"

locale kv_table =
  fixes valid :: "('k \<times> 'v) list \<Rightarrow> bool"
    and upsert :: "'k \<Rightarrow> 'v \<Rightarrow> ('k \<times> 'v) list \<Rightarrow> ('k \<times> 'v) list"
    and remove :: "'k \<Rightarrow> ('k \<times> 'v) list \<Rightarrow> ('k \<times> 'v) list"
  assumes valid_distinct: "valid m \<Longrightarrow> distinct (map fst m)"
    and valid_empty: "valid []"
    and valid_upsert: "valid m \<Longrightarrow> valid (upsert k v m)"
    and valid_remove: "valid m \<Longrightarrow> valid (remove k m)"
    and valid_retain: "valid m \<Longrightarrow> valid (filter P m)"
    and map_of_upsert: "valid m \<Longrightarrow> map_of (upsert k v m) = (map_of m)(k \<mapsto> v)"
    and map_of_remove: "valid m \<Longrightarrow> map_of (remove k m) = (map_of m)(k := None)"
begin

lemma entry_iff: "valid m \<Longrightarrow> (k, v) \<in> set m \<longleftrightarrow> map_of m k = Some v"
  using valid_distinct by (metis map_of_eq_Some_iff)

lemma set_upsert:
  assumes "valid m"
  shows "set (upsert k v m) = insert (k, v) {e \<in> set m. fst e \<noteq> k}"
proof -
  have "(k', v') \<in> set (upsert k v m) \<longleftrightarrow> (k', v') \<in> insert (k, v) {e \<in> set m. fst e \<noteq> k}"
    for k' v'
    using assms by (auto simp: entry_iff valid_upsert map_of_upsert)
  then show ?thesis by auto
qed

lemma set_remove:
  assumes "valid m"
  shows "set (remove k m) = {e \<in> set m. fst e \<noteq> k}"
proof -
  have "(k', v') \<in> set (remove k m) \<longleftrightarrow> (k', v') \<in> {e \<in> set m. fst e \<noteq> k}" for k' v'
    using assms by (auto simp: entry_iff valid_remove map_of_remove)
  then show ?thesis by auto
qed

lemma map_of_retain:
  assumes "valid m"
  shows "map_of (filter P m) k =
    (case map_of m k of None \<Rightarrow> None | Some v \<Rightarrow> if P (k, v) then Some v else None)"
proof -
  have v: "valid (filter P m)" using assms by (rule valid_retain)
  have "map_of (filter P m) k = Some w \<longleftrightarrow> map_of m k = Some w \<and> P (k, w)" for w
    using entry_iff[OF assms, of k w] entry_iff[OF v, of k w] by auto
  note iff = this
  show ?thesis
  proof (cases "map_of (filter P m) k")
    case None
    then have "\<not> (map_of m k = Some w \<and> P (k, w))" for w using iff[of w] by simp
    with None show ?thesis by (cases "map_of m k") auto
  next
    case (Some w)
    with iff[of w] show ?thesis by simp
  qed
qed

lemma size_upsert_new:
  assumes "valid m" and "map_of m k = None"
  shows "length (upsert k v m) = Suc (length m)"
proof -
  have k: "k \<notin> fst ` set m" using assms(2) by (simp add: map_of_eq_None_iff)
  then have s: "set (upsert k v m) = insert (k, v) (set m)"
    using set_upsert[OF assms(1)] by force
  have d: "distinct (upsert k v m)" "distinct m"
    using valid_distinct assms(1) valid_upsert distinct_map by blast+
  have "(k, v) \<notin> set m" using k by force
  then have "card (set (upsert k v m)) = Suc (card (set m))" by (simp add: s)
  then show ?thesis using d by (simp add: distinct_card)
qed

lemma size_upsert_le:
  assumes "valid m"
  shows "length (upsert k v m) \<le> Suc (length m)"
proof -
  have d: "distinct (upsert k v m)" "distinct m"
    using valid_distinct assms valid_upsert distinct_map by blast+
  have "set (upsert k v m) \<subseteq> insert (k, v) (set m)"
    using set_upsert[OF assms] by auto
  then have "card (set (upsert k v m)) \<le> card (insert (k, v) (set m))"
    by (intro card_mono) auto
  also have "\<dots> \<le> Suc (card (set m))" by (simp add: card_insert_le_m1 card_insert_if)
  finally show ?thesis using d by (simp add: distinct_card)
qed

lemma size_remove_lt:
  assumes "valid m" and "map_of m k = Some v"
  shows "length (remove k m) < length m"
proof -
  have d: "distinct (remove k m)" "distinct m"
    using valid_distinct assms valid_remove distinct_map by blast+
  have "(k, v) \<in> set m" using assms by (simp add: entry_iff)
  then have "set (remove k m) \<subset> set m" using set_remove[OF assms(1)] by force
  then have "card (set (remove k m)) < card (set m)" by (intro psubset_card_mono) auto
  then show ?thesis using d by (simp add: distinct_card)
qed

end

section \<open>Runs\<close>

text \<open>Iterate a partial step over a list of inputs; \<open>None\<close> once a step has no result.\<close>

fun run_steps :: "('s \<Rightarrow> 'i \<Rightarrow> 's option) \<Rightarrow> 's \<Rightarrow> 'i list \<Rightarrow> 's option" where
  "run_steps f s [] = Some s"
| "run_steps f s (i # is) = (case f s i of None \<Rightarrow> None | Some s' \<Rightarrow> run_steps f s' is)"

lemma run_steps_append:
  "run_steps f s (xs @ ys) = (case run_steps f s xs of None \<Rightarrow> None | Some t \<Rightarrow> run_steps f t ys)"
  by (induction xs arbitrary: s) (auto split: option.splits)

locale machine_invariant =
  fixes step :: "'s \<Rightarrow> 'i \<Rightarrow> 's option"
    and inv :: "'s \<Rightarrow> bool"
    and admissible :: "'i \<Rightarrow> bool"
  assumes step_inv: "inv s \<Longrightarrow> admissible i \<Longrightarrow> step s i = Some s' \<Longrightarrow> inv s'"
begin

lemma run_inv:
  "inv s \<Longrightarrow> list_all admissible is \<Longrightarrow> run_steps step s is = Some s' \<Longrightarrow> inv s'"
  by (induction "is" arbitrary: s) (auto split: option.splits intro: step_inv)

end

text \<open>Run a reader step until it needs more input, collecting its outputs.\<close>

function drain_reader ::
  "('s \<Rightarrow> 'b list \<Rightarrow> ('s \<times> 'o \<times> 'b list) option) \<Rightarrow> 's \<Rightarrow> 'b list \<Rightarrow> 's \<times> 'o list \<times> 'b list"
where
  "drain_reader f s b =
     (case f s b of
        None \<Rightarrow> (s, [], b)
      | Some (s', y, r) \<Rightarrow>
          if length r < length b
          then (let (s'', ys, q) = drain_reader f s' r in (s'', y # ys, q))
          else (s', [y], r))"
  by pat_completeness auto
termination
  by (relation "measure (\<lambda>(f, s, b). length b)") auto

declare drain_reader.simps [simp del]

text \<open>Feed a stream to a reader piece by piece, as its segments arrive.\<close>

fun feed_reader ::
  "('s \<Rightarrow> 'b list \<Rightarrow> ('s \<times> 'o \<times> 'b list) option) \<Rightarrow> 's \<Rightarrow> 'b list \<Rightarrow> 'b list list
    \<Rightarrow> 's \<times> 'o list \<times> 'b list"
where
  "feed_reader f s r [] = (s, [], r)"
| "feed_reader f s r (p # ps) =
     (let (s1, ys, r1) = drain_reader f s (r @ p);
          (s2, zs, r2) = feed_reader f s1 r1 ps
      in (s2, ys @ zs, r2))"

locale incremental_reader =
  fixes step :: "'s \<Rightarrow> 'b list \<Rightarrow> ('s \<times> 'o \<times> 'b list) option"
    and ok :: "'b list \<Rightarrow> bool"
  assumes progress: "step s b = Some (s', y, r) \<Longrightarrow> length r < length b"
    and stable: "ok (b @ c) \<Longrightarrow> step s b = Some (s', y, r) \<Longrightarrow> step s (b @ c) = Some (s', y, r @ c)"
    and ok_rest: "ok (b @ c) \<Longrightarrow> step s b = Some (s', y, r) \<Longrightarrow> ok (r @ c)"
begin

text \<open>Feeding the pieces one after the other gives the outputs of feeding them at once.\<close>

lemma drain_append:
  assumes "ok (b @ c)" and "drain_reader step s b = (s1, ys, r)"
  shows "drain_reader step s (b @ c) =
    (let (s2, zs, q) = drain_reader step s1 (r @ c) in (s2, ys @ zs, q))"
  using assms
proof (induction "length b" arbitrary: s b ys rule: less_induct)
  case less
  show ?case
  proof (cases "step s b")
    case None
    then have "(s1, ys, r) = (s, [], b)"
      using less.prems(2) by (simp add: drain_reader.simps)
    then show ?thesis by (simp add: case_prod_beta)
  next
    case (Some t)
    then obtain s' y r' where st: "step s b = Some (s', y, r')" by (cases t) auto
    have lt: "length r' < length b" using st by (rule progress)
    obtain ys' where ys: "ys = y # ys'" and rec: "drain_reader step s' r' = (s1, ys', r)"
      using less.prems(2) st lt by (auto simp: drain_reader.simps[of step s b] split: prod.splits)
    have st2: "step s (b @ c) = Some (s', y, r' @ c)" using less.prems(1) st by (rule stable)
    have ok2: "ok (r' @ c)" using less.prems(1) st by (rule ok_rest)
    have "drain_reader step s' (r' @ c) =
        (let (s2, zs, q) = drain_reader step s1 (r @ c) in (s2, ys' @ zs, q))"
      using less.hyps[OF lt ok2 rec] .
    then show ?thesis
      using st2 lt ys by (simp add: drain_reader.simps[of step s "b @ c"] case_prod_beta)
  qed
qed

lemma drain_rest:
  assumes "ok (b @ c)" and "drain_reader step s b = (s1, ys, r)"
  shows "step s1 r = None \<and> ok (r @ c)"
  using assms
proof (induction "length b" arbitrary: s b ys rule: less_induct)
  case less
  show ?case
  proof (cases "step s b")
    case None
    then show ?thesis using less.prems by (simp add: drain_reader.simps)
  next
    case (Some t)
    then obtain s' y r' where st: "step s b = Some (s', y, r')" by (cases t) auto
    have lt: "length r' < length b" using st by (rule progress)
    have ok2: "ok (r' @ c)" using less.prems(1) st by (rule ok_rest)
    obtain ys' where "drain_reader step s' r' = (s1, ys', r)"
      using less.prems(2) st lt by (auto simp: drain_reader.simps[of step s b] split: prod.splits)
    then show ?thesis using less.hyps[OF lt ok2] by blast
  qed
qed

lemma feed_concat:
  assumes "ok (r @ concat ps)" and "step s r = None"
  shows "feed_reader step s r ps = drain_reader step s (r @ concat ps)"
  using assms
proof (induction ps arbitrary: s r)
  case Nil
  then show ?case by (simp add: drain_reader.simps)
next
  case (Cons p ps)
  obtain s1 ys r1 where d: "drain_reader step s (r @ p) = (s1, ys, r1)" by (cases "drain_reader step s (r @ p)")
  have ok: "ok ((r @ p) @ concat ps)" using Cons.prems(1) by simp
  have "step s1 r1 = None \<and> ok (r1 @ concat ps)" using ok d by (rule drain_rest)
  then have "feed_reader step s1 r1 ps = drain_reader step s1 (r1 @ concat ps)"
    using Cons.IH by blast
  then show ?case using drain_append[OF ok d] d by (simp add: case_prod_beta)
qed

lemma step_empty: "step s [] = None"
  using progress[of s "[]"] by (cases "step s []") auto

end

section \<open>Lemmas on the shared operations\<close>

lemma find_sub_bound: "find_sub p xs = Some i \<Longrightarrow> i + length p \<le> length xs"
proof (induction p xs arbitrary: i rule: find_sub.induct)
  case (2 p x xs)
  then show ?case
    using prefix_length_le[of p "x # xs"] by (fastforce split: if_splits)
qed (auto split: if_splits)

lemma find_sub_prefix: "find_sub p xs = Some i \<Longrightarrow> prefix p (drop i xs)"
  by (induction p xs arbitrary: i rule: find_sub.induct) (auto split: if_splits)

lemma find_sub_split:
  "find_sub p xs = Some i \<Longrightarrow> xs = take i xs @ p @ drop (i + length p) xs"
  using find_sub_prefix[of p xs i]
  by (metis append_eq_conv_conj append_take_drop_id drop_drop prefix_def add.commute)

text \<open>Appending does not move the first occurrence.\<close>

lemma find_sub_append_stable:
  "find_sub p xs = Some i \<Longrightarrow> find_sub p (xs @ ys) = Some i"
proof (induction p xs arbitrary: i rule: find_sub.induct)
  case (1 p)
  then show ?case by (cases ys) (auto split: if_splits)
next
  case (2 p x xs)
  show ?case
  proof (cases "prefix p (x # xs)")
    case True
    then have "prefix p ((x # xs) @ ys)" by (rule prefix_prefix)
    then show ?thesis using True 2 by simp
  next
    case False
    then obtain j where j: "find_sub p xs = Some j" and i: "i = Suc j"
      using 2 by auto
    have "\<not> prefix p ((x # xs) @ ys)"
      using False find_sub_bound[OF j] by (metis add_leE length_Cons le_SucI
          prefix_length_prefix prefixI)
    then show ?thesis using 2 False j i by simp
  qed
qed

lemma find_sub_pair:
  "a \<notin> set l \<Longrightarrow> find_sub [a, b] (l @ a # b # r) = Some (length l)"
  by (induction l) (auto simp: prefix_def)

lemma find_sub_None_iff: "find_sub p xs = None \<longleftrightarrow> \<not> sublist p xs"
  by (induction p xs rule: find_sub.induct) (auto simp: sublist_Cons_right)

lemma split_to_Some [simp]:
  "split_to n xs = Some (a, b) \<longleftrightarrow> n \<le> length xs \<and> a = take n xs \<and> b = drop n xs"
  by (auto simp: split_to_def)

lemma split_to_None [simp]: "split_to n xs = None \<longleftrightarrow> length xs < n"
  by (auto simp: split_to_def)

lemma map_filter_append: "List.map_filter f (xs @ ys) = List.map_filter f xs @ List.map_filter f ys"
  by (simp add: List.map_filter_def)

lemma bt_insert_keys: "fst ` set (bt_insert k v m) = insert k (fst ` set m)"
  by (induction k v m rule: bt_insert.induct) auto

lemma bt_insert_entries: "e \<in> set (bt_insert k v m) \<Longrightarrow> e = (k, v) \<or> e \<in> set m"
  by (induction k v m rule: bt_insert.induct) (auto split: if_splits)

lemma bt_insert_valid: "bt_valid m \<Longrightarrow> bt_valid (bt_insert k v m)"
proof (induction k v m rule: bt_insert.induct)
  case (2 k v k' v' m)
  have "\<forall>x\<in>fst ` set (bt_insert k v m). k' < x" if "k' < k" "\<forall>x\<in>fst ` set m. k' < x"
    using that by (simp add: bt_insert_keys)
  then show ?case using 2 by (auto simp: bt_valid_def)
qed (simp add: bt_valid_def)

lemma map_of_bt_insert: "bt_valid m \<Longrightarrow> map_of (bt_insert k v m) = (map_of m)(k \<mapsto> v)"
proof (induction k v m rule: bt_insert.induct)
  case (2 k v k' v' m)
  then show ?case by (auto simp: bt_valid_def fun_eq_iff)
qed simp

lemma map_of_bt_remove: "map_of (bt_remove k m) = (map_of m)(k := None)"
  by (induction m) (auto simp: bt_remove_def fun_eq_iff)

lemma bt_valid_filter: "bt_valid m \<Longrightarrow> bt_valid (filter P m)"
  by (induction m) (auto simp: bt_valid_def)

lemma bt_valid_distinct: "bt_valid m \<Longrightarrow> distinct (map fst m)"
  by (simp add: bt_valid_def strict_sorted_iff)

lemma bt_remove_valid: "bt_valid m \<Longrightarrow> bt_valid (bt_remove k m)"
  by (simp add: bt_remove_def bt_valid_filter)

lemma bt_ext:
  assumes "bt_valid m" "bt_valid m'" "\<And>k. map_of m k = map_of m' k"
  shows "m = m'"
proof -
  have d: "distinct (map fst m)" "distinct (map fst m')" using assms by (simp_all add: bt_valid_distinct)
  have "e \<in> set m \<longleftrightarrow> e \<in> set m'" for e
    using d assms(3) by (cases e) (metis map_of_eq_Some_iff)
  then have s: "set m = set m'" by blast
  have "sorted_wrt (<) (map fst m)" "sorted_wrt (<) (map fst m')" using assms(1,2) by (simp_all add: bt_valid_def)
  then have "map fst m = map fst m'" using s by (metis list.set_map strict_sorted_equal)
  moreover have "map snd m = map snd m'"
  proof (rule nth_equalityI)
    show len: "length (map snd m) = length (map snd m')" using arg_cong[OF calculation, of length] by simp
    fix n assume n: "n < length (map snd m)"
    have k: "fst (m ! n) = fst (m' ! n)" using calculation n len by (metis length_map nth_map)
    have "map_of m (fst (m ! n)) = Some (snd (m ! n))" "map_of m' (fst (m' ! n)) = Some (snd (m' ! n))"
      using d n len by (simp_all add: map_of_eq_Some_iff)
    then show "map snd m ! n = map snd m' ! n" using k assms(3) n len by simp
  qed
  ultimately show ?thesis by (metis zip_map_fst_snd)
qed

interpretation bt: kv_table bt_valid bt_insert bt_remove
  by unfold_locales
    (simp_all add: bt_insert_valid map_of_bt_insert map_of_bt_remove bt_valid_filter
      bt_valid_distinct bt_remove_valid bt_valid_def[of "[]"])

lemma distinct_keys_filter: "distinct (map fst m) \<Longrightarrow> distinct (map fst (filter P m))"
  by (induction m) auto

interpretation hm: kv_table hm_valid AList.update AList.delete
  by unfold_locales
    (auto simp: hm_valid_def distinct_update distinct_delete update_conv' delete_conv'
      distinct_keys_filter)

end
