(* ===== verification/Rust_Text.thy ===== *)
theory Rust_Text
  imports Prelude
begin

text \<open>
  The parts of Rust's \<open>str\<close> the sources use. A Rust string is its UTF-8 encoding, here a
  \<open>string\<close> whose characters are bytes, so \<open>len()\<close> is \<^const>\<open>length\<close>. A byte buffer becomes a
  string through \<open>from_utf8\<close> (which fails on malformed UTF-8) or \<open>from_utf8_lossy\<close> (which
  puts U+FFFD for each maximal malformed part).
\<close>

abbreviation LF :: char where "LF \<equiv> CHR 0x0A"
abbreviation CR :: char where "CR \<equiv> CHR 0x0D"
abbreviation SP :: char where "SP \<equiv> CHR 0x20"

definition byte_of :: "char \<Rightarrow> u8" where
  "byte_of c = of_nat (of_char c)"

definition char_of_byte :: "u8 \<Rightarrow> char" where
  "char_of_byte b = char_of (unat b)"

definition as_bytes :: "string \<Rightarrow> bytes" where
  "as_bytes s = map byte_of s"

definition bytes_str :: "bytes \<Rightarrow> string" where
  "bytes_str bs = map char_of_byte bs"

section \<open>UTF-8\<close>

text \<open>One step of the decoder of \<open>core::str\<close>: whether the bytes at the front form a character,
  and how many bytes that character, or the malformed part, takes. A missing byte reads as 0.\<close>

definition byte_at :: "bytes \<Rightarrow> nat \<Rightarrow> nat" where
  "byte_at bs i = (if i < length bs then unat (bs ! i) else 0)"

definition is_cont :: "nat \<Rightarrow> bool" where
  "is_cont n \<longleftrightarrow> 128 \<le> n \<and> n < 192"

definition second_ok :: "nat \<Rightarrow> nat \<Rightarrow> bool" where
  "second_ok a b =
     (if a = 224 then 160 \<le> b \<and> b < 192
      else if a = 237 then 128 \<le> b \<and> b < 160
      else if a = 240 then 144 \<le> b \<and> b < 192
      else if a = 244 then 128 \<le> b \<and> b < 144
      else is_cont b)"

definition utf8_step :: "bytes \<Rightarrow> bool \<times> nat" where
  "utf8_step bs =
     (let a = byte_at bs 0; b = byte_at bs 1; c = byte_at bs 2; d = byte_at bs 3 in
      if a < 128 then (True, 1)
      else if 194 \<le> a \<and> a < 224 then (if is_cont b then (True, 2) else (False, 1))
      else if 224 \<le> a \<and> a < 240 then
        (if second_ok a b then (if is_cont c then (True, 3) else (False, 2)) else (False, 1))
      else if 240 \<le> a \<and> a < 245 then
        (if second_ok a b
         then (if is_cont c then (if is_cont d then (True, 4) else (False, 3)) else (False, 2))
         else (False, 1))
      else (False, 1))"

function utf8_valid :: "bytes \<Rightarrow> bool" where
  "utf8_valid bs =
     (if bs = [] then True
      else if fst (utf8_step bs) then utf8_valid (drop (max 1 (snd (utf8_step bs))) bs)
      else False)"
  by pat_completeness auto
termination
  by (relation "measure length") (auto simp: diff_less)

declare utf8_valid.simps [simp del]

definition from_utf8 :: "bytes \<Rightarrow> string option" where
  "from_utf8 bs = (if utf8_valid bs then Some (bytes_str bs) else None)"

definition replacement_char :: string where
  "replacement_char = map char_of [239, 191, 189 :: nat]"

function from_utf8_lossy :: "bytes \<Rightarrow> string" where
  "from_utf8_lossy bs =
     (if bs = [] then []
      else let n = max 1 (snd (utf8_step bs)) in
        (if fst (utf8_step bs) then bytes_str (take n bs) else replacement_char)
        @ from_utf8_lossy (drop n bs))"
  by pat_completeness auto
termination
  by (relation "measure length") auto

declare from_utf8_lossy.simps [simp del]

text \<open>The characters (code points) of a UTF-8 string: a lead byte and its continuation bytes.\<close>

definition cont_char :: "char \<Rightarrow> bool" where
  "cont_char c = is_cont (of_char c)"

function utf8_chars :: "string \<Rightarrow> string list" where
  "utf8_chars [] = []"
| "utf8_chars (c # cs) = (c # takeWhile cont_char cs) # utf8_chars (dropWhile cont_char cs)"
  by pat_completeness auto
termination
  by (relation "measure length") (auto simp: less_Suc_eq_le length_dropWhile_le)

section \<open>Case, trimming, lines\<close>

definition ascii_lower :: "char \<Rightarrow> char" where
  "ascii_lower c = (if 65 \<le> (of_char c :: nat) \<and> (of_char c :: nat) \<le> 90
                    then char_of (of_char c + 32 :: nat) else c)"

definition to_ascii_lowercase :: "string \<Rightarrow> string" where
  "to_ascii_lowercase s = map ascii_lower s"

definition eq_ignore_ascii_case :: "string \<Rightarrow> string \<Rightarrow> bool" where
  "eq_ignore_ascii_case a b = (to_ascii_lowercase a = to_ascii_lowercase b)"

text \<open>\<open>str::to_lowercase\<close>. The sources search the result for an ASCII word only. Of the
  non-ASCII characters just U+212A (Kelvin sign) and U+0130 have ASCII in their lower case;
  every other one maps to non-ASCII characters and is kept, which leaves such a search
  unchanged.\<close>

fun to_lowercase :: "string \<Rightarrow> string" where
  "to_lowercase [] = []"
| "to_lowercase (a # r) =
     (if prefix (map char_of [226, 132, 170 :: nat]) (a # r)
      then CHR ''k'' # to_lowercase (drop 2 r)
      else if prefix (map char_of [196, 176 :: nat]) (a # r)
      then CHR ''i'' # map char_of [204, 135 :: nat] @ to_lowercase (drop 1 r)
      else ascii_lower a # to_lowercase r)"

definition str_contains :: "string \<Rightarrow> string \<Rightarrow> bool" where
  "str_contains s p = (find_sub p s \<noteq> None)"

definition strip_prefix :: "string \<Rightarrow> string \<Rightarrow> string option" where
  "strip_prefix p s = (if prefix p s then Some (drop (length p) s) else None)"

text \<open>The UTF-8 encodings of the characters with Unicode property White\_Space.\<close>

definition white_space :: "string list" where
  "white_space = map (map char_of)
     ([[9], [10], [11], [12], [13], [32], [194, 133], [194, 160], [225, 154, 128],
       [226, 128, 168], [226, 128, 169], [226, 128, 175], [226, 129, 159], [227, 128, 128]]
      @ map (\<lambda>n. [226, 128, n]) [128..<139] :: nat list list)"

function strip_front :: "string list \<Rightarrow> string \<Rightarrow> string" where
  "strip_front ws s =
     (case find (\<lambda>w. w \<noteq> [] \<and> prefix w s) ws of
        None \<Rightarrow> s
      | Some w \<Rightarrow> strip_front ws (drop (length w) s))"
  by pat_completeness auto
termination
  by (relation "measure (\<lambda>(ws, s). length s)")
    (auto simp: find_Some_iff dest!: prefix_length_le intro!: diff_less)

declare strip_front.simps [simp del]

definition trim_start :: "string \<Rightarrow> string" where
  "trim_start s = strip_front white_space s"

definition trim_end :: "string \<Rightarrow> string" where
  "trim_end s = rev (strip_front (map rev white_space) (rev s))"

definition trim :: "string \<Rightarrow> string" where
  "trim s = trim_end (trim_start s)"

definition trim_start_spaces :: "string \<Rightarrow> string" where
  "trim_start_spaces s = dropWhile (\<lambda>c. c = SP) s"

definition strip_cr :: "string \<Rightarrow> string" where
  "strip_cr l = (if l \<noteq> [] \<and> last l = CR then butlast l else l)"

text \<open>\<open>str::lines\<close>: a line that ends in LF loses it and one CR before it; a last line without
  LF is kept as it is.\<close>

function lines :: "string \<Rightarrow> string list" where
  "lines s =
     (if s = [] then []
      else case dropWhile (\<lambda>c. c \<noteq> LF) s of
        [] \<Rightarrow> [s]
      | _ # rest \<Rightarrow> strip_cr (takeWhile (\<lambda>c. c \<noteq> LF) s) # lines rest)"
  by pat_completeness auto
termination
proof (relation "measure length", goal_cases)
  case (2 s c rest)
  then have "length (c # rest) \<le> length s" using length_dropWhile_le[of _ s] by metis
  then show ?case by simp
qed simp

declare lines.simps [simp del]

section \<open>Numbers\<close>

definition digit_val :: "nat \<Rightarrow> char \<Rightarrow> nat option" where
  "digit_val radix c =
     (let n = of_char c;
          v = (if 48 \<le> n \<and> n \<le> 57 then n - 48
               else if 97 \<le> n \<and> n \<le> 122 then n - 87
               else if 65 \<le> n \<and> n \<le> 90 then n - 55
               else radix)
      in if v < radix then Some v else None)"

fun digits_value :: "nat \<Rightarrow> nat \<Rightarrow> string \<Rightarrow> nat option" where
  "digits_value radix acc [] = Some acc"
| "digits_value radix acc (c # cs) =
     (case digit_val radix c of
        None \<Rightarrow> None
      | Some d \<Rightarrow> digits_value radix (acc * radix + d) cs)"

text \<open>\<open>usize::from_str_radix\<close> (and \<open>str::parse\<close> at radix 10): one leading plus sign is taken, an
  empty digit string, a non-digit or a value past \<open>usize::MAX\<close> is an error.\<close>

definition from_str_radix :: "nat \<Rightarrow> string \<Rightarrow> nat option" where
  "from_str_radix radix s =
     (let t = (case s of c # cs \<Rightarrow> if c = CHR ''+'' \<and> cs \<noteq> [] then cs else s | [] \<Rightarrow> [])
      in if t = [] then None
         else case digits_value radix 0 t of
           None \<Rightarrow> None
         | Some n \<Rightarrow> if n < 2 ^ 64 then Some n else None)"

text \<open>The visible ASCII characters, none of which \<open>trim\<close> removes.\<close>

definition graphic :: "char \<Rightarrow> bool" where
  "graphic c \<longleftrightarrow> 32 < (of_char c :: nat) \<and> (of_char c :: nat) < 127"

section \<open>Lemmas\<close>

lemma char_of_byte_of [simp]: "char_of_byte (byte_of c) = c"
proof -
  have "(of_char c :: nat) mod 256 = of_char c" by simp
  then have "unat (of_nat (of_char c) :: u8) = of_char c"
    by (simp add: unsigned_of_nat take_bit_eq_mod)
  then show ?thesis by (simp add: char_of_byte_def byte_of_def)
qed

lemma byte_of_char_of_byte [simp]: "byte_of (char_of_byte b) = b"
proof -
  have "unat b < 256" using unsigned_less[of b, where ?'a = nat] by simp
  then show ?thesis by (simp add: char_of_byte_def byte_of_def)
qed

lemma bytes_str_as_bytes [simp]: "bytes_str (as_bytes s) = s"
  by (simp add: bytes_str_def as_bytes_def map_idI)

lemma as_bytes_bytes_str [simp]: "as_bytes (bytes_str b) = b"
  by (simp add: bytes_str_def as_bytes_def map_idI)

lemma as_bytes_append [simp]: "as_bytes (a @ b) = as_bytes a @ as_bytes b"
  by (simp add: as_bytes_def)

lemma length_as_bytes [simp]: "length (as_bytes s) = length s"
  by (simp add: as_bytes_def)

lemma as_bytes_Nil_iff [simp]: "as_bytes s = [] \<longleftrightarrow> s = []"
  by (simp add: as_bytes_def)

text \<open>Plain ASCII is valid UTF-8.\<close>

lemma utf8_valid_ascii:
  "list_all (\<lambda>b. unat b < 128) bs \<Longrightarrow> utf8_valid bs"
proof (induction bs)
  case Nil
  then show ?case by (simp add: utf8_valid.simps)
next
  case (Cons a bs)
  then have "utf8_step (a # bs) = (True, 1)" by (simp add: utf8_step_def byte_at_def)
  with Cons.IH Cons.prems show ?case by (simp add: utf8_valid.simps[of "a # bs"])
qed

lemma from_utf8_Some: "from_utf8 bs = Some s \<Longrightarrow> s = bytes_str bs"
  by (simp add: from_utf8_def split: if_splits)

lemma digits_value_append:
  "digits_value r acc (s @ t) =
    (case digits_value r acc s of None \<Rightarrow> None | Some n \<Rightarrow> digits_value r n t)"
  by (induction s arbitrary: acc) (auto split: option.split)

lemma from_str_radix_bound: "from_str_radix r s = Some n \<Longrightarrow> n < 2 ^ 64"
  by (auto simp: from_str_radix_def Let_def split: option.splits if_splits)

lemma strip_front_id:
  assumes "\<And>w. w \<in> set ws \<Longrightarrow> w = [] \<or> hd w \<noteq> hd s"
  shows "strip_front ws s = s"
proof -
  have "find (\<lambda>w. w \<noteq> [] \<and> prefix w s) ws = None"
    unfolding find_None_iff using assms by (metis hd_append2 prefix_def)
  then show ?thesis by (simp add: strip_front.simps)
qed

lemma white_space_heads:
  "list_all (\<lambda>w. w \<noteq> [] \<and> \<not> graphic (hd w) \<and> \<not> graphic (last w)) white_space"
  by code_simp

lemma trim_ends:
  assumes "s = [] \<or> graphic (hd s) \<and> graphic (last s)"
  shows "trim s = s"
proof (cases "s = []")
  case False
  have ws: "w \<noteq> [] \<and> \<not> graphic (hd w) \<and> \<not> graphic (last w)" if "w \<in> set white_space" for w
    using white_space_heads that by (simp add: list_all_iff)
  have "graphic (hd s)" "graphic (last s)" using assms False by simp_all
  then have "strip_front white_space s = s"
    and "strip_front (map rev white_space) (rev s) = rev s"
    by (auto intro!: strip_front_id simp: hd_rev dest: ws) (metis ws)+
  then show ?thesis by (simp add: trim_def trim_start_def trim_end_def)
next
  case True
  have e: "strip_front ws [] = []" for ws
  proof -
    have "find (\<lambda>w. w \<noteq> [] \<and> prefix w []) ws = None" by (simp add: find_None_iff)
    then show ?thesis by (simp add: strip_front.simps)
  qed
  from True show ?thesis by (simp add: trim_def trim_start_def trim_end_def e)
qed

lemma trim_graphic: "list_all graphic s \<Longrightarrow> trim s = s"
  by (rule trim_ends) (cases "s = []"; simp add: list_all_iff)

text \<open>Evaluation searches the table of white space only when an end of the text may be in it.\<close>

lemma trim_code [code]:
  "trim s = (if s = [] \<or> graphic (hd s) \<and> graphic (last s) then s else trim_end (trim_start s))"
  using trim_ends[of s] by (simp add: trim_def)

lemma byte_of_graphic: "graphic c \<Longrightarrow> 32 < unat (byte_of c) \<and> unat (byte_of c) < 127"
  by (simp add: graphic_def byte_of_def unsigned_of_nat take_bit_eq_mod)

lemma from_utf8_graphic: "list_all graphic s \<Longrightarrow> from_utf8 (as_bytes s) = Some s"
proof -
  assume "list_all graphic s"
  then have "list_all (\<lambda>b. unat b < 128) (as_bytes s)"
    by (fastforce simp: list_all_iff as_bytes_def dest: byte_of_graphic)
  then show ?thesis by (simp add: from_utf8_def utf8_valid_ascii)
qed

lemma graphic_no_cr: "list_all graphic s \<Longrightarrow> 13 \<notin> set (as_bytes s)"
proof
  assume "list_all graphic s" "13 \<in> set (as_bytes s)"
  then obtain c where "graphic c" "byte_of c = 13" by (auto simp: as_bytes_def list_all_iff)
  then show False using byte_of_graphic[of c] by simp
qed

lemma strip_cr_id: "CR \<notin> set l \<Longrightarrow> strip_cr l = l"
  by (auto simp: strip_cr_def) (metis last_in_set)

lemma lines_cons: "LF \<notin> set a \<Longrightarrow> lines (a @ LF # b) = strip_cr a # lines b"
  by (simp add: lines.simps[of "a @ LF # b"] dropWhile_append takeWhile_append)

lemma white_space_SP: "list_all (\<lambda>w. hd w = SP \<longrightarrow> w = [SP]) white_space" "[SP] \<in> set white_space"
  by code_simp+

lemma trim_SP: "trim (SP # s) = trim s"
proof -
  have "find (\<lambda>w. w \<noteq> [] \<and> prefix w (SP # s)) white_space = Some [SP]"
  proof (cases "find (\<lambda>w. w \<noteq> [] \<and> prefix w (SP # s)) white_space")
    case None
    then show ?thesis using white_space_SP(2) by (auto simp: find_None_iff)
  next
    case (Some w)
    then have "w \<in> set white_space" "w \<noteq> []" "prefix w (SP # s)"
      by (auto simp: find_Some_iff)
    then have "w \<in> set white_space" "hd w = SP" by (auto simp: prefix_def) (metis hd_append2 list.sel(1))
    then show ?thesis using Some white_space_SP(1) unfolding list_all_iff by metis
  qed
  then show ?thesis by (simp add: trim_def trim_start_def strip_front.simps[of _ "SP # s"])
qed

lemma digits_value_bound: "digits_value r acc s = Some n \<Longrightarrow> n < (acc + 1) * r ^ length s"
proof (induction s arbitrary: acc)
  case (Cons c cs)
  then obtain d where d: "digit_val r c = Some d" "digits_value r (acc * r + d) cs = Some n"
    by (auto split: option.splits)
  have "d < r" using d(1) by (auto simp: digit_val_def Let_def split: if_splits)
  then have "acc * r + d + 1 \<le> (acc + 1) * r" by (simp add: algebra_simps)
  then have "(acc * r + d + 1) * r ^ length cs \<le> (acc + 1) * r * r ^ length cs" by (rule mult_right_mono) simp
  then have "(acc * r + d + 1) * r ^ length cs \<le> (acc + 1) * r ^ length (c # cs)"
    by (simp add: algebra_simps)
  with Cons.IH[OF d(2)] show ?case by (rule less_le_trans)
qed simp

lemma strip_front_length: "length (strip_front ws s) \<le> length s"
proof (induction ws s rule: strip_front.induct)
  case (1 ws s)
  then show ?case by (subst strip_front.simps) (fastforce split: option.split)
qed

lemma trim_length: "length (trim s) \<le> length s"
  using strip_front_length[of white_space s]
    strip_front_length[of "map rev white_space" "rev (strip_front white_space s)"]
  by (simp add: trim_def trim_start_def trim_end_def)

lemma from_str_radix_short:
  assumes "from_str_radix r s = Some n" and "length s \<le> k" and "0 < r"
  shows "n < r ^ k"
proof -
  let ?t = "case s of c # cs \<Rightarrow> if c = CHR ''+'' \<and> cs \<noteq> [] then cs else s | [] \<Rightarrow> []"
  have "digits_value r 0 ?t = Some n"
    using assms(1) unfolding from_str_radix_def Let_def by (auto split: if_splits option.splits)
  moreover have "length ?t \<le> length s" by (simp split: list.split)
  ultimately obtain t where t: "digits_value r 0 t = Some n" "length t \<le> length s" by blast
  have "n < r ^ length t" using digits_value_bound[OF t(1)] by simp
  also have "\<dots> \<le> r ^ k" using t(2) assms(2,3) by (intro power_increasing) auto
  finally show ?thesis .
qed

lemma from_utf8_lossy_ascii:
  "list_all (\<lambda>b. unat b < 128) bs \<Longrightarrow> from_utf8_lossy bs = bytes_str bs"
proof (induction bs)
  case Nil
  then show ?case by (simp add: from_utf8_lossy.simps bytes_str_def)
next
  case (Cons a bs)
  then have "utf8_step (a # bs) = (True, 1)" by (simp add: utf8_step_def byte_at_def)
  with Cons.IH Cons.prems show ?case by (simp add: from_utf8_lossy.simps[of "a # bs"] bytes_str_def)
qed

lemma from_utf8_lossy_graphic: "list_all graphic s \<Longrightarrow> from_utf8_lossy (as_bytes s) = s"
  using from_utf8_lossy_ascii[of "as_bytes s"]
  by (fastforce simp: list_all_iff as_bytes_def bytes_str_def map_idI dest: byte_of_graphic)

lemma to_lowercase_graphic: "list_all graphic s \<Longrightarrow> to_lowercase s = map ascii_lower s"
proof (induction s rule: to_lowercase.induct)
  case (2 a r)
  then have "(of_char a :: nat) < 127" by (simp add: graphic_def)
  then have "a \<noteq> char_of (226 :: nat)" "a \<noteq> char_of (196 :: nat)" by auto
  then show ?case using 2 by simp
qed simp

declare to_lowercase.simps [simp del]

end
