(* ===== verification/Net.thy ===== *)
theory Net
  imports Rust_Text
begin

text \<open>
  \<^verbatim>\<open>server/h-protocol/src/net.rs\<close>, \<^verbatim>\<open>model.rs\<close> and the types they take from
  \<^verbatim>\<open>h-common\<close> (process attribution, metric counters) and \<^verbatim>\<open>h-capture\<close> (\<open>RawPacket\<close>):
  addresses, the normalised flow key, parsed packets with their TCP flags, the events the
  protocol stage emits, and the heartbeat sentinel packet. A counter is an atomic \<open>u64\<close> whose
  \<open>fetch_add\<close> wraps. \<open>std::hash::DefaultHasher\<close> is a parameter (its algorithm is not
  specified): a function of the fields that are fed to it, in their order.
\<close>

unbundle bit_operations_syntax

section \<open>Counters (internal metrics)\<close>

text \<open>The \<open>Metric\<close> variants are declared per metric group; a group has the variants that the
  modelled stage bumps.\<close>

datatype ProtocolMetric =
    DispatcherPacketsRouted | FlowHeartbeatsReceived | FlowHeartbeatsDropped
  | NetPacketsParsed | NetParseDroppedNotIp | NetParseDroppedNotTcp | NetParseDroppedMalformed
  | HttpParseReq | HttpParseResp | SseEventsParsed | HttpResyncEvents
  | TcpOutOfOrderDrops | TcpOutOfOrderBuffered | TcpRetransmissionsIgnored | FlowsExpired
  | HttpJoinerDone | HttpJoinerUnpaired | HttpJoinerExpired | JoinerHeartbeatsReceived

datatype TurnMetric =
    TurnCallsIngested | TurnCallsAuxiliary | TurnCallsDroppedLate | TurnsCompleted
  | TurnClosedByGrace | TurnClosedByIdle | TurnDiscardedNoUserStart | TurnKeptByPidAttribution
  | TurnHeartbeatsReceived

datatype AggregatorMetric =
    MetricsLlmEventsStart | MetricsLlmEventsComplete | MetricsHeartbeatsReceived
  | MetricsWindowsEmitted | MetricsActiveCallsExpired

type_synonym 'm MetricsWorker = "'m \<Rightarrow> u64"

definition metric_add :: "'m \<Rightarrow> u64 \<Rightarrow> 'm MetricsWorker \<Rightarrow> 'm MetricsWorker" where
  "metric_add m v w = w(m := w m + v)"

definition metric_inc :: "'m \<Rightarrow> 'm MetricsWorker \<Rightarrow> 'm MetricsWorker" where
  "metric_inc m w = metric_add m 1 w"

definition metric_set :: "'m \<Rightarrow> u64 \<Rightarrow> 'm MetricsWorker \<Rightarrow> 'm MetricsWorker" where
  "metric_set m v w = w(m := v)"

section \<open>Addresses and flow keys\<close>

datatype IpAddr = V4 u32 | V6 "128 word"

text \<open>The derived order: every IPv4 address is below every IPv6 address, and addresses of one
  family compare by their octets, that is, numerically.\<close>

instantiation IpAddr :: linorder
begin

fun less_eq_IpAddr :: "IpAddr \<Rightarrow> IpAddr \<Rightarrow> bool" where
  "less_eq_IpAddr (V4 a) (V4 b) = (a \<le> b)"
| "less_eq_IpAddr (V4 a) (V6 b) = True"
| "less_eq_IpAddr (V6 a) (V4 b) = False"
| "less_eq_IpAddr (V6 a) (V6 b) = (a \<le> b)"

definition less_IpAddr :: "IpAddr \<Rightarrow> IpAddr \<Rightarrow> bool" where
  "less_IpAddr a b \<longleftrightarrow> a \<le> b \<and> \<not> b \<le> a"

instance
proof
  fix x y z :: IpAddr
  show "x < y \<longleftrightarrow> x \<le> y \<and> \<not> y \<le> x" by (rule less_IpAddr_def)
  show "x \<le> x" by (cases x) auto
  show "x \<le> y \<Longrightarrow> y \<le> z \<Longrightarrow> x \<le> z" by (cases x; cases y; cases z) auto
  show "x \<le> y \<Longrightarrow> y \<le> x \<Longrightarrow> x = y" by (cases x; cases y) auto
  show "x \<le> y \<or> y \<le> x" by (cases x; cases y) auto
qed

end

type_synonym sock_addr = "IpAddr \<times> u16"

record FlowKey =
  source_id :: string
  addr_a :: sock_addr
  addr_b :: sock_addr

definition FlowKey_new :: "string \<Rightarrow> IpAddr \<Rightarrow> u16 \<Rightarrow> IpAddr \<Rightarrow> u16 \<Rightarrow> FlowKey" where
  "FlowKey_new sid src_ip src_port dst_ip dst_port =
     (let a = (src_ip, src_port); b = (dst_ip, dst_port) in
      if (src_ip, src_port) \<le> (dst_ip, dst_port)
      then \<lparr>source_id = sid, addr_a = a, addr_b = b\<rparr>
      else \<lparr>source_id = sid, addr_a = b, addr_b = a\<rparr>)"

text \<open>What \<open>Hash for FlowKey\<close> feeds to the hasher.\<close>

type_synonym hasher = "string \<times> IpAddr \<times> u16 \<times> IpAddr \<times> u16 \<Rightarrow> u64"

definition shard_hash :: "hasher \<Rightarrow> FlowKey \<Rightarrow> u64" where
  "shard_hash h k = h (source_id k, fst (addr_a k), snd (addr_a k), fst (addr_b k), snd (addr_b k))"

datatype Direction = AtoB | BtoA

record ProcessInfo =
  pid :: u32
  comm :: string
  exe :: "string option"

section \<open>Packets\<close>

record RawPacket =
  raw_timestamp_us :: int
  raw_caplen :: u32
  raw_wirelen :: u32
  raw_link_type :: u32
  raw_data :: bytes
  raw_source_id :: string
  raw_process :: "ProcessInfo option"

definition HEARTBEAT_ETHER_TYPE :: u16 where "HEARTBEAT_ETHER_TYPE = 0xFFFF"
definition HEARTBEAT_PACKET_LEN :: nat where "HEARTBEAT_PACKET_LEN = 14"

definition is_heartbeat :: "RawPacket \<Rightarrow> bool" where
  "is_heartbeat p =
     (if raw_link_type p \<noteq> 1 then False
      else if length (raw_data p) < HEARTBEAT_PACKET_LEN then False
      else if list_ex (\<lambda>b. b \<noteq> 0) (take 12 (raw_data p)) then False
      else (be_word [raw_data p ! 12, raw_data p ! 13] :: u16) = HEARTBEAT_ETHER_TYPE)"

definition heartbeat :: "int \<Rightarrow> string \<Rightarrow> RawPacket" where
  "heartbeat ts sid =
     \<lparr>raw_timestamp_us = ts, raw_caplen = 14, raw_wirelen = 14, raw_link_type = 1,
      raw_data = replicate 12 0 @ [0xFF, 0xFF], raw_source_id = sid, raw_process = None\<rparr>"

record ParsedPacket =
  flow_key :: FlowKey
  direction :: Direction
  src_ip :: IpAddr
  src_port :: u16
  dst_ip :: IpAddr
  dst_port :: u16
  tcp_flags :: u8
  tcp_seq :: u32
  tcp_ack :: u32
  payload :: bytes
  wire_payload_len :: u32
  timestamp_us :: int
  process :: "ProcessInfo option"

definition TCP_FIN :: u8 where "TCP_FIN = 0x01"
definition TCP_SYN :: u8 where "TCP_SYN = 0x02"
definition TCP_RST :: u8 where "TCP_RST = 0x04"
definition TCP_ACK :: u8 where "TCP_ACK = 0x10"

definition has_syn :: "ParsedPacket \<Rightarrow> bool" where
  "has_syn p = (tcp_flags p AND TCP_SYN \<noteq> 0)"

definition has_fin :: "ParsedPacket \<Rightarrow> bool" where
  "has_fin p = (tcp_flags p AND TCP_FIN \<noteq> 0)"

definition has_rst :: "ParsedPacket \<Rightarrow> bool" where
  "has_rst p = (tcp_flags p AND TCP_RST \<noteq> 0)"

definition has_ack :: "ParsedPacket \<Rightarrow> bool" where
  "has_ack p = (tcp_flags p AND TCP_ACK \<noteq> 0)"

section \<open>Events of the protocol stage (\<^verbatim>\<open>model.rs\<close>)\<close>

type_synonym headers = "(string \<times> string) list"

record SseEventData =
  sse_flow_key :: FlowKey
  sse_client_addr :: sock_addr
  sse_server_addr :: sock_addr
  event_type :: string
  sse_data :: string
  sse_timestamp_us :: int
  sse_process :: "ProcessInfo option"

record HttpRequestData =
  req_flow_key :: FlowKey
  req_client_addr :: sock_addr
  req_server_addr :: sock_addr
  req_method :: string
  req_uri :: string
  req_version :: u8
  req_headers :: headers
  req_body :: bytes
  req_timestamp_us :: int
  req_process :: "ProcessInfo option"

record HttpResponseData =
  resp_flow_key :: FlowKey
  resp_client_addr :: sock_addr
  resp_server_addr :: sock_addr
  resp_status :: u16
  resp_version :: u8
  resp_headers :: headers
  resp_body :: bytes
  first_byte_timestamp_us :: int
  complete_timestamp_us :: int
  resp_process :: "ProcessInfo option"

datatype HttpParseEvent =
    HttpRequest HttpRequestData
  | HttpResponse HttpResponseData
  | SseEvent SseEventData
  | Heartbeat int string

definition header :: "headers \<Rightarrow> string \<Rightarrow> string option" where
  "header hs name = map_option snd (find (\<lambda>(k, _). eq_ignore_ascii_case k name) hs)"

definition content_type :: "headers \<Rightarrow> string option" where
  "content_type hs = header hs ''content-type''"

fun set_process :: "ProcessInfo option \<Rightarrow> HttpParseEvent \<Rightarrow> HttpParseEvent" where
  "set_process p (HttpRequest r) = HttpRequest (r\<lparr>req_process := p\<rparr>)"
| "set_process p (HttpResponse r) = HttpResponse (r\<lparr>resp_process := p\<rparr>)"
| "set_process p (SseEvent s) = SseEvent (s\<lparr>sse_process := p\<rparr>)"
| "set_process p (Heartbeat ts sid) = Heartbeat ts sid"

section \<open>Lemmas\<close>

text \<open>Both directions of a connection have the same key.\<close>

lemma FlowKey_new_sym: "FlowKey_new sid a p b q = FlowKey_new sid b q a p"
  by (auto simp: FlowKey_new_def Let_def)

lemma FlowKey_new_normalised:
  "addr_a (FlowKey_new sid a p b q) \<le> addr_b (FlowKey_new sid a p b q)"
  by (auto simp: FlowKey_new_def Let_def less_eq_prod_def less_le_not_le)

lemma FlowKey_new_source [simp]: "source_id (FlowKey_new sid a p b q) = sid"
  by (simp add: FlowKey_new_def Let_def)

lemma heartbeat_is_heartbeat: "is_heartbeat (heartbeat ts sid)"
  by (simp add: is_heartbeat_def heartbeat_def HEARTBEAT_ETHER_TYPE_def HEARTBEAT_PACKET_LEN_def
      be_word_def nth_append list_ex_iff)

end
