(* ===== verification/Decode.thy ===== *)
theory Decode
  imports Net
begin

text \<open>
  \<^verbatim>\<open>server/h-protocol/src/de/\<close>: the cursor \<open>PacketBuf\<close>, the header layouts, and the decoders of
  the link, network and transport layers composed by \<open>decode\<close>. A result is
  \<open>DecodeError + value\<close>; the cursor is passed explicitly. A header struct is the byte slice it
  is cast from (\<open>bytemuck::from_bytes\<close>), its accessors read at the offsets of the
  \<open>repr(C)\<close> layout. \<open>NullHeader::af_family\<close> reads in host byte order: little endian here.
\<close>

section \<open>Errors and the packet cursor\<close>

datatype DecodeError = Truncated | NotSupported | NotIp | NotTcp | InvalidHeader

type_synonym 'a DecodeResult = "DecodeError + 'a"

definition and_then :: "'e + 'a \<Rightarrow> ('a \<Rightarrow> 'e + 'b) \<Rightarrow> 'e + 'b" where
  "and_then r f = (case r of Inl e \<Rightarrow> Inl e | Inr x \<Rightarrow> f x)"

record PacketBuf =
  pb_data :: bytes
  pb_offset :: nat
  pb_len :: nat

definition PacketBuf_new :: "bytes \<Rightarrow> PacketBuf" where
  "PacketBuf_new d = \<lparr>pb_data = d, pb_offset = 0, pb_len = length d\<rparr>"

definition remaining :: "PacketBuf \<Rightarrow> nat" where
  "remaining b = pb_len b - pb_offset b"

definition peek :: "nat \<Rightarrow> PacketBuf \<Rightarrow> bytes option" where
  "peek sz b =
     (let end = pb_offset b + sz in
      if end > pb_len b \<or> end > length (pb_data b) then None
      else Some (take sz (drop (pb_offset b) (pb_data b))))"

definition consume :: "nat \<Rightarrow> PacketBuf \<Rightarrow> (bytes \<times> PacketBuf) option" where
  "consume sz b =
     (let end = pb_offset b + sz in
      if end > pb_len b \<or> end > length (pb_data b) then None
      else Some (take sz (drop (pb_offset b) (pb_data b)), b\<lparr>pb_offset := end\<rparr>))"

definition advance :: "nat \<Rightarrow> PacketBuf \<Rightarrow> bool \<times> PacketBuf" where
  "advance n b =
     (let new = pb_offset b + n in
      if new \<le> pb_len b \<and> new \<le> length (pb_data b) then (True, b\<lparr>pb_offset := new\<rparr>)
      else (False, b))"

definition remaining_slice :: "PacketBuf \<Rightarrow> bytes" where
  "remaining_slice b =
     (let e = min (pb_len b) (length (pb_data b)); s = min (pb_offset b) e in
      take (e - s) (drop s (pb_data b)))"

definition set_len :: "nat \<Rightarrow> PacketBuf \<Rightarrow> PacketBuf" where
  "set_len n b = b\<lparr>pb_len := min n (length (pb_data b))\<rparr>"

text \<open>The macros \<open>try_consume!\<close> and \<open>try_skip!\<close>.\<close>

definition try_consume :: "nat \<Rightarrow> PacketBuf \<Rightarrow> (bytes \<times> PacketBuf) DecodeResult" where
  "try_consume sz b = (case consume sz b of None \<Rightarrow> Inl Truncated | Some r \<Rightarrow> Inr r)"

definition try_skip :: "nat \<Rightarrow> PacketBuf \<Rightarrow> PacketBuf DecodeResult" where
  "try_skip n b = (if remaining b < n then Inl Truncated else Inr (snd (advance n b)))"

section \<open>Header constants and layouts\<close>

definition LINKTYPE_NULL :: u32 where "LINKTYPE_NULL = 0"
definition LINKTYPE_ETHERNET :: u32 where "LINKTYPE_ETHERNET = 1"
definition LINKTYPE_RAW :: u32 where "LINKTYPE_RAW = 101"
definition LINKTYPE_LINUX_SLL :: u32 where "LINKTYPE_LINUX_SLL = 113"
definition LINKTYPE_LINUX_SLL2 :: u32 where "LINKTYPE_LINUX_SLL2 = 276"

definition ETHERTYPE_IPV4 :: u16 where "ETHERTYPE_IPV4 = 0x0800"
definition ETHERTYPE_IPV6 :: u16 where "ETHERTYPE_IPV6 = 0x86DD"
definition ETHERTYPE_VLAN :: u16 where "ETHERTYPE_VLAN = 0x8100"
definition ETHERTYPE_QINQ :: u16 where "ETHERTYPE_QINQ = 0x88A8"
definition ETHERTYPE_MPLS :: u16 where "ETHERTYPE_MPLS = 0x8847"

definition IP_PROTO_TCP :: u8 where "IP_PROTO_TCP = 6"
definition AF_INET :: u32 where "AF_INET = 2"
definition AF_INET6_BSD :: u32 where "AF_INET6_BSD = 30"
definition AF_INET6_LINUX :: u32 where "AF_INET6_LINUX = 10"

text \<open>The field of \<open>n\<close> bytes at offset \<open>o\<close> of a header.\<close>

definition field :: "nat \<Rightarrow> nat \<Rightarrow> bytes \<Rightarrow> bytes" where
  "field off n h = take n (drop off h)"

definition ethernet_ether_type :: "bytes \<Rightarrow> u16" where
  "ethernet_ether_type h = be_word (field 12 2 h)"

definition vlan_ether_type :: "bytes \<Rightarrow> u16" where
  "vlan_ether_type h = be_word (field 2 2 h)"

definition mpls_bottom_of_stack :: "bytes \<Rightarrow> bool" where
  "mpls_bottom_of_stack h = (h ! 2 AND 0x01 \<noteq> 0)"

definition sll_protocol :: "bytes \<Rightarrow> u16" where
  "sll_protocol h = be_word (field 14 2 h)"

definition sll2_protocol :: "bytes \<Rightarrow> u16" where
  "sll2_protocol h = be_word (field 0 2 h)"

definition null_af_family :: "bytes \<Rightarrow> u32" where
  "null_af_family h = le_word (field 0 4 h)"

definition ipv4_ihl :: "bytes \<Rightarrow> nat" where
  "ipv4_ihl h = unat (h ! 0 AND 0x0F) * 4"

definition ipv4_total_length :: "bytes \<Rightarrow> u16" where
  "ipv4_total_length h = be_word (field 2 2 h)"

definition ipv4_protocol :: "bytes \<Rightarrow> u8" where
  "ipv4_protocol h = h ! 9"

definition ipv4_src_ip :: "bytes \<Rightarrow> IpAddr" where
  "ipv4_src_ip h = V4 (be_word (field 12 4 h))"

definition ipv4_dst_ip :: "bytes \<Rightarrow> IpAddr" where
  "ipv4_dst_ip h = V4 (be_word (field 16 4 h))"

definition ipv6_payload_length :: "bytes \<Rightarrow> u16" where
  "ipv6_payload_length h = be_word (field 4 2 h)"

definition ipv6_next_header :: "bytes \<Rightarrow> u8" where
  "ipv6_next_header h = h ! 6"

definition ipv6_src_ip :: "bytes \<Rightarrow> IpAddr" where
  "ipv6_src_ip h = V6 (be_word (field 8 16 h))"

definition ipv6_dst_ip :: "bytes \<Rightarrow> IpAddr" where
  "ipv6_dst_ip h = V6 (be_word (field 24 16 h))"

definition tcp_src_port :: "bytes \<Rightarrow> u16" where
  "tcp_src_port h = be_word (field 0 2 h)"

definition tcp_dst_port :: "bytes \<Rightarrow> u16" where
  "tcp_dst_port h = be_word (field 2 2 h)"

definition tcp_hdr_seq :: "bytes \<Rightarrow> u32" where
  "tcp_hdr_seq h = be_word (field 4 4 h)"

definition tcp_hdr_ack :: "bytes \<Rightarrow> u32" where
  "tcp_hdr_ack h = be_word (field 8 4 h)"

definition tcp_data_offset :: "bytes \<Rightarrow> nat" where
  "tcp_data_offset h = unat (drop_bit 4 (h ! 12)) * 4"

definition tcp_hdr_flags :: "bytes \<Rightarrow> u8" where
  "tcp_hdr_flags h = h ! 13"

section \<open>Link layer\<close>

definition ip_version_ethertype :: "PacketBuf \<Rightarrow> u16 DecodeResult" where
  "ip_version_ethertype b =
     (case peek 1 b of
        None \<Rightarrow> Inl Truncated
      | Some h \<Rightarrow>
          (let v = drop_bit 4 (h ! 0) in
           if v = 4 then Inr ETHERTYPE_IPV4
           else if v = 6 then Inr ETHERTYPE_IPV6
           else Inl NotIp))"

lemma consume_progress:
  "consume sz b = Some (h, b') \<Longrightarrow> 0 < sz \<Longrightarrow> remaining b' < remaining b"
  by (auto simp: consume_def remaining_def Let_def split: if_splits)

lemma try_consume_progress:
  "try_consume sz b = Inr (h, b') \<Longrightarrow> 0 < sz \<Longrightarrow> remaining b' < remaining b"
  by (auto simp: try_consume_def split: option.splits dest: consume_progress)

function strip_mpls :: "PacketBuf \<Rightarrow> (u16 \<times> PacketBuf) DecodeResult" where
  "strip_mpls b =
     (case try_consume 4 b of
        Inl e \<Rightarrow> Inl e
      | Inr (label, b') \<Rightarrow>
          if mpls_bottom_of_stack label
          then (case ip_version_ethertype b' of Inl e \<Rightarrow> Inl e | Inr t \<Rightarrow> Inr (t, b'))
          else strip_mpls b')"
  by pat_completeness auto
termination
  by (relation "measure remaining") (auto dest: try_consume_progress)

declare strip_mpls.simps [simp del]

function resolve_next :: "PacketBuf \<Rightarrow> u16 \<Rightarrow> (u16 \<times> PacketBuf) DecodeResult" where
  "resolve_next b ether_type =
     (if ether_type = ETHERTYPE_VLAN \<or> ether_type = ETHERTYPE_QINQ
      then (case try_consume 4 b of
              Inl e \<Rightarrow> Inl e
            | Inr (vlan, b') \<Rightarrow> resolve_next b' (vlan_ether_type vlan))
      else if ether_type = ETHERTYPE_MPLS then strip_mpls b
      else Inr (ether_type, b))"
  by pat_completeness auto
termination
  by (relation "measure (\<lambda>(b, t). remaining b)") (auto dest: try_consume_progress)

declare resolve_next.simps [simp del]

definition decode_ethernet :: "PacketBuf \<Rightarrow> (u16 \<times> PacketBuf) DecodeResult" where
  "decode_ethernet b =
     and_then (try_consume 14 b) (\<lambda>(hdr, b'). resolve_next b' (ethernet_ether_type hdr))"

definition decode_null :: "PacketBuf \<Rightarrow> (u16 \<times> PacketBuf) DecodeResult" where
  "decode_null b =
     and_then (try_consume 4 b) (\<lambda>(hdr, b').
       if null_af_family hdr = AF_INET then Inr (ETHERTYPE_IPV4, b')
       else if null_af_family hdr = AF_INET6_BSD \<or> null_af_family hdr = AF_INET6_LINUX
       then Inr (ETHERTYPE_IPV6, b')
       else Inl NotIp)"

definition detect_raw_ip :: "PacketBuf \<Rightarrow> (u16 \<times> PacketBuf) DecodeResult" where
  "detect_raw_ip b = and_then (ip_version_ethertype b) (\<lambda>t. Inr (t, b))"

definition decode_linux_sll :: "PacketBuf \<Rightarrow> (u16 \<times> PacketBuf) DecodeResult" where
  "decode_linux_sll b =
     and_then (try_consume 16 b) (\<lambda>(hdr, b').
       let proto = sll_protocol hdr in
       if proto = ETHERTYPE_IPV4 \<or> proto = ETHERTYPE_IPV6 then Inr (proto, b') else Inl NotIp)"

definition decode_linux_sll2 :: "PacketBuf \<Rightarrow> (u16 \<times> PacketBuf) DecodeResult" where
  "decode_linux_sll2 b =
     and_then (try_consume 20 b) (\<lambda>(hdr, b').
       let proto = sll2_protocol hdr in
       if proto = ETHERTYPE_IPV4 \<or> proto = ETHERTYPE_IPV6 then Inr (proto, b') else Inl NotIp)"

definition decode_l2 :: "PacketBuf \<Rightarrow> u32 \<Rightarrow> (u16 \<times> PacketBuf) DecodeResult" where
  "decode_l2 b link_type =
     (if link_type = LINKTYPE_ETHERNET then decode_ethernet b
      else if link_type = LINKTYPE_RAW then detect_raw_ip b
      else if link_type = LINKTYPE_NULL then decode_null b
      else if link_type = LINKTYPE_LINUX_SLL then decode_linux_sll b
      else if link_type = LINKTYPE_LINUX_SLL2 then decode_linux_sll2 b
      else Inl NotSupported)"

section \<open>Network and transport layer\<close>

record L3Info =
  l3_src_ip :: IpAddr
  l3_dst_ip :: IpAddr
  l3_protocol :: u8
  l3_payload_length :: u32

record L4Info =
  l4_src_port :: u16
  l4_dst_port :: u16
  l4_seq :: u32
  l4_ack :: u32
  l4_flags :: u8
  l4_header_length :: u32

definition decode_ipv4 :: "PacketBuf \<Rightarrow> (L3Info \<times> PacketBuf) DecodeResult" where
  "decode_ipv4 b =
     and_then (try_consume 20 b) (\<lambda>(ip, b1).
       let ihl = ipv4_ihl ip in
       if ihl < 20 then Inl InvalidHeader
       else
         let total_len = unat (ipv4_total_length ip) in
         and_then (if ihl > 20 then try_skip (ihl - 20) b1 else Inr b1) (\<lambda>b2.
           let ip_start = pb_offset b2 - ihl;
               b3 = (if total_len \<ge> ihl then set_len (ip_start + total_len) b2 else b2)
           in Inr (\<lparr>l3_src_ip = ipv4_src_ip ip, l3_dst_ip = ipv4_dst_ip ip,
                    l3_protocol = ipv4_protocol ip,
                    l3_payload_length = sat_sub (of_nat total_len) (of_nat ihl)\<rparr>, b3)))"

definition decode_ipv6 :: "PacketBuf \<Rightarrow> (L3Info \<times> PacketBuf) DecodeResult" where
  "decode_ipv6 b =
     and_then (try_consume 40 b) (\<lambda>(ip, b1).
       let payload_length = ipv6_payload_length ip;
           ip_start = pb_offset b1 - 40
       in Inr (\<lparr>l3_src_ip = ipv6_src_ip ip, l3_dst_ip = ipv6_dst_ip ip,
                l3_protocol = ipv6_next_header ip,
                l3_payload_length = ucast payload_length\<rparr>,
               set_len (ip_start + 40 + unat payload_length) b1))"

definition dispatch_l3 :: "PacketBuf \<Rightarrow> u16 \<Rightarrow> (L3Info \<times> PacketBuf) DecodeResult" where
  "dispatch_l3 b ether_type =
     (if ether_type = ETHERTYPE_IPV4 then decode_ipv4 b
      else if ether_type = ETHERTYPE_IPV6 then decode_ipv6 b
      else Inl NotIp)"

definition decode_tcp :: "PacketBuf \<Rightarrow> (L4Info \<times> PacketBuf) DecodeResult" where
  "decode_tcp b =
     and_then (try_consume 20 b) (\<lambda>(tcp, b1).
       let data_offset = tcp_data_offset tcp in
       if data_offset < 20 then Inl InvalidHeader
       else
         and_then (if data_offset > 20 then try_skip (data_offset - 20) b1 else Inr b1) (\<lambda>b2.
           Inr (\<lparr>l4_src_port = tcp_src_port tcp, l4_dst_port = tcp_dst_port tcp,
                 l4_seq = tcp_hdr_seq tcp, l4_ack = tcp_hdr_ack tcp,
                 l4_flags = tcp_hdr_flags tcp, l4_header_length = of_nat data_offset\<rparr>, b2)))"

definition dispatch_l4 :: "PacketBuf \<Rightarrow> u8 \<Rightarrow> (L4Info \<times> PacketBuf) DecodeResult" where
  "dispatch_l4 b protocol = (if protocol = IP_PROTO_TCP then decode_tcp b else Inl NotTcp)"

definition decode :: "bytes \<Rightarrow> u32 \<Rightarrow> int \<Rightarrow> string \<Rightarrow> ParsedPacket DecodeResult" where
  "decode data link_type ts sid =
     and_then (decode_l2 (PacketBuf_new data) link_type) (\<lambda>(ether_type, b1).
     and_then (dispatch_l3 b1 ether_type) (\<lambda>(l3, b2).
     and_then (dispatch_l4 b2 (l3_protocol l3)) (\<lambda>(l4, b3).
       Inr \<lparr>flow_key = FlowKey_new sid (l3_src_ip l3) (l4_src_port l4) (l3_dst_ip l3) (l4_dst_port l4),
            direction = (if (l3_src_ip l3, l4_src_port l4) \<le> (l3_dst_ip l3, l4_dst_port l4)
                         then AtoB else BtoA),
            src_ip = l3_src_ip l3, src_port = l4_src_port l4,
            dst_ip = l3_dst_ip l3, dst_port = l4_dst_port l4,
            tcp_flags = l4_flags l4, tcp_seq = l4_seq l4, tcp_ack = l4_ack l4,
            payload = remaining_slice b3,
            wire_payload_len = sat_sub (l3_payload_length l3) (l4_header_length l4),
            timestamp_us = ts, process = None\<rparr>)))"

section \<open>Cursor lemmas\<close>

definition pb_wf :: "PacketBuf \<Rightarrow> bool" where
  "pb_wf b \<longleftrightarrow> pb_offset b \<le> pb_len b \<and> pb_len b \<le> length (pb_data b)"

lemma and_then_Inr [simp]: "and_then (Inr x) f = f x"
  by (simp add: and_then_def)

lemma and_then_Inl [simp]: "and_then (Inl e) f = Inl e"
  by (simp add: and_then_def)

lemma and_then_eq_Inr: "and_then r f = Inr y \<longleftrightarrow> (\<exists>x. r = Inr x \<and> f x = Inr y)"
  by (cases r) auto

lemma pb_wf_new: "pb_wf (PacketBuf_new d)"
  by (simp add: pb_wf_def PacketBuf_new_def)

text \<open>What a successful \<open>try_consume\<close> and \<open>try_skip\<close> do to the cursor.\<close>

lemma try_consume_Inr:
  "try_consume sz b = Inr (h, b') \<longleftrightarrow>
    pb_offset b + sz \<le> pb_len b \<and> pb_offset b + sz \<le> length (pb_data b) \<and>
    h = take sz (drop (pb_offset b) (pb_data b)) \<and> b' = b\<lparr>pb_offset := pb_offset b + sz\<rparr>"
  by (auto simp: try_consume_def consume_def Let_def)

lemma try_skip_Inr:
  "pb_wf b \<Longrightarrow> try_skip n b = Inr b' \<longleftrightarrow>
    pb_offset b + n \<le> pb_len b \<and> b' = b\<lparr>pb_offset := pb_offset b + n\<rparr>"
  by (auto simp: try_skip_def remaining_def advance_def Let_def pb_wf_def)

text \<open>A decoding step keeps the buffer, moves the cursor forward and keeps it in bounds.\<close>

definition cursor_step :: "PacketBuf \<Rightarrow> PacketBuf \<Rightarrow> bool" where
  "cursor_step b b' \<longleftrightarrow> pb_wf b' \<and> pb_data b' = pb_data b \<and> pb_offset b \<le> pb_offset b'"

lemma cursor_step_trans: "cursor_step a b \<Longrightarrow> cursor_step b c \<Longrightarrow> cursor_step a c"
  by (auto simp: cursor_step_def)

lemma cursor_step_refl: "pb_wf b \<Longrightarrow> cursor_step b b"
  by (simp add: cursor_step_def)

lemma try_consume_step: "try_consume sz b = Inr (h, b') \<Longrightarrow> pb_wf b \<Longrightarrow> cursor_step b b'"
  by (auto simp: try_consume_Inr cursor_step_def pb_wf_def)

lemma try_skip_step: "try_skip n b = Inr b' \<Longrightarrow> pb_wf b \<Longrightarrow> cursor_step b b'"
  by (auto simp: try_skip_Inr cursor_step_def pb_wf_def)

lemma strip_mpls_step: "strip_mpls b = Inr (t, b') \<Longrightarrow> pb_wf b \<Longrightarrow> cursor_step b b'"
proof (induction b rule: strip_mpls.induct)
  case (1 b)
  from "1.prems"(1) obtain label c where c: "try_consume 4 b = Inr (label, c)"
    by (subst (asm) strip_mpls.simps) (auto split: sum.splits)
  have bc: "cursor_step b c" using c "1.prems"(2) by (rule try_consume_step)
  show ?case
  proof (cases "mpls_bottom_of_stack label")
    case True
    then have "b' = c"
      using "1.prems"(1) c by (subst (asm) strip_mpls.simps) (auto split: sum.splits)
    then show ?thesis using bc by simp
  next
    case False
    then have "strip_mpls c = Inr (t, b')"
      using "1.prems"(1) c by (subst (asm) strip_mpls.simps) simp
    then have "cursor_step c b'" using "1.IH"[OF c refl False] bc by (simp add: cursor_step_def)
    then show ?thesis using bc cursor_step_trans by blast
  qed
qed

lemma resolve_next_step: "resolve_next b t = Inr (t', b') \<Longrightarrow> pb_wf b \<Longrightarrow> cursor_step b b'"
proof (induction b t rule: resolve_next.induct)
  case (1 b t)
  show ?case
  proof (cases "t = ETHERTYPE_VLAN \<or> t = ETHERTYPE_QINQ")
    case True
    with "1.prems"(1) obtain v c where c: "try_consume 4 b = Inr (v, c)"
      and r: "resolve_next c (vlan_ether_type v) = Inr (t', b')"
      by (subst (asm) resolve_next.simps) (auto split: sum.splits)
    have bc: "cursor_step b c" using c "1.prems"(2) by (rule try_consume_step)
    have "cursor_step c b'" using "1.IH"[OF True c refl r] bc by (simp add: cursor_step_def)
    then show ?thesis using bc cursor_step_trans by blast
  next
    case False
    with "1.prems" show ?thesis
      by (subst (asm) resolve_next.simps)
        (auto split: if_splits intro: strip_mpls_step cursor_step_refl)
  qed
qed

lemma decode_l2_step: "decode_l2 b lt = Inr (t, b') \<Longrightarrow> pb_wf b \<Longrightarrow> cursor_step b b'"
  by (auto simp: decode_l2_def decode_ethernet_def detect_raw_ip_def decode_null_def
      decode_linux_sll_def decode_linux_sll2_def and_then_eq_Inr Let_def split: if_splits
      intro: try_consume_step resolve_next_step cursor_step_trans cursor_step_refl
      dest!: try_consume_step resolve_next_step simp: cursor_step_def)

lemma set_len_step:
  "pb_wf b \<Longrightarrow> pb_offset b \<le> n \<Longrightarrow> cursor_step b (set_len n b)"
  by (auto simp: set_len_def cursor_step_def pb_wf_def)

lemma decode_ipv4_Inr:
  assumes "decode_ipv4 b = Inr (l3, b')" and "pb_wf b"
  obtains ip ihl tot where
    "ip = take 20 (drop (pb_offset b) (pb_data b))" "ihl = ipv4_ihl ip" "20 \<le> ihl"
    "tot = unat (ipv4_total_length ip)" "pb_offset b + ihl \<le> pb_len b"
    "l3 = \<lparr>l3_src_ip = ipv4_src_ip ip, l3_dst_ip = ipv4_dst_ip ip, l3_protocol = ipv4_protocol ip,
           l3_payload_length = sat_sub (of_nat tot) (of_nat ihl)\<rparr>"
    "b' = b\<lparr>pb_offset := pb_offset b + ihl,
            pb_len := if ihl \<le> tot then min (pb_offset b + tot) (length (pb_data b)) else pb_len b\<rparr>"
proof -
  from assms(1) obtain ip b1 where c: "try_consume 20 b = Inr (ip, b1)"
    by (auto simp: decode_ipv4_def and_then_eq_Inr)
  have wf1: "pb_wf b1" using try_consume_step[OF c assms(2)] by (simp add: cursor_step_def)
  have ip: "ip = take 20 (drop (pb_offset b) (pb_data b))"
    and b1: "b1 = b\<lparr>pb_offset := pb_offset b + 20\<rparr>"
    using c by (auto simp: try_consume_Inr)
  have ihl: "20 \<le> ipv4_ihl ip"
    using assms(1) c by (auto simp: decode_ipv4_def Let_def split: if_splits)
  obtain b2 where b2: "(if ipv4_ihl ip > 20 then try_skip (ipv4_ihl ip - 20) b1 else Inr b1) = Inr b2"
    and l3: "l3 = \<lparr>l3_src_ip = ipv4_src_ip ip, l3_dst_ip = ipv4_dst_ip ip,
        l3_protocol = ipv4_protocol ip, l3_payload_length =
          sat_sub (of_nat (unat (ipv4_total_length ip))) (of_nat (ipv4_ihl ip))\<rparr>"
    and b': "b' = (if unat (ipv4_total_length ip) \<ge> ipv4_ihl ip
       then set_len (pb_offset b2 - ipv4_ihl ip + unat (ipv4_total_length ip)) b2 else b2)"
    using assms(1) c ihl by (auto simp: decode_ipv4_def Let_def and_then_eq_Inr simp del: of_nat_unat)
  have off: "b2 = b\<lparr>pb_offset := pb_offset b + ipv4_ihl ip\<rparr>" "pb_offset b + ipv4_ihl ip \<le> pb_len b"
    using b2 ihl wf1 b1 by (auto simp: try_skip_Inr pb_wf_def split: if_splits)
  show ?thesis
    by (rule that[OF ip refl ihl refl off(2) l3]) (simp add: b' off(1) set_len_def)
qed

lemma decode_tcp_Inr:
  assumes "decode_tcp b = Inr (l4, b')" and "pb_wf b"
  obtains tcp doff where
    "tcp = take 20 (drop (pb_offset b) (pb_data b))" "doff = tcp_data_offset tcp" "20 \<le> doff"
    "pb_offset b + doff \<le> pb_len b"
    "l4 = \<lparr>l4_src_port = tcp_src_port tcp, l4_dst_port = tcp_dst_port tcp,
           l4_seq = tcp_hdr_seq tcp, l4_ack = tcp_hdr_ack tcp,
           l4_flags = tcp_hdr_flags tcp, l4_header_length = of_nat doff\<rparr>"
    "b' = b\<lparr>pb_offset := pb_offset b + doff\<rparr>"
proof -
  from assms(1) obtain tcp b1 where c: "try_consume 20 b = Inr (tcp, b1)"
    by (auto simp: decode_tcp_def and_then_eq_Inr)
  have wf1: "pb_wf b1" using try_consume_step[OF c assms(2)] by (simp add: cursor_step_def)
  have tcp: "tcp = take 20 (drop (pb_offset b) (pb_data b))"
    and b1: "b1 = b\<lparr>pb_offset := pb_offset b + 20\<rparr>"
    using c by (auto simp: try_consume_Inr)
  have doff: "20 \<le> tcp_data_offset tcp"
    using assms(1) c by (auto simp: decode_tcp_def Let_def split: if_splits)
  obtain b2 where b2: "(if tcp_data_offset tcp > 20
        then try_skip (tcp_data_offset tcp - 20) b1 else Inr b1) = Inr b2"
    and l4: "l4 = \<lparr>l4_src_port = tcp_src_port tcp, l4_dst_port = tcp_dst_port tcp,
           l4_seq = tcp_hdr_seq tcp, l4_ack = tcp_hdr_ack tcp,
           l4_flags = tcp_hdr_flags tcp, l4_header_length = of_nat (tcp_data_offset tcp)\<rparr>"
    and b': "b' = b2"
    using assms(1) c doff by (auto simp: decode_tcp_def Let_def and_then_eq_Inr)
  have "b2 = b\<lparr>pb_offset := pb_offset b + tcp_data_offset tcp\<rparr>"
    "pb_offset b + tcp_data_offset tcp \<le> pb_len b"
    using b2 doff wf1 b1 by (auto simp: try_skip_Inr pb_wf_def split: if_splits)
  then show ?thesis using that[OF tcp refl doff _ l4] b' by simp
qed

lemma decode_ipv6_Inr:
  assumes "decode_ipv6 b = Inr (l3, b')" and "pb_wf b"
  obtains ip pl where
    "ip = take 40 (drop (pb_offset b) (pb_data b))" "pl = unat (ipv6_payload_length ip)"
    "pb_offset b + 40 \<le> pb_len b"
    "l3 = \<lparr>l3_src_ip = ipv6_src_ip ip, l3_dst_ip = ipv6_dst_ip ip,
           l3_protocol = ipv6_next_header ip, l3_payload_length = of_nat pl\<rparr>"
    "b' = b\<lparr>pb_offset := pb_offset b + 40,
            pb_len := min (pb_offset b + 40 + pl) (length (pb_data b))\<rparr>"
  using assms(1)
  by (auto simp: decode_ipv6_def and_then_eq_Inr try_consume_Inr Let_def set_len_def
      unsigned_ucast_eq intro!: that)

lemma sat_sub_of_nat:
  assumes "a < 2 ^ LENGTH('a)"
  shows "sat_sub (of_nat a) (of_nat b :: 'a::len word) =
    (if b < 2 ^ LENGTH('a) then of_nat (a - b) else sat_sub (of_nat a) (of_nat b))"
proof (cases "b < 2 ^ LENGTH('a)")
  case True
  have ua: "unat (of_nat a :: 'a word) = a" "unat (of_nat b :: 'a word) = b"
    using assms True by (simp_all add: unsigned_of_nat take_bit_nat_eq_self)
  then have "(of_nat b \<le> (of_nat a :: 'a word)) = (b \<le> a)" by (simp add: word_le_nat_alt)
  then show ?thesis using True by (simp add: sat_sub_def of_nat_diff)
qed simp

lemma remaining_slice_take:
  "pb_wf b \<Longrightarrow> remaining_slice b = take (pb_len b - pb_offset b) (drop (pb_offset b) (pb_data b))"
  by (simp add: remaining_slice_def pb_wf_def Let_def min_absorb1)

lemma ihl_small: "ipv4_ihl ip < 64"
proof -
  have "unat (ip ! 0 AND 15) \<le> unat (15 :: u8)" by (rule word_and_le1 [THEN word_le_nat_alt [THEN iffD1]])
  then show ?thesis by (simp add: ipv4_ihl_def)
qed

lemma total_length_small: "unat (ipv4_total_length ip) < 2 ^ 16"
  using unsigned_less[of "ipv4_total_length ip", where ?'a = nat] by simp

lemma data_offset_small: "tcp_data_offset tcp < 64"
proof -
  have "unat (drop_bit 4 (tcp ! 12)) = unat (tcp ! 12) div 16"
    by (simp add: drop_bit_eq_div unat_div)
  moreover have "unat (tcp ! 12) < 256"
    using unsigned_less[of "tcp ! 12", where ?'a = nat] by simp
  ultimately show ?thesis by (simp add: tcp_data_offset_def)
qed

text \<open>The cursor at a known place of the buffer.\<close>

lemma try_consume_at:
  assumes "pb_data b = pre @ h @ rest" "pb_offset b = length pre" "length h = sz"
    and "length pre + sz \<le> pb_len b"
  shows "try_consume sz b = Inr (h, b\<lparr>pb_offset := length pre + sz\<rparr>)"
  using assms by (auto simp: try_consume_Inr)

text \<open>A stack of VLAN tags that ends in an IPv4 payload, each announced by the type before it.\<close>

fun vlan_chain :: "u16 \<Rightarrow> bytes list \<Rightarrow> bool" where
  "vlan_chain t [] = (t = ETHERTYPE_IPV4)"
| "vlan_chain t (tag # tags) =
     ((t = ETHERTYPE_VLAN \<or> t = ETHERTYPE_QINQ) \<and> length tag = 4
      \<and> vlan_chain (vlan_ether_type tag) tags)"

lemma resolve_next_vlan_chain:
  assumes "vlan_chain t tags" and "pb_data b = pre @ concat tags @ rest"
    and "pb_offset b = length pre" and "pb_len b = length (pb_data b)"
  shows "resolve_next b t =
    Inr (ETHERTYPE_IPV4, b\<lparr>pb_offset := length pre + length (concat tags)\<rparr>)"
  using assms
proof (induction tags arbitrary: t b pre)
  case Nil
  then have "b\<lparr>pb_offset := length pre\<rparr> = b" by simp
  with Nil show ?case
    by (subst resolve_next.simps)
      (simp add: ETHERTYPE_IPV4_def ETHERTYPE_VLAN_def ETHERTYPE_QINQ_def ETHERTYPE_MPLS_def)
next
  case (Cons tag tags)
  let ?c = "b\<lparr>pb_offset := length pre + 4\<rparr>"
  have "try_consume 4 b = Inr (tag, ?c)"
    by (rule try_consume_at[where rest = "concat tags @ rest"]) (use Cons.prems in auto)
  moreover have "resolve_next ?c (vlan_ether_type tag) = Inr (ETHERTYPE_IPV4,
      ?c\<lparr>pb_offset := length (pre @ tag) + length (concat tags)\<rparr>)"
    by (rule Cons.IH) (use Cons.prems in auto)
  ultimately show ?case
    using Cons.prems(1) by (subst resolve_next.simps) (simp add: add.assoc)
qed

text \<open>The headers of a TCP segment in IPv4 over Ethernet: what the code reads of them agrees with
  their lengths, and options of both headers are allowed.\<close>

definition ipv4_frame_headers :: "bytes \<Rightarrow> bytes list \<Rightarrow> bytes \<Rightarrow> bytes \<Rightarrow> bool" where
  "ipv4_frame_headers eth tags ip tcp \<longleftrightarrow>
     length eth = 14 \<and> vlan_chain (ethernet_ether_type eth) tags \<and>
     20 \<le> length ip \<and> ipv4_ihl ip = length ip \<and> ipv4_protocol ip = IP_PROTO_TCP \<and>
     20 \<le> length tcp \<and> tcp_data_offset tcp = length tcp"

lemma field_take: "off + n \<le> m \<Longrightarrow> field off n (take m h) = field off n h"
  by (simp add: field_def drop_take)

lemma ipv4_take [simp]:
  "20 \<le> length ip \<Longrightarrow> ipv4_ihl (take 20 ip) = ipv4_ihl ip"
  "ipv4_total_length (take 20 ip) = ipv4_total_length ip"
  "20 \<le> length ip \<Longrightarrow> ipv4_protocol (take 20 ip) = ipv4_protocol ip"
  "ipv4_src_ip (take 20 ip) = ipv4_src_ip ip"
  "ipv4_dst_ip (take 20 ip) = ipv4_dst_ip ip"
  by (simp_all add: ipv4_ihl_def ipv4_total_length_def ipv4_protocol_def ipv4_src_ip_def
      ipv4_dst_ip_def field_take)

lemma tcp_take [simp]:
  "tcp_src_port (take 20 h) = tcp_src_port h" "tcp_dst_port (take 20 h) = tcp_dst_port h"
  "tcp_hdr_seq (take 20 h) = tcp_hdr_seq h" "tcp_hdr_ack (take 20 h) = tcp_hdr_ack h"
  "20 \<le> length h \<Longrightarrow> tcp_data_offset (take 20 h) = tcp_data_offset h"
  "20 \<le> length h \<Longrightarrow> tcp_hdr_flags (take 20 h) = tcp_hdr_flags h"
  by (simp_all add: tcp_src_port_def tcp_dst_port_def tcp_hdr_seq_def tcp_hdr_ack_def
      tcp_data_offset_def tcp_hdr_flags_def field_take)

lemma decode_ipv4_at:
  assumes "pb_data b = pre @ ip @ rest" "pb_offset b = length pre" "pb_len b = length (pb_data b)"
    and "20 \<le> length ip" "ipv4_ihl ip = length ip"
  shows "decode_ipv4 b = Inr (\<lparr>l3_src_ip = ipv4_src_ip ip, l3_dst_ip = ipv4_dst_ip ip,
      l3_protocol = ipv4_protocol ip,
      l3_payload_length = sat_sub (of_nat (unat (ipv4_total_length ip))) (of_nat (length ip))\<rparr>,
    b\<lparr>pb_offset := length pre + length ip,
      pb_len := if length ip \<le> unat (ipv4_total_length ip)
        then min (length pre + unat (ipv4_total_length ip)) (length (pb_data b)) else pb_len b\<rparr>)"
proof -
  have "try_consume 20 b = Inr (take 20 ip, b\<lparr>pb_offset := length pre + 20\<rparr>)"
    by (rule try_consume_at[where rest = "drop 20 ip @ rest"]) (use assms in auto)
  moreover have "try_skip (length ip - 20) (b\<lparr>pb_offset := length pre + 20\<rparr>) =
      Inr (b\<lparr>pb_offset := length pre + length ip\<rparr>)"
    using assms by (auto simp: try_skip_def remaining_def advance_def)
  ultimately show ?thesis
    using assms(4,5)
    by (cases "length ip = 20") (simp_all add: decode_ipv4_def set_len_def Let_def)
qed

lemma decode_tcp_at:
  assumes "pb_data b = pre @ tcp @ rest" "pb_offset b = length pre"
    and "length pre + length tcp \<le> pb_len b" "20 \<le> length tcp" "tcp_data_offset tcp = length tcp"
  shows "decode_tcp b = Inr (\<lparr>l4_src_port = tcp_src_port tcp, l4_dst_port = tcp_dst_port tcp,
      l4_seq = tcp_hdr_seq tcp, l4_ack = tcp_hdr_ack tcp, l4_flags = tcp_hdr_flags tcp,
      l4_header_length = of_nat (length tcp)\<rparr>, b\<lparr>pb_offset := length pre + length tcp\<rparr>)"
proof -
  have "try_consume 20 b = Inr (take 20 tcp, b\<lparr>pb_offset := length pre + 20\<rparr>)"
    by (rule try_consume_at[where rest = "drop 20 tcp @ rest"]) (use assms in auto)
  moreover have "try_skip (length tcp - 20) (b\<lparr>pb_offset := length pre + 20\<rparr>) =
      Inr (b\<lparr>pb_offset := length pre + length tcp\<rparr>)"
    using assms by (auto simp: try_skip_def remaining_def advance_def)
  ultimately show ?thesis
    using assms(4,5) by (cases "length tcp = 20") (simp_all add: decode_tcp_def Let_def)
qed

section \<open>Properties\<close>

definition tcp_packet :: "string \<Rightarrow> int \<Rightarrow> bytes \<Rightarrow> bytes \<Rightarrow> bytes \<Rightarrow> u32 \<Rightarrow> ParsedPacket" where
  "tcp_packet sid ts ip tcp pl wl =
     \<lparr>flow_key = FlowKey_new sid (ipv4_src_ip ip) (tcp_src_port tcp) (ipv4_dst_ip ip) (tcp_dst_port tcp),
      direction = (if (ipv4_src_ip ip, tcp_src_port tcp) \<le> (ipv4_dst_ip ip, tcp_dst_port tcp)
                   then AtoB else BtoA),
      src_ip = ipv4_src_ip ip, src_port = tcp_src_port tcp,
      dst_ip = ipv4_dst_ip ip, dst_port = tcp_dst_port tcp,
      tcp_flags = tcp_hdr_flags tcp, tcp_seq = tcp_hdr_seq tcp, tcp_ack = tcp_hdr_ack tcp,
      payload = pl, wire_payload_len = wl, timestamp_us = ts, process = None\<rparr>"

lemma decode_ipv4_frame_eq:
  fixes ip tcp :: bytes
  defines "tot \<equiv> unat (ipv4_total_length ip)"
  assumes hdrs: "ipv4_frame_headers eth tags ip tcp"
    and tot: "tot < length ip \<or> length ip + length tcp \<le> tot"
  shows "decode (eth @ concat tags @ ip @ tcp @ rest) LINKTYPE_ETHERNET ts sid =
    Inr (tcp_packet sid ts ip tcp
          (if tot < length ip then rest else take (tot - length ip - length tcp) rest)
          (of_nat (tot - length ip - length tcp)))"
proof -
  let ?d = "eth @ concat tags @ ip @ tcp @ rest"
  let ?b0 = "PacketBuf_new ?d"
  let ?pre = "eth @ concat tags"
  let ?b1 = "?b0\<lparr>pb_offset := length ?pre\<rparr>"
  let ?len = "if length ip \<le> tot then min (length ?pre + tot) (length ?d) else length ?d"
  let ?b2 = "?b1\<lparr>pb_offset := length ?pre + length ip, pb_len := ?len\<rparr>"
  note h = hdrs[unfolded ipv4_frame_headers_def]
  have small: "length ip < 64" "length tcp < 64" "tot < 2 ^ 16"
    using ihl_small[of ip] data_offset_small[of tcp] total_length_small[of ip] h
    by (auto simp: tot_def)
  have "try_consume 14 ?b0 = Inr (eth, ?b0\<lparr>pb_offset := 14\<rparr>)"
    using try_consume_at[of ?b0 "[]" eth "concat tags @ ip @ tcp @ rest" 14] h
    by (simp add: PacketBuf_new_def)
  moreover have "resolve_next (?b0\<lparr>pb_offset := 14\<rparr>) (ethernet_ether_type eth) =
      Inr (ETHERTYPE_IPV4, ?b0\<lparr>pb_offset := 14\<rparr>\<lparr>pb_offset := length eth + length (concat tags)\<rparr>)"
    by (rule resolve_next_vlan_chain[where rest = "ip @ tcp @ rest"])
      (use h in \<open>auto simp: PacketBuf_new_def\<close>)
  ultimately have l2: "decode_l2 ?b0 LINKTYPE_ETHERNET = Inr (ETHERTYPE_IPV4, ?b1)"
    by (simp add: decode_l2_def decode_ethernet_def)
  have l3: "dispatch_l3 ?b1 ETHERTYPE_IPV4 =
      Inr (\<lparr>l3_src_ip = ipv4_src_ip ip, l3_dst_ip = ipv4_dst_ip ip, l3_protocol = ipv4_protocol ip,
            l3_payload_length = sat_sub (of_nat tot) (of_nat (length ip))\<rparr>, ?b2)"
    using decode_ipv4_at[of ?b1 ?pre ip "tcp @ rest"] h
    by (simp add: dispatch_l3_def PacketBuf_new_def tot_def)
  have fits: "length ?pre + length ip + length tcp \<le> ?len" using tot by auto
  have l4: "dispatch_l4 ?b2 (ipv4_protocol ip) =
      Inr (\<lparr>l4_src_port = tcp_src_port tcp, l4_dst_port = tcp_dst_port tcp,
            l4_seq = tcp_hdr_seq tcp, l4_ack = tcp_hdr_ack tcp, l4_flags = tcp_hdr_flags tcp,
            l4_header_length = of_nat (length tcp)\<rparr>,
           ?b2\<lparr>pb_offset := length ?pre + length ip + length tcp\<rparr>)"
    using decode_tcp_at[of ?b2 "?pre @ ip" tcp rest] h fits
    by (simp add: dispatch_l4_def PacketBuf_new_def add.assoc)
  have sl: "remaining_slice (?b2\<lparr>pb_offset := length ?pre + length ip + length tcp\<rparr>) =
      (if tot < length ip then rest else take (tot - length ip - length tcp) rest)"
    using fits tot by (subst remaining_slice_take) (auto simp: pb_wf_def PacketBuf_new_def min_def)
  have wl: "sat_sub (sat_sub (of_nat tot) (of_nat (length ip))) (of_nat (length tcp)) =
      (of_nat (tot - length ip - length tcp) :: u32)"
    using small by (simp add: sat_sub_of_nat)
  show ?thesis
    unfolding decode_def l2 and_then_Inr prod.case l3 L3Info.simps l4 L4Info.simps sl wl tcp_packet_def
    by (simp only: L3Info.simps L4Info.simps)
qed

text \<open>
  C37: A TCP segment in an IPv4 packet over Ethernet, with any stack of VLAN tags and any IP and TCP
  options, is decoded to exactly the fields of its headers. The payload is what the capture
  holds of the segment's \<open>w\<close> bytes: bytes past the IP total length (Ethernet padding) are left
  out, and when the capture was cut short the payload is the captured part while
  \<open>wire_payload_len\<close> is still the full on-wire length \<open>w\<close>.
\<close>

theorem decode_ipv4_frame:
  assumes "ipv4_frame_headers eth tags ip tcp"
    and "unat (ipv4_total_length ip) = length ip + length tcp + w"
  shows "decode (eth @ concat tags @ ip @ tcp @ rest) LINKTYPE_ETHERNET ts sid =
    Inr (tcp_packet sid ts ip tcp (take w rest) (of_nat w))"
  using decode_ipv4_frame_eq[OF assms(1), of rest ts sid] assms(2) by simp

definition ex_eth :: bytes where
  "ex_eth = replicate 12 0 @ [0x81, 0x00]"

definition ex_tag :: bytes where
  "ex_tag = [0x00, 0x01, 0x08, 0x00]"

definition ex_ip :: "u8 \<Rightarrow> bytes" where
  "ex_ip n = [0x46, 0, 0, n, 0, 0, 0, 0, 64, 6, 0, 0, 10, 0, 0, 1, 10, 0, 0, 2, 1, 1, 1, 1]"

definition ex_tcp :: bytes where
  "ex_tcp = [0x30, 0x39, 0, 80, 0, 0, 3, 0xE8, 0, 0, 0, 0, 0x50, 0x18, 0, 0, 0, 0, 0, 0]"

lemma ex_headers: "ipv4_frame_headers ex_eth [ex_tag] (ex_ip n) ex_tcp"
  by (simp add: ipv4_frame_headers_def ex_eth_def ex_tag_def ex_ip_def ex_tcp_def
      ethernet_ether_type_def vlan_ether_type_def field_def be_word_def ETHERTYPE_VLAN_def
      ETHERTYPE_IPV4_def ipv4_ihl_def ipv4_protocol_def IP_PROTO_TCP_def tcp_data_offset_def)

lemma ex_total_length: "unat (ipv4_total_length (ex_ip n)) = unat n"
proof -
  have "unat n < 2 ^ 8" using unsigned_less[of n, where ?'a = nat] by simp
  then show ?thesis
    by (simp add: ipv4_total_length_def ex_ip_def field_def be_word_def unsigned_ucast_eq
        take_bit_nat_eq_self)
qed

theorem decode_ipv4_frame_witness:
  "decode (ex_eth @ concat [ex_tag] @ ex_ip 47 @ ex_tcp @ [1, 2, 3, 0, 0]) LINKTYPE_ETHERNET 7 ''s'' =
    Inr (tcp_packet ''s'' 7 (ex_ip 47) ex_tcp [1, 2, 3] 3)"
proof -
  have "unat (ipv4_total_length (ex_ip 47)) = length (ex_ip 47) + length ex_tcp + 3"
    by (simp only: ex_total_length) (simp add: ex_ip_def ex_tcp_def)
  from decode_ipv4_frame[OF ex_headers this, of "[1, 2, 3, 0, 0]" 7 "''s''"] show ?thesis
    by simp
qed

lemma unat_of_nat_u32: "n < 2 ^ 32 \<Longrightarrow> unat (of_nat n :: u32) = n"
  by (simp add: unsigned_of_nat take_bit_nat_eq_self)

lemma decode_tcp_step: "decode_tcp b = Inr (l4, b') \<Longrightarrow> pb_wf b \<Longrightarrow> cursor_step b b'"
  by (erule (1) decode_tcp_Inr) (simp add: cursor_step_def pb_wf_def)

lemma decode_tcp_payload_le:
  assumes "decode_tcp b2 = Inr (l4, b3)" "pb_wf b2" "pb_len b2 \<le> off + tot" "ihl \<le> tot"
    and "pb_offset b2 = off + ihl" "tot < 2 ^ 16 + 64"
  shows "length (remaining_slice b3) \<le>
    unat (sat_sub (of_nat (tot - ihl)) (l4_header_length l4) :: u32)"
proof -
  from assms(1,2) obtain tcp doff where d: "doff = tcp_data_offset tcp" "pb_offset b2 + doff \<le> pb_len b2"
    "l4_header_length l4 = of_nat doff" "b3 = b2\<lparr>pb_offset := pb_offset b2 + doff\<rparr>"
    by (elim decode_tcp_Inr) auto
  have wf3: "pb_wf b3" using d assms(2) by (simp add: pb_wf_def)
  have "length (remaining_slice b3) \<le> tot - ihl - doff"
    using wf3 d assms(3,5) by (simp add: remaining_slice_take)
  moreover have "unat (sat_sub (of_nat (tot - ihl)) (of_nat doff) :: u32) = tot - ihl - doff"
    using data_offset_small[of tcp] d(1) assms(6) by (simp add: sat_sub_of_nat unat_of_nat_u32)
  ultimately show ?thesis using d(3) by simp
qed

text \<open>An IPv4 header whose total length does not even cover the header.\<close>

definition short_ipv4 :: "u16 \<Rightarrow> PacketBuf \<Rightarrow> bool" where
  "short_ipv4 ether_type b \<longleftrightarrow> ether_type = ETHERTYPE_IPV4 \<and>
     (let ip = take 20 (drop (pb_offset b) (pb_data b)) in unat (ipv4_total_length ip) < ipv4_ihl ip)"

lemma dispatch_l3_l4_bound:
  assumes "dispatch_l3 b1 t = Inr (l3, b2)" "pb_wf b1" "dispatch_l4 b2 (l3_protocol l3) = Inr (l4, b3)"
  shows "cursor_step b1 b3 \<and>
    (if short_ipv4 t b1 then sat_sub (l3_payload_length l3) (l4_header_length l4) = 0
     else length (remaining_slice b3) \<le> unat (sat_sub (l3_payload_length l3) (l4_header_length l4)))"
proof -
  have tcp: "decode_tcp b2 = Inr (l4, b3)"
    using assms(3) by (simp add: dispatch_l4_def split: if_splits)
  consider "t = ETHERTYPE_IPV4" "decode_ipv4 b1 = Inr (l3, b2)" | "t \<noteq> ETHERTYPE_IPV4" "decode_ipv6 b1 = Inr (l3, b2)"
    using assms(1) by (auto simp: dispatch_l3_def split: if_splits)
  then show ?thesis
  proof cases
    case 1
    then obtain ip ihl tot where ip: "ip = take 20 (drop (pb_offset b1) (pb_data b1))" and i: "ihl = ipv4_ihl ip" "tot = unat (ipv4_total_length ip)"
      "pb_offset b1 + ihl \<le> pb_len b1" "l3_payload_length l3 = sat_sub (of_nat tot) (of_nat ihl)"
      "b2 = b1\<lparr>pb_offset := pb_offset b1 + ihl,
        pb_len := if ihl \<le> tot then min (pb_offset b1 + tot) (length (pb_data b1)) else pb_len b1\<rparr>"
      using assms(2) by (elim decode_ipv4_Inr) auto
    have short: "short_ipv4 t b1 \<longleftrightarrow> tot < ihl" using 1(1) ip i(1,2) by (simp add: short_ipv4_def)
    have wf2: "pb_wf b2" using i assms(2) by (auto simp: pb_wf_def)
    have small: "ihl < 64" "tot < 2 ^ 16" using ihl_small total_length_small i by auto
    have l3: "l3_payload_length l3 = of_nat (tot - ihl)"
      using i(4) small by (simp add: sat_sub_of_nat)
    have "cursor_step b1 b2" using i(5) wf2 by (simp add: cursor_step_def)
    then have step: "cursor_step b1 b3"
      using decode_tcp_step[OF tcp wf2] by (rule cursor_step_trans)
    show ?thesis
    proof (cases "ihl \<le> tot")
      case True
      then have "length (remaining_slice b3) \<le>
          unat (sat_sub (of_nat (tot - ihl)) (l4_header_length l4) :: u32)"
        by (intro decode_tcp_payload_le[OF tcp wf2, of "pb_offset b1"]) (use i small in auto)
      then show ?thesis using step l3 short True by simp
    next
      case False
      then have "l3_payload_length l3 = 0" using l3 by simp
      then show ?thesis using step short False by (auto simp: sat_sub_def)
    qed
  next
    case 2
    then obtain ip pl where i: "pl = unat (ipv6_payload_length ip)" "pb_offset b1 + 40 \<le> pb_len b1"
      "l3_payload_length l3 = of_nat pl"
      "b2 = b1\<lparr>pb_offset := pb_offset b1 + 40, pb_len := min (pb_offset b1 + 40 + pl) (length (pb_data b1))\<rparr>"
      using assms(2) by (elim decode_ipv6_Inr) auto
    have wf2: "pb_wf b2" using i assms(2) by (auto simp: pb_wf_def)
    have small: "pl < 2 ^ 16" using unsigned_less[of "ipv6_payload_length ip", where ?'a = nat] i by simp
    have "cursor_step b1 b2" using i(4) wf2 by (simp add: cursor_step_def)
    then have step: "cursor_step b1 b3"
      using decode_tcp_step[OF tcp wf2] by (rule cursor_step_trans)
    have "length (remaining_slice b3) \<le>
        unat (sat_sub (of_nat (40 + pl - 40)) (l4_header_length l4) :: u32)"
      by (rule decode_tcp_payload_le[OF tcp wf2, of "pb_offset b1"]) (use i small in auto)
    moreover have "\<not> short_ipv4 t b1" using 2(1) by (simp add: short_ipv4_def)
    ultimately show ?thesis using step i(3) by simp
  qed
qed

text \<open>
  C38: Whatever the link type, a decoded packet's payload is a contiguous part of the captured
  bytes (the cursor never leaves the buffer), it is at most as long as the on-wire length
  (so that link-layer padding behind a pure acknowledgement is cut off), unless the packet has an
  IPv4 total length below its header length, in which case the on-wire length is 0; and the flow
  key holds the packet's two endpoints in the order the direction says.
\<close>

theorem decode_payload_and_direction:
  assumes "decode data link ts sid = Inr p"
  shows "(\<exists>pre post. data = pre @ payload p @ post)
    \<and> (\<exists>t b. decode_l2 (PacketBuf_new data) link = Inr (t, b) \<and>
         (if short_ipv4 t b then wire_payload_len p = 0 else length (payload p) \<le> unat (wire_payload_len p)))
    \<and> (case direction p of
         AtoB \<Rightarrow> addr_a (flow_key p) = (src_ip p, src_port p) \<and> addr_b (flow_key p) = (dst_ip p, dst_port p)
       | BtoA \<Rightarrow> addr_b (flow_key p) = (src_ip p, src_port p) \<and> addr_a (flow_key p) = (dst_ip p, dst_port p))
    \<and> addr_a (flow_key p) \<le> addr_b (flow_key p)"
proof -
  from assms obtain t b1 l3 b2 l4 b3 where l2: "decode_l2 (PacketBuf_new data) link = Inr (t, b1)"
    and l3: "dispatch_l3 b1 t = Inr (l3, b2)" and l4: "dispatch_l4 b2 (l3_protocol l3) = Inr (l4, b3)"
    by (auto simp: decode_def and_then_eq_Inr)
  have p: "payload p = remaining_slice b3"
    "wire_payload_len p = sat_sub (l3_payload_length l3) (l4_header_length l4)"
    "flow_key p = FlowKey_new sid (src_ip p) (src_port p) (dst_ip p) (dst_port p)"
    "direction p = (if (src_ip p, src_port p) \<le> (dst_ip p, dst_port p) then AtoB else BtoA)"
    using assms l2 l3 l4 by (auto simp: decode_def)
  have s1: "cursor_step (PacketBuf_new data) b1" using l2 pb_wf_new by (rule decode_l2_step)
  note s3 = dispatch_l3_l4_bound[OF l3 _ l4]
  have s: "cursor_step (PacketBuf_new data) b3" and wf: "pb_wf b3"
    using s1 s3 cursor_step_trans by (auto simp: cursor_step_def)
  have "\<exists>pre post. data = pre @ payload p @ post"
    using s wf unfolding p(1) remaining_slice_take[OF wf] cursor_step_def PacketBuf_new_def
    by (simp) (metis append_take_drop_id)
  moreover have "if short_ipv4 t b1 then wire_payload_len p = 0 else length (payload p) \<le> unat (wire_payload_len p)"
    using s1 s3 p by (auto simp: cursor_step_def split: if_splits)
  moreover have "case direction p of
         AtoB \<Rightarrow> addr_a (flow_key p) = (src_ip p, src_port p) \<and> addr_b (flow_key p) = (dst_ip p, dst_port p)
       | BtoA \<Rightarrow> addr_b (flow_key p) = (src_ip p, src_port p) \<and> addr_a (flow_key p) = (dst_ip p, dst_port p)"
    using p(3,4) by (simp add: FlowKey_new_def Let_def)
  moreover have "addr_a (flow_key p) \<le> addr_b (flow_key p)"
    using p(3) FlowKey_new_normalised by simp
  ultimately show ?thesis using l2 by blast
qed

theorem decode_payload_and_direction_witness:
  "\<exists>p. decode (ex_eth @ concat [ex_tag] @ ex_ip 47 @ ex_tcp @ [1, 2]) LINKTYPE_ETHERNET 7 ''s'' = Inr p
    \<and> length (payload p) \<le> unat (wire_payload_len p)"
proof -
  have "unat (ipv4_total_length (ex_ip 47)) = length (ex_ip 47) + length ex_tcp + 3"
    by (simp only: ex_total_length) (simp add: ex_ip_def ex_tcp_def)
  then have d: "decode (ex_eth @ concat [ex_tag] @ ex_ip 47 @ ex_tcp @ [1, 2]) LINKTYPE_ETHERNET 7 ''s'' =
      Inr (tcp_packet ''s'' 7 (ex_ip 47) ex_tcp [1, 2] 3)"
    using decode_ipv4_frame_eq[OF ex_headers, of 47 "[1, 2]" 7 "''s''"] by simp
  have "length (payload (tcp_packet ''s'' 7 (ex_ip 47) ex_tcp [1, 2] 3)) \<le>
      unat (wire_payload_len (tcp_packet ''s'' 7 (ex_ip 47) ex_tcp [1, 2] 3))"
    using decode_payload_and_direction[OF d] by (simp add: tcp_packet_def)
  with d show ?thesis by blast
qed

text \<open>
  A packet whose IP total length is below its header length (as a capture of segmentation
  offload shows it, with total length 0) keeps every captured byte as payload but gets the
  on-wire length 0, so the sequence tracking that adds \<open>wire_payload_len\<close> does not move past it.
\<close>

theorem decode_short_total_length:
  assumes "ipv4_frame_headers eth tags ip tcp" and "unat (ipv4_total_length ip) < length ip"
  shows "decode (eth @ concat tags @ ip @ tcp @ rest) LINKTYPE_ETHERNET ts sid =
    Inr (tcp_packet sid ts ip tcp rest 0)"
  using decode_ipv4_frame_eq[OF assms(1), of rest ts sid] assms(2) by simp

theorem decode_short_total_length_witness:
  "decode (ex_eth @ concat [ex_tag] @ ex_ip 0 @ ex_tcp @ [71, 69]) LINKTYPE_ETHERNET 7 ''s'' =
    Inr (tcp_packet ''s'' 7 (ex_ip 0) ex_tcp [71, 69] 0)"
proof -
  have "unat (ipv4_total_length (ex_ip 0)) < length (ex_ip 0)"
    by (simp add: ex_total_length) (simp add: ex_ip_def)
  from decode_short_total_length[OF ex_headers this, of "[71, 69]" 7 "''s''"] show ?thesis by simp
qed

end
