(* ===== verification/Http_Body.thy ===== *)
theory Http_Body
  imports Net
begin

text \<open>
  \<^verbatim>\<open>server/h-protocol/src/http.rs\<close>, first part: header helpers, \<open>Content-Encoding\<close> decoders and
  the \<open>BodyReader\<close> that cuts a message body out of a reassembled stream according to its
  framing.

  The crates \<open>httparse\<close> (header parsing) and \<open>flate2\<close> (inflate) are parameters, the fields of
  the record \<open>libs\<close>; what the parser relies on is \<open>httparse_ok\<close>. A function returns \<open>None\<close> where
  the code panics: \<open>split_to\<close> past the end of a buffer. Sizes are \<open>usize\<close> of 64 bits and their
  additions wrap, as in a release build.
\<close>

section \<open>Parameters: httparse and flate2\<close>

datatype 'a hp_status = HpComplete nat 'a | HpPartial | HpError

record req_head =
  rq_method :: "string option"
  rq_path :: "string option"
  rq_version :: "u8 option"
  rq_headers :: "(string \<times> bytes) list"

record resp_head =
  rs_code :: "u16 option"
  rs_version :: "u8 option"
  rs_headers :: "(string \<times> bytes) list"

record 'd libs =
  hp_request :: "bytes \<Rightarrow> req_head hp_status"
  hp_response :: "bytes \<Rightarrow> resp_head hp_status"
  gz_new :: 'd
  zlib_new :: 'd
  dec_write_all :: "'d \<Rightarrow> bytes \<Rightarrow> 'd"
  dec_flush :: "'d \<Rightarrow> 'd"
  dec_take :: "'d \<Rightarrow> bytes \<times> 'd"
  dec_finish :: "'d \<Rightarrow> bytes option"

text \<open>\<open>Status::Complete(n)\<close> reports how many bytes the head took: some, and no more than given.\<close>

definition httparse_ok :: "'d libs \<Rightarrow> bool" where
  "httparse_ok lib \<longleftrightarrow>
     (\<forall>b n r. hp_request lib b = HpComplete n r \<longrightarrow> 0 < n \<and> n \<le> length b) \<and>
     (\<forall>b n r. hp_response lib b = HpComplete n r \<longrightarrow> 0 < n \<and> n \<le> length b)"

section \<open>State\<close>

datatype BodyFraming = NoBody | ContentLength nat | Chunked | CloseDelimited

datatype ReadResult = NeedMore | Complete bytes | ChunkDecoded bytes | ReadError

datatype 'd BodyDecompressor = Gzip 'd | Zlib 'd

record 'd BodyReader =
  framing :: BodyFraming
  decoded_body :: bytes
  skip_accumulation :: bool
  decompressor :: "'d BodyDecompressor option"

section \<open>Header helpers\<close>

definition find_crlf :: "bytes \<Rightarrow> nat option" where
  "find_crlf b = find_sub [13, 10] b"

definition is_chunked :: "headers \<Rightarrow> bool" where
  "is_chunked hs = list_ex (\<lambda>(k, v). eq_ignore_ascii_case k ''transfer-encoding''
     \<and> str_contains (to_lowercase v) ''chunked'') hs"

definition is_sse :: "headers \<Rightarrow> bool" where
  "is_sse hs = list_ex (\<lambda>(k, v). eq_ignore_ascii_case k ''content-type''
     \<and> str_contains (to_lowercase v) ''text/event-stream'') hs"

definition extract_content_length :: "headers \<Rightarrow> nat option" where
  "extract_content_length hs =
     (case find (\<lambda>(k, _). eq_ignore_ascii_case k ''content-length'') hs of
        None \<Rightarrow> None
      | Some (_, v) \<Rightarrow> from_str_radix 10 (trim v))"

definition extract_content_encoding :: "headers \<Rightarrow> string option" where
  "extract_content_encoding hs =
     (case find (\<lambda>(k, _). eq_ignore_ascii_case k ''content-encoding'') hs of
        None \<Rightarrow> None
      | Some (_, v) \<Rightarrow>
          (let t = trim v in
           if t \<noteq> [] \<and> \<not> eq_ignore_ascii_case t ''identity'' then Some t else None))"

section \<open>Decompression\<close>

definition from_encoding :: "'d libs \<Rightarrow> string \<Rightarrow> 'd BodyDecompressor option" where
  "from_encoding lib enc =
     (let e = to_ascii_lowercase (trim enc) in
      if e = ''gzip'' \<or> e = ''x-gzip'' then Some (Gzip (gz_new lib))
      else if e = ''deflate'' then Some (Zlib (zlib_new lib))
      else None)"

fun decompressor_push :: "'d libs \<Rightarrow> 'd BodyDecompressor \<Rightarrow> bytes \<Rightarrow> bytes \<times> 'd BodyDecompressor" where
  "decompressor_push lib (Gzip d) data =
     (let (out, d') = dec_take lib (dec_flush lib (dec_write_all lib d data)) in (out, Gzip d'))"
| "decompressor_push lib (Zlib d) data =
     (let (out, d') = dec_take lib (dec_flush lib (dec_write_all lib d data)) in (out, Zlib d'))"

fun decompressor_finish :: "'d libs \<Rightarrow> 'd BodyDecompressor \<Rightarrow> bytes" where
  "decompressor_finish lib (Gzip d) = (case dec_finish lib d of Some b \<Rightarrow> b | None \<Rightarrow> [])"
| "decompressor_finish lib (Zlib d) = (case dec_finish lib d of Some b \<Rightarrow> b | None \<Rightarrow> [])"

section \<open>Body reader\<close>

definition BodyReader_new :: "'d BodyReader" where
  "BodyReader_new = \<lparr>framing = NoBody, decoded_body = [], skip_accumulation = False, decompressor = None\<rparr>"

definition new_for_request :: "headers \<Rightarrow> 'd BodyReader" where
  "new_for_request hs =
     \<lparr>framing = (if is_chunked hs then Chunked
                 else case extract_content_length hs of Some n \<Rightarrow> ContentLength n | None \<Rightarrow> NoBody),
      decoded_body = [], skip_accumulation = False, decompressor = None\<rparr>"

definition new_for_response :: "'d libs \<Rightarrow> u16 \<Rightarrow> string \<Rightarrow> headers \<Rightarrow> 'd BodyReader" where
  "new_for_response lib status method hs =
     \<lparr>framing = (if (100 \<le> status \<and> status < 200) \<or> status = 204 \<or> status = 304 then NoBody
                 else if eq_ignore_ascii_case method ''HEAD'' then NoBody
                 else if is_chunked hs then Chunked
                 else case extract_content_length hs of
                        Some n \<Rightarrow> ContentLength n | None \<Rightarrow> CloseDelimited),
      decoded_body = [], skip_accumulation = False,
      decompressor = (case extract_content_encoding hs of
                        None \<Rightarrow> None | Some e \<Rightarrow> from_encoding lib e)\<rparr>"

definition decode_payload :: "'d libs \<Rightarrow> 'd BodyReader \<Rightarrow> bytes \<Rightarrow> bytes \<times> 'd BodyReader" where
  "decode_payload lib r data =
     (case decompressor r of
        Some d \<Rightarrow> (let (out, d') = decompressor_push lib d data in (out, r\<lparr>decompressor := Some d'\<rparr>))
      | None \<Rightarrow> (data, r))"

definition flush_decompressor :: "'d libs \<Rightarrow> 'd BodyReader \<Rightarrow> bytes \<times> 'd BodyReader" where
  "flush_decompressor lib r =
     (case decompressor r of
        Some d \<Rightarrow> (decompressor_finish lib d, r\<lparr>decompressor := None\<rparr>)
      | None \<Rightarrow> ([], r))"

text \<open>The trailer loop: the position, from \<open>pos\<close> on, of the empty line that ends the trailers.\<close>

function trailer_end :: "bytes \<Rightarrow> nat \<Rightarrow> nat option" where
  "trailer_end rest pos =
     (case find_crlf (drop pos rest) of
        None \<Rightarrow> None
      | Some len \<Rightarrow> if len = 0 then Some pos else trailer_end rest (pos + (len + 2)))"
  by pat_completeness auto
termination
proof (relation "measure (\<lambda>(rest, pos). length rest - pos)", goal_cases)
  case (2 rest pos len)
  then have "len + 2 \<le> length (drop pos rest)"
    using find_sub_bound[of "[13, 10]" "drop pos rest" len] by (simp add: find_crlf_def)
  then show ?case by simp
qed simp

declare trailer_end.simps [simp del]

text \<open>The chunk size line: hexadecimal digits up to a semicolon.\<close>

definition chunk_size_of :: "bytes \<Rightarrow> nat option" where
  "chunk_size_of line =
     (let s = trim (case from_utf8 line of Some t \<Rightarrow> t | None \<Rightarrow> []);
          s' = trim (takeWhile (\<lambda>c. c \<noteq> CHR '';'') s)
      in from_str_radix 16 s')"

definition read_chunk :: "'d libs \<Rightarrow> 'd BodyReader \<Rightarrow> bytes \<Rightarrow> (ReadResult \<times> 'd BodyReader \<times> bytes) option" where
  "read_chunk lib r buf =
     (if buf = [] then Some (NeedMore, r, buf)
      else case find_crlf buf of
        None \<Rightarrow> Some (NeedMore, r, buf)
      | Some line_end \<Rightarrow>
        (case chunk_size_of (take line_end buf) of
           None \<Rightarrow> Some (ReadError, r, buf)
         | Some chunk_size \<Rightarrow>
           if chunk_size = 0 then
             (case trailer_end (drop (line_end + 2) buf) 0 of
                None \<Rightarrow> Some (NeedMore, r, buf)
              | Some pos \<Rightarrow>
                  (case split_to (line_end + 2 + pos + 2) buf of
                     None \<Rightarrow> None
                   | Some (_, buf') \<Rightarrow>
                     (let (tail, r1) = flush_decompressor lib r;
                          r2 = (if \<not> skip_accumulation r1 \<and> tail \<noteq> []
                                then r1\<lparr>decoded_body := decoded_body r1 @ tail\<rparr> else r1)
                      in if skip_accumulation r2 then Some (Complete [], r2, buf')
                         else Some (Complete (decoded_body r2), r2\<lparr>decoded_body := []\<rparr>, buf'))))
           else
             (let needed = (line_end + 2 + chunk_size + 2) mod 2 ^ 64 in
              if length buf < needed then Some (NeedMore, r, buf)
              else case split_to (line_end + 2) buf of
                None \<Rightarrow> None
              | Some (_, b1) \<Rightarrow>
                (case split_to chunk_size b1 of
                   None \<Rightarrow> None
                 | Some (raw, b2) \<Rightarrow>
                   (case split_to 2 b2 of
                      None \<Rightarrow> None
                    | Some (_, b3) \<Rightarrow>
                      (let (d, r1) = decode_payload lib r raw;
                           r2 = (if \<not> skip_accumulation r1
                                 then r1\<lparr>decoded_body := decoded_body r1 @ d\<rparr> else r1)
                       in Some (ChunkDecoded d, r2, b3)))))))"

definition body_read :: "'d libs \<Rightarrow> 'd BodyReader \<Rightarrow> bytes \<Rightarrow> (ReadResult \<times> 'd BodyReader \<times> bytes) option" where
  "body_read lib r buf =
     (case framing r of
        NoBody \<Rightarrow> Some (Complete [], r, buf)
      | ContentLength len \<Rightarrow>
          if length buf \<ge> len then
            (case split_to len buf of
               None \<Rightarrow> None
             | Some (raw, buf') \<Rightarrow>
               (let (body, r1) = decode_payload lib r raw;
                    (tail, r2) = flush_decompressor lib r1
                in Some (Complete (if tail = [] then body else body @ tail), r2, buf')))
          else Some (NeedMore, r, buf)
      | Chunked \<Rightarrow> read_chunk lib r buf
      | CloseDelimited \<Rightarrow>
          if buf = [] then Some (NeedMore, r, buf)
          else (let (d, r1) = decode_payload lib r buf;
                    r2 = (if \<not> skip_accumulation r1
                          then r1\<lparr>decoded_body := decoded_body r1 @ d\<rparr> else r1)
                in Some (ChunkDecoded d, r2, [])))"

text \<open>\<open>finish\<close> empties the buffer in every case but \<open>NoBody\<close>.\<close>

definition body_finish :: "'d libs \<Rightarrow> 'd BodyReader \<Rightarrow> bytes \<Rightarrow> bytes \<times> 'd BodyReader \<times> bytes" where
  "body_finish lib r buf =
     (case framing r of
        NoBody \<Rightarrow> ([], r, buf)
      | ContentLength _ \<Rightarrow>
          if skip_accumulation r then ([], r, [])
          else (let (body, r1) = decode_payload lib r buf;
                    (tail, r2) = flush_decompressor lib r1
                in (body @ tail, r2, []))
      | _ \<Rightarrow>
          if skip_accumulation r then ([], r, [])
          else
            (let r1 = (if buf \<noteq> [] then
                         (let (d, r') = decode_payload lib r buf
                          in r'\<lparr>decoded_body := decoded_body r' @ d\<rparr>)
                       else r);
                 (tail, r2) = flush_decompressor lib r1;
                 r3 = (if tail \<noteq> [] then r2\<lparr>decoded_body := decoded_body r2 @ tail\<rparr> else r2)
             in (decoded_body r3, r3\<lparr>decoded_body := []\<rparr>, [])))"

definition was_incremental :: "'d BodyReader \<Rightarrow> bool" where
  "was_incremental r \<longleftrightarrow> framing r = Chunked \<or> framing r = CloseDelimited"

definition is_no_body :: "'d BodyReader \<Rightarrow> bool" where
  "is_no_body r \<longleftrightarrow> framing r = NoBody"

section \<open>Chunked streams\<close>

text \<open>The data chunks of a stream, as a reader step: the reader's state is the \<open>BodyReader\<close>.\<close>

definition chunk_step :: "'d libs \<Rightarrow> 'd BodyReader \<Rightarrow> bytes \<Rightarrow> ('d BodyReader \<times> bytes \<times> bytes) option" where
  "chunk_step lib r b =
     (case read_chunk lib r b of
        Some (ChunkDecoded d, r', b') \<Rightarrow> Some (r', d, b')
      | _ \<Rightarrow> None)"

text \<open>A chunk on the wire: its size line and its data.\<close>

definition chunk_ok :: "bytes \<times> bytes \<Rightarrow> bool" where
  "chunk_ok c \<longleftrightarrow> 13 \<notin> set (fst c) \<and> chunk_size_of (fst c) = Some (length (snd c)) \<and> snd c \<noteq> []"

definition chunk_wire :: "bytes \<times> bytes \<Rightarrow> bytes" where
  "chunk_wire c = fst c @ 13 # 10 # snd c @ [13, 10]"

definition last_ok :: "bytes \<Rightarrow> bytes list \<Rightarrow> bool" where
  "last_ok l ts \<longleftrightarrow> 13 \<notin> set l \<and> chunk_size_of l = Some 0 \<and> list_all (\<lambda>t. t \<noteq> [] \<and> 13 \<notin> set t) ts"

definition last_wire :: "bytes \<Rightarrow> bytes list \<Rightarrow> bytes" where
  "last_wire l ts = l @ 13 # 10 # concat (map (\<lambda>t. t @ [13, 10]) ts) @ [13, 10]"

text \<open>A concrete instance of the parameters: a head ends at the first empty line.\<close>

definition sample_libs :: "unit libs" where
  "sample_libs =
     \<lparr>hp_request = (\<lambda>b. case find_sub [13, 10, 13, 10] b of
          None \<Rightarrow> HpPartial
        | Some n \<Rightarrow> HpComplete (n + 4)
            \<lparr>rq_method = Some ''POST'', rq_path = Some ''/v1/messages'', rq_version = Some 1,
             rq_headers = [(''Transfer-Encoding'', as_bytes ''chunked'')]\<rparr>),
      hp_response = (\<lambda>b. case find_sub [13, 10, 13, 10] b of
          None \<Rightarrow> HpPartial
        | Some n \<Rightarrow> HpComplete (n + 4)
            \<lparr>rs_code = Some 200, rs_version = Some 1,
             rs_headers = [(''Content-Type'', as_bytes ''text/event-stream''),
                           (''Transfer-Encoding'', as_bytes ''chunked'')]\<rparr>),
      gz_new = (), zlib_new = (), dec_write_all = (\<lambda>_ _. ()), dec_flush = (\<lambda>_. ()),
      dec_take = (\<lambda>_. ([], ())), dec_finish = (\<lambda>_. None)\<rparr>"

section \<open>Lemmas\<close>

lemma trailer_end_bound:
  "trailer_end rest pos = Some p \<Longrightarrow> pos \<le> p \<and> p + 2 \<le> length rest"
proof (induction rest pos rule: trailer_end.induct)
  case (1 rest pos)
  show ?case
  proof (cases "find_crlf (drop pos rest)")
    case None
    then show ?thesis using 1 by (simp add: trailer_end.simps)
  next
    case (Some len)
    have "len + 2 \<le> length (drop pos rest)"
      using find_sub_bound[of "[13, 10]" "drop pos rest" len] Some by (simp add: find_crlf_def)
    then show ?thesis using 1 Some by (auto simp: trailer_end.simps[of rest pos] split: if_splits)
  qed
qed

lemma trailer_end_append:
  "trailer_end rest pos = Some p \<Longrightarrow> trailer_end (rest @ c) pos = Some p"
proof (induction rest pos rule: trailer_end.induct)
  case (1 rest pos)
  then obtain len where len: "find_crlf (drop pos rest) = Some len"
    by (auto simp: trailer_end.simps[of rest pos] split: option.splits)
  have "len + 2 \<le> length (drop pos rest)"
    using find_sub_bound[of "[13, 10]" "drop pos rest" len] len by (simp add: find_crlf_def)
  then have "drop pos (rest @ c) = drop pos rest @ c" by simp
  then have len': "find_crlf (drop pos (rest @ c)) = Some len"
    using len find_sub_append_stable by (simp add: find_crlf_def)
  show ?case
    using 1 len len' by (simp add: trailer_end.simps[of rest pos] trailer_end.simps[of "rest @ c" pos] split: if_splits)
qed

lemma read_chunk_data:
  assumes "find_crlf buf = Some e" and "chunk_size_of (take e buf) = Some n" and "0 < n"
    and "e + n + 4 \<le> length buf"
  shows "read_chunk lib r buf =
    (let (d, r1) = decode_payload lib r (take n (drop (e + 2) buf));
         r2 = (if \<not> skip_accumulation r1 then r1\<lparr>decoded_body := decoded_body r1 @ d\<rparr> else r1)
     in Some (ChunkDecoded d, r2, drop (e + n + 4) buf))"
proof -
  have "(e + 2 + n + 2) mod 2 ^ 64 \<le> e + 2 + n + 2" by (rule mod_less_eq_dividend)
  then have "\<not> length buf < (e + 2 + n + 2) mod 2 ^ 64" using assms(4) by linarith
  moreover have "buf \<noteq> []" using assms(4) by auto
  moreover have "split_to (e + 2) buf = Some (take (e + 2) buf, drop (e + 2) buf)"
    and "split_to n (drop (e + 2) buf) = Some (take n (drop (e + 2) buf), drop n (drop (e + 2) buf))"
    and "split_to 2 (drop n (drop (e + 2) buf))
      = Some (take 2 (drop n (drop (e + 2) buf)), drop (e + n + 4) buf)"
    using assms(4) by (auto simp: eval_nat_numeral ac_simps)
  ultimately show ?thesis
    using assms unfolding read_chunk_def Let_def by (simp del: split_to_Some drop_drop)
qed

lemma read_chunk_decodedE:
  assumes "read_chunk lib r buf = Some (ChunkDecoded d, r', b)"
  obtains e n where "find_crlf buf = Some e" "chunk_size_of (take e buf) = Some n" "0 < n"
    "e + n + 4 \<le> length buf" "b = drop (e + n + 4) buf"
    "read_chunk lib r buf =
      (let (d, r1) = decode_payload lib r (take n (drop (e + 2) buf));
         r2 = (if \<not> skip_accumulation r1 then r1\<lparr>decoded_body := decoded_body r1 @ d\<rparr> else r1)
     in Some (ChunkDecoded d, r2, drop (e + n + 4) buf))"
proof -
  from assms obtain e n where en: "find_crlf buf = Some e" "chunk_size_of (take e buf) = Some n" "0 < n"
    "e + n + 4 \<le> length buf"
    by (auto simp: read_chunk_def Let_def split: option.splits if_splits prod.splits)
  note rd = read_chunk_data[OF en, of lib r]
  have "b = drop (e + n + 4) buf" using assms unfolding rd by (simp add: Let_def split: prod.splits)
  then show ?thesis using that en rd by blast
qed

lemma find_crlf_append: "find_crlf b = Some e \<Longrightarrow> find_crlf (b @ c) = Some e"
  by (simp add: find_crlf_def find_sub_append_stable)

lemma find_crlf_bound: "find_crlf b = Some e \<Longrightarrow> e + 2 \<le> length b"
  using find_sub_bound[of "[13, 10]" b e] by (simp add: find_crlf_def)

lemma find_crlf_line: "13 \<notin> set l \<Longrightarrow> find_crlf (l @ 13 # 10 # r) = Some (length l)"
  by (simp add: find_crlf_def find_sub_pair)

lemma chunk_step_Some: "chunk_step lib r b = Some (r', d, b') \<longleftrightarrow>
    read_chunk lib r b = Some (ChunkDecoded d, r', b')"
  by (auto simp: chunk_step_def split: option.splits ReadResult.splits)

lemma read_chunk_append:
  assumes "read_chunk lib r b = Some (ChunkDecoded d, r', b')"
  shows "read_chunk lib r (b @ c) = Some (ChunkDecoded d, r', b' @ c)"
proof -
  from assms obtain e n where en: "find_crlf b = Some e" "chunk_size_of (take e b) = Some n" "0 < n"
    "e + n + 4 \<le> length b" "b' = drop (e + n + 4) b"
    and rd: "read_chunk lib r b =
      (let (d, r1) = decode_payload lib r (take n (drop (e + 2) b));
         r2 = (if \<not> skip_accumulation r1 then r1\<lparr>decoded_body := decoded_body r1 @ d\<rparr> else r1)
     in Some (ChunkDecoded d, r2, drop (e + n + 4) b))"
    by (rule read_chunk_decodedE)
  have en': "find_crlf (b @ c) = Some e" "chunk_size_of (take e (b @ c)) = Some n"
    "e + n + 4 \<le> length (b @ c)" "take n (drop (e + 2) (b @ c)) = take n (drop (e + 2) b)"
    "drop (e + n + 4) (b @ c) = drop (e + n + 4) b @ c"
    using en by (simp_all add: find_crlf_append)
  show ?thesis
    using assms unfolding rd read_chunk_data[OF en'(1,2) en(3) en'(3)] en'(4,5)
    by (auto simp: Let_def split: prod.splits)
qed

lemma read_chunk_progress:
  "read_chunk lib r b = Some (ChunkDecoded d, r', b') \<Longrightarrow> length b' < length b"
  by (erule read_chunk_decodedE) auto

interpretation chunks: incremental_reader "chunk_step lib" "\<lambda>_. True"
  by unfold_locales (auto simp: chunk_step_Some read_chunk_append dest: read_chunk_progress)

lemma trailer_end_wire:
  assumes "list_all (\<lambda>t. t \<noteq> [] \<and> 13 \<notin> set t) ts"
  shows "trailer_end (pre @ concat (map (\<lambda>t. t @ [13, 10]) ts) @ 13 # 10 # rest) (length pre)
    = Some (length pre + length (concat (map (\<lambda>t. t @ [13, 10]) ts)))"
  using assms
proof (induction ts arbitrary: pre)
  case Nil
  show ?case using find_crlf_line[of "[]" rest] by (simp add: trailer_end.simps)
next
  case (Cons t ts)
  let ?w = "concat (map (\<lambda>t. t @ [13, 10]) ts)"
  have "find_crlf (drop (length pre) (pre @ (t @ [13, 10]) @ ?w @ 13 # 10 # rest)) = Some (length t)"
    using Cons.prems find_crlf_line[of t "?w @ 13 # 10 # rest"] by simp
  then show ?case
    using Cons.prems Cons.IH[of "pre @ t @ [13, 10]"]
    by (simp add: trailer_end.simps[of _ "length pre"] ac_simps)
qed

lemma read_chunk_wire:
  assumes "chunk_ok c" and "decompressor r = None"
  shows "read_chunk lib r (chunk_wire c @ rest) = Some (ChunkDecoded (snd c),
    (if skip_accumulation r then r else r\<lparr>decoded_body := decoded_body r @ snd c\<rparr>), rest)"
proof -
  let ?l = "fst c" and ?d = "snd c"
  let ?b = "?l @ 13 # 10 # (?d @ 13 # 10 # rest)"
  have "find_crlf ?b = Some (length ?l)" using assms(1) by (simp add: chunk_ok_def find_crlf_line)
  moreover have "chunk_size_of (take (length ?l) ?b) = Some (length ?d)" "0 < length ?d"
    "length ?l + length ?d + 4 \<le> length ?b"
    using assms(1) by (simp_all add: chunk_ok_def)
  ultimately have "read_chunk lib r ?b =
    (let (d, r1) = decode_payload lib r (take (length ?d) (drop (length ?l + 2) ?b));
         r2 = (if \<not> skip_accumulation r1 then r1\<lparr>decoded_body := decoded_body r1 @ d\<rparr> else r1)
     in Some (ChunkDecoded d, r2, drop (length ?l + length ?d + 4) ?b))"
    by (rule read_chunk_data)
  then show ?thesis using assms(2) by (simp add: chunk_wire_def decode_payload_def eval_nat_numeral)
qed

lemma read_chunk_last:
  assumes "last_ok l ts" and "decompressor r = None"
  shows "read_chunk lib r (last_wire l ts @ rest) =
    (if skip_accumulation r then Some (Complete [], r, rest)
     else Some (Complete (decoded_body r), r\<lparr>decoded_body := []\<rparr>, rest))"
proof -
  let ?t = "concat (map (\<lambda>t. t @ [13, 10]) ts)"
  let ?b = "l @ 13 # 10 # ?t @ 13 # 10 # rest"
  have f: "find_crlf ?b = Some (length l)" "chunk_size_of (take (length l) ?b) = Some 0"
    using assms(1) by (simp_all add: last_ok_def find_crlf_line)
  have "trailer_end (drop (length l + 2) ?b) 0 = Some (length ?t)"
    using assms(1) trailer_end_wire[of ts "[]" rest] by (simp add: last_ok_def)
  moreover have "split_to (length l + 2 + length ?t + 2) ?b
      = Some (l @ 13 # 10 # ?t @ [13, 10], rest)"
    by (simp add: split_to_def eval_nat_numeral)
  ultimately have "read_chunk lib r ?b =
    (if skip_accumulation r then Some (Complete [], r, rest)
     else Some (Complete (decoded_body r), r\<lparr>decoded_body := []\<rparr>, rest))"
    using f assms(2) unfolding read_chunk_def
    by (simp add: flush_decompressor_def Let_def del: split_to_Some)
  then show ?thesis by (simp add: last_wire_def)
qed

lemma drain_chunks:
  assumes "list_all chunk_ok cs" and "decompressor r = None"
    and "\<And>r'. decompressor r' = None \<Longrightarrow> chunk_step lib r' rest = None"
  shows "drain_reader (chunk_step lib) r (concat (map chunk_wire cs) @ rest) =
    ((if skip_accumulation r then r else r\<lparr>decoded_body := decoded_body r @ concat (map snd cs)\<rparr>),
     map snd cs, rest)"
  using assms(1,2)
proof (induction cs arbitrary: r)
  case Nil
  then show ?case using assms(3) by (simp add: drain_reader.simps)
next
  case (Cons c cs)
  let ?r = "if skip_accumulation r then r else r\<lparr>decoded_body := decoded_body r @ snd c\<rparr>"
  have "chunk_step lib r (chunk_wire c @ concat (map chunk_wire cs) @ rest)
      = Some (?r, snd c, concat (map chunk_wire cs) @ rest)"
    using Cons.prems by (simp add: chunk_step_Some read_chunk_wire)
  moreover have "length (concat (map chunk_wire cs) @ rest)
      < length (chunk_wire c @ concat (map chunk_wire cs) @ rest)"
    by (simp add: chunk_wire_def)
  ultimately show ?case
    using Cons.prems Cons.IH[of ?r] by (simp add: drain_reader.simps[of _ r])
qed

lemma read_chunk_None_iff:
  assumes "length buf < 2 ^ 63"
  shows "read_chunk lib r buf = None \<longleftrightarrow>
    (\<exists>e n. find_crlf buf = Some e \<and> chunk_size_of (take e buf) = Some n \<and>
       length buf < e + n + 4 \<and> (e + n + 4) mod 2 ^ 64 \<le> length buf)"
proof (cases "find_crlf buf")
  case None
  then show ?thesis by (simp add: read_chunk_def)
next
  case (Some e)
  note e = this find_crlf_bound[OF this]
  then have ne: "buf \<noteq> []" by auto
  show ?thesis
  proof (cases "chunk_size_of (take e buf)")
    case None
    then show ?thesis using e ne by (simp add: read_chunk_def)
  next
    case (Some n)
    show ?thesis
    proof (cases "n = 0")
      case True
      have "read_chunk lib r buf \<noteq> None"
        using e ne Some True trailer_end_bound[of "drop (e + 2) buf" 0]
        by (auto simp: read_chunk_def Let_def split: option.splits prod.splits)
      moreover have "(e + 4) mod 2 ^ 64 = e + 4" using e(2) assms by (intro mod_less) simp
      ultimately show ?thesis using e Some True by auto
    next
      case False
      have "split_to (e + 2) buf = Some (take (e + 2) buf, drop (e + 2) buf)" using e by simp
      then have "read_chunk lib r buf = None \<longleftrightarrow>
          (e + 2 + n + 2) mod 2 ^ 64 \<le> length buf \<and> length buf < e + n + 4"
        using e ne Some False unfolding read_chunk_def Let_def
        by (auto simp del: split_to_Some split: option.splits prod.splits) auto
      then show ?thesis using e Some by (auto simp: ac_simps)
    qed
  qed
qed

lemma chunk_size_of_graphic:
  assumes "list_all graphic s"
  shows "chunk_size_of (as_bytes s) = from_str_radix 16 (takeWhile (\<lambda>c. c \<noteq> CHR '';'') s)"
proof -
  have "list_all graphic (takeWhile (\<lambda>c. c \<noteq> CHR '';'') s)"
    using assms by (auto simp: list_all_iff dest: set_takeWhileD)
  then show ?thesis using assms by (simp add: chunk_size_of_def from_utf8_graphic trim_graphic)
qed

lemma chunk_size_of_short:
  assumes "chunk_size_of l = Some n" and "length l \<le> k"
  shows "n < 16 ^ k"
proof -
  let ?s = "trim (case from_utf8 l of Some t \<Rightarrow> t | None \<Rightarrow> [])"
  have "length ?s \<le> length l"
    using trim_length[of "case from_utf8 l of Some t \<Rightarrow> t | None \<Rightarrow> []"]
    by (auto simp: from_utf8_def bytes_str_def split: if_splits)
  moreover have "length (trim (takeWhile (\<lambda>c. c \<noteq> CHR '';'') ?s)) \<le> length ?s"
    using trim_length length_takeWhile_le le_trans by blast
  ultimately show ?thesis
    using assms from_str_radix_short[of 16 "trim (takeWhile (\<lambda>c. c \<noteq> CHR '';'') ?s)" n k]
    by (simp add: chunk_size_of_def Let_def)
qed

lemmas size_line_simps = chunk_size_of_graphic from_str_radix_def digit_val_def graphic_def Let_def

lemma read_chunk_returns:
  assumes "length buf < 2 ^ 62"
    and "\<And>e n. find_crlf buf = Some e \<Longrightarrow> chunk_size_of (take e buf) = Some n \<Longrightarrow> n < 2 ^ 62"
  shows "read_chunk lib r buf \<noteq> None"
proof
  assume "read_chunk lib r buf = None"
  then obtain e n where en: "find_crlf buf = Some e" "chunk_size_of (take e buf) = Some n"
    "length buf < e + n + 4" "(e + n + 4) mod 2 ^ 64 \<le> length buf"
    using read_chunk_None_iff[of buf lib r] assms(1) by auto
  have "e + n + 4 < 2 ^ 64" using assms(2)[OF en(1,2)] find_crlf_bound[OF en(1)] assms(1) by simp
  then show False using en(3,4) by simp
qed

text \<open>What a read leaves is a suffix of what was there; a decoded piece consumes something.\<close>

lemma read_chunk_suffix:
  "read_chunk lib r buf = Some (res, r', b) \<Longrightarrow> suffix b buf"
  by (auto simp: read_chunk_def Let_def suffix_drop
      split: option.splits if_splits prod.splits)

lemma body_read_suffix:
  "body_read lib r buf = Some (res, r', b) \<Longrightarrow> suffix b buf"
  by (auto simp: body_read_def Let_def suffix_drop read_chunk_suffix
      split: BodyFraming.splits option.splits if_splits prod.splits)

lemma body_read_progress:
  "body_read lib r buf = Some (ChunkDecoded d, r', b) \<Longrightarrow> length b < length buf"
  by (auto simp: body_read_def Let_def read_chunk_progress
      split: BodyFraming.splits option.splits if_splits prod.splits)

text \<open>C7: However the bytes of a chunked message are cut into TCP segments, a reader that keeps the
  body and does not decompress (requests and plain responses), reading chunks after each segment,
  yields the data of every chunk, in order and once, and the last chunk (with any trailers)
  completes the body with exactly the concatenation, leaving the bytes after the message in the
  buffer and the reader as it was.\<close>

theorem chunked_body_any_segmentation:
  assumes "list_all chunk_ok cs" and "last_ok l ts"
    and "decompressor r = None" and "\<not> skip_accumulation r" and "decoded_body r = []"
    and "concat pieces = concat (map chunk_wire cs) @ last_wire l ts @ rest"
  shows "\<exists>r' b. feed_reader (chunk_step lib) r [] pieces = (r', map snd cs, b)
    \<and> read_chunk lib r' b = Some (Complete (concat (map snd cs)), r, rest)"
proof -
  have stuck: "chunk_step lib r' (last_wire l ts @ rest) = None" if "decompressor r' = None" for r'
    using that assms(2) by (simp add: chunk_step_def read_chunk_last)
  let ?r = "r\<lparr>decoded_body := concat (map snd cs)\<rparr>"
  have "feed_reader (chunk_step lib) r [] pieces = drain_reader (chunk_step lib) r (concat pieces)"
    using chunks.feed_concat[of lib r "[]" pieces] by (simp add: chunks.step_empty)
  also have "\<dots> = (?r, map snd cs, last_wire l ts @ rest)"
    using drain_chunks[OF assms(1,3) stuck] assms(4,5,6) by simp
  finally show ?thesis
    using read_chunk_last[OF assms(2), of ?r lib rest] assms(3,4,5) by simp
qed

theorem chunked_body_any_segmentation_witness:
  "\<exists>r' b. feed_reader (chunk_step sample_libs) BodyReader_new []
      [as_bytes ''4'', [13], 10 # as_bytes ''Wik'', as_bytes ''i'' @ [13, 10] @ as_bytes ''05;x'' @ [13],
       10 # as_bytes ''pedia'' @ [13, 10] @ as_bytes ''0'' @ [13], 10 # as_bytes ''T: 1'' @ [13, 10, 13],
       10 # as_bytes ''GET'']
      = (r', [as_bytes ''Wiki'', as_bytes ''pedia''], b)
    \<and> read_chunk sample_libs r' b = Some (Complete (as_bytes ''Wikipedia''), BodyReader_new, as_bytes ''GET'')"
proof -
  let ?cs = "[(as_bytes ''4'', as_bytes ''Wiki''), (as_bytes ''05;x'', as_bytes ''pedia'')]"
  have "list_all chunk_ok ?cs"
    by (simp add: chunk_ok_def size_line_simps graphic_no_cr)
  moreover have "last_ok (as_bytes ''0'') [as_bytes ''T: 1'']"
    by (simp add: last_ok_def size_line_simps graphic_no_cr) (simp add: as_bytes_def byte_of_def)
  moreover have "decompressor BodyReader_new = (None :: unit BodyDecompressor option)"
    "\<not> skip_accumulation (BodyReader_new :: unit BodyReader)"
    "decoded_body (BodyReader_new :: unit BodyReader) = []"
    by (simp_all add: BodyReader_new_def)
  ultimately have "\<exists>r' b. feed_reader (chunk_step sample_libs) BodyReader_new []
      [as_bytes ''4'', [13], 10 # as_bytes ''Wik'', as_bytes ''i'' @ [13, 10] @ as_bytes ''05;x'' @ [13],
       10 # as_bytes ''pedia'' @ [13, 10] @ as_bytes ''0'' @ [13], 10 # as_bytes ''T: 1'' @ [13, 10, 13],
       10 # as_bytes ''GET''] = (r', map snd ?cs, b)
    \<and> read_chunk sample_libs r' b = Some (Complete (concat (map snd ?cs)), BodyReader_new, as_bytes ''GET'')"
    by (rule chunked_body_any_segmentation)
      (simp add: chunk_wire_def last_wire_def as_bytes_def)
  then show ?thesis by (simp add: as_bytes_def)
qed

text \<open>C40: When reading a chunk panics. The sum of the size line, the chunk size and the two line
  ends is a \<open>usize\<close> and wraps, so a chunk size near \<open>2 ^ 64\<close> passes the length check and the
  split past the end of the buffer aborts the worker. That is the only way to panic; a buffer
  is shorter than \<open>2 ^ 63\<close> bytes.\<close>

theorem read_chunk_panics_iff:
  assumes "length buf < 2 ^ 63"
  shows "read_chunk lib r buf = None \<longleftrightarrow>
    (\<exists>e n. find_crlf buf = Some e \<and> chunk_size_of (take e buf) = Some n \<and>
       length buf < e + n + 4 \<and> (e + n + 4) mod 2 ^ 64 \<le> length buf)"
  using assms by (rule read_chunk_None_iff)

theorem read_chunk_panics_iff_witness:
  "length (as_bytes ''ffffffffffffffff'' @ [13, 10, 120]) < 2 ^ 63
   \<and> read_chunk sample_libs BodyReader_new (as_bytes ''ffffffffffffffff'' @ [13, 10, 120]) = None"
proof -
  let ?s = "''ffffffffffffffff''"
  let ?b = "as_bytes ?s @ [13, 10, 120]"
  have l: "length ?b < 2 ^ 63" by simp
  have g: "list_all graphic ?s" by (simp add: graphic_def)
  have "find_crlf ?b = Some 16" using find_crlf_line[OF graphic_no_cr[OF g], of "[120]"] by simp
  moreover have "chunk_size_of (take 16 ?b) = Some 18446744073709551615"
    by (simp add: size_line_simps)
  moreover have "length ?b < 16 + 18446744073709551615 + 4"
    "(16 + 18446744073709551615 + 4) mod 2 ^ 64 \<le> length ?b" by simp_all
  ultimately show ?thesis
    using l read_chunk_panics_iff[OF l, of sample_libs BodyReader_new] by blast
qed

end
