(* ===== verification/Sse.thy ===== *)
theory Sse
  imports Http_Body
begin

text \<open>
  \<^verbatim>\<open>server/h-protocol/src/http.rs\<close>, second part: the \<open>SseParser\<close>, which cuts the text of an event
  stream at blank lines and reads the fields of each event.
\<close>

record SseParser =
  residual :: string

section \<open>Server-sent events\<close>

record parse_ctx =
  cx_flow_key :: FlowKey
  cx_client_addr :: sock_addr
  cx_server_addr :: sock_addr
  cx_client_ts :: int
  cx_server_ts :: int
  cx_server_last_ts :: int

text \<open>The loop over the lines of one event: the last \<open>event:\<close> field and the \<open>data:\<close> fields.\<close>

fun sse_fields :: "string list \<Rightarrow> string \<Rightarrow> string list \<Rightarrow> string \<times> string list" where
  "sse_fields [] ty parts = (ty, parts)"
| "sse_fields (line # rest) ty parts =
     (case strip_prefix ''event:'' line of
        Some val \<Rightarrow> sse_fields rest (trim val) parts
      | None \<Rightarrow>
        (case strip_prefix ''data:'' line of
           Some val \<Rightarrow> sse_fields rest ty (parts @ [trim_start_spaces val])
         | None \<Rightarrow> sse_fields rest ty parts))"

fun join :: "string \<Rightarrow> string list \<Rightarrow> string" where
  "join sep [] = []"
| "join sep [x] = x"
| "join sep (x # y # xs) = x @ sep @ join sep (y # xs)"

definition parse_event :: "parse_ctx \<Rightarrow> string \<Rightarrow> HttpParseEvent option" where
  "parse_event cx text =
     (let (ty, parts) = sse_fields (lines text) [] [] in
      if parts = [] \<and> ty = [] then None
      else Some (SseEvent \<lparr>sse_flow_key = cx_flow_key cx, sse_client_addr = cx_client_addr cx,
             sse_server_addr = cx_server_addr cx, event_type = ty, sse_data = join [LF] parts,
             sse_timestamp_us = cx_server_last_ts cx, sse_process = None\<rparr>))"

text \<open>One turn of the loop of \<open>push\<close>: cut the residual at the next blank line. A CRLF blank line
  anywhere in the residual goes before an LF one.\<close>

definition sse_next :: "string \<Rightarrow> (string \<times> string) option" where
  "sse_next r =
     (case find_sub [CR, LF, CR, LF] r of
        Some pos \<Rightarrow> Some (take pos r, drop (pos + 4) r)
      | None \<Rightarrow>
        (case find_sub [LF, LF] r of
           Some pos \<Rightarrow> Some (take pos r, drop (pos + 2) r)
         | None \<Rightarrow> None))"

lemma sse_next_shorter: "sse_next r = Some (e, r') \<Longrightarrow> length r' < length r"
  using find_sub_bound[of "[CR, LF, CR, LF]" r] find_sub_bound[of "[LF, LF]" r]
  by (fastforce simp: sse_next_def split: option.splits)

function sse_push_loop :: "parse_ctx \<Rightarrow> string \<Rightarrow> HttpParseEvent list \<Rightarrow> string \<times> HttpParseEvent list" where
  "sse_push_loop cx r out =
     (case sse_next r of
        None \<Rightarrow> (r, out)
      | Some (event_text, r') \<Rightarrow>
          sse_push_loop cx r'
            (case parse_event cx event_text of None \<Rightarrow> out | Some ev \<Rightarrow> out @ [ev]))"
  by pat_completeness auto
termination
  by (relation "measure (\<lambda>(cx, r, out). length r)") (auto dest: sse_next_shorter)

declare sse_push_loop.simps [simp del]

definition sse_push :: "parse_ctx \<Rightarrow> SseParser \<Rightarrow> string \<Rightarrow> HttpParseEvent list \<Rightarrow> SseParser \<times> HttpParseEvent list" where
  "sse_push cx p text out =
     (let (r, out') = sse_push_loop cx (residual p @ text) out in (p\<lparr>residual := r\<rparr>, out'))"

definition sse_flush :: "parse_ctx \<Rightarrow> SseParser \<Rightarrow> HttpParseEvent list \<Rightarrow> SseParser \<times> HttpParseEvent list" where
  "sse_flush cx p out =
     (let trimmed = trim (residual p); p' = p\<lparr>residual := []\<rparr> in
      if trimmed = [] then (p', out)
      else (p', case parse_event cx trimmed of None \<Rightarrow> out | Some ev \<Rightarrow> out @ [ev]))"

section \<open>Streams\<close>

text \<open>The splitter as a reader step, and the streams it splits the same way in any segmentation:
  those that use one kind of line end.\<close>

definition sse_step :: "unit \<Rightarrow> string \<Rightarrow> (unit \<times> string \<times> string) option" where
  "sse_step s r = map_option (\<lambda>(e, r'). ((), e, r')) (sse_next r)"

definition one_line_end :: "string \<Rightarrow> bool" where
  "one_line_end s \<longleftrightarrow> CR \<notin> set s \<or> find_sub [LF, LF] s = None"

definition sse_view :: "HttpParseEvent \<Rightarrow> (string \<times> string) option" where
  "sse_view ev = (case ev of SseEvent e \<Rightarrow> Some (event_type e, sse_data e) | _ \<Rightarrow> None)"

fun sse_feed :: "SseParser \<Rightarrow> (parse_ctx \<times> string) list \<Rightarrow> HttpParseEvent list \<Rightarrow> SseParser \<times> HttpParseEvent list" where
  "sse_feed p [] out = (p, out)"
| "sse_feed p ((cx, t) # ps) out = (let (p', out') = sse_push cx p t out in sse_feed p' ps out')"

text \<open>An event as a server prints it: an optional \<open>event:\<close> line, \<open>data:\<close> lines, a blank line.\<close>

definition event_lines :: "string \<times> string list \<Rightarrow> string list" where
  "event_lines e = (if fst e = [] then [] else [''event: '' @ fst e]) @ map (\<lambda>d. ''data: '' @ d) (snd e)"

definition event_wire :: "string \<times> string list \<Rightarrow> string" where
  "event_wire e = join [LF] (event_lines e) @ [LF, LF]"

definition event_ok :: "string \<times> string list \<Rightarrow> bool" where
  "event_ok e \<longleftrightarrow> list_all graphic (fst e) \<and> event_lines e \<noteq> [] \<and>
     list_all (\<lambda>d. CR \<notin> set d \<and> LF \<notin> set d \<and> (d = [] \<or> hd d \<noteq> SP)) (snd e)"

definition event_of :: "parse_ctx \<Rightarrow> string \<times> string list \<Rightarrow> HttpParseEvent" where
  "event_of cx e = SseEvent \<lparr>sse_flow_key = cx_flow_key cx, sse_client_addr = cx_client_addr cx,
     sse_server_addr = cx_server_addr cx, event_type = fst e, sse_data = join [LF] (snd e),
     sse_timestamp_us = cx_server_last_ts cx, sse_process = None\<rparr>"

definition sample_ctx :: parse_ctx where
  "sample_ctx = \<lparr>cx_flow_key = \<lparr>source_id = [], addr_a = (V4 1, 1), addr_b = (V4 2, 443)\<rparr>,
     cx_client_addr = (V4 1, 1), cx_server_addr = (V4 2, 443), cx_client_ts = 0, cx_server_ts = 0,
     cx_server_last_ts = 0\<rparr>"

section \<open>Lemmas\<close>

lemma no_cr_no_blank: "CR \<notin> set s \<Longrightarrow> find_sub [CR, LF, CR, LF] s = None"
  by (auto simp: find_sub_None_iff dest: set_mono_sublist)

lemma one_line_end_suffix: "one_line_end (a @ b) \<Longrightarrow> one_line_end b"
  by (auto simp: one_line_end_def find_sub_None_iff sublist_append)

lemma sse_next_cut:
  assumes "sse_next r = Some (e, r')"
  obtains sep where "sep = [CR, LF, CR, LF] \<or> sep = [LF, LF]" "r = e @ sep @ r'"
  using assms find_sub_split[of "[CR, LF, CR, LF]" r] find_sub_split[of "[LF, LF]" r]
  unfolding sse_next_def by (auto simp: eval_nat_numeral split: option.splits)

lemma sse_next_append:
  assumes "one_line_end (r @ c)" and "sse_next r = Some (e, r')"
  shows "sse_next (r @ c) = Some (e, r' @ c)"
proof (cases "find_sub [CR, LF, CR, LF] r")
  case (Some i)
  then show ?thesis
    using assms(2) find_sub_append_stable[OF Some, of c] find_sub_bound[OF Some]
    by (auto simp: sse_next_def)
next
  case None
  then obtain i where i: "find_sub [LF, LF] r = Some i" "e = take i r" "r' = drop (i + 2) r"
    using assms(2) by (auto simp: sse_next_def split: option.splits)
  have "CR \<notin> set (r @ c)"
    using assms(1) find_sub_append_stable[OF i(1), of c] by (auto simp: one_line_end_def)
  then show ?thesis
    using i find_sub_append_stable[OF i(1), of c] find_sub_bound[OF i(1)] no_cr_no_blank[of "r @ c"]
    by (simp add: sse_next_def)
qed

interpretation sse: incremental_reader sse_step one_line_end
proof
  fix s s' y r b c
  show "length r < length b" if "sse_step s b = Some (s', y, r)"
    using that by (auto simp: sse_step_def dest: sse_next_shorter)
  show "sse_step s (b @ c) = Some (s', y, r @ c)"
    if "one_line_end (b @ c)" "sse_step s b = Some (s', y, r)"
    using that by (auto simp: sse_step_def sse_next_append)
  show "one_line_end (r @ c)" if "one_line_end (b @ c)" "sse_step s b = Some (s', y, r)"
  proof -
    from that(2) have "sse_next b = Some (y, r)" by (auto simp: sse_step_def)
    then obtain sep where "b = y @ sep @ r" by (rule sse_next_cut)
    with that(1) one_line_end_suffix[of "y @ sep" "r @ c"] show ?thesis by simp
  qed
qed

lemma sse_push_loop_drain:
  "drain_reader sse_step () r = ((), evs, rest) \<Longrightarrow>
   sse_push_loop cx r out = (rest, out @ List.map_filter (parse_event cx) evs)"
proof (induction r arbitrary: out evs rule: length_induct)
  case (1 r)
  show ?case
  proof (cases "sse_next r")
    case None
    then show ?thesis using 1(2)
      by (simp add: drain_reader.simps sse_step_def sse_push_loop.simps List.map_filter_simps)
  next
    case (Some p)
    then obtain e r' where er: "sse_next r = Some (e, r')" by (cases p) auto
    have lt: "length r' < length r" using er by (rule sse_next_shorter)
    have "sse_step () r = Some ((), e, r')" using er by (simp add: sse_step_def)
    then obtain evs' where "drain_reader sse_step () r' = ((), evs', rest)" "evs = e # evs'"
      using 1(2) lt by (auto simp: drain_reader.simps[of _ _ r] split: prod.splits)
    then show ?thesis
      using 1(1) er lt
      by (simp add: sse_push_loop.simps[of cx r] List.map_filter_simps split: option.splits)
  qed
qed

lemma parse_event_view:
  "map_option sse_view (parse_event cx t) = map_option sse_view (parse_event cx' t)"
  by (simp add: parse_event_def sse_view_def split: prod.splits)

lemma map_filter_view:
  "map sse_view (List.map_filter (parse_event cx) evs) = map sse_view (List.map_filter (parse_event cx') evs)"
proof (induction evs)
  case (Cons e evs)
  then show ?case using parse_event_view[of cx e cx']
    by (cases "parse_event cx e"; cases "parse_event cx' e") (auto simp: List.map_filter_simps)
qed (simp add: List.map_filter_simps)

lemma sse_feed_drain:
  assumes "feed_reader sse_step () (residual p) (map snd ps) = ((), evs, rest)"
  shows "\<exists>evts. sse_feed p ps out = (p\<lparr>residual := rest\<rparr>, out @ evts)
    \<and> map sse_view evts = map sse_view (List.map_filter (parse_event cx) evs)"
  using assms
proof (induction ps arbitrary: p out evs)
  case Nil
  then show ?case by (simp add: List.map_filter_simps)
next
  case (Cons q ps)
  obtain cx' t where q: "q = (cx', t)" by (cases q)
  obtain u ys r1 where d: "drain_reader sse_step () (residual p @ t) = (u, ys, r1)"
    by (cases "drain_reader sse_step () (residual p @ t)")
  obtain zs where f: "feed_reader sse_step () r1 (map snd ps) = ((), zs, rest)" and evs: "evs = ys @ zs"
    using Cons.prems q d by (auto split: prod.splits)
  have "sse_push cx' p t out = (p\<lparr>residual := r1\<rparr>, out @ List.map_filter (parse_event cx') ys)"
    using sse_push_loop_drain[of "residual p @ t" ys r1 cx' out] d by (simp add: sse_push_def)
  then obtain evts where "sse_feed p (q # ps) out
      = (p\<lparr>residual := rest\<rparr>, (out @ List.map_filter (parse_event cx') ys) @ evts)"
    "map sse_view evts = map sse_view (List.map_filter (parse_event cx) zs)"
    using Cons.IH[of "p\<lparr>residual := r1\<rparr>" zs "out @ List.map_filter (parse_event cx') ys"] f q by auto
  then show ?case
    using map_filter_view[of cx' ys cx] by (auto simp: evs map_filter_append)
qed

lemma lines_join:
  "ls \<noteq> [] \<Longrightarrow> list_all (\<lambda>l. l \<noteq> [] \<and> CR \<notin> set l \<and> LF \<notin> set l) ls \<Longrightarrow> lines (join [LF] ls) = ls"
proof (induction "[LF]" ls rule: join.induct)
  case (2 x)
  then have "dropWhile (\<lambda>c. c \<noteq> LF) x = []" by auto
  then show ?case using 2 by (simp add: lines.simps[of x] del: dropWhile_eq_Nil_conv)
next
  case (3 x y xs)
  then show ?case by (auto simp: lines_cons strip_cr_id)
qed simp

lemma find_blank_line:
  "ls \<noteq> [] \<Longrightarrow> list_all (\<lambda>l. l \<noteq> [] \<and> LF \<notin> set l) ls \<Longrightarrow>
   find_sub [LF, LF] (join [LF] ls @ LF # LF # r) = Some (length (join [LF] ls))"
proof (induction "[LF]" ls rule: join.induct)
  case (2 x)
  then show ?case by (simp add: find_sub_pair)
next
  case (3 x y xs)
  let ?w = "join [LF] (y # xs) @ LF # LF # r"
  have "?w \<noteq> []" "hd ?w \<noteq> LF" using 3(3) by (cases xs; cases y; auto)+
  then have "find_sub [LF, LF] (LF # ?w) = map_option Suc (find_sub [LF, LF] ?w)"
    by (cases ?w) auto
  moreover have "find_sub [LF, LF] (x @ z) =
      (case find_sub [LF, LF] z of None \<Rightarrow> None | Some n \<Rightarrow> Some (length x + n))"
    if "LF \<notin> set x" for z
    using that by (induction x) (auto split: option.splits)
  ultimately show ?case using 3 by simp
qed simp

lemma sse_fields_data:
  "list_all (\<lambda>d. d = [] \<or> hd d \<noteq> SP) ds \<Longrightarrow>
   sse_fields (map (\<lambda>d. ''data: '' @ d) ds) ty parts = (ty, parts @ ds)"
proof (induction ds arbitrary: parts)
  case (Cons d ds)
  then show ?case by (cases d) (auto simp: strip_prefix_def trim_start_spaces_def)
qed simp

lemma sse_fields_event:
  assumes "event_ok e"
  shows "sse_fields (event_lines e) [] [] = (fst e, snd e)"
proof -
  have "list_all (\<lambda>d. d = [] \<or> hd d \<noteq> SP) (snd e)" "trim (fst e) = fst e"
    using assms by (auto simp: event_ok_def list_all_iff trim_graphic)
  then show ?thesis
    by (cases e) (auto simp: event_lines_def sse_fields_data[simplified] strip_prefix_def trim_SP)
qed

lemma event_lines_clean:
  assumes "event_ok e"
  shows "event_lines e \<noteq> []" "list_all (\<lambda>l. l \<noteq> [] \<and> CR \<notin> set l \<and> LF \<notin> set l) (event_lines e)"
proof -
  have "CR \<notin> set (fst e)" "LF \<notin> set (fst e)"
    using assms by (auto simp: event_ok_def list_all_iff graphic_def)
  then show "event_lines e \<noteq> []" "list_all (\<lambda>l. l \<noteq> [] \<and> CR \<notin> set l \<and> LF \<notin> set l) (event_lines e)"
    using assms by (auto simp: event_ok_def event_lines_def list_all_iff)
qed

lemma no_cr_wire: "event_ok e \<Longrightarrow> CR \<notin> set (event_wire e)"
proof -
  assume "event_ok e"
  moreover have "CR \<notin> set (join [LF] ls)"
    if "list_all (\<lambda>l. l \<noteq> [] \<and> CR \<notin> set l \<and> LF \<notin> set l) ls" for ls
    using that by (induction "[LF]" ls rule: join.induct) auto
  ultimately show ?thesis using event_lines_clean(2) by (simp add: event_wire_def)
qed

lemma sse_next_wire:
  assumes "event_ok e" and "CR \<notin> set rest"
  shows "sse_next (event_wire e @ rest) = Some (join [LF] (event_lines e), rest)"
proof -
  note l = event_lines_clean[OF assms(1)]
  have "find_sub [CR, LF, CR, LF] (event_wire e @ rest) = None"
    using no_cr_wire[OF assms(1)] assms(2) by (intro no_cr_no_blank) auto
  moreover have "find_sub [LF, LF] (event_wire e @ rest) = Some (length (join [LF] (event_lines e)))"
    using find_blank_line[OF l(1), of rest] l(2) by (simp add: event_wire_def list_all_iff)
  ultimately show ?thesis by (simp add: sse_next_def event_wire_def)
qed

lemma parse_event_wire:
  assumes "event_ok e"
  shows "parse_event cx (join [LF] (event_lines e)) = Some (event_of cx e)"
proof -
  have "snd e \<noteq> [] \<or> fst e \<noteq> []" using assms by (auto simp: event_ok_def event_lines_def)
  then show ?thesis
    using sse_fields_event[OF assms] lines_join[OF event_lines_clean[OF assms]]
    by (cases e) (auto simp: parse_event_def event_of_def)
qed

lemma sse_push_loop_wires:
  "list_all event_ok es \<Longrightarrow> CR \<notin> set rest \<Longrightarrow> sse_next rest = None \<Longrightarrow>
   sse_push_loop cx (concat (map event_wire es) @ rest) out = (rest, out @ map (event_of cx) es)"
proof (induction es arbitrary: out)
  case Nil
  then show ?case by (simp add: sse_push_loop.simps)
next
  case (Cons e es)
  have "CR \<notin> set (concat (map event_wire es) @ rest)"
    using Cons.prems by (auto simp: list_all_iff no_cr_wire)
  then have "sse_next (event_wire e @ concat (map event_wire es) @ rest)
      = Some (join [LF] (event_lines e), concat (map event_wire es) @ rest)"
    using Cons.prems by (intro sse_next_wire) auto
  then show ?case using Cons
    by (simp add: sse_push_loop.simps[of cx "event_wire e @ concat (map event_wire es) @ rest"]
        parse_event_wire)
qed

lemmas sse_eval = sse_push_def sse_push_loop.simps sse_next_def parse_event_def lines.simps strip_cr_def
  strip_prefix_def trim_start_spaces_def sse_view_def

lemma sse_push_push:
  assumes "one_line_end (residual p @ a @ b)" and "sse_push cx p a out = (p1, out1)"
  shows "sse_push cx p (a @ b) out = sse_push cx p1 b out1"
    and "one_line_end (residual p1 @ b) \<and> sse_next (residual p1) = None"
proof -
  obtain ys r1 where d: "drain_reader sse_step () (residual p @ a) = ((), ys, r1)"
    by (cases "drain_reader sse_step () (residual p @ a)") simp
  obtain zs q where d2: "drain_reader sse_step () (r1 @ b) = ((), zs, q)"
    by (cases "drain_reader sse_step () (r1 @ b)") simp
  have ok: "one_line_end ((residual p @ a) @ b)" using assms(1) by simp
  have d3: "drain_reader sse_step () (residual p @ a @ b) = ((), ys @ zs, q)"
    using sse.drain_append[OF ok d] d2 by simp
  have p1: "p1 = p\<lparr>residual := r1\<rparr>" "out1 = out @ List.map_filter (parse_event cx) ys"
    using sse_push_loop_drain[OF d, of cx out] assms(2) by (simp_all add: sse_push_def)
  show "sse_push cx p (a @ b) out = sse_push cx p1 b out1"
    using sse_push_loop_drain[OF d3, of cx out] sse_push_loop_drain[OF d2, of cx out1] p1
    by (simp add: sse_push_def map_filter_append)
  show "one_line_end (residual p1 @ b) \<and> sse_next (residual p1) = None"
    using sse.drain_rest[OF ok d] p1 by (simp add: sse_step_def)
qed

section \<open>Properties\<close>

text \<open>C9: For an event stream that uses one kind of line end, feeding its pieces as they arrive
  leaves the same residual and emits events of the same types and data as feeding the whole
  text at once (only the timestamps differ).\<close>

theorem sse_any_segmentation:
  assumes "one_line_end (residual p @ concat (map snd ps))" and "sse_next (residual p) = None"
  shows "\<exists>q evts evts'. sse_feed p ps out = (q, out @ evts)
    \<and> sse_push cx p (concat (map snd ps)) out = (q, out @ evts')
    \<and> map sse_view evts = map sse_view evts'"
proof -
  obtain evs rest where d: "drain_reader sse_step () (residual p @ concat (map snd ps)) = ((), evs, rest)"
    by (cases "drain_reader sse_step () (residual p @ concat (map snd ps))") simp
  then have "feed_reader sse_step () (residual p) (map snd ps) = ((), evs, rest)"
    using sse.feed_concat[OF assms(1), of "()"] assms(2) by (simp add: sse_step_def)
  then obtain evts where "sse_feed p ps out = (p\<lparr>residual := rest\<rparr>, out @ evts)"
    "map sse_view evts = map sse_view (List.map_filter (parse_event cx) evs)"
    using sse_feed_drain by blast
  then show ?thesis using sse_push_loop_drain[OF d, of cx out] by (auto simp: sse_push_def)
qed

theorem sse_any_segmentation_witness:
  "one_line_end (residual \<lparr>residual = ''da''\<rparr> @ concat (map snd
      [(sample_ctx, ''ta: x'' @ [LF]), (sample_ctx, [LF] @ ''data: y'' @ [LF, LF])]))
   \<and> (\<exists>q evts evts'. sse_feed \<lparr>residual = ''da''\<rparr>
        [(sample_ctx, ''ta: x'' @ [LF]), (sample_ctx, [LF] @ ''data: y'' @ [LF, LF])] [] = (q, [] @ evts)
      \<and> sse_push sample_ctx \<lparr>residual = ''da''\<rparr> (concat (map snd
        [(sample_ctx, ''ta: x'' @ [LF]), (sample_ctx, [LF] @ ''data: y'' @ [LF, LF])])) [] = (q, [] @ evts')
      \<and> map sse_view evts = map sse_view evts')"
proof -
  have "one_line_end (residual \<lparr>residual = ''da''\<rparr> @ concat (map snd
      [(sample_ctx, ''ta: x'' @ [LF]), (sample_ctx, [LF] @ ''data: y'' @ [LF, LF])]))"
    by (simp add: one_line_end_def)
  moreover have "sse_next (residual \<lparr>residual = ''da''\<rparr>) = None" by (simp add: sse_next_def)
  ultimately show ?thesis using sse_any_segmentation by blast
qed

text \<open>C10: What a server prints is what is emitted: for well-formed events the splitter yields
  exactly these events, in order, with their type and their data lines joined, and keeps
  nothing back.\<close>

theorem sse_round_trip:
  assumes "list_all event_ok es" and "residual p = []"
  shows "sse_push cx p (concat (map event_wire es)) out = (p, out @ map (event_of cx) es)"
proof -
  have "sse_next [] = None" by (simp add: sse_next_def)
  then show ?thesis using sse_push_loop_wires[of es "[]" cx out] assms by (simp add: sse_push_def)
qed

theorem sse_round_trip_witness:
  "sse_push sample_ctx \<lparr>residual = []\<rparr>
     (''event: ping'' @ [LF] @ ''data: {}'' @ [LF, LF] @ ''data: a b'' @ [LF] @ ''data: c'' @ [LF, LF]) []
   = (\<lparr>residual = []\<rparr>, [event_of sample_ctx (''ping'', [''{}'']), event_of sample_ctx ([], [''a b'', ''c''])])"
proof -
  have "list_all event_ok [(''ping'', [''{}'']), ([], [''a b'', ''c''])]"
    by (simp add: event_ok_def event_lines_def graphic_def)
  then have "sse_push sample_ctx \<lparr>residual = []\<rparr>
      (concat (map event_wire [(''ping'', [''{}'']), ([], [''a b'', ''c''])])) []
    = (\<lparr>residual = []\<rparr>, [] @ map (event_of sample_ctx) [(''ping'', [''{}'']), ([], [''a b'', ''c''])])"
    by (rule sse_round_trip) simp
  then show ?thesis by (simp add: event_wire_def event_lines_def)
qed

text \<open>A CRLF blank line anywhere in the residual is cut before an earlier LF one, so of a stream
  with both kinds two events that arrive together are merged into one, though they are
  separate when they arrive apart.\<close>

theorem sse_mixed_line_ends_merge:
  "map sse_view (snd (sse_feed \<lparr>residual = []\<rparr>
      [(cx, ''data: a'' @ [LF, LF]), (cx, ''data: b'' @ [CR, LF, CR, LF])] []))
     = [Some ([], ''a''), Some ([], ''b'')]
   \<and> map sse_view (snd (sse_push cx \<lparr>residual = []\<rparr>
      (''data: a'' @ [LF, LF] @ ''data: b'' @ [CR, LF, CR, LF]) []))
     = [Some ([], ''a'' @ [LF] @ ''b'')]"
  by (simp add: sse_eval)

end
