(* ===== verification/Http.thy ===== *)
theory Http
  imports Sse
begin

text \<open>
  \<^verbatim>\<open>server/h-protocol/src/http.rs\<close>, third part: the incremental parser that pairs requests with
  responses from the two reassembled directions of a connection. The nested loops of \<open>parse\<close>
  are one loop over \<open>parse_step\<close>: an inner \<open>continue\<close> leaves the parser state unchanged and
  re-enters the same branch. The loop has fuel; \<open>parse_unfold\<close> shows that the fuel
  \<open>parse\<close> gives it is enough.
\<close>

section \<open>State\<close>

datatype ParserState = WaitingForRequest | ReadingRequestBody | WaitingForResponse | ReadingResponseBody

record 'd HttpParser =
  hp_state :: ParserState
  pending_method :: string
  pending_uri :: string
  pending_req_version :: u8
  pending_req_headers :: headers
  pending_req_timestamp :: int
  last_request_method :: string
  pending_resp_status :: u16
  pending_resp_version :: u8
  pending_resp_headers :: headers
  pending_resp_timestamp :: int
  pending_resp_is_sse :: bool
  body_reader :: "'d BodyReader"
  sse_parser :: SseParser

datatype ParseResult = ParseOk | NeedResync

section \<open>The parser\<close>

definition HttpParser_new :: "'d HttpParser" where
  "HttpParser_new =
     \<lparr>hp_state = WaitingForRequest, pending_method = [], pending_uri = [], pending_req_version = 1,
      pending_req_headers = [], pending_req_timestamp = 0, last_request_method = [],
      pending_resp_status = 0, pending_resp_version = 1, pending_resp_headers = [],
      pending_resp_timestamp = 0, pending_resp_is_sse = False,
      body_reader = BodyReader_new, sse_parser = \<lparr>residual = []\<rparr>\<rparr>"

definition is_waiting_for_response :: "'d HttpParser \<Rightarrow> bool" where
  "is_waiting_for_response p \<longleftrightarrow> hp_state p = WaitingForResponse \<or> hp_state p = ReadingResponseBody"

definition lossy_headers :: "(string \<times> bytes) list \<Rightarrow> headers" where
  "lossy_headers hs = map (\<lambda>(k, v). (k, from_utf8_lossy v)) hs"

text \<open>\<open>Some (Some True)\<close> is \<open>Some(true)\<close> of the code, \<open>Some None\<close> its \<open>None\<close>; the outer \<open>None\<close> is a
  panic of \<open>split_to\<close>.\<close>

definition try_parse_request_headers ::
  "'d libs \<Rightarrow> 'd HttpParser \<Rightarrow> bytes \<Rightarrow> int \<Rightarrow> (bool option \<times> 'd HttpParser \<times> bytes) option" where
  "try_parse_request_headers lib p buf ts =
     (case hp_request lib buf of
        HpComplete n rq \<Rightarrow>
          (let m = (case rq_method rq of Some m \<Rightarrow> m | None \<Rightarrow> []);
               p' = p\<lparr>pending_method := m,
                      pending_uri := (case rq_path rq of Some u \<Rightarrow> u | None \<Rightarrow> []),
                      pending_req_version := (case rq_version rq of Some v \<Rightarrow> v | None \<Rightarrow> 1),
                      pending_req_headers := lossy_headers (rq_headers rq),
                      last_request_method := m,
                      pending_req_timestamp := ts\<rparr>
           in case split_to n buf of None \<Rightarrow> None | Some (_, buf') \<Rightarrow> Some (Some True, p', buf'))
      | HpPartial \<Rightarrow> Some (Some False, p, buf)
      | HpError \<Rightarrow> Some (None, p, buf))"

definition try_parse_response_headers ::
  "'d libs \<Rightarrow> 'd HttpParser \<Rightarrow> bytes \<Rightarrow> int \<Rightarrow> (bool option \<times> 'd HttpParser \<times> bytes) option" where
  "try_parse_response_headers lib p buf ts =
     (case hp_response lib buf of
        HpComplete n rs \<Rightarrow>
          (let hs = lossy_headers (rs_headers rs);
               p' = p\<lparr>pending_resp_status := (case rs_code rs of Some c \<Rightarrow> c | None \<Rightarrow> 0),
                      pending_resp_version := (case rs_version rs of Some v \<Rightarrow> v | None \<Rightarrow> 1),
                      pending_resp_headers := hs,
                      pending_resp_is_sse := is_sse hs,
                      pending_resp_timestamp := ts\<rparr>
           in case split_to n buf of None \<Rightarrow> None | Some (_, buf') \<Rightarrow> Some (Some True, p', buf'))
      | HpPartial \<Rightarrow> Some (Some False, p, buf)
      | HpError \<Rightarrow> Some (None, p, buf))"

record 'd pstate =
  ps_parser :: "'d HttpParser"
  ps_client_buf :: bytes
  ps_server_buf :: bytes
  ps_output :: "HttpParseEvent list"

datatype 'd outcome = Continue "'d pstate" | Stop ParseResult "'d pstate"

definition request_event :: "parse_ctx \<Rightarrow> 'd HttpParser \<Rightarrow> bytes \<Rightarrow> HttpParseEvent" where
  "request_event cx p body =
     HttpRequest \<lparr>req_flow_key = cx_flow_key cx, req_client_addr = cx_client_addr cx,
       req_server_addr = cx_server_addr cx, req_method = pending_method p, req_uri = pending_uri p,
       req_version = pending_req_version p, req_headers = pending_req_headers p,
       req_body = body, req_timestamp_us = pending_req_timestamp p, req_process = None\<rparr>"

definition response_event :: "parse_ctx \<Rightarrow> 'd HttpParser \<Rightarrow> bytes \<Rightarrow> int \<Rightarrow> HttpParseEvent" where
  "response_event cx p body complete_ts =
     HttpResponse \<lparr>resp_flow_key = cx_flow_key cx, resp_client_addr = cx_client_addr cx,
       resp_server_addr = cx_server_addr cx, resp_status = pending_resp_status p,
       resp_version = pending_resp_version p, resp_headers = pending_resp_headers p,
       resp_body = body, first_byte_timestamp_us = pending_resp_timestamp p,
       complete_timestamp_us = complete_ts, resp_process = None\<rparr>"

text \<open>Feed a chunk that is valid UTF-8 to the SSE splitter; any other chunk is dropped.\<close>

definition feed_sse :: "parse_ctx \<Rightarrow> 'd HttpParser \<Rightarrow> bytes \<Rightarrow> HttpParseEvent list \<Rightarrow> 'd HttpParser \<times> HttpParseEvent list" where
  "feed_sse cx p chunk out =
     (case from_utf8 chunk of
        Some text \<Rightarrow>
          (let (sp, out') = sse_push cx (sse_parser p) text out in (p\<lparr>sse_parser := sp\<rparr>, out'))
      | None \<Rightarrow> (p, out))"

text \<open>What \<open>Complete\<close> and \<open>finish_response\<close> share: feed and flush the SSE splitter, emit the
  response (with no body when it was SSE), and wait for the next request.\<close>

definition complete_response ::
  "parse_ctx \<Rightarrow> 'd HttpParser \<Rightarrow> bytes \<Rightarrow> HttpParseEvent list \<Rightarrow> 'd HttpParser \<times> HttpParseEvent list" where
  "complete_response cx p body out =
     (let (p1, out1) =
        (if pending_resp_is_sse p then
           (let (q, o1) = (if \<not> was_incremental (body_reader p) then feed_sse cx p body out else (p, out));
                (sp, o2) = sse_flush cx (sse_parser q) o1
            in (q\<lparr>sse_parser := sp\<rparr>, o2))
         else (p, out));
        emitted = (if pending_resp_is_sse p1 then [] else body)
      in (p1\<lparr>pending_resp_headers := [], hp_state := WaitingForRequest\<rparr>,
          out1 @ [response_event cx p1 emitted (cx_server_last_ts cx)]))"

definition parse_step :: "'d libs \<Rightarrow> parse_ctx \<Rightarrow> 'd pstate \<Rightarrow> 'd outcome option" where
  "parse_step lib cx st =
     (let p = ps_parser st in
      case hp_state p of
        WaitingForRequest \<Rightarrow>
          (case try_parse_request_headers lib p (ps_client_buf st) (cx_client_ts cx) of
             None \<Rightarrow> None
           | Some (None, p', b) \<Rightarrow> Some (Stop NeedResync (st\<lparr>ps_parser := p', ps_client_buf := b\<rparr>))
           | Some (Some False, p', b) \<Rightarrow> Some (Stop ParseOk (st\<lparr>ps_parser := p', ps_client_buf := b\<rparr>))
           | Some (Some True, p', b) \<Rightarrow>
               Some (Continue (st\<lparr>ps_parser := p'\<lparr>body_reader := new_for_request (pending_req_headers p'),
                                                 hp_state := ReadingRequestBody\<rparr>,
                                  ps_client_buf := b\<rparr>)))
      | ReadingRequestBody \<Rightarrow>
          (case body_read lib (body_reader p) (ps_client_buf st) of
             None \<Rightarrow> None
           | Some (res, br, b) \<Rightarrow>
             (let st' = st\<lparr>ps_parser := p\<lparr>body_reader := br\<rparr>, ps_client_buf := b\<rparr> in
              case res of
                ChunkDecoded _ \<Rightarrow> Some (Continue st')
              | Complete body \<Rightarrow>
                  Some (Continue (st'\<lparr>ps_parser := p\<lparr>body_reader := br, pending_method := [],
                          pending_uri := [], pending_req_headers := [], hp_state := WaitingForResponse\<rparr>,
                        ps_output := ps_output st @ [request_event cx p body]\<rparr>))
              | NeedMore \<Rightarrow> Some (Stop ParseOk st')
              | ReadError \<Rightarrow> Some (Stop NeedResync st')))
      | WaitingForResponse \<Rightarrow>
          (case try_parse_response_headers lib p (ps_server_buf st) (cx_server_ts cx) of
             None \<Rightarrow> None
           | Some (None, p', b) \<Rightarrow> Some (Stop NeedResync (st\<lparr>ps_parser := p', ps_server_buf := b\<rparr>))
           | Some (Some False, p', b) \<Rightarrow> Some (Stop ParseOk (st\<lparr>ps_parser := p', ps_server_buf := b\<rparr>))
           | Some (Some True, p', b) \<Rightarrow>
             (let br = new_for_response lib (pending_resp_status p') (last_request_method p')
                         (pending_resp_headers p');
                  br' = (if pending_resp_is_sse p' then br\<lparr>skip_accumulation := True\<rparr> else br);
                  sp = (if pending_resp_is_sse p' then (sse_parser p')\<lparr>residual := []\<rparr> else sse_parser p');
                  q = p'\<lparr>body_reader := br', sse_parser := sp\<rparr>
              in if is_no_body br'
                 then Some (Continue (st\<lparr>ps_parser := q\<lparr>pending_resp_headers := [], hp_state := WaitingForRequest\<rparr>,
                        ps_server_buf := b,
                        ps_output := ps_output st @ [response_event cx q [] (cx_server_ts cx)]\<rparr>))
                 else Some (Continue (st\<lparr>ps_parser := q\<lparr>hp_state := ReadingResponseBody\<rparr>, ps_server_buf := b\<rparr>))))
      | ReadingResponseBody \<Rightarrow>
          (case body_read lib (body_reader p) (ps_server_buf st) of
             None \<Rightarrow> None
           | Some (res, br, b) \<Rightarrow>
             (let q = p\<lparr>body_reader := br\<rparr>; st' = st\<lparr>ps_parser := q, ps_server_buf := b\<rparr> in
              case res of
                ChunkDecoded chunk \<Rightarrow>
                  (let (q', out) = (if pending_resp_is_sse q then feed_sse cx q chunk (ps_output st)
                                    else (q, ps_output st))
                   in Some (Continue (st'\<lparr>ps_parser := q', ps_output := out\<rparr>)))
              | Complete body \<Rightarrow>
                  (let (q', out) = complete_response cx q body (ps_output st)
                   in Some (Continue (st'\<lparr>ps_parser := q', ps_output := out\<rparr>)))
              | NeedMore \<Rightarrow> Some (Stop ParseOk st')
              | ReadError \<Rightarrow> Some (Stop NeedResync st'))))"

fun parse_loop :: "'d libs \<Rightarrow> parse_ctx \<Rightarrow> nat \<Rightarrow> 'd pstate \<Rightarrow> (ParseResult \<times> 'd pstate) option" where
  "parse_loop lib cx 0 st = None"
| "parse_loop lib cx (Suc fuel) st =
     (case parse_step lib cx st of
        None \<Rightarrow> None
      | Some (Stop r st') \<Rightarrow> Some (r, st')
      | Some (Continue st') \<Rightarrow> parse_loop lib cx fuel st')"

definition parse_measure :: "'d pstate \<Rightarrow> nat" where
  "parse_measure st =
     2 * (length (ps_client_buf st) + length (ps_server_buf st)) +
     (if hp_state (ps_parser st) = ReadingRequestBody \<or> hp_state (ps_parser st) = ReadingResponseBody
      then 1 else 0)"

definition parse :: "'d libs \<Rightarrow> parse_ctx \<Rightarrow> 'd pstate \<Rightarrow> (ParseResult \<times> 'd pstate) option" where
  "parse lib cx st = parse_loop lib cx (Suc (parse_measure st)) st"

definition finish_response ::
  "'d libs \<Rightarrow> parse_ctx \<Rightarrow> 'd HttpParser \<Rightarrow> bytes \<Rightarrow> HttpParseEvent list
    \<Rightarrow> 'd HttpParser \<times> bytes \<times> HttpParseEvent list" where
  "finish_response lib cx p server_buf out =
     (if hp_state p \<noteq> ReadingResponseBody then (p, server_buf, out)
      else
        (let (body, br, b) = body_finish lib (body_reader p) server_buf;
             (p', out') = complete_response cx (p\<lparr>body_reader := br\<rparr>) body out
         in (p', b, out')))"

section \<open>Runs of the parser\<close>

definition parse_cont :: "'d libs \<Rightarrow> parse_ctx \<Rightarrow> 'd pstate \<Rightarrow> 'd pstate \<Rightarrow> bool" where
  "parse_cont lib cx st st' \<longleftrightarrow> parse_step lib cx st = Some (Continue st')"

fun outcome_state :: "'d outcome \<Rightarrow> 'd pstate" where
  "outcome_state (Continue st) = st"
| "outcome_state (Stop r st) = st"

text \<open>The abstract protocol of one connection: a request, then any number of SSE events, then the
  response.\<close>

datatype phase = Idle | Awaiting

fun exchange_step :: "phase \<Rightarrow> HttpParseEvent \<Rightarrow> phase option" where
  "exchange_step Idle (HttpRequest _) = Some Awaiting"
| "exchange_step Awaiting (SseEvent _) = Some Awaiting"
| "exchange_step Awaiting (HttpResponse _) = Some Idle"
| "exchange_step _ _ = None"

definition phase_of :: "'d HttpParser \<Rightarrow> phase" where
  "phase_of p = (if is_waiting_for_response p then Awaiting else Idle)"

fun event_of_conn :: "parse_ctx \<Rightarrow> HttpParseEvent \<Rightarrow> bool" where
  "event_of_conn cx (HttpRequest r) \<longleftrightarrow> req_flow_key r = cx_flow_key cx
     \<and> req_client_addr r = cx_client_addr cx \<and> req_server_addr r = cx_server_addr cx \<and> req_process r = None"
| "event_of_conn cx (HttpResponse r) \<longleftrightarrow> resp_flow_key r = cx_flow_key cx
     \<and> resp_client_addr r = cx_client_addr cx \<and> resp_server_addr r = cx_server_addr cx \<and> resp_process r = None"
| "event_of_conn cx (SseEvent e) \<longleftrightarrow> sse_flow_key e = cx_flow_key cx
     \<and> sse_client_addr e = cx_client_addr cx \<and> sse_server_addr e = cx_server_addr cx \<and> sse_process e = None"
| "event_of_conn cx (Heartbeat _ _) \<longleftrightarrow> False"

definition exchange :: "parse_ctx \<Rightarrow> phase \<Rightarrow> HttpParseEvent list \<Rightarrow> phase \<Rightarrow> bool" where
  "exchange cx s evs t \<longleftrightarrow> list_all (event_of_conn cx) evs \<and> run_steps exchange_step s evs = Some t"

text \<open>No line of the buffer, read as a chunk size, is near \<open>2 ^ 64\<close>.\<close>

definition size_bounded :: "bytes \<Rightarrow> bool" where
  "size_bounded b \<longleftrightarrow> length b < 2 ^ 62 \<and>
     (\<forall>s e n. suffix s b \<longrightarrow> find_crlf s = Some e \<longrightarrow> chunk_size_of (take e s) = Some n \<longrightarrow> n < 2 ^ 62)"

definition sample_pstate :: "unit pstate" where
  "sample_pstate = \<lparr>ps_parser = HttpParser_new,
     ps_client_buf = [13, 10, 13, 10, 49, 13, 10, 120, 13, 10, 48, 13, 10, 13, 10],
     ps_server_buf = [], ps_output = []\<rparr>"

definition continue_libs :: "unit libs" where
  "continue_libs = sample_libs\<lparr>hp_response := (\<lambda>b. case find_sub [13, 10, 13, 10] b of
       None \<Rightarrow> HpPartial
     | Some n \<Rightarrow> HpComplete (n + 4) \<lparr>rs_code = Some 100, rs_version = Some 1, rs_headers = []\<rparr>)\<rparr>"

section \<open>Lemmas\<close>

lemma size_bounded_suffix: "size_bounded b \<Longrightarrow> suffix c b \<Longrightarrow> size_bounded c"
  unfolding size_bounded_def using suffix_length_le[of c b] by (meson le_less_trans suffix_order.trans)

lemma request_headers_shape:
  assumes "httparse_ok lib"
  shows "try_parse_request_headers lib p buf ts \<noteq> None"
    and "try_parse_request_headers lib p buf ts = Some (res, p', b) \<Longrightarrow>
      suffix b buf \<and> (res = Some True \<longrightarrow> length b < length buf)"
  using assms
  by (auto simp: try_parse_request_headers_def httparse_ok_def Let_def suffix_drop
      split: hp_status.splits option.splits; fastforce)+

lemma response_headers_shape:
  assumes "httparse_ok lib"
  shows "try_parse_response_headers lib p buf ts \<noteq> None"
    and "try_parse_response_headers lib p buf ts = Some (res, p', b) \<Longrightarrow>
      suffix b buf \<and> (res = Some True \<longrightarrow> length b < length buf)"
  using assms
  by (auto simp: try_parse_response_headers_def httparse_ok_def Let_def suffix_drop
      split: hp_status.splits option.splits; fastforce)+

lemma complete_response_idle: "hp_state (fst (complete_response cx p body out)) = WaitingForRequest"
  by (simp add: complete_response_def Let_def split: prod.splits)

lemma feed_sse_state: "hp_state (fst (feed_sse cx p chunk out)) = hp_state p"
  by (simp add: feed_sse_def split: option.splits prod.splits)

lemma parse_step_decreases:
  assumes "httparse_ok lib" and "parse_step lib cx st = Some (Continue st')"
  shows "parse_measure st' < parse_measure st"
proof (cases "hp_state (ps_parser st)")
  case WaitingForRequest
  then show ?thesis using assms(2) request_headers_shape(2)[OF assms(1)]
    by (fastforce simp: parse_step_def parse_measure_def Let_def split: option.splits bool.splits prod.splits)
next
  case ReadingRequestBody
  then show ?thesis using assms(2)
    by (fastforce simp: parse_step_def parse_measure_def Let_def
        split: option.splits prod.splits ReadResult.splits
        dest: body_read_progress body_read_suffix[THEN suffix_length_le])
next
  case WaitingForResponse
  then show ?thesis using assms(2) response_headers_shape(2)[OF assms(1)]
    by (fastforce simp: parse_step_def parse_measure_def Let_def split: option.splits bool.splits prod.splits if_splits)
next
  case ReadingResponseBody
  then obtain res br b where br: "body_read lib (body_reader (ps_parser st)) (ps_server_buf st) = Some (res, br, b)"
    using assms(2)
    by (cases "body_read lib (body_reader (ps_parser st)) (ps_server_buf st)")
      (auto simp: parse_step_def Let_def)
  note le = body_read_suffix[OF br, THEN suffix_length_le]
  show ?thesis
  proof (cases res)
    case (ChunkDecoded d)
    have lt: "length b < length (ps_server_buf st)" using br ChunkDecoded body_read_progress by blast
    have "ps_client_buf st' = ps_client_buf st" "ps_server_buf st' = b"
      using assms(2) ReadingResponseBody br ChunkDecoded
      by (auto simp: parse_step_def Let_def split: prod.splits)
    then show ?thesis using lt ReadingResponseBody by (simp add: parse_measure_def)
  next
    case (Complete d)
    have "ps_client_buf st' = ps_client_buf st" "ps_server_buf st' = b"
      "hp_state (ps_parser st') = WaitingForRequest"
      using assms(2) ReadingResponseBody br Complete
        complete_response_idle[of cx "(ps_parser st)\<lparr>body_reader := br\<rparr>" d "ps_output st"]
      by (auto simp: parse_step_def Let_def split: prod.splits)
    then show ?thesis using le ReadingResponseBody by (simp add: parse_measure_def)
  qed (use assms(2) ReadingResponseBody br in \<open>auto simp: parse_step_def Let_def\<close>)
qed

lemma parse_loop_fuel:
  assumes "httparse_ok lib"
  shows "parse_measure st < fuel \<Longrightarrow> parse_measure st < fuel' \<Longrightarrow>
    parse_loop lib cx fuel st = parse_loop lib cx fuel' st"
proof (induction fuel arbitrary: st fuel')
  case (Suc fuel)
  then obtain f where f: "fuel' = Suc f" by (cases fuel') auto
  have "parse_loop lib cx fuel st' = parse_loop lib cx f st'"
    if "parse_step lib cx st = Some (Continue st')" for st'
    using parse_step_decreases[OF assms that] Suc.prems f by (intro Suc.IH) auto
  then show ?case by (auto simp: f split: option.splits outcome.splits)
qed simp

lemma parse_unfold:
  assumes "httparse_ok lib"
  shows "parse lib cx st =
    (case parse_step lib cx st of
       None \<Rightarrow> None
     | Some (Stop r st') \<Rightarrow> Some (r, st')
     | Some (Continue st') \<Rightarrow> parse lib cx st')"
proof -
  have "parse_loop lib cx (parse_measure st) st' = parse lib cx st'"
    if "parse_step lib cx st = Some (Continue st')" for st'
    unfolding parse_def using parse_step_decreases[OF assms that]
    by (intro parse_loop_fuel[OF assms]) auto
  then show ?thesis by (auto simp: parse_def[of lib cx st] split: option.splits outcome.splits)
qed

lemma parse_conts:
  assumes "httparse_ok lib" and "(parse_cont lib cx)\<^sup>*\<^sup>* st st'"
  shows "parse lib cx st = parse lib cx st'"
  using assms(2)
proof induction
  case (step y z)
  then show ?case using parse_unfold[OF assms(1), of cx y] by (simp add: parse_cont_def)
qed simp

lemma body_read_returns:
  "size_bounded buf \<Longrightarrow> body_read lib r buf \<noteq> None"
  using read_chunk_returns[of buf lib r]
  by (auto simp: body_read_def size_bounded_def Let_def split: BodyFraming.splits prod.splits option.splits)

lemma parse_step_returns:
  assumes "httparse_ok lib" and "size_bounded (ps_client_buf st)" and "size_bounded (ps_server_buf st)"
  shows "parse_step lib cx st \<noteq> None"
proof (cases "hp_state (ps_parser st)")
  case WaitingForRequest
  obtain res p b where "try_parse_request_headers lib (ps_parser st) (ps_client_buf st) (cx_client_ts cx)
      = Some (res, p, b)"
    using request_headers_shape(1)[OF assms(1)] by (metis option.exhaust prod.exhaust)
  then show ?thesis using WaitingForRequest
    by (auto simp: parse_step_def Let_def split: option.splits bool.splits)
next
  case ReadingRequestBody
  obtain res r b where "body_read lib (body_reader (ps_parser st)) (ps_client_buf st) = Some (res, r, b)"
    using body_read_returns[OF assms(2)] by (metis option.exhaust prod.exhaust)
  then show ?thesis using ReadingRequestBody by (cases res) (auto simp: parse_step_def Let_def)
next
  case WaitingForResponse
  obtain res p b where "try_parse_response_headers lib (ps_parser st) (ps_server_buf st) (cx_server_ts cx)
      = Some (res, p, b)"
    using response_headers_shape(1)[OF assms(1)] by (metis option.exhaust prod.exhaust)
  then show ?thesis using WaitingForResponse
    by (auto simp: parse_step_def Let_def split: option.splits bool.splits)
next
  case ReadingResponseBody
  obtain res r b where "body_read lib (body_reader (ps_parser st)) (ps_server_buf st) = Some (res, r, b)"
    using body_read_returns[OF assms(3)] by (metis option.exhaust prod.exhaust)
  then show ?thesis using ReadingResponseBody
    by (cases res) (auto simp: parse_step_def Let_def split: prod.split)
qed

text \<open>A step leaves suffixes of both buffers.\<close>

lemma parse_step_suffix:
  assumes "httparse_ok lib" and "parse_step lib cx st = Some oc"
  shows "suffix (ps_client_buf (outcome_state oc)) (ps_client_buf st)
    \<and> suffix (ps_server_buf (outcome_state oc)) (ps_server_buf st)"
proof (cases "hp_state (ps_parser st)")
  case WaitingForRequest
  then show ?thesis using assms(2) request_headers_shape(2)[OF assms(1)]
    by (fastforce simp: parse_step_def Let_def split: option.splits bool.splits prod.splits)
next
  case ReadingRequestBody
  then show ?thesis using assms(2)
    by (fastforce simp: parse_step_def Let_def split: option.splits prod.splits ReadResult.splits
        dest: body_read_suffix)
next
  case WaitingForResponse
  then show ?thesis using assms(2) response_headers_shape(2)[OF assms(1)]
    by (fastforce simp: parse_step_def Let_def split: option.splits bool.splits prod.splits if_splits)
next
  case ReadingResponseBody
  then obtain res br b where br: "body_read lib (body_reader (ps_parser st)) (ps_server_buf st) = Some (res, br, b)"
    using assms(2)
    by (cases "body_read lib (body_reader (ps_parser st)) (ps_server_buf st)")
      (auto simp: parse_step_def Let_def)
  then show ?thesis using assms(2) ReadingResponseBody body_read_suffix[OF br]
    by (cases res) (auto simp: parse_step_def Let_def split: prod.splits)
qed

lemma parse_total:
  assumes "httparse_ok lib" and "size_bounded (ps_client_buf st)" and "size_bounded (ps_server_buf st)"
  shows "\<exists>r st'. parse lib cx st = Some (r, st')
    \<and> suffix (ps_client_buf st') (ps_client_buf st) \<and> suffix (ps_server_buf st') (ps_server_buf st)"
  using assms(2,3)
proof (induction "parse_measure st" arbitrary: st rule: less_induct)
  case less
  obtain oc where oc: "parse_step lib cx st = Some oc"
    using parse_step_returns[OF assms(1) less.prems] by blast
  note suf = parse_step_suffix[OF assms(1) oc]
  show ?case
  proof (cases oc)
    case (Stop r st')
    then show ?thesis using parse_unfold[OF assms(1), of cx st] oc suf by simp
  next
    case (Continue st')
    then have eq: "parse lib cx st = parse lib cx st'"
      using parse_unfold[OF assms(1), of cx st] oc by simp
    have "parse_measure st' < parse_measure st"
      using parse_step_decreases[OF assms(1)] oc Continue by blast
    then have "\<exists>r st''. parse lib cx st' = Some (r, st'')
      \<and> suffix (ps_client_buf st'') (ps_client_buf st') \<and> suffix (ps_server_buf st'') (ps_server_buf st')"
      using less suf Continue by (intro less.hyps) (auto intro: size_bounded_suffix)
    then show ?thesis using eq suf Continue by (auto intro: suffix_order.trans)
  qed
qed

lemma exchange_nil [simp]: "exchange cx s [] t \<longleftrightarrow> s = t"
  by (simp add: exchange_def)

lemma exchange_append: "exchange cx s xs t \<Longrightarrow> exchange cx t ys u \<Longrightarrow> exchange cx s (xs @ ys) u"
  by (simp add: exchange_def run_steps_append)

lemma parse_event_exchange: "parse_event cx t = Some ev \<Longrightarrow> exchange cx Awaiting [ev] Awaiting"
  by (auto simp: parse_event_def exchange_def split: prod.splits if_splits)

lemma parse_events_exchange: "exchange cx Awaiting (List.map_filter (parse_event cx) ts) Awaiting"
proof (induction ts)
  case (Cons t ts)
  then show ?case
    using parse_event_exchange[of cx t] exchange_append[of cx Awaiting "[_]" Awaiting]
    by (fastforce simp: List.map_filter_simps split: option.splits)
qed (simp add: List.map_filter_simps)

lemma sse_push_exchange:
  "\<exists>evs. snd (sse_push cx p t out) = out @ evs \<and> exchange cx Awaiting evs Awaiting"
proof -
  obtain evs rest where "drain_reader sse_step () (residual p @ t) = ((), evs, rest)"
    by (cases "drain_reader sse_step () (residual p @ t)") simp
  from sse_push_loop_drain[OF this, of cx out] show ?thesis
    using parse_events_exchange[of cx evs] by (simp add: sse_push_def)
qed

lemma sse_flush_exchange:
  "\<exists>evs. snd (sse_flush cx p out) = out @ evs \<and> exchange cx Awaiting evs Awaiting"
  using parse_event_exchange[of cx] by (auto simp: sse_flush_def Let_def split: option.split)

lemma feed_sse_exchange:
  "\<exists>evs. snd (feed_sse cx p chunk out) = out @ evs \<and> exchange cx Awaiting evs Awaiting"
  using sse_push_exchange[of cx "sse_parser p"]
  by (auto simp: feed_sse_def case_prod_beta split: option.split)

lemma complete_response_exchange:
  "\<exists>evs. snd (complete_response cx p body out) = out @ evs \<and> exchange cx Awaiting evs Idle"
proof -
  obtain q o1 where q: "(if \<not> was_incremental (body_reader p) then feed_sse cx p body out else (p, out)) = (q, o1)"
    by fastforce
  then obtain evs1 where o1: "o1 = out @ evs1" "exchange cx Awaiting evs1 Awaiting"
    using feed_sse_exchange[of cx p body out] by (auto split: if_splits)
  obtain evs2 where o2: "snd (sse_flush cx (sse_parser q) o1) = o1 @ evs2" "exchange cx Awaiting evs2 Awaiting"
    using sse_flush_exchange by blast
  have r: "exchange cx Awaiting [response_event cx p' b ts] Idle" for p' :: "'a HttpParser" and b ts
    by (simp add: exchange_def response_event_def)
  show ?thesis
  proof (cases "pending_resp_is_sse p")
    case True
    have "exchange cx Awaiting (evs1 @ evs2 @ [response_event cx p' b ts]) Idle" for p' :: "'a HttpParser" and b ts
      using o1(2) o2(2) r by (blast intro: exchange_append)
    then show ?thesis using True q o1(1) o2(1) by (simp add: complete_response_def Let_def case_prod_beta)
  qed (use r in \<open>simp add: complete_response_def\<close>)
qed

lemma headers_keep_state:
  "try_parse_request_headers lib p buf ts = Some (res, p', b) \<Longrightarrow> hp_state p' = hp_state p"
  "try_parse_response_headers lib p buf ts = Some (res, p', b) \<Longrightarrow> hp_state p' = hp_state p"
  by (auto simp: try_parse_request_headers_def try_parse_response_headers_def Let_def
      split: hp_status.splits option.splits)

lemma parse_step_exchange:
  assumes "parse_step lib cx st = Some oc"
  shows "\<exists>evs. ps_output (outcome_state oc) = ps_output st @ evs
    \<and> exchange cx (phase_of (ps_parser st)) evs (phase_of (ps_parser (outcome_state oc)))"
proof (cases "hp_state (ps_parser st)")
  case WaitingForRequest
  then show ?thesis using assms
    by (fastforce simp: parse_step_def Let_def phase_of_def is_waiting_for_response_def
        split: option.splits bool.splits prod.splits dest: headers_keep_state)
next
  case ReadingRequestBody
  obtain res br b where br: "body_read lib (body_reader (ps_parser st)) (ps_client_buf st) = Some (res, br, b)"
    using assms ReadingRequestBody
    by (cases "body_read lib (body_reader (ps_parser st)) (ps_client_buf st)")
      (auto simp: parse_step_def Let_def)
  have "exchange cx Idle [request_event cx p body] Awaiting" for p :: "'a HttpParser" and body
    by (simp add: exchange_def request_event_def)
  then show ?thesis using assms ReadingRequestBody br
    by (cases res) (auto simp: parse_step_def Let_def phase_of_def is_waiting_for_response_def)
next
  case WaitingForResponse
  have "exchange cx Awaiting [response_event cx p b ts] Idle" for p :: "'a HttpParser" and b ts
    by (simp add: exchange_def response_event_def)
  then show ?thesis using assms WaitingForResponse
    by (fastforce simp: parse_step_def Let_def phase_of_def is_waiting_for_response_def
        split: option.splits bool.splits prod.splits if_splits dest: headers_keep_state)
next
  case ReadingResponseBody
  obtain res br b where br: "body_read lib (body_reader (ps_parser st)) (ps_server_buf st) = Some (res, br, b)"
    using assms ReadingResponseBody
    by (cases "body_read lib (body_reader (ps_parser st)) (ps_server_buf st)")
      (auto simp: parse_step_def Let_def)
  let ?q = "(ps_parser st)\<lparr>body_reader := br\<rparr>"
  show ?thesis
  proof (cases res)
    case (ChunkDecoded d)
    then show ?thesis
      using assms ReadingResponseBody br feed_sse_exchange[of cx ?q d "ps_output st"]
        feed_sse_state[of cx ?q d "ps_output st"]
      by (auto simp: parse_step_def Let_def phase_of_def is_waiting_for_response_def split: prod.splits if_splits)
  next
    case (Complete d)
    then show ?thesis
      using assms ReadingResponseBody br complete_response_exchange[of cx ?q d "ps_output st"]
        complete_response_idle[of cx ?q d "ps_output st"]
      by (auto simp: parse_step_def Let_def phase_of_def is_waiting_for_response_def split: prod.splits)
  qed (use assms ReadingResponseBody br in
      \<open>auto simp: parse_step_def Let_def phase_of_def is_waiting_for_response_def\<close>)
qed

lemma parse_loop_exchange:
  "parse_loop lib cx fuel st = Some (r, st') \<Longrightarrow>
   \<exists>evs. ps_output st' = ps_output st @ evs
     \<and> exchange cx (phase_of (ps_parser st)) evs (phase_of (ps_parser st'))"
proof (induction fuel arbitrary: st)
  case (Suc fuel)
  then obtain oc where oc: "parse_step lib cx st = Some oc" by (auto split: option.splits)
  note ex = parse_step_exchange[OF oc]
  show ?case
  proof (cases oc)
    case (Continue st1)
    then obtain evs2 where "ps_output st' = ps_output st1 @ evs2"
      "exchange cx (phase_of (ps_parser st1)) evs2 (phase_of (ps_parser st'))"
      using Suc.IH[of st1] Suc.prems oc by auto
    then show ?thesis using ex Continue by (auto intro: exchange_append)
  next
    case (Stop r' st1)
    then show ?thesis using Suc.prems oc ex by auto
  qed
qed simp

lemma finish_response_exchange:
  "\<exists>evs. snd (snd (finish_response lib cx p buf out)) = out @ evs
    \<and> (if hp_state p = ReadingResponseBody
       then exchange cx Awaiting evs Idle \<and> hp_state (fst (finish_response lib cx p buf out)) = WaitingForRequest
       else evs = [] \<and> fst (finish_response lib cx p buf out) = p)"
proof -
  obtain body br b where f: "body_finish lib (body_reader p) buf = (body, br, b)"
    by (cases "body_finish lib (body_reader p) buf")
  show ?thesis
    using complete_response_exchange[of cx "p\<lparr>body_reader := br\<rparr>" body out]
      complete_response_idle[of cx "p\<lparr>body_reader := br\<rparr>" body out] f
    by (auto simp: finish_response_def Let_def split: prod.splits)
qed

lemma request_chunks:
  assumes "list_all chunk_ok cs" and "hp_state (ps_parser st) = ReadingRequestBody"
    and "framing (body_reader (ps_parser st)) = Chunked"
    and "decompressor (body_reader (ps_parser st)) = None"
    and "\<not> skip_accumulation (body_reader (ps_parser st))"
    and "ps_client_buf st = concat (map chunk_wire cs) @ rest"
  shows "(parse_cont lib cx)\<^sup>*\<^sup>* st
    (st\<lparr>ps_parser := (ps_parser st)\<lparr>body_reader := (body_reader (ps_parser st))
        \<lparr>decoded_body := decoded_body (body_reader (ps_parser st)) @ concat (map snd cs)\<rparr>\<rparr>,
        ps_client_buf := rest\<rparr>)"
  using assms
proof (induction cs arbitrary: st)
  case Nil
  then have "ps_client_buf st = rest" by simp
  then have "st\<lparr>ps_client_buf := rest\<rparr> = st" by (cases st) simp
  then show ?case by simp
next
  case (Cons c cs)
  let ?p = "ps_parser st"
  let ?br = "(body_reader ?p)\<lparr>decoded_body := decoded_body (body_reader ?p) @ snd c\<rparr>"
  let ?st = "st\<lparr>ps_parser := ?p\<lparr>body_reader := ?br\<rparr>, ps_client_buf := concat (map chunk_wire cs) @ rest\<rparr>"
  have "body_read lib (body_reader ?p) (ps_client_buf st)
      = Some (ChunkDecoded (snd c), ?br, concat (map chunk_wire cs) @ rest)"
    using Cons.prems read_chunk_wire[of c "body_reader ?p" lib "concat (map chunk_wire cs) @ rest"]
    by (simp add: body_read_def)
  then have "parse_cont lib cx st ?st" using Cons.prems(2) by (simp add: parse_cont_def parse_step_def Let_def)
  moreover have "(parse_cont lib cx)\<^sup>*\<^sup>* ?st
    (?st\<lparr>ps_parser := (ps_parser ?st)\<lparr>body_reader := (body_reader (ps_parser ?st))
        \<lparr>decoded_body := decoded_body (body_reader (ps_parser ?st)) @ concat (map snd cs)\<rparr>\<rparr>,
        ps_client_buf := rest\<rparr>)"
    using Cons.prems by (intro Cons.IH) auto
  ultimately show ?case by (simp add: converse_rtranclp_into_rtranclp)
qed

lemma response_chunks:
  assumes "list_all chunk_ok cs" and "list_all (\<lambda>c. utf8_valid (snd c)) cs"
    and "hp_state (ps_parser st) = ReadingResponseBody"
    and "pending_resp_is_sse (ps_parser st)"
    and "framing (body_reader (ps_parser st)) = Chunked"
    and "decompressor (body_reader (ps_parser st)) = None"
    and "skip_accumulation (body_reader (ps_parser st))"
    and "ps_server_buf st = concat (map chunk_wire cs) @ rest"
    and "one_line_end (residual (sse_parser (ps_parser st)) @ bytes_str (concat (map snd cs)))"
    and "sse_next (residual (sse_parser (ps_parser st))) = None"
    and "sse_push cx (sse_parser (ps_parser st)) (bytes_str (concat (map snd cs))) (ps_output st) = (sp, out)"
  shows "(parse_cont lib cx)\<^sup>*\<^sup>* st
    (st\<lparr>ps_parser := (ps_parser st)\<lparr>sse_parser := sp\<rparr>, ps_server_buf := rest, ps_output := out\<rparr>)"
  using assms
proof (induction cs arbitrary: st)
  case Nil
  have e: "sse_push cx q [] o' = (q, o')" if "sse_next (residual q) = None" for q o'
    using that by (simp add: sse_push_def sse_push_loop.simps)
  have "ps_server_buf st = rest" "sp = sse_parser (ps_parser st)" "out = ps_output st"
    using Nil e[OF Nil.prems(10)] by (simp_all add: bytes_str_def)
  then have "st\<lparr>ps_parser := (ps_parser st)\<lparr>sse_parser := sp\<rparr>, ps_server_buf := rest, ps_output := out\<rparr> = st"
    by simp
  then show ?case by (simp only: rtranclp.rtrancl_refl)
next
  case (Cons c cs)
  let ?p = "ps_parser st"
  let ?t = "bytes_str (snd c)" and ?ts = "bytes_str (concat (map snd cs))"
  have split: "bytes_str (concat (map snd (c # cs))) = ?t @ ?ts" by (simp add: bytes_str_def)
  obtain sp1 out1 where push: "sse_push cx (sse_parser ?p) ?t (ps_output st) = (sp1, out1)"
    by (cases "sse_push cx (sse_parser ?p) ?t (ps_output st)")
  note pp = sse_push_push[OF Cons.prems(9)[unfolded split] push]
  let ?st = "st\<lparr>ps_parser := ?p\<lparr>sse_parser := sp1\<rparr>,
    ps_server_buf := concat (map chunk_wire cs) @ rest, ps_output := out1\<rparr>"
  have "body_read lib (body_reader ?p) (ps_server_buf st)
      = Some (ChunkDecoded (snd c), body_reader ?p, concat (map chunk_wire cs) @ rest)"
    using Cons.prems read_chunk_wire[of c "body_reader ?p" lib "concat (map chunk_wire cs) @ rest"]
    by (simp add: body_read_def)
  moreover have "from_utf8 (snd c) = Some ?t" using Cons.prems(2) by (simp add: from_utf8_def)
  ultimately have "parse_cont lib cx st ?st"
    using Cons.prems(3,4) push by (simp add: parse_cont_def parse_step_def Let_def feed_sse_def)
  moreover have "(parse_cont lib cx)\<^sup>*\<^sup>* ?st
    (?st\<lparr>ps_parser := (ps_parser ?st)\<lparr>sse_parser := sp\<rparr>, ps_server_buf := rest, ps_output := out\<rparr>)"
    using Cons.prems pp split by (intro Cons.IH) auto
  ultimately show ?case by (simp add: converse_rtranclp_into_rtranclp)
qed

lemma size_bounded_short:
  assumes "length b \<le> 15"
  shows "size_bounded b"
  unfolding size_bounded_def
proof (intro conjI allI impI)
  fix s e n assume "suffix s b" "find_crlf s = Some e" "chunk_size_of (take e s) = Some n"
  moreover have "length (take e s) \<le> 15"
    using assms suffix_length_le[OF \<open>suffix s b\<close>] by simp
  ultimately have "n < 16 ^ 15" using chunk_size_of_short by blast
  then show "n < 2 ^ 62" by simp
qed (use assms in simp)

lemmas header_eval = from_utf8_lossy_graphic to_lowercase_graphic graphic_def str_contains_def lossy_headers_def

lemma header_names:
  "eq_ignore_ascii_case ''Transfer-Encoding'' ''transfer-encoding''"
  "eq_ignore_ascii_case ''Content-Type'' ''content-type''"
  "\<not> eq_ignore_ascii_case ''Content-Type'' ''transfer-encoding''"
  "\<not> eq_ignore_ascii_case ''Transfer-Encoding'' ''content-type''"
  "\<not> eq_ignore_ascii_case ''Content-Type'' ''content-encoding''"
  "\<not> eq_ignore_ascii_case ''Transfer-Encoding'' ''content-encoding''"
  "map ascii_lower ''chunked'' = ''chunked''"
  "map ascii_lower ''text/event-stream'' = ''text/event-stream''"
  by code_simp+

lemma sample_libs_ok: "httparse_ok sample_libs"
  by (auto simp: httparse_ok_def sample_libs_def dest: find_sub_bound split: option.splits)

lemma continue_libs_ok: "httparse_ok continue_libs"
  using sample_libs_ok
  by (auto simp: httparse_ok_def continue_libs_def sample_libs_def dest: find_sub_bound split: option.splits)

lemma sample_pstate_parses:
  "\<exists>r st'. parse sample_libs sample_ctx sample_pstate = Some (r, st')"
  using parse_total[OF sample_libs_ok, of sample_pstate sample_ctx]
  by (auto simp: sample_pstate_def size_bounded_short)

lemma utf8_split_character:
  "\<not> utf8_valid (as_bytes ''data: caf'' @ [0xC3])" "\<not> utf8_valid [0xA9, 10, 10]"
  "utf8_valid ((as_bytes ''data: caf'' @ [0xC3]) @ [0xA9, 10, 10])"
  by (simp_all add: utf8_valid.simps utf8_step_def byte_at_def second_ok_def is_cont_def as_bytes_def byte_of_def)

lemma utf8_split_text:
  "bytes_str ((as_bytes ''data: caf'' @ [0xC3]) @ [0xA9, 10, 10])
    = ''data: caf'' @ [CHR 0xC3, CHR 0xA9, LF, LF]"
  by (simp add: bytes_str_def as_bytes_def char_of_byte_def) code_simp

section \<open>Properties\<close>

text \<open>C6: The parse loop ends. Given what \<open>httparse\<close> promises and no absurd chunk size in the
  buffers, a call of \<open>parse\<close> returns (no panic, no endless loop), and what it leaves in the two
  buffers is an unparsed suffix of what they held.\<close>

theorem parse_returns:
  assumes "httparse_ok lib" and "size_bounded (ps_client_buf st)" and "size_bounded (ps_server_buf st)"
  shows "\<exists>r st'. parse lib cx st = Some (r, st')
    \<and> suffix (ps_client_buf st') (ps_client_buf st) \<and> suffix (ps_server_buf st') (ps_server_buf st)"
  using assms by (rule parse_total)

theorem parse_returns_witness:
  "httparse_ok sample_libs \<and> (\<exists>r st'. parse sample_libs sample_ctx sample_pstate = Some (r, st')
    \<and> suffix (ps_client_buf st') (ps_client_buf sample_pstate)
    \<and> suffix (ps_server_buf st') (ps_server_buf sample_pstate))"
  using parse_returns[OF sample_libs_ok, of sample_pstate sample_ctx] sample_libs_ok
  by (simp add: sample_pstate_def size_bounded_short)

text \<open>C2: The parser refines the request/response protocol: the events a call appends are those of
  the abstract exchange machine, run from the phase of the old state to the phase of the new
  one, and each carries the flow key and the client and server addresses of the call. So no
  response or SSE event is emitted before its request, and no second request before the
  response.\<close>

theorem parse_alternates:
  assumes "parse lib cx st = Some (r, st')"
  shows "\<exists>evs. ps_output st' = ps_output st @ evs
    \<and> exchange cx (phase_of (ps_parser st)) evs (phase_of (ps_parser st'))"
  using assms unfolding parse_def by (rule parse_loop_exchange)

theorem parse_alternates_witness:
  "\<exists>r st' evs. parse sample_libs sample_ctx sample_pstate = Some (r, st') \<and> ps_output st' = evs
    \<and> exchange sample_ctx Idle evs (phase_of (ps_parser st'))"
proof -
  obtain r st' where p: "parse sample_libs sample_ctx sample_pstate = Some (r, st')"
    using sample_pstate_parses by blast
  from parse_alternates[OF p] show ?thesis using p
    by (auto simp: sample_pstate_def HttpParser_new_def phase_of_def is_waiting_for_response_def)
qed

text \<open>C4: A complete chunked request at the front of the client buffer yields one request event
  with the head's method, path, version and headers and the concatenated chunk data as body;
  parsing then goes on with the bytes after it, waiting for the response.\<close>

theorem chunked_request_parsed:
  assumes "httparse_ok lib"
    and "hp_state (ps_parser st) = WaitingForRequest"
    and "hp_request lib (head @ concat (map chunk_wire cs) @ last_wire l ts @ rest) = HpComplete (length head) rq"
    and "is_chunked (lossy_headers (rq_headers rq))"
    and "list_all chunk_ok cs" and "last_ok l ts"
    and "ps_client_buf st = head @ concat (map chunk_wire cs) @ last_wire l ts @ rest"
  shows "\<exists>p. hp_state p = WaitingForResponse \<and> last_request_method p = (case rq_method rq of Some m \<Rightarrow> m | None \<Rightarrow> [])
    \<and> parse lib cx st = parse lib cx (st\<lparr>ps_parser := p, ps_client_buf := rest,
        ps_output := ps_output st @ [HttpRequest
          \<lparr>req_flow_key = cx_flow_key cx, req_client_addr = cx_client_addr cx, req_server_addr = cx_server_addr cx,
           req_method = (case rq_method rq of Some m \<Rightarrow> m | None \<Rightarrow> []),
           req_uri = (case rq_path rq of Some u \<Rightarrow> u | None \<Rightarrow> []),
           req_version = (case rq_version rq of Some v \<Rightarrow> v | None \<Rightarrow> 1),
           req_headers = lossy_headers (rq_headers rq), req_body = concat (map snd cs),
           req_timestamp_us = cx_client_ts cx, req_process = None\<rparr>]\<rparr>)"
proof -
  let ?body = "concat (map chunk_wire cs) @ last_wire l ts @ rest"
  obtain p1 where p1: "try_parse_request_headers lib (ps_parser st) (ps_client_buf st) (cx_client_ts cx)
      = Some (Some True, p1, ?body)"
    and f1: "pending_method p1 = (case rq_method rq of Some m \<Rightarrow> m | None \<Rightarrow> [])"
      "last_request_method p1 = (case rq_method rq of Some m \<Rightarrow> m | None \<Rightarrow> [])"
      "pending_uri p1 = (case rq_path rq of Some u \<Rightarrow> u | None \<Rightarrow> [])"
      "pending_req_version p1 = (case rq_version rq of Some v \<Rightarrow> v | None \<Rightarrow> 1)"
      "pending_req_headers p1 = lossy_headers (rq_headers rq)" "pending_req_timestamp p1 = cx_client_ts cx"
    using assms(3,7) by (simp add: try_parse_request_headers_def Let_def split_to_def)
  let ?p2 = "p1\<lparr>body_reader := new_for_request (pending_req_headers p1), hp_state := ReadingRequestBody\<rparr>"
  let ?st2 = "st\<lparr>ps_parser := ?p2, ps_client_buf := ?body\<rparr>"
  have s1: "parse_cont lib cx st ?st2"
    using p1 assms(2) by (simp add: parse_cont_def parse_step_def Let_def)
  let ?br = "(body_reader ?p2)\<lparr>decoded_body := concat (map snd cs)\<rparr>"
  let ?st3 = "?st2\<lparr>ps_parser := ?p2\<lparr>body_reader := ?br\<rparr>, ps_client_buf := last_wire l ts @ rest\<rparr>"
  have br: "framing (body_reader ?p2) = Chunked" "decompressor (body_reader ?p2) = None"
    "\<not> skip_accumulation (body_reader ?p2)" "decoded_body (body_reader ?p2) = []"
    using assms(4) f1(5) by (simp_all add: new_for_request_def)
  have s2: "(parse_cont lib cx)\<^sup>*\<^sup>* ?st2 ?st3"
    using request_chunks[OF assms(5), of ?st2 "last_wire l ts @ rest" lib cx] br by simp
  have rd: "body_read lib (body_reader (ps_parser ?st3)) (ps_client_buf ?st3)
      = Some (Complete (concat (map snd cs)), ?br\<lparr>decoded_body := []\<rparr>, rest)"
    using br read_chunk_last[OF assms(6), of ?br lib rest] by (simp add: body_read_def)
  let ?p4 = "?p2\<lparr>body_reader := ?br\<lparr>decoded_body := []\<rparr>, pending_method := [], pending_uri := [],
    pending_req_headers := [], hp_state := WaitingForResponse\<rparr>"
  let ?st4 = "st\<lparr>ps_parser := ?p4, ps_client_buf := rest,
    ps_output := ps_output st @ [request_event cx ?p2 (concat (map snd cs))]\<rparr>"
  have s3: "parse_cont lib cx ?st3 ?st4"
    using rd by (simp add: parse_cont_def parse_step_def request_event_def Let_def)
  have "(parse_cont lib cx)\<^sup>*\<^sup>* st ?st4"
    using s1 s2 s3 by (meson converse_rtranclp_into_rtranclp rtranclp.rtrancl_into_rtrancl)
  then have "parse lib cx st = parse lib cx ?st4" by (rule parse_conts[OF assms(1)])
  moreover have "hp_state ?p4 = WaitingForResponse"
    "last_request_method ?p4 = (case rq_method rq of Some m \<Rightarrow> m | None \<Rightarrow> [])"
    using f1 by simp_all
  ultimately show ?thesis unfolding request_event_def using f1 by (intro exI[of _ ?p4]) simp
qed

theorem chunked_request_parsed_witness:
  "\<exists>p. hp_state p = WaitingForResponse \<and> last_request_method p = ''POST''
    \<and> parse sample_libs sample_ctx sample_pstate = parse sample_libs sample_ctx
       (sample_pstate\<lparr>ps_parser := p, ps_client_buf := [],
        ps_output := [HttpRequest
          \<lparr>req_flow_key = cx_flow_key sample_ctx, req_client_addr = cx_client_addr sample_ctx,
           req_server_addr = cx_server_addr sample_ctx, req_method = ''POST'', req_uri = ''/v1/messages'',
           req_version = 1, req_headers = lossy_headers [(''Transfer-Encoding'', as_bytes ''chunked'')],
           req_body = as_bytes ''x'', req_timestamp_us = 0, req_process = None\<rparr>]\<rparr>)"
proof -
  let ?rq = "\<lparr>rq_method = Some ''POST'', rq_path = Some ''/v1/messages'', rq_version = Some 1,
    rq_headers = [(''Transfer-Encoding'', as_bytes ''chunked'')]\<rparr>"
  let ?cs = "[(as_bytes ''1'', as_bytes ''x'')]"
  have buf: "ps_client_buf sample_pstate
      = [13, 10, 13, 10] @ concat (map chunk_wire ?cs) @ last_wire (as_bytes ''0'') [] @ []"
    by (simp add: sample_pstate_def chunk_wire_def last_wire_def as_bytes_def byte_of_def)
  have st: "hp_state (ps_parser sample_pstate) = WaitingForRequest"
    by (simp add: sample_pstate_def HttpParser_new_def)
  have hp: "hp_request sample_libs ([13, 10, 13, 10] @ concat (map chunk_wire ?cs)
        @ last_wire (as_bytes ''0'') [] @ []) = HpComplete (length [13, 10, 13, 10 :: u8]) ?rq"
    by (simp add: sample_libs_def)
  have ch: "is_chunked (lossy_headers (rq_headers ?rq))"
    using header_names(7) by (simp add: header_eval header_names(1) is_chunked_def)
  have cs: "list_all chunk_ok ?cs" "last_ok (as_bytes ''0'') []"
    by (simp_all add: chunk_ok_def last_ok_def size_line_simps graphic_no_cr)
  show ?thesis
    using chunked_request_parsed[OF sample_libs_ok st hp ch cs buf, of sample_ctx]
    by (simp add: sample_ctx_def sample_pstate_def)
qed

text \<open>C3: A complete chunked event-stream response, cut into HTTP chunks in any way that keeps UTF-8
  characters whole, yields exactly the events the server printed, in order, then one response
  with an empty body; parsing goes on with the bytes after it, waiting for the next request.\<close>

theorem sse_response_parsed:
  assumes "httparse_ok lib"
    and "hp_state (ps_parser st) = WaitingForResponse"
    and "hp_response lib (head @ concat (map chunk_wire cs) @ last_wire l ts @ rest) = HpComplete (length head) rs"
    and "hs = lossy_headers (rs_headers rs)" and "is_chunked hs" and "is_sse hs"
    and "extract_content_encoding hs = None"
    and "rs_code rs = Some code" and "\<not> (100 \<le> code \<and> code < 200)" and "code \<noteq> 204" and "code \<noteq> 304"
    and "\<not> eq_ignore_ascii_case (last_request_method (ps_parser st)) ''HEAD''"
    and "list_all chunk_ok cs" and "last_ok l ts" and "list_all (\<lambda>c. utf8_valid (snd c)) cs"
    and "concat (map snd cs) = as_bytes (concat (map event_wire es))" and "list_all event_ok es"
    and "ps_server_buf st = head @ concat (map chunk_wire cs) @ last_wire l ts @ rest"
  shows "\<exists>p. hp_state p = WaitingForRequest
    \<and> parse lib cx st = parse lib cx (st\<lparr>ps_parser := p, ps_server_buf := rest,
        ps_output := ps_output st @ map (event_of cx) es @ [HttpResponse
          \<lparr>resp_flow_key = cx_flow_key cx, resp_client_addr = cx_client_addr cx,
           resp_server_addr = cx_server_addr cx, resp_status = code,
           resp_version = (case rs_version rs of Some v \<Rightarrow> v | None \<Rightarrow> 1),
           resp_headers = hs, resp_body = [], first_byte_timestamp_us = cx_server_ts cx,
           complete_timestamp_us = cx_server_last_ts cx, resp_process = None\<rparr>]\<rparr>)"
proof -
  let ?body = "concat (map chunk_wire cs) @ last_wire l ts @ rest"
  obtain p1 where p1: "try_parse_response_headers lib (ps_parser st) (ps_server_buf st) (cx_server_ts cx)
      = Some (Some True, p1, ?body)"
    and f1: "pending_resp_status p1 = code" "pending_resp_headers p1 = hs" "pending_resp_is_sse p1"
      "pending_resp_version p1 = (case rs_version rs of Some v \<Rightarrow> v | None \<Rightarrow> 1)"
      "pending_resp_timestamp p1 = cx_server_ts cx"
      "last_request_method p1 = last_request_method (ps_parser st)"
    using assms(3,4,6,8,18) by (simp add: try_parse_response_headers_def Let_def split_to_def)
  let ?br = "\<lparr>framing = Chunked, decoded_body = [], skip_accumulation = True, decompressor = None\<rparr>"
  have br: "(new_for_response lib code (last_request_method p1) hs)\<lparr>skip_accumulation := True\<rparr> = ?br"
    using assms(5,7,9-12) f1(6) by (auto simp: new_for_response_def)
  let ?p2 = "p1\<lparr>body_reader := ?br, sse_parser := (sse_parser p1)\<lparr>residual := []\<rparr>, hp_state := ReadingResponseBody\<rparr>"
  let ?st2 = "st\<lparr>ps_parser := ?p2, ps_server_buf := ?body\<rparr>"
  have s1: "parse_cont lib cx st ?st2"
    using p1 assms(2) f1 br by (simp add: parse_cont_def parse_step_def Let_def is_no_body_def)
  have "CR \<notin> set (concat (map event_wire es))"
    using assms(17) by (auto simp: list_all_iff no_cr_wire)
  then have one: "one_line_end (concat (map event_wire es))" by (simp add: one_line_end_def)
  have "sse_next [] = None" by (simp add: sse_next_def)
  then have push: "sse_push cx ((sse_parser p1)\<lparr>residual := []\<rparr>) (concat (map event_wire es)) (ps_output st)
      = ((sse_parser p1)\<lparr>residual := []\<rparr>, ps_output st @ map (event_of cx) es)"
    using sse_push_loop_wires[OF assms(17), of "[]" cx "ps_output st"] by (simp add: sse_push_def)
  let ?out = "ps_output st @ map (event_of cx) es"
  let ?st3 = "?st2\<lparr>ps_server_buf := last_wire l ts @ rest, ps_output := ?out\<rparr>"
  have "?st3 = ?st2\<lparr>ps_parser := (ps_parser ?st2)\<lparr>sse_parser := (sse_parser p1)\<lparr>residual := []\<rparr>\<rparr>,
      ps_server_buf := last_wire l ts @ rest, ps_output := ?out\<rparr>"
    by (cases p1) simp
  moreover have "(parse_cont lib cx)\<^sup>*\<^sup>* ?st2 (?st2\<lparr>ps_parser := (ps_parser ?st2)
      \<lparr>sse_parser := (sse_parser p1)\<lparr>residual := []\<rparr>\<rparr>,
      ps_server_buf := last_wire l ts @ rest, ps_output := ?out\<rparr>)"
    using push one assms(16) f1(3)
      \<open>sse_next [] = None\<close> by (intro response_chunks[OF assms(13,15)]) simp_all
  ultimately have s2: "(parse_cont lib cx)\<^sup>*\<^sup>* ?st2 ?st3" by (simp only:)
  have rd: "body_read lib ?br (last_wire l ts @ rest) = Some (Complete [], ?br, rest)"
    using read_chunk_last[OF assms(14), of ?br lib rest] by (simp add: body_read_def)
  have fl: "sse_flush cx ((sse_parser p1)\<lparr>residual := []\<rparr>) ?out = ((sse_parser p1)\<lparr>residual := []\<rparr>, ?out)"
    using trim_graphic[of "[]"] by (simp add: sse_flush_def)
  let ?p4 = "?p2\<lparr>pending_resp_headers := [], hp_state := WaitingForRequest\<rparr>"
  let ?st4 = "st\<lparr>ps_parser := ?p4, ps_server_buf := rest,
    ps_output := ?out @ [response_event cx ?p2 [] (cx_server_last_ts cx)]\<rparr>"
  have s3: "parse_cont lib cx ?st3 ?st4"
    using rd fl f1(3) by (simp add: parse_cont_def parse_step_def Let_def complete_response_def
        was_incremental_def response_event_def)
  have "(parse_cont lib cx)\<^sup>*\<^sup>* st ?st4"
    using s1 s2 s3 by (meson converse_rtranclp_into_rtranclp rtranclp.rtrancl_into_rtrancl)
  then have "parse lib cx st = parse lib cx ?st4" by (rule parse_conts[OF assms(1)])
  then show ?thesis unfolding response_event_def using f1 by (intro exI[of _ ?p4]) simp
qed

theorem sse_response_parsed_witness:
  "\<exists>p. hp_state p = WaitingForRequest
    \<and> parse sample_libs sample_ctx
       \<lparr>ps_parser = HttpParser_new\<lparr>hp_state := WaitingForResponse\<rparr>, ps_client_buf = [],
        ps_server_buf = [13, 10, 13, 10] @ concat (map chunk_wire
          [(as_bytes ''6'', as_bytes ''data: ''), (as_bytes ''4'', as_bytes (''hi'' @ [LF, LF]))])
          @ last_wire (as_bytes ''0'') [] @ as_bytes ''HTTP'', ps_output = []\<rparr>
      = parse sample_libs sample_ctx
       \<lparr>ps_parser = p, ps_client_buf = [], ps_server_buf = as_bytes ''HTTP'',
        ps_output = map (event_of sample_ctx) [([], [''hi''])] @ [HttpResponse
          \<lparr>resp_flow_key = cx_flow_key sample_ctx, resp_client_addr = cx_client_addr sample_ctx,
           resp_server_addr = cx_server_addr sample_ctx, resp_status = 200, resp_version = 1,
           resp_headers = [(''Content-Type'', ''text/event-stream''), (''Transfer-Encoding'', ''chunked'')],
           resp_body = [], first_byte_timestamp_us = 0, complete_timestamp_us = 0, resp_process = None\<rparr>]\<rparr>"
proof -
  let ?cs = "[(as_bytes ''6'', as_bytes ''data: ''), (as_bytes ''4'', as_bytes (''hi'' @ [LF, LF]))]"
  let ?buf = "[13, 10, 13, 10] @ concat (map chunk_wire ?cs) @ last_wire (as_bytes ''0'') [] @ as_bytes ''HTTP''"
  let ?st = "\<lparr>ps_parser = HttpParser_new\<lparr>hp_state := WaitingForResponse\<rparr>, ps_client_buf = [],
    ps_server_buf = ?buf, ps_output = []\<rparr> :: unit pstate"
  let ?rs = "\<lparr>rs_code = Some 200, rs_version = Some 1,
    rs_headers = [(''Content-Type'', as_bytes ''text/event-stream''),
                  (''Transfer-Encoding'', as_bytes ''chunked'')]\<rparr>"
  let ?hs = "[(''Content-Type'', ''text/event-stream''), (''Transfer-Encoding'', ''chunked'')]"
  have st: "hp_state (ps_parser ?st) = WaitingForResponse" "ps_server_buf ?st = ?buf" by simp_all
  have hp: "hp_response sample_libs ?buf = HpComplete (length [13, 10, 13, 10 :: u8]) ?rs"
    by (simp add: sample_libs_def)
  have hs: "?hs = lossy_headers (rs_headers ?rs)" by (simp add: header_eval)
  have ch: "is_chunked ?hs" "is_sse ?hs" "extract_content_encoding ?hs = None"
    using header_names(7,8)
    by (simp_all add: header_eval header_names(1-6) is_chunked_def is_sse_def extract_content_encoding_def)
  have code: "rs_code ?rs = Some 200" "\<not> (100 \<le> (200 :: u16) \<and> (200 :: u16) < 200)" "(200 :: u16) \<noteq> 204"
    "(200 :: u16) \<noteq> 304" by simp_all
  have hd: "\<not> eq_ignore_ascii_case (last_request_method (ps_parser ?st)) ''HEAD''"
    by (simp add: HttpParser_new_def eq_ignore_ascii_case_def to_ascii_lowercase_def)
  have cs: "list_all chunk_ok ?cs" "last_ok (as_bytes ''0'') []"
    by (simp_all add: chunk_ok_def last_ok_def size_line_simps graphic_no_cr)
  have u: "list_all (\<lambda>c. utf8_valid (snd c)) ?cs"
    by (simp add: utf8_valid_ascii as_bytes_def byte_of_def)
  have es: "concat (map snd ?cs) = as_bytes (concat (map event_wire [([], [''hi''])]))"
    "list_all event_ok [([], [''hi''])]"
    by (simp_all add: event_wire_def event_lines_def event_ok_def as_bytes_def)
  show ?thesis
    using sse_response_parsed[OF sample_libs_ok st(1) hp hs ch code hd cs u es st(2), of sample_ctx]
    by (simp add: sample_ctx_def)
qed

text \<open>A chunk is fed to the SSE splitter only if it is valid UTF-8 by itself: a character whose
  bytes fall in two chunks loses both chunks, whatever else they hold, though the same bytes
  in one chunk yield the event.\<close>

theorem sse_split_character_lost:
  "feed_sse cx p (as_bytes ''data: caf'' @ [0xC3]) out = (p, out)
   \<and> feed_sse cx p [0xA9, 10, 10] out = (p, out)
   \<and> map sse_view (snd (feed_sse cx HttpParser_new ((as_bytes ''data: caf'' @ [0xC3]) @ [0xA9, 10, 10]) []))
        = [Some ([], ''caf'' @ [CHR 0xC3, CHR 0xA9])]"
  unfolding feed_sse_def from_utf8_def utf8_split_text using utf8_split_character
  by (simp add: HttpParser_new_def sse_eval)

text \<open>An informational response (status 1xx, for example 100 Continue) ends the exchange: it is
  emitted as the response of the pending request and the parser waits for the next request, so
  the final response is left in the server buffer for the request after it.\<close>

theorem informational_response_ends_exchange:
  assumes "httparse_ok lib"
    and "hp_state (ps_parser st) = WaitingForResponse"
    and "hp_response lib (head @ rest) = HpComplete (length head) rs"
    and "rs_code rs = Some code" and "100 \<le> code" and "code < 200"
    and "ps_server_buf st = head @ rest"
  shows "\<exists>p. hp_state p = WaitingForRequest
    \<and> parse lib cx st = parse lib cx (st\<lparr>ps_parser := p, ps_server_buf := rest,
        ps_output := ps_output st @ [HttpResponse
          \<lparr>resp_flow_key = cx_flow_key cx, resp_client_addr = cx_client_addr cx,
           resp_server_addr = cx_server_addr cx, resp_status = code,
           resp_version = (case rs_version rs of Some v \<Rightarrow> v | None \<Rightarrow> 1),
           resp_headers = lossy_headers (rs_headers rs), resp_body = [],
           first_byte_timestamp_us = cx_server_ts cx, complete_timestamp_us = cx_server_ts cx, resp_process = None\<rparr>]\<rparr>)"
proof -
  let ?hs = "lossy_headers (rs_headers rs)"
  obtain p1 where p1: "try_parse_response_headers lib (ps_parser st) (ps_server_buf st) (cx_server_ts cx)
      = Some (Some True, p1, rest)"
    and f1: "pending_resp_status p1 = code" "pending_resp_headers p1 = ?hs"
      "pending_resp_version p1 = (case rs_version rs of Some v \<Rightarrow> v | None \<Rightarrow> 1)"
      "pending_resp_timestamp p1 = cx_server_ts cx"
    using assms(3,4,7) by (simp add: try_parse_response_headers_def Let_def split_to_def)
  let ?br = "new_for_response lib code (last_request_method p1) ?hs"
  have nb: "is_no_body (?br\<lparr>skip_accumulation := b\<rparr>)" "is_no_body ?br" for b
    using assms(5,6) by (simp_all add: new_for_response_def is_no_body_def)
  let ?q = "p1\<lparr>body_reader := (if pending_resp_is_sse p1 then ?br\<lparr>skip_accumulation := True\<rparr> else ?br),
    sse_parser := (if pending_resp_is_sse p1 then (sse_parser p1)\<lparr>residual := []\<rparr> else sse_parser p1)\<rparr>"
  let ?st' = "st\<lparr>ps_parser := ?q\<lparr>pending_resp_headers := [], hp_state := WaitingForRequest\<rparr>, ps_server_buf := rest,
    ps_output := ps_output st @ [response_event cx ?q [] (cx_server_ts cx)]\<rparr>"
  have "parse_cont lib cx st ?st'"
    using p1 assms(2) f1 nb by (simp add: parse_cont_def parse_step_def Let_def)
  then have "parse lib cx st = parse lib cx ?st'" by (intro parse_conts[OF assms(1)]) blast
  then show ?thesis unfolding response_event_def using f1 by (intro exI[of _ "ps_parser ?st'"]) simp
qed

theorem informational_response_ends_exchange_witness:
  "\<exists>p. hp_state p = WaitingForRequest
    \<and> parse continue_libs sample_ctx
       \<lparr>ps_parser = HttpParser_new\<lparr>hp_state := WaitingForResponse\<rparr>, ps_client_buf = [],
        ps_server_buf = [13, 10, 13, 10] @ as_bytes ''HTTP'', ps_output = []\<rparr>
      = parse continue_libs sample_ctx
       \<lparr>ps_parser = p, ps_client_buf = [], ps_server_buf = as_bytes ''HTTP'',
        ps_output = [HttpResponse
          \<lparr>resp_flow_key = cx_flow_key sample_ctx, resp_client_addr = cx_client_addr sample_ctx,
           resp_server_addr = cx_server_addr sample_ctx, resp_status = 100, resp_version = 1,
           resp_headers = [], resp_body = [], first_byte_timestamp_us = 0, complete_timestamp_us = 0,
           resp_process = None\<rparr>]\<rparr>"
proof -
  let ?st = "\<lparr>ps_parser = HttpParser_new\<lparr>hp_state := WaitingForResponse\<rparr>, ps_client_buf = [],
    ps_server_buf = [13, 10, 13, 10] @ as_bytes ''HTTP'', ps_output = []\<rparr> :: unit pstate"
  let ?rs = "\<lparr>rs_code = Some 100, rs_version = Some 1, rs_headers = []\<rparr>"
  have hp: "hp_response continue_libs ([13, 10, 13, 10] @ as_bytes ''HTTP'')
      = HpComplete (length [13, 10, 13, 10 :: u8]) ?rs"
    by (simp add: continue_libs_def)
  show ?thesis
    using informational_response_ends_exchange[OF continue_libs_ok _ hp, of ?st 100 sample_ctx]
    by (simp add: sample_ctx_def lossy_headers_def)
qed

end
