(* ===== verification/Tcp.thy ===== *)
theory Tcp
  imports Http
begin

text \<open>
  \<^verbatim>\<open>server/h-protocol/src/tcp.rs\<close>: per-flow TCP state, reassembly of both directions with an
  out-of-order buffer, resynchronisation, and the flow table of a worker. Sequence numbers are
  32-bit words: \<open>seq.wrapping_sub(expected) as i32\<close> is \<open>sint (seq - expected)\<close>. The out-of-order
  buffer is a \<open>BTreeMap<u32, Bytes>\<close>, so its first entry is the numerically smallest sequence
  number. Results are optional: \<open>None\<close> is a panic inside (see \<open>Http_Body\<close>).
\<close>

section \<open>State\<close>

datatype TcpState = Init | SynSent | Established | Closing | Closed

datatype ClientSide = Unknown | ClientAtoB | ClientBtoA

record DirState =
  dir_buf :: bytes
  next_seq :: "u32 option"
  last_data_ts :: int
  ooo :: "(u32 \<times> bytes) list option"

definition DirState_new :: DirState where
  "DirState_new = \<lparr>dir_buf = [], next_seq = None, last_data_ts = 0, ooo = None\<rparr>"

definition discard_buffers :: "DirState \<Rightarrow> DirState" where
  "discard_buffers d = d\<lparr>dir_buf := [], ooo := None\<rparr>"

record 'd TcpFlow =
  tcp_state :: TcpState
  client_side :: ClientSide
  synced :: bool
  a_to_b :: DirState
  b_to_a :: DirState
  last_pkt_ts :: int
  ooo_drops_pending :: u32
  ooo_buffered_pending :: u32
  rexmit_ignored_pending :: u32
  http_parser :: "'d HttpParser"
  fl_flow_key :: FlowKey
  fl_addr_a :: sock_addr
  fl_addr_b :: sock_addr
  fl_process :: "ProcessInfo option"

definition TcpFlow_new :: "FlowKey \<Rightarrow> 'd TcpFlow" where
  "TcpFlow_new k =
     \<lparr>tcp_state = Init, client_side = Unknown, synced = False,
      a_to_b = DirState_new, b_to_a = DirState_new, last_pkt_ts = 0,
      ooo_drops_pending = 0, ooo_buffered_pending = 0, rexmit_ignored_pending = 0,
      http_parser = HttpParser_new, fl_flow_key = k, fl_addr_a = addr_a k, fl_addr_b = addr_b k,
      fl_process = None\<rparr>"

definition CLEANUP_INTERVAL_US :: int where "CLEANUP_INTERVAL_US = 30000000"
definition FLOW_TIMEOUT_US :: int where "FLOW_TIMEOUT_US = 120000000"
definition OOO_CAP_SEGMENTS :: nat where "OOO_CAP_SEGMENTS = 32"

definition dir_of :: "Direction \<Rightarrow> 'd TcpFlow \<Rightarrow> DirState" where
  "dir_of d f = (case d of AtoB \<Rightarrow> a_to_b f | BtoA \<Rightarrow> b_to_a f)"

definition set_dir :: "Direction \<Rightarrow> DirState \<Rightarrow> 'd TcpFlow \<Rightarrow> 'd TcpFlow" where
  "set_dir d s f = (case d of AtoB \<Rightarrow> f\<lparr>a_to_b := s\<rparr> | BtoA \<Rightarrow> f\<lparr>b_to_a := s\<rparr>)"

section \<open>Reassembly\<close>

text \<open>\<open>seq.wrapping_sub(expected) as i32\<close>, and \<open>(-diff) as usize\<close> (negating \<open>i32::MIN\<close> wraps and
  the cast sign-extends).\<close>

definition seq_diff :: "u32 \<Rightarrow> u32 \<Rightarrow> int" where
  "seq_diff seq expected = sint (seq - expected)"

definition behind :: "u32 \<Rightarrow> u32 \<Rightarrow> nat" where
  "behind seq expected = unat (scast (- (seq - expected)) :: u64)"

text \<open>The loop of \<open>drain_ooo\<close> looks at the first entry of the map; removing it leaves the rest of
  the sorted list.\<close>

fun drain_loop :: "bytes \<Rightarrow> u32 \<Rightarrow> (u32 \<times> bytes) list \<Rightarrow> bytes \<times> u32 \<times> (u32 \<times> bytes) list" where
  "drain_loop b expected [] = (b, expected, [])"
| "drain_loop b expected ((seq, bs) # m) =
     (if seq_diff seq expected > 0 then (b, expected, (seq, bs) # m)
      else if seq_diff seq expected = 0 then drain_loop (b @ bs) (seq + of_nat (length bs)) m
      else if behind seq expected < length bs
      then drain_loop (b @ drop (behind seq expected) bs) (seq + of_nat (length bs)) m
      else drain_loop b expected m)"

definition drain_ooo :: "DirState \<Rightarrow> DirState option" where
  "drain_ooo d =
     (case ooo d of
        None \<Rightarrow> Some d
      | Some m \<Rightarrow>
        (case next_seq d of
           None \<Rightarrow> None
         | Some expected \<Rightarrow>
           (let (b, e, m') = drain_loop (dir_buf d) expected m
            in Some (d\<lparr>dir_buf := b, next_seq := Some e, ooo := if m' = [] then None else Some m'\<rparr>))))"

definition drain_if_any :: "DirState \<Rightarrow> DirState option" where
  "drain_if_any d = (case ooo d of Some m \<Rightarrow> if m \<noteq> [] then drain_ooo d else Some d | None \<Rightarrow> Some d)"

text \<open>The out-of-order branch: evict the smallest sequence number when the map is full, then
  insert (which replaces a segment of the same sequence number).\<close>

definition ooo_evict :: "(u32 \<times> bytes) list \<Rightarrow> (u32 \<times> bytes) list" where
  "ooo_evict m = (if length m \<ge> OOO_CAP_SEGMENTS
                  then (case m of [] \<Rightarrow> m | (k, _) # _ \<Rightarrow> bt_remove k m) else m)"

definition append_payload :: "'d TcpFlow \<Rightarrow> ParsedPacket \<Rightarrow> 'd TcpFlow option" where
  "append_payload f pkt =
     (let d = direction pkt; dir = (dir_of d f)\<lparr>last_data_ts := timestamp_us pkt\<rparr>;
          seq = tcp_seq pkt; wire_len = wire_payload_len pkt
      in case next_seq dir of
        None \<Rightarrow> Some (set_dir d (dir\<lparr>dir_buf := dir_buf dir @ payload pkt, next_seq := Some (seq + wire_len)\<rparr>) f)
      | Some expected \<Rightarrow>
        if seq_diff seq expected = 0 then
          map_option (\<lambda>dir'. set_dir d dir' f)
            (drain_if_any (dir\<lparr>dir_buf := dir_buf dir @ payload pkt, next_seq := Some (seq + wire_len)\<rparr>))
        else if seq_diff seq expected < 0 then
          (if behind seq expected < length (payload pkt) then
             map_option (\<lambda>dir'. set_dir d dir' f)
               (drain_if_any (dir\<lparr>dir_buf := dir_buf dir @ drop (behind seq expected) (payload pkt),
                                 next_seq := Some (seq + wire_len)\<rparr>))
           else if payload pkt \<noteq> [] then
             Some (set_dir d dir (f\<lparr>rexmit_ignored_pending := sat_add (rexmit_ignored_pending f) 1\<rparr>))
           else Some (set_dir d dir f))
        else if payload pkt \<noteq> [] then
          (let m = (case ooo dir of Some m \<Rightarrow> m | None \<Rightarrow> []);
               f' = (if length m \<ge> OOO_CAP_SEGMENTS
                     then f\<lparr>ooo_drops_pending := sat_add (ooo_drops_pending f) 1\<rparr> else f);
               dir' = dir\<lparr>ooo := Some (bt_insert seq (payload pkt) (ooo_evict m))\<rparr>
           in Some (set_dir d dir' (f'\<lparr>ooo_buffered_pending := sat_add (ooo_buffered_pending f') 1\<rparr>)))
        else Some (set_dir d dir f))"

section \<open>Parsing the reassembled streams\<close>

text \<open>What \<open>try_parse_http\<close> and \<open>finish_pending_response\<close> pass on, by client side.\<close>

definition flow_ctx :: "'d TcpFlow \<Rightarrow> Direction \<Rightarrow> parse_ctx" where
  "flow_ctx f client =
     (case client of
        AtoB \<Rightarrow> \<lparr>cx_flow_key = fl_flow_key f, cx_client_addr = fl_addr_a f, cx_server_addr = fl_addr_b f,
                 cx_client_ts = last_data_ts (a_to_b f), cx_server_ts = last_data_ts (b_to_a f),
                 cx_server_last_ts = last_data_ts (b_to_a f)\<rparr>
      | BtoA \<Rightarrow> \<lparr>cx_flow_key = fl_flow_key f, cx_client_addr = fl_addr_b f, cx_server_addr = fl_addr_a f,
                 cx_client_ts = last_data_ts (b_to_a f), cx_server_ts = last_data_ts (a_to_b f),
                 cx_server_last_ts = last_data_ts (a_to_b f)\<rparr>)"

definition client_direction :: "ClientSide \<Rightarrow> Direction option" where
  "client_direction c = (case c of Unknown \<Rightarrow> None | ClientAtoB \<Rightarrow> Some AtoB | ClientBtoA \<Rightarrow> Some BtoA)"

fun opposite :: "Direction \<Rightarrow> Direction" where
  "opposite AtoB = BtoA"
| "opposite BtoA = AtoB"

text \<open>The clean-up every resync site performs: both buffers, the parser, both sequence numbers.\<close>

definition drop_stream_state :: "'d TcpFlow \<Rightarrow> 'd TcpFlow" where
  "drop_stream_state f = f\<lparr>a_to_b := (discard_buffers (a_to_b f))\<lparr>next_seq := None\<rparr>,
                          b_to_a := (discard_buffers (b_to_a f))\<lparr>next_seq := None\<rparr>,
                          http_parser := HttpParser_new\<rparr>"

definition try_parse_http ::
  "'d libs \<Rightarrow> 'd TcpFlow \<Rightarrow> HttpParseEvent list \<Rightarrow> (bool \<times> 'd TcpFlow \<times> HttpParseEvent list) option" where
  "try_parse_http lib f out =
     (case client_direction (client_side f) of
        None \<Rightarrow> Some (False, f, out)
      | Some c \<Rightarrow>
        (case parse lib (flow_ctx f c)
                \<lparr>ps_parser = http_parser f, ps_client_buf = dir_buf (dir_of c f),
                 ps_server_buf = dir_buf (dir_of (opposite c) f), ps_output = out\<rparr> of
           None \<Rightarrow> None
         | Some (r, st) \<Rightarrow>
           (let f1 = set_dir c ((dir_of c f)\<lparr>dir_buf := ps_client_buf st\<rparr>) (f\<lparr>http_parser := ps_parser st\<rparr>);
                f2 = set_dir (opposite c) ((dir_of (opposite c) f)\<lparr>dir_buf := ps_server_buf st\<rparr>) f1
            in if r = NeedResync
               then Some (True, (drop_stream_state f2)\<lparr>synced := False\<rparr>, ps_output st)
               else Some (False, f2, ps_output st))))"

definition finish_pending_response ::
  "'d libs \<Rightarrow> 'd TcpFlow \<Rightarrow> HttpParseEvent list \<Rightarrow> 'd TcpFlow \<times> HttpParseEvent list" where
  "finish_pending_response lib f out =
     (case client_direction (client_side f) of
        None \<Rightarrow> (f, out)
      | Some c \<Rightarrow>
        (let srv = dir_of (opposite c) f;
             (p, b, out') = finish_response lib (flow_ctx f c) (http_parser f) (dir_buf srv) out
         in (set_dir (opposite c) (srv\<lparr>dir_buf := b\<rparr>) (f\<lparr>http_parser := p\<rparr>), out')))"

definition is_closed :: "'d TcpFlow \<Rightarrow> bool" where
  "is_closed f \<longleftrightarrow> tcp_state f = Closed"

definition take_append_stats :: "'d TcpFlow \<Rightarrow> (u32 \<times> u32 \<times> u32) \<times> 'd TcpFlow" where
  "take_append_stats f =
     ((ooo_drops_pending f, ooo_buffered_pending f, rexmit_ignored_pending f),
      f\<lparr>ooo_drops_pending := 0, ooo_buffered_pending := 0, rexmit_ignored_pending := 0\<rparr>)"

definition looks_like_http_request :: "bytes \<Rightarrow> bool" where
  "looks_like_http_request b \<longleftrightarrow> b \<noteq> [] \<and>
     list_ex (\<lambda>m. prefix (as_bytes m) b)
       [''GET '', ''POST '', ''PUT '', ''DELETE '', ''PATCH '', ''HEAD '', ''OPTIONS '', ''CONNECT '']"

section \<open>One packet\<close>

definition side_of :: "Direction \<Rightarrow> ClientSide" where
  "side_of d = (case d of AtoB \<Rightarrow> ClientAtoB | BtoA \<Rightarrow> ClientBtoA)"

text \<open>The payload part of \<open>push_inner\<close>. Its first component is the \<open>resync\<close> flag.\<close>

definition push_payload ::
  "'d libs \<Rightarrow> 'd TcpFlow \<Rightarrow> ParsedPacket \<Rightarrow> HttpParseEvent list \<Rightarrow> (bool \<times> 'd TcpFlow \<times> HttpParseEvent list) option" where
  "push_payload lib f pkt out =
     (if payload pkt = [] then Some (False, f, out)
      else if \<not> synced f then
        (if looks_like_http_request (payload pkt) then
           (let f1 = (drop_stream_state f)\<lparr>client_side := side_of (direction pkt), synced := True\<rparr>
            in case append_payload f1 pkt of
                 None \<Rightarrow> None
               | Some f2 \<Rightarrow>
                 (case try_parse_http lib f2 out of
                    None \<Rightarrow> None
                  | Some (_, f3, out') \<Rightarrow> Some (True, f3, out')))
         else Some (False, f, out))
      else if client_side f = side_of (direction pkt) \<and> is_waiting_for_response (http_parser f)
              \<and> looks_like_http_request (payload pkt) then
        (case append_payload (drop_stream_state f) pkt of
           None \<Rightarrow> None
         | Some f2 \<Rightarrow>
           (case try_parse_http lib f2 out of
              None \<Rightarrow> None
            | Some (_, f3, out') \<Rightarrow> Some (True, f3, out')))
      else
        (case append_payload f pkt of
           None \<Rightarrow> None
         | Some f2 \<Rightarrow> try_parse_http lib f2 out))"

definition push_inner ::
  "'d libs \<Rightarrow> 'd TcpFlow \<Rightarrow> ParsedPacket \<Rightarrow> HttpParseEvent list \<Rightarrow> (bool \<times> 'd TcpFlow \<times> HttpParseEvent list) option" where
  "push_inner lib f0 pkt out =
     (let f = f0\<lparr>last_pkt_ts := timestamp_us pkt\<rparr>; d = direction pkt in
      if has_rst pkt then
        (let (f', out') = finish_pending_response lib (f\<lparr>tcp_state := Closed\<rparr>) out in Some (False, f', out'))
      else if has_syn pkt \<and> \<not> has_ack pkt then
        (let f1 = f\<lparr>tcp_state := SynSent, client_side := side_of d, synced := True\<rparr>
         in Some (False, set_dir d ((dir_of d f1)\<lparr>next_seq := Some (tcp_seq pkt + 1)\<rparr>) f1, out))
      else if has_syn pkt \<and> has_ack pkt then
        (let f1 = f\<lparr>tcp_state := Established\<rparr>
         in Some (False, set_dir d ((dir_of d f1)\<lparr>next_seq := Some (tcp_seq pkt + 1)\<rparr>) f1, out))
      else
        (let f1 = (if has_fin pkt
                   then f\<lparr>tcp_state := (if tcp_state f = Closing then Closed else Closing)\<rparr> else f);
             f2 = (if (tcp_state f1 = Init \<or> tcp_state f1 = SynSent) \<and> payload pkt \<noteq> []
                   then f1\<lparr>tcp_state := Established\<rparr> else f1)
         in if unat (wire_payload_len pkt) > length (payload pkt) then
              Some (True, (drop_stream_state f2)\<lparr>synced := False\<rparr>, out)
            else
              (case push_payload lib f2 pkt out of
                 None \<Rightarrow> None
               | Some (resync, f3, out1) \<Rightarrow>
                 (if tcp_state f3 = Closing \<or> tcp_state f3 = Closed then
                    (let (f4, out2) = finish_pending_response lib f3 out1 in Some (resync, f4, out2))
                  else Some (resync, f3, out1)))))"

definition push ::
  "'d libs \<Rightarrow> 'd TcpFlow \<Rightarrow> ParsedPacket \<Rightarrow> HttpParseEvent list \<Rightarrow> (bool \<times> 'd TcpFlow \<times> HttpParseEvent list) option" where
  "push lib f0 pkt out =
     (let f = (if fl_process f0 = None \<and> process pkt \<noteq> None then f0\<lparr>fl_process := process pkt\<rparr> else f0);
          stamp_from = length out
      in case push_inner lib f pkt out of
           None \<Rightarrow> None
         | Some (resync, f', out') \<Rightarrow>
             Some (resync, f',
               case fl_process f' of
                 None \<Rightarrow> out'
               | Some proc \<Rightarrow> take stamp_from out' @ map (set_process (Some proc)) (drop stamp_from out')))"

section \<open>The worker\<close>

text \<open>\<open>WorkerInput\<close> is declared in \<^verbatim>\<open>flow.rs\<close>.\<close>

datatype WorkerInput = WPacket ParsedPacket | WHeartbeat int string

record 'd FlowWorker =
  flows :: "(FlowKey \<times> 'd TcpFlow) list"
  fw_metrics :: "ProtocolMetric MetricsWorker"
  last_cleanup_by_source :: "(string \<times> int) list"

definition FlowWorker_new :: "ProtocolMetric MetricsWorker \<Rightarrow> 'd FlowWorker" where
  "FlowWorker_new w = \<lparr>flows = [], fw_metrics = w, last_cleanup_by_source = []\<rparr>"

definition flow_count :: "'d FlowWorker \<Rightarrow> nat" where
  "flow_count w = length (flows w)"

fun event_metric :: "HttpParseEvent \<Rightarrow> ProtocolMetric option" where
  "event_metric (HttpRequest _) = Some HttpParseReq"
| "event_metric (HttpResponse _) = Some HttpParseResp"
| "event_metric (SseEvent _) = Some SseEventsParsed"
| "event_metric (Heartbeat _ _) = None"

fun count_events :: "HttpParseEvent list \<Rightarrow> ProtocolMetric MetricsWorker \<Rightarrow> ProtocolMetric MetricsWorker" where
  "count_events [] m = m"
| "count_events (e # es) m =
     count_events es (case event_metric e of Some x \<Rightarrow> metric_inc x m | None \<Rightarrow> m)"

definition count_if_positive :: "ProtocolMetric \<Rightarrow> u32 \<Rightarrow> ProtocolMetric MetricsWorker \<Rightarrow> ProtocolMetric MetricsWorker" where
  "count_if_positive x n m = (if n > 0 then metric_add x (ucast n) m else m)"

text \<open>The loop over the keys of the timed-out flows.\<close>

fun expire_flows ::
  "'d libs \<Rightarrow> FlowKey list \<Rightarrow> 'd FlowWorker \<Rightarrow> HttpParseEvent list \<Rightarrow> 'd FlowWorker \<times> HttpParseEvent list" where
  "expire_flows lib [] w out = (w, out)"
| "expire_flows lib (k # ks) w out =
     (let out' = (case map_of (flows w) k of
                    Some f \<Rightarrow> snd (finish_pending_response lib f out) | None \<Rightarrow> out);
          w' = w\<lparr>flows := AList.delete k (flows w), fw_metrics := metric_inc FlowsExpired (fw_metrics w)\<rparr>
      in expire_flows lib ks w' out')"

definition timed_out :: "string \<Rightarrow> int \<Rightarrow> FlowKey \<times> 'd TcpFlow \<Rightarrow> bool" where
  "timed_out sid now kf \<longleftrightarrow>
     source_id (fst kf) = sid \<and> now - last_pkt_ts (snd kf) > FLOW_TIMEOUT_US"

definition maybe_cleanup_stale_flows ::
  "'d libs \<Rightarrow> 'd FlowWorker \<Rightarrow> string \<Rightarrow> int \<Rightarrow> HttpParseEvent list \<Rightarrow> 'd FlowWorker \<times> HttpParseEvent list" where
  "maybe_cleanup_stale_flows lib w sid now out =
     (let last = (case map_of (last_cleanup_by_source w) sid of Some t \<Rightarrow> t | None \<Rightarrow> 0) in
      if now - last < CLEANUP_INTERVAL_US
      then (w\<lparr>last_cleanup_by_source := AList.update sid last (last_cleanup_by_source w)\<rparr>, out)
      else expire_flows lib (map fst (filter (timed_out sid now) (flows w)))
             (w\<lparr>last_cleanup_by_source := AList.update sid now (last_cleanup_by_source w)\<rparr>) out)"

definition process_packet ::
  "'d libs \<Rightarrow> 'd FlowWorker \<Rightarrow> ParsedPacket \<Rightarrow> HttpParseEvent list \<Rightarrow> ('d FlowWorker \<times> HttpParseEvent list) option" where
  "process_packet lib w pkt out =
     (let k = flow_key pkt; m0 = metric_inc NetPacketsParsed (fw_metrics w);
          f = (case map_of (flows w) k of Some f \<Rightarrow> f | None \<Rightarrow> TcpFlow_new k)
      in case push lib f pkt out of
           None \<Rightarrow> None
         | Some (resync, f1, out1) \<Rightarrow>
           (let m1 = (if resync then metric_inc HttpResyncEvents m0 else m0);
                ((drops, buffered, rex), f2) = take_append_stats f1;
                m2 = count_if_positive TcpRetransmissionsIgnored rex
                       (count_if_positive TcpOutOfOrderBuffered buffered
                         (count_if_positive TcpOutOfOrderDrops drops m1));
                m3 = count_events (drop (length out) out1) m2;
                fs = AList.update k f2 (flows w);
                fs' = (if is_closed f2 then AList.delete k fs else fs)
            in Some (maybe_cleanup_stale_flows lib (w\<lparr>flows := fs', fw_metrics := m3\<rparr>)
                       (source_id k) (timestamp_us pkt) out1)))"

definition process_heartbeat ::
  "'d libs \<Rightarrow> 'd FlowWorker \<Rightarrow> int \<Rightarrow> string \<Rightarrow> HttpParseEvent list \<Rightarrow> 'd FlowWorker \<times> HttpParseEvent list" where
  "process_heartbeat lib w ts sid out =
     (let (w', out') = maybe_cleanup_stale_flows lib
            (w\<lparr>fw_metrics := metric_inc FlowHeartbeatsReceived (fw_metrics w)\<rparr>) sid ts out
      in (w', out' @ [Heartbeat ts sid]))"

definition process_input ::
  "'d libs \<Rightarrow> 'd FlowWorker \<Rightarrow> WorkerInput \<Rightarrow> ('d FlowWorker \<times> HttpParseEvent list) option" where
  "process_input lib w i =
     (case i of
        WPacket pkt \<Rightarrow> process_packet lib w pkt []
      | WHeartbeat ts sid \<Rightarrow> Some (process_heartbeat lib w ts sid []))"

section \<open>Streams, invariants\<close>

definition seg_append :: "DirState \<Rightarrow> ParsedPacket \<Rightarrow> DirState option" where
  "seg_append dir0 pkt =
     (let dir = dir0\<lparr>last_data_ts := timestamp_us pkt\<rparr>; seq = tcp_seq pkt; wire_len = wire_payload_len pkt
      in case next_seq dir of
        None \<Rightarrow> Some (dir\<lparr>dir_buf := dir_buf dir @ payload pkt, next_seq := Some (seq + wire_len)\<rparr>)
      | Some expected \<Rightarrow>
        if seq_diff seq expected = 0 then
          drain_if_any (dir\<lparr>dir_buf := dir_buf dir @ payload pkt, next_seq := Some (seq + wire_len)\<rparr>)
        else if seq_diff seq expected < 0 then
          (if behind seq expected < length (payload pkt) then
             drain_if_any (dir\<lparr>dir_buf := dir_buf dir @ drop (behind seq expected) (payload pkt),
                                 next_seq := Some (seq + wire_len)\<rparr>)
           else Some dir)
        else if payload pkt \<noteq> [] then
          Some (dir\<lparr>ooo := Some (bt_insert seq (payload pkt)
            (ooo_evict (case ooo dir of Some m \<Rightarrow> m | None \<Rightarrow> [])))\<rparr>)
        else Some dir)"

text \<open>A byte stream \<open>S\<close> whose first byte has sequence number \<open>isn\<close>, and the segments cut from it.\<close>

definition cut_from :: "bytes \<Rightarrow> nat \<Rightarrow> bytes \<Rightarrow> bool" where
  "cut_from S off bs \<longleftrightarrow> off + length bs \<le> length S \<and> bs = take (length bs) (drop off S)"

definition segment_of :: "bytes \<Rightarrow> u32 \<Rightarrow> u32 \<times> bytes \<Rightarrow> bool" where
  "segment_of S isn sb \<longleftrightarrow> (\<exists>off. fst sb = isn + of_nat off \<and> cut_from S off (snd sb))"

definition stream_at :: "bytes \<Rightarrow> u32 \<Rightarrow> bytes \<Rightarrow> nat \<Rightarrow> nat \<Rightarrow> bytes \<Rightarrow> u32 \<Rightarrow> bool" where
  "stream_at S isn pre n0 n b e \<longleftrightarrow>
     n0 \<le> n \<and> n \<le> length S \<and> b = pre @ drop n0 (take n S) \<and> e = isn + of_nat n"

definition dir_tracks :: "bytes \<Rightarrow> u32 \<Rightarrow> bytes \<Rightarrow> nat \<Rightarrow> nat \<Rightarrow> DirState \<Rightarrow> bool" where
  "dir_tracks S isn pre n0 n d \<longleftrightarrow>
     (\<exists>e. next_seq d = Some e \<and> stream_at S isn pre n0 n (dir_buf d) e) \<and>
     (case ooo d of None \<Rightarrow> True | Some m \<Rightarrow> list_all (segment_of S isn) m)"

definition packet_of :: "bytes \<Rightarrow> u32 \<Rightarrow> ParsedPacket \<Rightarrow> bool" where
  "packet_of S isn pkt \<longleftrightarrow> segment_of S isn (tcp_seq pkt, payload pkt)
     \<and> wire_payload_len pkt = of_nat (length (payload pkt))"

text \<open>Completeness: no wrap of the sequence space, so that the map order is the stream order.\<close>

definition key_off :: "u32 \<Rightarrow> u32 \<Rightarrow> nat" where
  "key_off isn seq = unat (seq - isn)"

text \<open>Where a direction starts in the stream: at its first packet when it knows no sequence number.\<close>

definition start_off :: "DirState \<Rightarrow> u32 \<Rightarrow> ParsedPacket list \<Rightarrow> nat" where
  "start_off d isn pkts =
     (if next_seq d = None \<and> pkts \<noteq> [] then key_off isn (tcp_seq (hd pkts)) else 0)"

text \<open>After a drain every buffered segment starts behind a gap.\<close>

definition gaps :: "u32 \<Rightarrow> nat \<Rightarrow> (u32 \<times> bytes) list \<Rightarrow> bool" where
  "gaps isn n m \<longleftrightarrow> list_all (\<lambda>sb. n < key_off isn (fst sb)) m"

definition ooo_list :: "DirState \<Rightarrow> (u32 \<times> bytes) list" where
  "ooo_list d = (case ooo d of Some m \<Rightarrow> m | None \<Rightarrow> [])"

text \<open>A segment is covered by the first \<open>n\<close> bytes or by a segment in the map that is at least as long.\<close>

definition covered :: "u32 \<Rightarrow> nat \<Rightarrow> (u32 \<times> bytes) list \<Rightarrow> u32 \<times> bytes \<Rightarrow> bool" where
  "covered isn n m sb \<longleftrightarrow> (\<exists>sb'\<in>set m. fst sb' = fst sb \<and> length (snd sb) \<le> length (snd sb'))
     \<or> key_off isn (fst sb) + length (snd sb) \<le> n"

text \<open>What is known of a direction after the segments \<open>R\<close>: each is covered.\<close>

definition dir_complete :: "bytes \<Rightarrow> u32 \<Rightarrow> bytes \<Rightarrow> nat \<Rightarrow> (u32 \<times> bytes) list \<Rightarrow> nat \<Rightarrow> DirState \<Rightarrow> bool" where
  "dir_complete S isn pre n0 R n d \<longleftrightarrow> dir_tracks S isn pre n0 n d \<and> bt_valid (ooo_list d)
     \<and> gaps isn n (ooo_list d) \<and> length (ooo_list d) \<le> length R \<and> set (ooo_list d) \<subseteq> set R
     \<and> (\<forall>sb\<in>set R. covered isn n (ooo_list d) sb)"

definition with_data :: "ParsedPacket list \<Rightarrow> ParsedPacket list" where
  "with_data pkts = filter (\<lambda>p. payload p \<noteq> []) pkts"

definition segments :: "ParsedPacket list \<Rightarrow> (u32 \<times> bytes) list" where
  "segments pkts = map (\<lambda>p. (tcp_seq p, payload p)) (with_data pkts)"

text \<open>A segment that comes later under the same sequence number is at least as long.\<close>

definition no_shrink :: "ParsedPacket list \<Rightarrow> bool" where
  "no_shrink pkts \<longleftrightarrow> sorted_wrt (\<lambda>p q. tcp_seq p = tcp_seq q \<longrightarrow> length (payload p) \<le> length (payload q)) (with_data pkts)"

fun event_key :: "HttpParseEvent \<Rightarrow> FlowKey option" where
  "event_key (HttpRequest r) = Some (req_flow_key r)"
| "event_key (HttpResponse r) = Some (resp_flow_key r)"
| "event_key (SseEvent e) = Some (sse_flow_key e)"
| "event_key (Heartbeat _ _) = None"

fun event_process :: "HttpParseEvent \<Rightarrow> ProcessInfo option" where
  "event_process (HttpRequest r) = req_process r"
| "event_process (HttpResponse r) = resp_process r"
| "event_process (SseEvent e) = sse_process e"
| "event_process (Heartbeat _ _) = None"

definition from_flow :: "FlowKey \<Rightarrow> ProcessInfo option \<Rightarrow> HttpParseEvent \<Rightarrow> bool" where
  "from_flow k p ev \<longleftrightarrow> event_key ev = Some k \<and> event_process ev = p"

definition dir_ok :: "DirState \<Rightarrow> bool" where
  "dir_ok d \<longleftrightarrow> (case ooo d of None \<Rightarrow> True
     | Some m \<Rightarrow> next_seq d \<noteq> None \<and> bt_valid m \<and> length m \<le> OOO_CAP_SEGMENTS)"

definition flow_inv :: "FlowKey \<Rightarrow> 'd TcpFlow \<Rightarrow> bool" where
  "flow_inv k f \<longleftrightarrow> fl_flow_key f = k \<and> fl_addr_a f = addr_a k \<and> fl_addr_b f = addr_b k
     \<and> (synced f \<longrightarrow> client_side f \<noteq> Unknown) \<and> dir_ok (a_to_b f) \<and> dir_ok (b_to_a f)"

text \<open>What reassembly and parsing leave alone.\<close>

definition same_flow :: "'d TcpFlow \<Rightarrow> 'd TcpFlow \<Rightarrow> bool" where
  "same_flow f g \<longleftrightarrow> fl_flow_key g = fl_flow_key f \<and> fl_addr_a g = fl_addr_a f \<and> fl_addr_b g = fl_addr_b f
     \<and> fl_process g = fl_process f \<and> client_side g = client_side f \<and> last_pkt_ts g = last_pkt_ts f
     \<and> tcp_state g = tcp_state f"

text \<open>An operation on flow \<open>f\<close> that ends in \<open>g\<close>, the output extended by events of this flow.\<close>

definition flow_op :: "FlowKey \<Rightarrow> 'd TcpFlow \<Rightarrow> HttpParseEvent list \<Rightarrow> 'd TcpFlow \<Rightarrow> HttpParseEvent list \<Rightarrow> bool" where
  "flow_op k f out g out' \<longleftrightarrow> flow_inv k g \<and> fl_process g = fl_process f \<and> last_pkt_ts g = last_pkt_ts f
     \<and> (\<exists>evs. out' = out @ evs \<and> list_all (from_flow k None) evs)"

definition flow_idle :: "'d TcpFlow \<Rightarrow> bool" where
  "flow_idle f \<longleftrightarrow> tcp_state f \<noteq> Closed \<and> ooo_drops_pending f = 0 \<and> ooo_buffered_pending f = 0
     \<and> rexmit_ignored_pending f = 0"

definition worker_inv :: "'d FlowWorker \<Rightarrow> bool" where
  "worker_inv w \<longleftrightarrow> hm_valid (flows w) \<and> list_all (\<lambda>(k, f). flow_inv k f \<and> flow_idle f) (flows w)"

definition input_source :: "WorkerInput \<Rightarrow> string" where
  "input_source i = (case i of WPacket p \<Rightarrow> source_id (flow_key p) | WHeartbeat _ sid \<Rightarrow> sid)"

fun event_source :: "HttpParseEvent \<Rightarrow> string" where
  "event_source (Heartbeat _ sid) = sid"
| "event_source (HttpRequest r) = source_id (req_flow_key r)"
| "event_source (HttpResponse r) = source_id (resp_flow_key r)"
| "event_source (SseEvent e) = source_id (sse_flow_key e)"

definition last_sweep :: "'d FlowWorker \<Rightarrow> string \<Rightarrow> int" where
  "last_sweep w sid = (case map_of (last_cleanup_by_source w) sid of Some t \<Rightarrow> t | None \<Rightarrow> 0)"

definition sample_key :: FlowKey where
  "sample_key = \<lparr>source_id = ''eth0'', addr_a = (V4 1, 40000), addr_b = (V4 2, 443)\<rparr>"

definition data_packet :: "u32 \<Rightarrow> bytes \<Rightarrow> ParsedPacket" where
  "data_packet seq bs =
     \<lparr>flow_key = sample_key, direction = AtoB, src_ip = V4 1, src_port = 40000, dst_ip = V4 2, dst_port = 443,
      tcp_flags = TCP_ACK, tcp_seq = seq, tcp_ack = 0, payload = bs,
      wire_payload_len = of_nat (length bs), timestamp_us = 0, process = None\<rparr>"

definition sample_flow :: "u32 \<Rightarrow> unit TcpFlow" where
  "sample_flow isn = (TcpFlow_new sample_key)\<lparr>a_to_b := DirState_new\<lparr>next_seq := Some isn\<rparr>\<rparr>"

definition stale_flow :: "unit TcpFlow" where
  "stale_flow = (TcpFlow_new sample_key)\<lparr>tcp_state := Established, client_side := ClientAtoB, synced := True,
     http_parser := HttpParser_new\<lparr>hp_state := ReadingResponseBody\<rparr>,
     fl_process := Some \<lparr>pid = 7, comm = ''claude'', exe = None\<rparr>\<rparr>"

definition sample_worker :: "unit FlowWorker" where
  "sample_worker = \<lparr>flows = [(sample_key, stale_flow)], fw_metrics = (\<lambda>_. 0), last_cleanup_by_source = []\<rparr>"

definition sample_syn :: ParsedPacket where
  "sample_syn = (data_packet 9 [])\<lparr>tcp_flags := TCP_SYN\<rparr>"

definition sample_fin :: ParsedPacket where
  "sample_fin = (data_packet 5 [])\<lparr>tcp_flags := TCP_FIN OR TCP_ACK\<rparr>"

section \<open>Lemmas\<close>

lemma dir_of_set_dir [simp]:
  "dir_of d (set_dir d' s f) = (if d = d' then s else dir_of d f)"
  by (cases d; cases d') (simp_all add: dir_of_def set_dir_def)

lemma dir_of_update [simp]:
  "dir_of d (f\<lparr>rexmit_ignored_pending := x\<rparr>) = dir_of d f"
  "dir_of d (f\<lparr>ooo_drops_pending := x\<rparr>) = dir_of d f"
  "dir_of d (f\<lparr>ooo_buffered_pending := x\<rparr>) = dir_of d f"
  by (cases d; simp add: dir_of_def)+

lemma append_payload_dir:
  "map_option (dir_of d) (append_payload f pkt) =
    (if d = direction pkt then seg_append (dir_of d f) pkt
     else map_option (\<lambda>_. dir_of d f) (seg_append (dir_of (direction pkt) f) pkt))"
  unfolding append_payload_def seg_append_def Let_def
  by (auto simp: option.map_comp comp_def option.map_ident split: option.split)

text \<open>Sequence arithmetic.\<close>

lemma sint_of_int_small:
  assumes "\<bar>k\<bar> < 2 ^ 31" shows "sint (of_int k :: u32) = k"
  using assms by (simp add: signed_of_int signed_take_bit_int_eq_self)

lemma seq_diff_off:
  assumes "a < 2 ^ 31" "b < 2 ^ 31"
  shows "seq_diff (isn + of_nat a) (isn + of_nat b) = int a - int b"
proof -
  have "(isn + of_nat a) - (isn + of_nat b) = (of_int (int a - int b) :: u32)" by simp
  then show ?thesis using assms by (simp add: seq_diff_def sint_of_int_small del: of_int_diff)
qed

lemma behind_off:
  assumes "a < b" "b < 2 ^ 31"
  shows "behind (isn + of_nat a) (isn + of_nat b) = b - a"
proof -
  have "- ((isn + of_nat a) - (isn + of_nat b)) = (of_int (int b - int a) :: u32)" by simp
  moreover have "scast (of_int (int b - int a) :: u32) = (of_int (int b - int a) :: u64)"
  proof -
    have "sint (of_int (int b - int a) :: u32) = int b - int a"
      using assms by (intro sint_of_int_small) simp
    then show ?thesis by (simp add: scast_eq del: of_int_diff)
  qed
  moreover have "(of_int (int b - int a) :: u64) = of_nat (b - a)" using assms by (simp add: of_nat_diff)
  moreover have "unat (of_nat (b - a) :: u64) = b - a"
    using assms by (simp add: unsigned_of_nat take_bit_nat_eq_self del: of_nat_diff)
  ultimately show ?thesis unfolding behind_def by simp
qed

lemma extend_prefix:
  assumes "cut_from S off bs" "off \<le> n" "n \<le> off + length bs" "n0 \<le> n"
  shows "drop n0 (take n S) @ drop (n - off) bs = drop n0 (take (off + length bs) S)"
proof -
  let ?e = "off + length bs"
  have "drop (n - off) bs = drop (n - off) (take (length bs) (drop off S))"
    using assms(1) by (simp add: cut_from_def)
  also have "\<dots> = take (?e - n) (drop n S)" using assms(2,3) by (simp add: drop_take add.commute)
  finally have "take n S @ drop (n - off) bs = take ?e S"
    using assms(3) take_add[of n "?e - n" S] by simp
  moreover have "n0 \<le> length (take n S)" using assms by (simp add: cut_from_def)
  ultimately show ?thesis by (metis diff_is_0_eq drop0 drop_append)
qed

lemma stream_extend:
  assumes "stream_at S isn pre n0 n b e" "cut_from S off bs" "off \<le> n" "n \<le> off + length bs"
  shows "stream_at S isn pre n0 (off + length bs) (b @ drop (n - off) bs) (isn + of_nat off + of_nat (length bs))"
  using assms extend_prefix[OF assms(2,3,4), of n0] by (auto simp: stream_at_def cut_from_def)

lemma drain_loop_safe:
  assumes "length S < 2 ^ 31"
  shows "list_all (segment_of S isn) m \<Longrightarrow> stream_at S isn pre n0 n b e \<Longrightarrow> drain_loop b e m = (b', e', m') \<Longrightarrow>
    \<exists>n'. n \<le> n' \<and> stream_at S isn pre n0 n' b' e' \<and> list_all (segment_of S isn) m'"
proof (induction m arbitrary: b e n)
  case Nil
  then show ?case by auto
next
  case (Cons sb m)
  obtain off bs where off: "sb = (isn + of_nat off, bs)" "cut_from S off bs"
    using Cons.prems(1) by (cases sb) (auto simp: segment_of_def)
  let ?seq = "isn + of_nat off :: u32"
  have n: "n \<le> length S" "e = isn + of_nat n" using Cons.prems(2) by (auto simp: stream_at_def)
  have offS: "off \<le> length S" using off by (simp add: cut_from_def)
  have d: "seq_diff ?seq e = int off - int n"
    using seq_diff_off[of off n isn] assms offS n by simp
  have m: "list_all (segment_of S isn) m" using Cons.prems(1) by simp
  note ext = stream_extend[OF Cons.prems(2) off(2)]
  consider "n < off" | "off = n" | "off < n" "n - off < length bs" | "off < n" "length bs \<le> n - off"
    by linarith
  then show ?case
  proof cases
    case 1
    then show ?thesis using Cons.prems d off(1) by auto
  next
    case 2
    then have "drain_loop (b @ drop (n - off) bs) (?seq + of_nat (length bs)) m = (b', e', m')"
      using Cons.prems(3) d off(1) by simp
    moreover have le: "off \<le> n" "n \<le> off + length bs" using 2 by auto
    ultimately obtain n' where "off + length bs \<le> n'" "stream_at S isn pre n0 n' b' e'"
      "list_all (segment_of S isn) m'" using Cons.IH[OF m ext[OF le]] by blast
    then show ?thesis using le(2) le_trans by blast
  next
    case 3
    then have "drain_loop (b @ drop (n - off) bs) (?seq + of_nat (length bs)) m = (b', e', m')"
      using Cons.prems(3) d off(1) behind_off[of off n isn] n assms by simp
    moreover have le: "off \<le> n" "n \<le> off + length bs" using 3 by auto
    ultimately obtain n' where "off + length bs \<le> n'" "stream_at S isn pre n0 n' b' e'"
      "list_all (segment_of S isn) m'" using Cons.IH[OF m ext[OF le]] by blast
    then show ?thesis using le(2) le_trans by blast
  next
    case 4
    then have "drain_loop b e m = (b', e', m')"
      using Cons.prems(3) d off(1) behind_off[of off n isn] n assms by simp
    from Cons.IH[OF m Cons.prems(2) this] show ?thesis .
  qed
qed

lemma drain_if_any_safe:
  assumes "length S < 2 ^ 31" "dir_tracks S isn pre n0 n d"
  shows "\<exists>d' n'. drain_if_any d = Some d' \<and> n \<le> n' \<and> dir_tracks S isn pre n0 n' d'"
proof (cases "ooo d")
  case None
  then show ?thesis using assms(2) by (auto simp: drain_if_any_def)
next
  case (Some m)
  obtain e where e: "next_seq d = Some e" "stream_at S isn pre n0 n (dir_buf d) e"
    and m: "list_all (segment_of S isn) m"
    using assms(2) Some by (auto simp: dir_tracks_def)
  obtain b' e' m' where l: "drain_loop (dir_buf d) e m = (b', e', m')"
    by (cases "drain_loop (dir_buf d) e m")
  from drain_loop_safe[OF assms(1) m e(2) l]
  show ?thesis using Some e l assms(2) by (auto simp: drain_if_any_def drain_ooo_def dir_tracks_def)
qed

lemma list_all_bt_insert: "list_all P m \<Longrightarrow> P (k, v) \<Longrightarrow> list_all P (bt_insert k v m)"
  by (induction k v m rule: bt_insert.induct) auto

lemma list_all_evict: "list_all P m \<Longrightarrow> list_all P (ooo_evict m)"
  by (auto simp: ooo_evict_def bt_remove_def list_all_iff split: list.splits)

lemma seg_append_safe:
  assumes "length S < 2 ^ 31" "dir_tracks S isn pre n0 n d" "packet_of S isn pkt"
  shows "\<exists>d' n'. seg_append d pkt = Some d' \<and> n \<le> n' \<and> dir_tracks S isn pre n0 n' d'"
proof -
  let ?d = "d\<lparr>last_data_ts := timestamp_us pkt\<rparr>"
  have t: "dir_tracks S isn pre n0 n ?d" using assms(2) by (simp add: dir_tracks_def)
  obtain off where off: "tcp_seq pkt = isn + of_nat off" "cut_from S off (payload pkt)"
    and wl: "wire_payload_len pkt = of_nat (length (payload pkt))"
    using assms(3) by (auto simp: packet_of_def segment_of_def)
  obtain e where e: "next_seq d = Some e" "stream_at S isn pre n0 n (dir_buf d) e"
    using assms(2) by (auto simp: dir_tracks_def)
  have n: "n \<le> length S" "e = isn + of_nat n" using e(2) by (auto simp: stream_at_def)
  have sd: "seq_diff (tcp_seq pkt) e = int off - int n"
    using seq_diff_off[of off n isn] assms(1) off n by (simp add: cut_from_def)
  note ext = stream_extend[OF e(2) off(2)]
  let ?dx = "?d\<lparr>dir_buf := dir_buf d @ drop (n - off) (payload pkt),
    next_seq := Some (tcp_seq pkt + wire_payload_len pkt)\<rparr>"
  have dx: "dir_tracks S isn pre n0 (off + length (payload pkt)) ?dx"
    if "off \<le> n" "n \<le> off + length (payload pkt)"
    using ext[OF that] t off(1) wl by (auto simp: dir_tracks_def)
  consider "n < off" | "off = n" | "off < n" "n - off < length (payload pkt)"
    | "off < n" "length (payload pkt) \<le> n - off" by linarith
  then show ?thesis
  proof cases
    case 1
    have "list_all (segment_of S isn) (bt_insert (tcp_seq pkt) (payload pkt)
        (ooo_evict (case ooo d of Some m \<Rightarrow> m | None \<Rightarrow> [])))"
      using assms(2,3) by (auto simp: dir_tracks_def packet_of_def split: option.splits
          intro!: list_all_bt_insert list_all_evict)
    then show ?thesis using 1 sd e t by (auto simp: seg_append_def dir_tracks_def Let_def)
  next
    case 2
    then have "seg_append d pkt = drain_if_any ?dx" using sd e by (simp add: seg_append_def)
    moreover have le: "off \<le> n" "n \<le> off + length (payload pkt)" using 2 by auto
    ultimately show ?thesis using drain_if_any_safe[OF assms(1) dx[OF le]] le(2) le_trans by metis
  next
    case 3
    then have "seg_append d pkt = drain_if_any ?dx"
      using sd e behind_off[of off n isn] n off assms(1) by (simp add: seg_append_def)
    moreover have le: "off \<le> n" "n \<le> off + length (payload pkt)" using 3 by auto
    ultimately show ?thesis using drain_if_any_safe[OF assms(1) dx[OF le]] le(2) le_trans by metis
  next
    case 4
    then have "seg_append d pkt = Some ?d"
      using sd e behind_off[of off n isn] n off assms(1) by (simp add: seg_append_def)
    then show ?thesis using t by auto
  qed
qed

lemma append_payload_tracks:
  assumes "length S < 2 ^ 31" "direction pkt = d" "dir_tracks S isn pre n0 n (dir_of d f)" "packet_of S isn pkt"
  shows "\<exists>f' n'. append_payload f pkt = Some f' \<and> n \<le> n' \<and> dir_tracks S isn pre n0 n' (dir_of d f')"
proof -
  obtain d' n' where "seg_append (dir_of d f) pkt = Some d'" "n \<le> n'" "dir_tracks S isn pre n0 n' d'"
    using seg_append_safe[OF assms(1,3,4)] by blast
  then show ?thesis using append_payload_dir[of d f pkt] assms(2) by auto
qed

lemma append_payloads_track:
  assumes "length S < 2 ^ 31"
  shows "list_all (\<lambda>p. direction p = d \<and> packet_of S isn p) pkts \<Longrightarrow> dir_tracks S isn pre n0 n (dir_of d f) \<Longrightarrow>
    \<exists>f' n'. run_steps append_payload f pkts = Some f' \<and> n \<le> n' \<and> dir_tracks S isn pre n0 n' (dir_of d f')"
proof (induction pkts arbitrary: f n)
  case (Cons p pkts)
  obtain f1 n1 where "append_payload f p = Some f1" "n \<le> n1" "dir_tracks S isn pre n0 n1 (dir_of d f1)"
    using append_payload_tracks[OF assms, of p d isn pre n0 n f] Cons.prems by auto
  then show ?case using Cons.IH[of n1 f1] Cons.prems(1) by (auto intro: le_trans)
qed auto

lemma key_off_add: "off < 2 ^ 31 \<Longrightarrow> key_off isn (isn + of_nat off) = off"
  by (simp add: key_off_def unsigned_of_nat take_bit_nat_eq_self)

text \<open>A direction that knows no sequence number starts at its first packet.\<close>

lemma append_payloads_start:
  assumes S: "length S < 2 ^ 31" and pkts: "list_all (\<lambda>p. direction p = d \<and> packet_of S isn p) pkts"
    and "next_seq (dir_of d f) \<in> {None, Some isn}" "ooo (dir_of d f) = None"
  defines "k \<equiv> start_off (dir_of d f) isn pkts"
  shows "\<exists>f' n. run_steps append_payload f pkts = Some f' \<and> k \<le> n \<and> n \<le> length S
    \<and> dir_buf (dir_of d f') = dir_buf (dir_of d f) @ drop k (take n S)"
proof (cases "next_seq (dir_of d f)")
  case (Some e)
  then have "k = 0" "dir_tracks S isn (dir_buf (dir_of d f)) 0 0 (dir_of d f)"
    using assms(3,4) by (auto simp: k_def start_off_def dir_tracks_def stream_at_def)
  then show ?thesis using append_payloads_track[OF S pkts] by (fastforce simp: dir_tracks_def stream_at_def)
next
  case None
  show ?thesis
  proof (cases pkts)
    case Nil
    then show ?thesis by (auto simp: k_def start_off_def intro!: exI[of _ 0])
  next
    case (Cons p ps)
    obtain off where p: "direction p = d" "tcp_seq p = isn + of_nat off" "cut_from S off (payload p)"
      "wire_payload_len p = of_nat (length (payload p))"
      using pkts Cons by (auto simp: packet_of_def segment_of_def)
    have k: "k = off" using p(2,3) S None Cons by (simp add: k_def start_off_def key_off_add cut_from_def)
    let ?d = "(dir_of d f)\<lparr>last_data_ts := timestamp_us p, dir_buf := dir_buf (dir_of d f) @ payload p,
      next_seq := Some (tcp_seq p + wire_payload_len p)\<rparr>"
    have one: "append_payload f p = Some (set_dir d ?d f)" using None p(1) by (simp add: append_payload_def Let_def)
    have "payload p = drop off (take (off + length (payload p)) S)" using p(3) by (simp add: cut_from_def drop_take)
    then have "dir_tracks S isn (dir_buf (dir_of d f)) off (off + length (payload p)) (dir_of d (set_dir d ?d f))"
      using p assms(4) by (simp add: dir_tracks_def stream_at_def cut_from_def)
    moreover have "list_all (\<lambda>p. direction p = d \<and> packet_of S isn p) ps" using pkts Cons by simp
    ultimately obtain f' n where
      f': "run_steps append_payload (set_dir d ?d f) ps = Some f'" "dir_tracks S isn (dir_buf (dir_of d f)) off n (dir_of d f')"
      using append_payloads_track[OF S] by blast
    then show ?thesis using one Cons k by (auto simp: dir_tracks_def stream_at_def)
  qed
qed

lemma key_order:
  assumes "unat isn + length S < 2 ^ 32" "a \<le> length S" "b \<le> length S"
  shows "isn + of_nat a < (isn + of_nat b :: u32) \<longleftrightarrow> a < b"
proof -
  have "unat (isn + of_nat k :: u32) = unat isn + k" if "k \<le> length S" for k
    using that assms(1) by (subst unat_word_ariths(1)) (simp add: unsigned_of_nat take_bit_nat_eq_self)
  then show ?thesis using assms(2,3) by (simp add: word_less_nat_alt)
qed

lemma sorted_gaps:
  assumes "length S < 2 ^ 31" "unat isn + length S < 2 ^ 32"
    and "bt_valid ((isn + of_nat off, bs) # m)" "off \<le> length S"
    and "list_all (segment_of S isn) m" "n < off"
  shows "gaps isn n ((isn + of_nat off, bs) # m)"
proof -
  have "off < key_off isn (fst sb)" if sb: "sb \<in> set m" for sb
  proof -
    obtain o' where o': "fst sb = isn + of_nat o'" "o' \<le> length S"
      using assms(5) sb by (auto simp: list_all_iff segment_of_def cut_from_def)
    have "isn + of_nat off < fst sb" using assms(3) sb by (auto simp: bt_valid_def)
    then have "off < o'" using key_order[OF assms(2,4) o'(2)] o'(1) by simp
    then show ?thesis using o' assms(1) by (simp add: key_off_add)
  qed
  moreover have "key_off isn (isn + of_nat off) = off" using assms(1,4) by (simp add: key_off_add)
  ultimately show ?thesis using assms(6) by (fastforce simp: gaps_def list_all_iff)
qed

lemma drain_loop_complete:
  assumes "length S < 2 ^ 31" "unat isn + length S < 2 ^ 32"
  shows "list_all (segment_of S isn) m \<Longrightarrow> bt_valid m \<Longrightarrow> stream_at S isn pre n0 n b e \<Longrightarrow>
    drain_loop b e m = (b', e', m') \<Longrightarrow>
    \<exists>n'. n \<le> n' \<and> stream_at S isn pre n0 n' b' e' \<and> list_all (segment_of S isn) m' \<and> bt_valid m'
      \<and> gaps isn n' m' \<and> set m' \<subseteq> set m
      \<and> (\<forall>sb\<in>set m. sb \<in> set m' \<or> key_off isn (fst sb) + length (snd sb) \<le> n')"
proof (induction m arbitrary: b e n)
  case Nil
  then show ?case by (auto simp: gaps_def)
next
  case (Cons sb m)
  obtain off bs where off: "sb = (isn + of_nat off, bs)" "cut_from S off bs"
    using Cons.prems(1) by (cases sb) (auto simp: segment_of_def)
  let ?seq = "isn + of_nat off :: u32"
  have n: "n \<le> length S" "e = isn + of_nat n" using Cons.prems(3) by (auto simp: stream_at_def)
  have offS: "off \<le> length S" using off by (simp add: cut_from_def)
  have d: "seq_diff ?seq e = int off - int n"
    using seq_diff_off[of off n isn] assms(1) offS n by simp
  have ko: "key_off isn ?seq = off" using offS assms(1) by (simp add: key_off_add)
  have m: "list_all (segment_of S isn) m" "bt_valid m"
    using Cons.prems(1,2) by (auto simp: bt_valid_def)
  have step: ?case if "drain_loop b1 e1 m = (b', e', m')" "stream_at S isn pre n0 n1 b1 e1"
    "n \<le> n1" "off + length bs \<le> n1" for b1 e1 n1
  proof -
    from Cons.IH[OF m that(2,1)] obtain n' where n': "n1 \<le> n'" "stream_at S isn pre n0 n' b' e'"
      "list_all (segment_of S isn) m'" "bt_valid m'" "gaps isn n' m'" "set m' \<subseteq> set m"
      "\<forall>sb\<in>set m. sb \<in> set m' \<or> key_off isn (fst sb) + length (snd sb) \<le> n'" by blast
    have "key_off isn (fst sb) + length (snd sb) \<le> n'" using off(1) ko that(4) n'(1) by simp
    then show ?thesis using n' that(3) by (intro exI[of _ n']) auto
  qed
  note ext = stream_extend[OF Cons.prems(3) off(2)]
  consider "n < off" | "off = n" | "off < n" "n - off < length bs" | "off < n" "length bs \<le> n - off"
    by linarith
  then show ?case
  proof cases
    case 1
    then have "m' = sb # m" "b' = b" "e' = e" using Cons.prems(4) d off(1) by auto
    moreover have "gaps isn n (sb # m)"
      using sorted_gaps[OF assms _ offS m(1) 1] Cons.prems(2) off(1) by simp
    ultimately show ?thesis using Cons.prems by blast
  next
    case 2
    then have "drain_loop (b @ drop (n - off) bs) (?seq + of_nat (length bs)) m = (b', e', m')"
      using Cons.prems(4) d off(1) by simp
    then show ?thesis by (rule step[OF _ ext]) (use 2 in auto)
  next
    case 3
    then have "drain_loop (b @ drop (n - off) bs) (?seq + of_nat (length bs)) m = (b', e', m')"
      using Cons.prems(4) d off(1) behind_off[of off n isn] n assms(1) by simp
    then show ?thesis by (rule step[OF _ ext]) (use 3 in auto)
  next
    case 4
    then have "drain_loop b e m = (b', e', m')"
      using Cons.prems(4) d off(1) behind_off[of off n isn] n assms(1) by simp
    then show ?thesis by (rule step[OF _ Cons.prems(3)]) (use 4 in auto)
  qed
qed

lemma drain_loop_suffix: "drain_loop b e m = (b', e', m') \<Longrightarrow> suffix m' m"
  by (induction b e m rule: drain_loop.induct) (auto split: if_splits intro: suffix_ConsI)

lemma dir_tracks_list: "dir_tracks S isn pre n0 n d \<longleftrightarrow>
  (\<exists>e. next_seq d = Some e \<and> stream_at S isn pre n0 n (dir_buf d) e) \<and> list_all (segment_of S isn) (ooo_list d)"
  by (simp add: dir_tracks_def ooo_list_def split: option.split)

lemma drain_if_any_complete:
  assumes "length S < 2 ^ 31" "unat isn + length S < 2 ^ 32"
    and "dir_tracks S isn pre n0 n1 d" "bt_valid (ooo_list d)"
  shows "\<exists>d' n'. drain_if_any d = Some d' \<and> n1 \<le> n' \<and> dir_tracks S isn pre n0 n' d' \<and> bt_valid (ooo_list d')
    \<and> gaps isn n' (ooo_list d') \<and> suffix (ooo_list d') (ooo_list d)
    \<and> (\<forall>sb\<in>set (ooo_list d). sb \<in> set (ooo_list d') \<or> key_off isn (fst sb) + length (snd sb) \<le> n')"
proof (cases "ooo_list d = []")
  case True
  then have "drain_if_any d = Some d" by (auto simp: drain_if_any_def ooo_list_def split: option.splits)
  then show ?thesis using True assms(3,4) by (auto simp: gaps_def)
next
  case False
  then obtain m where m: "ooo d = Some m" "ooo_list d = m" "m \<noteq> []"
    by (auto simp: ooo_list_def split: option.splits)
  obtain e where e: "next_seq d = Some e" "stream_at S isn pre n0 n1 (dir_buf d) e"
    and sm: "list_all (segment_of S isn) m"
    using assms(3) m by (auto simp: dir_tracks_list)
  obtain b' e' m' where l: "drain_loop (dir_buf d) e m = (b', e', m')"
    by (cases "drain_loop (dir_buf d) e m")
  let ?d = "d\<lparr>dir_buf := b', next_seq := Some e', ooo := if m' = [] then None else Some m'\<rparr>"
  have dd: "drain_if_any d = Some ?d" using m e l by (simp add: drain_if_any_def drain_ooo_def)
  have lm: "ooo_list ?d = m'" by (simp add: ooo_list_def)
  from drain_loop_complete[OF assms(1,2) sm _ e(2) l] assms(4) m(2)
  obtain n' where n': "n1 \<le> n'" "stream_at S isn pre n0 n' b' e'"
      "list_all (segment_of S isn) m'" "bt_valid m'" "gaps isn n' m'"
      "\<forall>sb\<in>set m. sb \<in> set m' \<or> key_off isn (fst sb) + length (snd sb) \<le> n'" by blast
  have "dir_tracks S isn pre n0 n' ?d" using n' lm by (simp add: dir_tracks_list)
  then show ?thesis using dd lm n' m(2) drain_loop_suffix[OF l] by metis
qed

lemma covered_drain:
  assumes "covered isn n m sb" "n \<le> n'"
    and "\<forall>sb\<in>set m. sb \<in> set m' \<or> key_off isn (fst sb) + length (snd sb) \<le> n'"
  shows "covered isn n' m' sb"
  using assms by (fastforce simp: covered_def)

lemma seg_append_complete:
  assumes "length S < 2 ^ 31" "unat isn + length S < 2 ^ 32"
    and "dir_complete S isn pre n0 R n d" "packet_of S isn pkt"
    and "payload pkt \<noteq> [] \<Longrightarrow> length R < OOO_CAP_SEGMENTS"
    and "\<And>bs. (tcp_seq pkt, bs) \<in> set R \<Longrightarrow> payload pkt \<noteq> [] \<Longrightarrow> length bs \<le> length (payload pkt)"
  shows "\<exists>d' n'. seg_append d pkt = Some d' \<and>
    dir_complete S isn pre n0 (if payload pkt = [] then R else (tcp_seq pkt, payload pkt) # R) n' d'"
proof -
  let ?d = "d\<lparr>last_data_ts := timestamp_us pkt\<rparr>" and ?sb = "(tcp_seq pkt, payload pkt)"
  let ?R = "if payload pkt = [] then R else ?sb # R"
  have t: "dir_tracks S isn pre n0 n d" and bv: "bt_valid (ooo_list d)" and gp: "gaps isn n (ooo_list d)"
    and len: "length (ooo_list d) \<le> length R" and sub: "set (ooo_list d) \<subseteq> set R"
    and cov: "\<forall>sb\<in>set R. covered isn n (ooo_list d) sb"
    using assms(3) by (auto simp: dir_complete_def)
  obtain off where off: "tcp_seq pkt = isn + of_nat off" "cut_from S off (payload pkt)"
    and wl: "wire_payload_len pkt = of_nat (length (payload pkt))"
    using assms(4) by (auto simp: packet_of_def segment_of_def)
  obtain e where e: "next_seq d = Some e" "stream_at S isn pre n0 n (dir_buf d) e"
    using t by (auto simp: dir_tracks_def)
  have n: "n \<le> length S" "e = isn + of_nat n" using e(2) by (auto simp: stream_at_def)
  have offS: "off \<le> length S" using off by (simp add: cut_from_def)
  have sd: "seq_diff (tcp_seq pkt) e = int off - int n"
    using seq_diff_off[of off n isn] assms(1) off n offS by simp
  have ko: "key_off isn (tcp_seq pkt) = off" using off offS assms(1) by (simp add: key_off_add)
  let ?dx = "?d\<lparr>dir_buf := dir_buf d @ drop (n - off) (payload pkt),
    next_seq := Some (tcp_seq pkt + wire_payload_len pkt)\<rparr>"
  have lx: "ooo_list ?dx = ooo_list d" "ooo_list ?d = ooo_list d" by (simp_all add: ooo_list_def)
  have extend: ?thesis if le: "off \<le> n" "n \<le> off + length (payload pkt)" and sa: "seg_append d pkt = drain_if_any ?dx"
  proof -
    have "dir_tracks S isn pre n0 (off + length (payload pkt)) ?dx"
      using stream_extend[OF e(2) off(2)] le t off(1) wl lx by (auto simp: dir_tracks_list)
    from drain_if_any_complete[OF assms(1,2) this] bv lx
    obtain d' n' where d': "drain_if_any ?dx = Some d'" "off + length (payload pkt) \<le> n'"
      "dir_tracks S isn pre n0 n' d'" "bt_valid (ooo_list d')" "gaps isn n' (ooo_list d')"
      "suffix (ooo_list d') (ooo_list d)"
      "\<forall>sb\<in>set (ooo_list d). sb \<in> set (ooo_list d') \<or> key_off isn (fst sb) + length (snd sb) \<le> n'"
      by auto
    have "n \<le> n'" using d'(2) le by simp
    then have "\<forall>sb\<in>set R. covered isn n' (ooo_list d') sb" using cov covered_drain d'(7) by blast
    moreover have "covered isn n' (ooo_list d') ?sb" using ko d'(2) by (simp add: covered_def)
    ultimately show ?thesis
      using d' sa sub len suffix_length_le[OF d'(6)] set_mono_suffix[OF d'(6)]
      by (intro exI[of _ d'] exI[of _ n']) (auto simp: dir_complete_def)
  qed
  consider "n < off" | "off \<le> n" "n \<le> off + length (payload pkt)" "off = n \<or> n < off + length (payload pkt)"
    | "off < n" "off + length (payload pkt) \<le> n" by linarith
  then show ?thesis
  proof cases
    case 1
    show ?thesis
    proof (cases "payload pkt = []")
      case True
      then have "seg_append d pkt = Some ?d" using 1 sd e by (simp add: seg_append_def Let_def)
      then show ?thesis using True t bv gp len sub cov lx by (auto simp: dir_complete_def dir_tracks_list)
    next
      case False
      let ?m = "bt_insert (tcp_seq pkt) (payload pkt) (ooo_list d)"
      have "seg_append d pkt = Some (?d\<lparr>ooo := Some ?m\<rparr>)"
        using 1 sd e len assms(5) False by (simp add: seg_append_def ooo_evict_def ooo_list_def)
      moreover have st: "set ?m = insert ?sb {sb \<in> set (ooo_list d). fst sb \<noteq> tcp_seq pkt}"
        using bt.set_upsert[OF bv] by simp
      moreover have "bt_valid ?m" using bv by (rule bt_insert_valid)
      moreover have "length ?m \<le> Suc (length (ooo_list d))" using bt.size_upsert_le[OF bv] by simp
      moreover have "dir_tracks S isn pre n0 n (?d\<lparr>ooo := Some ?m\<rparr>)"
        using t assms(4) by (simp add: dir_tracks_list ooo_list_def list_all_bt_insert packet_of_def)
      moreover have "gaps isn n ?m" using gp 1 ko unfolding gaps_def by (simp add: list_all_bt_insert)
      moreover have "covered isn n ?m sb" if "sb \<in> set (?sb # R)" for sb
      proof (cases "fst sb = tcp_seq pkt")
        case True
        then have "length (snd sb) \<le> length (payload pkt)" using that assms(6)[of "snd sb"] False by (cases sb) auto
        then show ?thesis using True st by (auto simp: covered_def)
      next
        case other: False
        then have "covered isn n (ooo_list d) sb" using that cov by auto
        then show ?thesis using st other by (auto simp: covered_def)
      qed
      ultimately show ?thesis
        using sub len False by (intro exI[of _ "?d\<lparr>ooo := Some ?m\<rparr>"] exI[of _ n]) (auto simp: dir_complete_def ooo_list_def)
    qed
  next
    case 2
    then have "seg_append d pkt = drain_if_any ?dx"
      using sd e behind_off[of off n isn] n off assms(1) by (cases "off = n") (auto simp: seg_append_def Let_def)
    then show ?thesis using 2(1,2) extend by blast
  next
    case 3
    then have "seg_append d pkt = Some ?d"
      using sd e behind_off[of off n isn] n off assms(1) by (auto simp: seg_append_def Let_def)
    moreover have "covered isn n (ooo_list d) ?sb" using 3(2) ko by (simp add: covered_def)
    ultimately show ?thesis
      using t bv gp len sub cov lx by (auto simp: dir_complete_def dir_tracks_list)
  qed
qed

lemma append_payloads_complete:
  assumes "length S < 2 ^ 31" "unat isn + length S < 2 ^ 32"
  shows "list_all (\<lambda>p. direction p = d \<and> packet_of S isn p) pkts \<Longrightarrow>
    length R + length (segments pkts) \<le> OOO_CAP_SEGMENTS \<Longrightarrow> no_shrink pkts \<Longrightarrow>
    (\<And>s a b. (s, a) \<in> set R \<Longrightarrow> (s, b) \<in> set (segments pkts) \<Longrightarrow> length a \<le> length b) \<Longrightarrow>
    dir_complete S isn pre n0 R n (dir_of d f) \<Longrightarrow>
    \<exists>f' n' R'. run_steps append_payload f pkts = Some f' \<and> set R' = set R \<union> set (segments pkts)
      \<and> dir_complete S isn pre n0 R' n' (dir_of d f')"
proof (induction pkts arbitrary: f n R)
  case Nil
  then show ?case by (auto simp: segments_def with_data_def)
next
  case (Cons p pkts)
  let ?R = "if payload p = [] then R else (tcp_seq p, payload p) # R"
  have p: "direction p = d" "packet_of S isn p" using Cons.prems(1) by auto
  have seg: "segments (p # pkts) = (if payload p = [] then [] else [(tcp_seq p, payload p)]) @ segments pkts"
    by (simp add: segments_def with_data_def)
  have "length bs \<le> length (payload p)" if "(tcp_seq p, bs) \<in> set R" "payload p \<noteq> []" for bs
    using Cons.prems(4)[of "tcp_seq p" bs "payload p"] that by (simp add: seg)
  moreover have "length R < OOO_CAP_SEGMENTS" if "payload p \<noteq> []" using Cons.prems(2) that by (simp add: seg)
  ultimately obtain d' n' where "seg_append (dir_of d f) p = Some d'" "dir_complete S isn pre n0 ?R n' d'"
    using seg_append_complete[OF assms Cons.prems(5) p(2)] by blast
  then obtain f1 where f1: "append_payload f p = Some f1" "dir_complete S isn pre n0 ?R n' (dir_of d f1)"
    using append_payload_dir[of d f p] p(1) by auto
  have u: "set ?R \<union> set (segments pkts) = set R \<union> set (segments (p # pkts))" by (auto simp: seg)
  have later: "length a \<le> length b" if "(s, a) \<in> set ?R" "(s, b) \<in> set (segments pkts)" for s a b
  proof (cases "(s, a) \<in> set R")
    case True
    then show ?thesis using Cons.prems(4) that(2) by (simp add: seg)
  next
    case False
    then have "payload p \<noteq> []" "s = tcp_seq p" "a = payload p" using that(1) by (auto split: if_splits)
    then show ?thesis using Cons.prems(3) that(2) by (auto simp: no_shrink_def segments_def with_data_def)
  qed
  have rest: "list_all (\<lambda>p. direction p = d \<and> packet_of S isn p) pkts"
    "length ?R + length (segments pkts) \<le> OOO_CAP_SEGMENTS" "no_shrink pkts"
    using Cons.prems(1,2,3) by (simp_all add: seg no_shrink_def with_data_def split: if_splits)
  obtain f' n'' R' where "run_steps append_payload f1 pkts = Some f'" "set R' = set ?R \<union> set (segments pkts)"
    "dir_complete S isn pre n0 R' n'' (dir_of d f')"
    using Cons.IH[OF rest(1-3) _ f1(2)] later by blast
  then show ?case using f1(1) u by auto
qed

lemma flow_inv_dir: "flow_inv k f \<Longrightarrow> dir_ok (dir_of d f)"
  by (cases d) (simp_all add: flow_inv_def dir_of_def)

lemma event_of_conn_flow: "event_of_conn cx ev \<Longrightarrow> from_flow (cx_flow_key cx) None ev"
  by (cases ev) (auto simp: from_flow_def)

lemma exchange_from_flow: "exchange cx s evs t \<Longrightarrow> list_all (from_flow (cx_flow_key cx) None) evs"
  by (auto simp: exchange_def list_all_iff event_of_conn_flow)

lemma flow_ctx_key [simp]: "cx_flow_key (flow_ctx f c) = fl_flow_key f"
  by (cases c) (simp_all add: flow_ctx_def)

lemma evict_length: "bt_valid m \<Longrightarrow> length m \<le> OOO_CAP_SEGMENTS \<Longrightarrow> length (ooo_evict m) < OOO_CAP_SEGMENTS"
proof -
  assume m: "bt_valid m" "length m \<le> OOO_CAP_SEGMENTS"
  show ?thesis
  proof (cases m)
    case (Cons kv m')
    then have "length (bt_remove (fst kv) m) < length m"
      using bt.size_remove_lt[OF m(1), of "fst kv" "snd kv"] by simp
    then show ?thesis using m Cons by (auto simp: ooo_evict_def split: prod.splits)
  qed (simp add: ooo_evict_def OOO_CAP_SEGMENTS_def)
qed

lemma evict_valid: "bt_valid m \<Longrightarrow> bt_valid (ooo_evict m)"
  by (auto simp: ooo_evict_def bt_remove_valid split: list.splits)

lemma drain_if_any_ok:
  assumes "dir_ok d"
  shows "\<exists>d'. drain_if_any d = Some d' \<and> dir_ok d'"
proof (cases "ooo d")
  case (Some m)
  then obtain e where e: "next_seq d = Some e" "bt_valid m" "length m \<le> OOO_CAP_SEGMENTS"
    using assms by (auto simp: dir_ok_def)
  obtain b' e' m' where l: "drain_loop (dir_buf d) e m = (b', e', m')" by (cases "drain_loop (dir_buf d) e m")
  obtain pre where "m = pre @ m'" using drain_loop_suffix[OF l] by (auto simp: suffix_def)
  then have "bt_valid m'" "length m' \<le> OOO_CAP_SEGMENTS" using e by (auto simp: bt_valid_def sorted_wrt_append)
  then show ?thesis using Some e l assms by (auto simp: drain_if_any_def drain_ooo_def dir_ok_def)
qed (use assms in \<open>simp add: drain_if_any_def\<close>)

lemma seg_append_ok:
  assumes "dir_ok d"
  shows "\<exists>d'. seg_append d pkt = Some d' \<and> dir_ok d'"
proof -
  let ?m = "case ooo d of Some m \<Rightarrow> m | None \<Rightarrow> []"
  have m: "bt_valid ?m" "length ?m \<le> OOO_CAP_SEGMENTS"
    using assms by (auto simp: dir_ok_def bt_valid_def split: option.splits)
  have ins: "bt_valid (bt_insert (tcp_seq pkt) (payload pkt) (ooo_evict ?m))"
    using m by (intro bt_insert_valid evict_valid)
  have "length (bt_insert (tcp_seq pkt) (payload pkt) (ooo_evict ?m)) \<le> OOO_CAP_SEGMENTS"
    using evict_length[OF m] bt.size_upsert_le[OF evict_valid[OF m(1)], of "tcp_seq pkt" "payload pkt"] by simp
  note ins = ins this
  have ok: "dir_ok (d\<lparr>last_data_ts := ts, dir_buf := b, next_seq := Some e\<rparr>)"
    "dir_ok (d\<lparr>last_data_ts := ts\<rparr>)" for ts b e
    using assms by (auto simp: dir_ok_def split: option.splits)
  have oo: "dir_ok (d\<lparr>last_data_ts := ts, ooo := Some (bt_insert (tcp_seq pkt) (payload pkt) (ooo_evict ?m))\<rparr>)"
    if "next_seq d \<noteq> None" for ts
    using ins that by (simp add: dir_ok_def)
  show ?thesis
    using drain_if_any_ok[OF ok(1)] ok oo by (cases "next_seq d") (auto simp: seg_append_def Let_def)
qed

lemma set_dir_simps [simp]:
  "tcp_state (set_dir d s f) = tcp_state f" "client_side (set_dir d s f) = client_side f"
  "synced (set_dir d s f) = synced f" "last_pkt_ts (set_dir d s f) = last_pkt_ts f"
  "http_parser (set_dir d s f) = http_parser f" "fl_flow_key (set_dir d s f) = fl_flow_key f"
  "fl_addr_a (set_dir d s f) = fl_addr_a f" "fl_addr_b (set_dir d s f) = fl_addr_b f"
  "fl_process (set_dir d s f) = fl_process f"
  by (cases d; simp add: set_dir_def)+

lemma append_payload_same:
  "append_payload f pkt = Some g \<Longrightarrow> same_flow f g \<and> synced g = synced f \<and> http_parser g = http_parser f"
  by (auto simp: append_payload_def same_flow_def Let_def split: option.splits if_splits)

lemma flow_inv_eq:
  "flow_inv k f \<longleftrightarrow> fl_flow_key f = k \<and> fl_addr_a f = addr_a k \<and> fl_addr_b f = addr_b k
     \<and> (synced f \<longrightarrow> client_side f \<noteq> Unknown) \<and> (\<forall>d. dir_ok (dir_of d f))"
  unfolding flow_inv_def dir_of_def by (metis Direction.exhaust Direction.simps(3,4))

lemma append_payload_ok:
  assumes "flow_inv k f"
  shows "\<exists>g. append_payload f pkt = Some g \<and> flow_inv k g"
proof -
  let ?d = "direction pkt"
  obtain d' where d': "seg_append (dir_of ?d f) pkt = Some d'" "dir_ok d'"
    using seg_append_ok flow_inv_dir[OF assms] by blast
  then obtain g where g: "append_payload f pkt = Some g" "dir_of ?d g = d'"
    using append_payload_dir[of ?d f pkt] by auto
  have "dir_of d g = (if d = ?d then d' else dir_of d f)" for d
    using append_payload_dir[of d f pkt] g d' by (auto split: if_splits)
  then show ?thesis using g d' append_payload_same[OF g(1)] assms by (auto simp: flow_inv_eq same_flow_def)
qed

lemma dir_ok_buf [simp]: "dir_ok (d\<lparr>dir_buf := b\<rparr>) = dir_ok d"
  by (simp add: dir_ok_def split: option.split)

lemma dir_of_parser [simp]:
  "dir_of d (f\<lparr>http_parser := p\<rparr>) = dir_of d f" "dir_of d (f\<lparr>synced := s\<rparr>) = dir_of d f"
  "dir_of d (f\<lparr>client_side := c\<rparr>) = dir_of d f" "dir_of d (f\<lparr>tcp_state := t\<rparr>) = dir_of d f"
  "dir_of d (f\<lparr>last_pkt_ts := ts\<rparr>) = dir_of d f" "dir_of d (f\<lparr>fl_process := pr\<rparr>) = dir_of d f"
  by (cases d; simp add: dir_of_def)+

lemma drop_stream_ok [simp]: "dir_ok (dir_of d (drop_stream_state f))"
  by (cases d) (simp_all add: dir_of_def drop_stream_state_def discard_buffers_def dir_ok_def)

lemma drop_stream_same [simp]: "same_flow f (drop_stream_state f)"
  by (simp add: same_flow_def drop_stream_state_def)

lemma drop_stream_inv: "flow_inv k f \<Longrightarrow> flow_inv k (drop_stream_state f)"
  by (simp add: flow_inv_eq) (simp add: drop_stream_state_def)

lemma drop_stream_unsynced_inv: "flow_inv k f \<Longrightarrow> flow_inv k ((drop_stream_state f)\<lparr>synced := b\<rparr>) \<or> b"
  by (simp add: flow_inv_eq) (simp add: drop_stream_state_def)

lemma flow_op_trans: "flow_op k f o1 g o2 \<Longrightarrow> flow_op k g o2 h o3 \<Longrightarrow> flow_op k f o1 h o3"
  by (auto simp: flow_op_def)

lemma try_parse_http_op:
  assumes "flow_inv k f" and "try_parse_http lib f out = Some (r, g, out')"
  shows "flow_op k f out g out' \<and> tcp_state g = tcp_state f"
proof (cases "client_direction (client_side f)")
  case None
  then show ?thesis using assms by (auto simp: try_parse_http_def flow_op_def)
next
  case (Some c)
  let ?st = "\<lparr>ps_parser = http_parser f, ps_client_buf = dir_buf (dir_of c f),
                 ps_server_buf = dir_buf (dir_of (opposite c) f), ps_output = out\<rparr>"
  obtain pr st where p: "parse lib (flow_ctx f c) ?st = Some (pr, st)"
    using assms(2) Some by (cases "parse lib (flow_ctx f c) ?st") (auto simp: try_parse_http_def)
  from p obtain evs where evs: "ps_output st = out @ evs"
    "exchange (flow_ctx f c) (phase_of (http_parser f)) evs (phase_of (ps_parser st))"
    unfolding parse_def by (metis parse_loop_exchange pstate.select_convs(1,4))
  have "list_all (from_flow k None) evs"
    using exchange_from_flow[OF evs(2)] assms(1) by (simp add: flow_inv_def)
  moreover define f2 where "f2 = set_dir (opposite c) ((dir_of (opposite c) f)\<lparr>dir_buf := ps_server_buf st\<rparr>)
    (set_dir c ((dir_of c f)\<lparr>dir_buf := ps_client_buf st\<rparr>) (f\<lparr>http_parser := ps_parser st\<rparr>))"
  moreover have "flow_inv k f2" using assms(1) by (simp add: f2_def flow_inv_eq)
  moreover have "same_flow f f2" by (simp add: f2_def same_flow_def)
  moreover have "flow_inv k ((drop_stream_state f2)\<lparr>synced := False\<rparr>)"
    using drop_stream_inv[OF calculation(3)] by (simp add: flow_inv_eq)
  moreover have "(r, g, out') = (if pr = NeedResync then (True, (drop_stream_state f2)\<lparr>synced := False\<rparr>, ps_output st)
      else (False, f2, ps_output st))"
    using assms(2) p Some by (simp add: try_parse_http_def Let_def f2_def split: if_splits)
  ultimately show ?thesis
    using evs(1) drop_stream_same[of f2] by (auto simp: flow_op_def same_flow_def split: if_splits)
qed

lemma finish_pending_op:
  assumes "flow_inv k f" and "finish_pending_response lib f out = (g, out')"
  shows "flow_op k f out g out' \<and> tcp_state g = tcp_state f"
proof (cases "client_direction (client_side f)")
  case None
  then show ?thesis using assms by (auto simp: finish_pending_response_def flow_op_def)
next
  case (Some c)
  let ?srv = "dir_of (opposite c) f"
  obtain p b out1 where p: "finish_response lib (flow_ctx f c) (http_parser f) (dir_buf ?srv) out = (p, b, out1)"
    by (cases "finish_response lib (flow_ctx f c) (http_parser f) (dir_buf ?srv) out")
  have g: "g = set_dir (opposite c) (?srv\<lparr>dir_buf := b\<rparr>) (f\<lparr>http_parser := p\<rparr>)" "out' = out1"
    using assms(2) Some p by (simp_all add: finish_pending_response_def Let_def)
  obtain evs where "out1 = out @ evs"
    "if hp_state (http_parser f) = ReadingResponseBody then exchange (flow_ctx f c) Awaiting evs Idle else evs = []"
    using finish_response_exchange[of lib "flow_ctx f c" "http_parser f" "dir_buf ?srv" out] p by fastforce
  then have "out1 = out @ evs \<and> list_all (from_flow k None) evs"
    using exchange_from_flow[of "flow_ctx f c" Awaiting evs Idle] assms(1) by (auto simp: flow_inv_def split: if_splits)
  then show ?thesis using assms(1) g by (auto simp: flow_op_def flow_inv_eq)
qed

lemma sync_inv:
  "flow_inv k f \<Longrightarrow> flow_inv k ((drop_stream_state f)\<lparr>client_side := side_of d, synced := True\<rparr>)"
  using drop_stream_inv[of k f] by (cases d) (auto simp: flow_inv_eq side_of_def)

lemma append_parse_op:
  assumes "flow_inv k f" and "append_payload f pkt = Some f1" and "try_parse_http lib f1 out = Some (r, g, out')"
  shows "flow_op k f out g out' \<and> tcp_state g = tcp_state f"
proof -
  have f1: "flow_inv k f1" "same_flow f f1"
    using append_payload_ok[OF assms(1), of pkt] append_payload_same[OF assms(2)] assms(2) by auto
  from try_parse_http_op[OF f1(1) assms(3)] show ?thesis using f1(2) by (auto simp: flow_op_def same_flow_def)
qed

lemma push_payload_op:
  assumes "flow_inv k f" and "push_payload lib f pkt out = Some (r, g, out')"
  shows "flow_op k f out g out' \<and> tcp_state g = tcp_state f"
proof -
  let ?f1 = "(drop_stream_state f)\<lparr>client_side := side_of (direction pkt), synced := True\<rparr>"
  have *: "flow_op k f out g out' \<and> tcp_state g = tcp_state f"
    if "flow_inv k h" "append_payload h pkt = Some f1" "try_parse_http lib f1 out = Some (r', g, out')"
      "fl_process h = fl_process f" "last_pkt_ts h = last_pkt_ts f" "tcp_state h = tcp_state f" for h f1 r'
    using append_parse_op[OF that(1,2,3)] that(4-6) by (auto simp: flow_op_def)
  have d: "fl_process (drop_stream_state f) = fl_process f" "last_pkt_ts (drop_stream_state f) = last_pkt_ts f"
    "tcp_state (drop_stream_state f) = tcp_state f" by (simp_all add: drop_stream_state_def)
  consider "g = f" "out' = out"
    | f1 r' where "append_payload ?f1 pkt = Some f1" "try_parse_http lib f1 out = Some (r', g, out')"
    | f1 r' where "append_payload (drop_stream_state f) pkt = Some f1" "try_parse_http lib f1 out = Some (r', g, out')"
    | f1 r' where "append_payload f pkt = Some f1" "try_parse_http lib f1 out = Some (r', g, out')"
    using assms(2) by (auto simp: push_payload_def Let_def split: if_splits option.splits)
  then show ?thesis
  proof cases
    case 1
    then show ?thesis using assms(1) by (auto simp: flow_op_def)
  next
    case 2
    then show ?thesis using *[OF sync_inv[OF assms(1)]] d by simp
  next
    case 3
    then show ?thesis using *[OF drop_stream_inv[OF assms(1)]] d by simp
  next
    case 4
    then show ?thesis using *[OF assms(1)] by simp
  qed
qed

lemma flow_inv_fields [simp]:
  "flow_inv k (f\<lparr>last_pkt_ts := ts\<rparr>) = flow_inv k f" "flow_inv k (f\<lparr>tcp_state := s\<rparr>) = flow_inv k f"
  "flow_inv k (f\<lparr>fl_process := p\<rparr>) = flow_inv k f"
  by (auto simp: flow_inv_eq)

lemma dir_ok_next_seq: "dir_ok d \<Longrightarrow> dir_ok (d\<lparr>next_seq := Some s\<rparr>)"
  by (auto simp: dir_ok_def split: option.splits)

lemma set_next_seq_inv: "flow_inv k f \<Longrightarrow> flow_inv k (set_dir d ((dir_of d f)\<lparr>next_seq := Some s\<rparr>) f)"
  by (auto simp: flow_inv_eq dir_ok_next_seq)

lemma push_inner_op:
  assumes "flow_inv k f" and "push_inner lib f pkt out = Some (r, g, out')"
  shows "flow_op k (f\<lparr>last_pkt_ts := timestamp_us pkt\<rparr>) out g out'"
proof -
  let ?f = "f\<lparr>last_pkt_ts := timestamp_us pkt\<rparr>" and ?d = "direction pkt"
  let ?f1 = "if has_fin pkt then ?f\<lparr>tcp_state := (if tcp_state ?f = Closing then Closed else Closing)\<rparr> else ?f"
  let ?f2 = "if (tcp_state ?f1 = Init \<or> tcp_state ?f1 = SynSent) \<and> payload pkt \<noteq> []
    then ?f1\<lparr>tcp_state := Established\<rparr> else ?f1"
  have i2: "flow_inv k ?f2" "fl_process ?f2 = fl_process f" "last_pkt_ts ?f2 = timestamp_us pkt"
    using assms(1) by simp_all
  consider "has_rst pkt" | "\<not> has_rst pkt" "has_syn pkt"
    | "\<not> has_rst pkt" "\<not> has_syn pkt" "unat (wire_payload_len pkt) > length (payload pkt)"
    | "\<not> has_rst pkt" "\<not> has_syn pkt" "\<not> unat (wire_payload_len pkt) > length (payload pkt)" by blast
  then show ?thesis
  proof cases
    case 1
    then have "finish_pending_response lib (?f\<lparr>tcp_state := Closed\<rparr>) out = (g, out')"
      using assms(2) by (simp add: push_inner_def Let_def split: prod.splits)
    then show ?thesis using finish_pending_op[of k "?f\<lparr>tcp_state := Closed\<rparr>" lib out g out'] assms(1)
      by (simp add: flow_op_def)
  next
    case 2
    let ?s = "?f\<lparr>tcp_state := SynSent, client_side := side_of ?d, synced := True\<rparr>"
    have "flow_inv k ?s" using assms(1) by (cases ?d) (auto simp: flow_inv_eq side_of_def)
    then show ?thesis using 2 assms set_next_seq_inv[of k ?s ?d "tcp_seq pkt + 1"]
        set_next_seq_inv[of k "?f\<lparr>tcp_state := Established\<rparr>" ?d "tcp_seq pkt + 1"]
      by (auto simp: push_inner_def Let_def flow_op_def split: if_splits)
  next
    case 3
    then have "g = (drop_stream_state ?f2)\<lparr>synced := False\<rparr>" "out' = out"
      using assms(2) by (simp_all add: push_inner_def Let_def)
    moreover have "flow_inv k ((drop_stream_state ?f2)\<lparr>synced := False\<rparr>)"
      using drop_stream_inv[OF i2(1)] by (simp add: flow_inv_eq)
    ultimately show ?thesis using i2 by (simp add: flow_op_def drop_stream_state_def)
  next
    case 4
    then obtain r1 f3 out1 where p: "push_payload lib ?f2 pkt out = Some (r1, f3, out1)"
      and g: "(g, out') = (if tcp_state f3 = Closing \<or> tcp_state f3 = Closed
        then finish_pending_response lib f3 out1 else (f3, out1))"
      using assms(2) unfolding push_inner_def Let_def
      by (auto split: option.splits prod.splits if_splits)
    have o1: "flow_op k ?f2 out f3 out1" using push_payload_op[OF i2(1) p] by blast
    moreover have "flow_inv k f3" using o1 by (simp add: flow_op_def)
    then have "flow_op k f3 out1 g out'"
      using finish_pending_op[of k f3 lib out1 g out'] g by (auto simp: flow_op_def split: if_splits)
    ultimately show ?thesis using flow_op_trans i2 by (fastforce simp: flow_op_def)
  qed
qed

lemma set_process_from_flow: "from_flow k q ev \<Longrightarrow> from_flow k p (set_process p ev)"
  by (cases ev) (auto simp: from_flow_def)

lemma push_op:
  assumes "flow_inv k f" and "push lib f pkt out = Some (r, g, out')"
  shows "flow_inv k g \<and> last_pkt_ts g = timestamp_us pkt
    \<and> fl_process g = (case fl_process f of None \<Rightarrow> process pkt | Some p \<Rightarrow> Some p)
    \<and> (\<exists>evs. out' = out @ evs \<and> list_all (from_flow k (fl_process g)) evs)"
proof -
  let ?f = "if fl_process f = None \<and> process pkt \<noteq> None then f\<lparr>fl_process := process pkt\<rparr> else f"
  obtain out1 where p: "push_inner lib ?f pkt out = Some (r, g, out1)"
    and out': "out' = (case fl_process g of None \<Rightarrow> out1
        | Some proc \<Rightarrow> take (length out) out1 @ map (set_process (Some proc)) (drop (length out) out1))"
    using assms(2) by (auto simp: push_def Let_def split: option.splits)
  have "flow_op k (?f\<lparr>last_pkt_ts := timestamp_us pkt\<rparr>) out g out1"
    using push_inner_op[OF _ p] assms(1) by simp
  then obtain evs where e: "flow_inv k g" "fl_process g = fl_process ?f" "last_pkt_ts g = timestamp_us pkt"
    "out1 = out @ evs" "list_all (from_flow k None) evs" by (auto simp: flow_op_def)
  have "list_all (from_flow k (Some pr)) (map (set_process (Some pr)) evs)" for pr
    using e(5) by (auto simp: list_all_iff intro: set_process_from_flow)
  then show ?thesis using e out' by (auto split: option.splits)
qed

lemma from_flow_source: "from_flow k p ev \<Longrightarrow> event_source ev = source_id k"
  by (cases ev) (auto simp: from_flow_def)

lemma worker_inv_get: "worker_inv w \<Longrightarrow> map_of (flows w) k = Some f \<Longrightarrow> flow_inv k f \<and> flow_idle f"
  by (auto simp: worker_inv_def list_all_iff dest: map_of_SomeD)

lemma TcpFlow_new_inv: "flow_inv k (TcpFlow_new k)"
  by (simp add: flow_inv_def TcpFlow_new_def DirState_new_def dir_ok_def)

lemma worker_inv_update:
  "worker_inv w \<Longrightarrow> flow_inv k f \<Longrightarrow> flow_idle f \<Longrightarrow> worker_inv (w\<lparr>flows := AList.update k f (flows w)\<rparr>)"
  using hm.set_upsert[of "flows w" k f] hm.valid_upsert[of "flows w" k f]
  by (auto simp: worker_inv_def list_all_iff)

lemma worker_inv_delete: "worker_inv w \<Longrightarrow> worker_inv (w\<lparr>flows := AList.delete k (flows w)\<rparr>)"
  using hm.set_remove[of "flows w" k] hm.valid_remove[of "flows w" k]
  by (auto simp: worker_inv_def list_all_iff)

lemma worker_inv_fields [simp]:
  "worker_inv (w\<lparr>fw_metrics := m\<rparr>) = worker_inv w" "worker_inv (w\<lparr>last_cleanup_by_source := l\<rparr>) = worker_inv w"
  by (simp_all add: worker_inv_def)

text \<open>A sweep removes the given keys and ends their pending responses, unattributed.\<close>

lemma expire_flows_op:
  "worker_inv w \<Longrightarrow> expire_flows lib ks w out = (w', out') \<Longrightarrow>
   worker_inv w' \<and> (\<forall>k. map_of (flows w') k = (if k \<in> set ks then None else map_of (flows w) k))
   \<and> fw_metrics w' FlowsExpired = fw_metrics w FlowsExpired + of_nat (length ks)
   \<and> (\<exists>evs. out' = out @ evs \<and> list_all (\<lambda>ev. \<exists>k\<in>set ks. from_flow k None ev) evs)"
proof (induction ks arbitrary: w out)
  case (Cons k ks)
  let ?out = "case map_of (flows w) k of Some f \<Rightarrow> snd (finish_pending_response lib f out) | None \<Rightarrow> out"
  let ?w = "w\<lparr>flows := AList.delete k (flows w), fw_metrics := metric_inc FlowsExpired (fw_metrics w)\<rparr>"
  obtain evs1 where e1: "?out = out @ evs1" "list_all (from_flow k None) evs1"
  proof (cases "map_of (flows w) k")
    case (Some f)
    obtain g o' where g: "finish_pending_response lib f out = (g, o')"
      by (cases "finish_pending_response lib f out")
    then have "flow_op k f out g o'"
      using finish_pending_op[OF _ g, of k] worker_inv_get[OF Cons.prems(1) Some] by blast
    then show ?thesis using Some g that by (auto simp: flow_op_def)
  qed (use that[of "[]"] in simp)
  have iw: "worker_inv ?w" using worker_inv_delete[OF Cons.prems(1), of k] by (simp add: worker_inv_def)
  have mo: "map_of (flows ?w) = (map_of (flows w))(k := None)"
    using hm.map_of_remove[of "flows w" k] Cons.prems(1) by (simp add: worker_inv_def)
  have r: "expire_flows lib ks ?w ?out = (w', out')" using Cons.prems(2) by (simp add: Let_def)
  from Cons.IH[OF iw r] obtain evs where ih: "worker_inv w'"
    "\<forall>k'. map_of (flows w') k' = (if k' \<in> set ks then None else map_of (flows ?w) k')"
    "fw_metrics w' FlowsExpired = fw_metrics ?w FlowsExpired + of_nat (length ks)"
    "out' = ?out @ evs" "list_all (\<lambda>ev. \<exists>k\<in>set ks. from_flow k None ev) evs" by blast
  have "list_all (\<lambda>ev. \<exists>k\<in>set (k # ks). from_flow k None ev) (evs1 @ evs)"
    using e1(2) ih(5) by (auto simp: list_all_iff)
  moreover have "out' = out @ (evs1 @ evs)" using ih(4) e1(1) by simp
  ultimately show ?case using ih(1,2,3) mo by (auto simp: metric_inc_def metric_add_def)
qed auto

lemma cleanup_op:
  assumes "worker_inv w" and "maybe_cleanup_stale_flows lib w sid now out = (w', out')"
  shows "worker_inv w'"
    and "map_of (flows w') k = (if now - last_sweep w sid \<ge> CLEANUP_INTERVAL_US \<and> source_id k = sid
           \<and> (\<exists>f. map_of (flows w) k = Some f \<and> now - last_pkt_ts f > FLOW_TIMEOUT_US)
         then None else map_of (flows w) k)"
    and "\<exists>evs. out' = out @ evs \<and> list_all (\<lambda>ev. \<exists>k. source_id k = sid \<and> from_flow k None ev) evs"
proof -
  let ?ks = "map fst (filter (timed_out sid now) (flows w))"
  have ks: "k \<in> set ?ks \<longleftrightarrow> source_id k = sid
      \<and> (\<exists>f. map_of (flows w) k = Some f \<and> now - last_pkt_ts f > FLOW_TIMEOUT_US)" for k
    using assms(1) hm.entry_iff[of "flows w"] by (force simp: worker_inv_def timed_out_def)
  let ?w = "\<lambda>t. w\<lparr>last_cleanup_by_source := AList.update sid t (last_cleanup_by_source w)\<rparr>"
  have "worker_inv w' \<and> map_of (flows w') k = (if now - last_sweep w sid \<ge> CLEANUP_INTERVAL_US \<and> k \<in> set ?ks
         then None else map_of (flows w) k)
    \<and> (\<exists>evs. out' = out @ evs \<and> list_all (\<lambda>ev. \<exists>k. source_id k = sid \<and> from_flow k None ev) evs)"
  proof (cases "now - last_sweep w sid < CLEANUP_INTERVAL_US")
    case True
    then show ?thesis using assms by (auto simp: maybe_cleanup_stale_flows_def last_sweep_def Let_def)
  next
    case False
    then have "expire_flows lib ?ks (?w now) out = (w', out')"
      using assms(2) by (simp add: maybe_cleanup_stale_flows_def last_sweep_def Let_def)
    from expire_flows_op[OF _ this] assms(1)
    obtain evs where "worker_inv w'" "\<forall>k. map_of (flows w') k = (if k \<in> set ?ks then None else map_of (flows w) k)"
      "out' = out @ evs" "list_all (\<lambda>ev. \<exists>k\<in>set ?ks. from_flow k None ev) evs" by auto
    moreover have "list_all (\<lambda>ev. \<exists>k. source_id k = sid \<and> from_flow k None ev) evs"
      using calculation(4) ks unfolding list_all_iff by blast
    ultimately show ?thesis using False by auto
  qed
  then show "worker_inv w'"
    and "map_of (flows w') k = (if now - last_sweep w sid \<ge> CLEANUP_INTERVAL_US \<and> source_id k = sid
           \<and> (\<exists>f. map_of (flows w) k = Some f \<and> now - last_pkt_ts f > FLOW_TIMEOUT_US)
         then None else map_of (flows w) k)"
    and "\<exists>evs. out' = out @ evs \<and> list_all (\<lambda>ev. \<exists>k. source_id k = sid \<and> from_flow k None ev) evs"
    unfolding ks by blast+
qed

lemma flow_inv_stats [simp]:
  "flow_inv k (f\<lparr>ooo_drops_pending := x, ooo_buffered_pending := y, rexmit_ignored_pending := z\<rparr>) = flow_inv k f"
  by (auto simp: flow_inv_eq)

lemma process_packet_op:
  assumes "worker_inv w" and "process_packet lib w pkt out = Some (w', out')"
  shows "worker_inv w' \<and> (\<forall>k. source_id k \<noteq> source_id (flow_key pkt) \<longrightarrow> map_of (flows w') k = map_of (flows w) k)
    \<and> (\<exists>evs. out' = out @ evs \<and> list_all (\<lambda>ev. event_source ev = source_id (flow_key pkt)) evs)"
proof -
  let ?k = "flow_key pkt"
  let ?f = "case map_of (flows w) ?k of Some f \<Rightarrow> f | None \<Rightarrow> TcpFlow_new ?k"
  have fi: "flow_inv ?k ?f"
    using worker_inv_get[OF assms(1)] TcpFlow_new_inv by (auto split: option.split)
  obtain r f1 out1 where p: "push lib ?f pkt out = Some (r, f1, out1)"
    using assms(2) by (cases "push lib ?f pkt out") (auto simp: process_packet_def Let_def)
  from push_op[OF fi p] obtain evs1 where f1: "flow_inv ?k f1" "out1 = out @ evs1"
    "list_all (from_flow ?k (fl_process f1)) evs1" by blast
  let ?f2 = "f1\<lparr>ooo_drops_pending := 0, ooo_buffered_pending := 0, rexmit_ignored_pending := 0\<rparr>"
  let ?fs = "AList.update ?k ?f2 (flows w)"
  let ?fs' = "if is_closed ?f2 then AList.delete ?k ?fs else ?fs"
  obtain m where c: "maybe_cleanup_stale_flows lib (w\<lparr>flows := ?fs', fw_metrics := m\<rparr>)
      (source_id ?k) (timestamp_us pkt) out1 = (w', out')"
    using assms(2) p by (auto simp: process_packet_def Let_def take_append_stats_def)
  have hv: "hm_valid (flows w)" using assms(1) by (simp add: worker_inv_def)
  have wi: "worker_inv (w\<lparr>flows := ?fs', fw_metrics := m\<rparr>)"
  proof (cases "is_closed ?f2")
    case True
    have "hm_valid ?fs" using hv by (rule hm.valid_upsert)
    then have "set (AList.delete ?k ?fs) = {e \<in> set (flows w). fst e \<noteq> ?k}" "hm_valid (AList.delete ?k ?fs)"
      using hm.set_remove[of ?fs ?k] hm.set_upsert[OF hv, of ?k ?f2] hm.valid_remove[of ?fs ?k] by auto
    then show ?thesis using True assms(1) by (auto simp: worker_inv_def list_all_iff)
  next
    case False
    then have "flow_idle ?f2" by (simp add: flow_idle_def is_closed_def)
    then show ?thesis using False worker_inv_update[OF assms(1), of ?k ?f2] f1(1) by (simp add: worker_inv_def)
  qed
  have other: "map_of ?fs' k = map_of (flows w) k" if "source_id k \<noteq> source_id ?k" for k
    using that hm.map_of_upsert[OF hv] hm.map_of_remove[OF hm.valid_upsert[OF hv]] by auto
  obtain evs2 where e2: "out' = out1 @ evs2"
    "list_all (\<lambda>ev. \<exists>k. source_id k = source_id ?k \<and> from_flow k None ev) evs2"
    using cleanup_op(3)[OF wi c] by blast
  have "list_all (\<lambda>ev. event_source ev = source_id ?k) (evs1 @ evs2)"
    using f1(3) e2(2) from_flow_source by (fastforce simp: list_all_iff)
  then show ?thesis
    using cleanup_op(1)[OF wi c] cleanup_op(2)[OF wi c] other f1(2) e2(1) by auto
qed

lemma process_input_op:
  assumes "worker_inv w" and "process_input lib w i = Some (w', evs)"
  shows "worker_inv w' \<and> (\<forall>k. source_id k \<noteq> input_source i \<longrightarrow> map_of (flows w') k = map_of (flows w) k)
    \<and> list_all (\<lambda>ev. event_source ev = input_source i) evs"
proof (cases i)
  case (WPacket pkt)
  then show ?thesis using process_packet_op[of w lib pkt "[]" w' evs] assms
    by (auto simp: process_input_def input_source_def)
next
  case (WHeartbeat ts sid)
  let ?w = "w\<lparr>fw_metrics := metric_inc FlowHeartbeatsReceived (fw_metrics w)\<rparr>"
  obtain out1 where c: "maybe_cleanup_stale_flows lib ?w sid ts [] = (w', out1)" and e: "evs = out1 @ [Heartbeat ts sid]"
    using assms(2) WHeartbeat by (auto simp: process_input_def process_heartbeat_def split: prod.splits)
  have wi: "worker_inv ?w" using assms(1) by simp
  have "list_all (\<lambda>ev. event_source ev = sid) out1"
    using cleanup_op(3)[OF wi c] from_flow_source by (fastforce simp: list_all_iff)
  then show ?thesis
    using WHeartbeat e cleanup_op(1,2)[OF wi c] by (auto simp: input_source_def)
qed

interpretation worker: machine_invariant "\<lambda>w i. map_option fst (process_input lib w i)" worker_inv "\<lambda>_. True"
  by unfold_locales (use process_input_op in \<open>fastforce\<close>)

lemma data_packet_of:
  "cut_from S off bs \<Longrightarrow> seq = isn + of_nat off \<Longrightarrow> packet_of S isn (data_packet seq bs)"
  by (auto simp: packet_of_def segment_of_def data_packet_def)

lemma data_packet_sel [simp]:
  "direction (data_packet seq bs) = AtoB" "tcp_seq (data_packet seq bs) = seq" "payload (data_packet seq bs) = bs"
  by (simp_all add: data_packet_def)

lemma sample_flow_dir [simp]:
  "next_seq (dir_of AtoB (sample_flow isn)) = Some isn" "ooo (dir_of AtoB (sample_flow isn)) = None"
  "dir_buf (dir_of AtoB (sample_flow isn)) = []"
  by (simp_all add: sample_flow_def dir_of_def DirState_new_def)

lemma sample_worker_inv: "worker_inv sample_worker"
  using TcpFlow_new_inv[of sample_key]
  by (simp add: worker_inv_def sample_worker_def hm_valid_def flow_idle_def flow_inv_def stale_flow_def TcpFlow_new_def)

lemma sample_syn_flags: "\<not> has_rst sample_syn" "has_syn sample_syn" "\<not> has_ack sample_syn"
  by (simp_all add: sample_syn_def has_rst_def has_syn_def has_ack_def TCP_RST_def TCP_SYN_def TCP_ACK_def)

lemma sample_syn_fields: "flow_key sample_syn = sample_key" "direction sample_syn = AtoB"
  "timestamp_us sample_syn = 0" "tcp_seq sample_syn = 9" "process sample_syn = None"
  by (simp_all add: sample_syn_def data_packet_def)

lemma sample_syn_push: "push lib (f :: 'd TcpFlow) sample_syn out = Some (False,
    set_dir AtoB ((dir_of AtoB f)\<lparr>next_seq := Some 10\<rparr>)
      (f\<lparr>last_pkt_ts := 0, tcp_state := SynSent, client_side := ClientAtoB, synced := True\<rparr>), out)"
  if "fl_process f = None"
  using that by (simp add: push_def push_inner_def sample_syn_flags sample_syn_fields Let_def side_of_def)

lemma sample_syn_process:
  "\<exists>w. process_input sample_libs (FlowWorker_new (\<lambda>_. 0)) (WPacket sample_syn) = Some (w, [])
    \<and> map_of (flows w) sample_key \<noteq> None"
proof -
  have "fl_process (TcpFlow_new sample_key :: unit TcpFlow) = None" by (simp add: TcpFlow_new_def)
  note p = sample_syn_push[OF this]
  show ?thesis
    by (simp add: process_input_def process_packet_def FlowWorker_new_def sample_syn_fields p
        take_append_stats_def Let_def is_closed_def maybe_cleanup_stale_flows_def CLEANUP_INTERVAL_US_def
        count_if_positive_def set_dir_def)
qed

lemma sample_fin_flags: "\<not> has_rst sample_fin" "\<not> has_syn sample_fin" "has_fin sample_fin"
  "direction sample_fin = AtoB" "payload sample_fin = []" "wire_payload_len sample_fin = 0"
  by (simp_all add: sample_fin_def has_rst_def has_syn_def has_fin_def TCP_RST_def TCP_SYN_def TCP_ACK_def TCP_FIN_def data_packet_def)

section \<open>Properties\<close>

text \<open>C1: Reassembly never corrupts a stream. A direction knows where the stream starts and has nothing
  buffered out of order. Whatever segments of a byte stream of less than \<^verbatim>\<open>2^31\<close> bytes arrive, in any
  order, duplicated, overlapping, across the wrap of the sequence numbers and with evictions
  from the out-of-order buffer, appending them all succeeds, and what the direction has gained
  is a prefix of the stream, with the next expected sequence number just after it.\<close>

theorem reassembly_prefix:
  assumes "length S < 2 ^ 31"
    and "list_all (\<lambda>p. direction p = d \<and> packet_of S isn p) pkts"
    and "next_seq (dir_of d f) = Some isn" and "ooo (dir_of d f) = None"
  shows "\<exists>f' n. run_steps append_payload f pkts = Some f' \<and> n \<le> length S
    \<and> dir_buf (dir_of d f') = dir_buf (dir_of d f) @ take n S
    \<and> next_seq (dir_of d f') = Some (isn + of_nat n)"
proof -
  have "dir_tracks S isn (dir_buf (dir_of d f)) 0 0 (dir_of d f)"
    using assms(3,4) by (simp add: dir_tracks_def stream_at_def)
  from append_payloads_track[OF assms(1,2) this]
  show ?thesis by (auto simp: dir_tracks_def stream_at_def)
qed

theorem reassembly_prefix_witness:
  "list_all (\<lambda>p. direction p = AtoB \<and> packet_of [1, 2, 3, 4, 5, 6] 0xFFFFFFFE p)
     [data_packet 0xFFFFFFFF [2, 3], data_packet 1 [4, 5, 6], data_packet 0xFFFFFFFE [1]]
   \<and> (\<exists>f' n. run_steps append_payload (sample_flow 0xFFFFFFFE)
        [data_packet 0xFFFFFFFF [2, 3], data_packet 1 [4, 5, 6], data_packet 0xFFFFFFFE [1]] = Some f'
      \<and> n \<le> length [1, 2, 3, 4, 5, 6 :: u8]
      \<and> dir_buf (dir_of AtoB f') = dir_buf (dir_of AtoB (sample_flow 0xFFFFFFFE)) @ take n [1, 2, 3, 4, 5, 6]
      \<and> next_seq (dir_of AtoB f') = Some (0xFFFFFFFE + of_nat n))"
proof -
  let ?S = "[1, 2, 3, 4, 5, 6] :: bytes"
  have p: "list_all (\<lambda>p. direction p = AtoB \<and> packet_of ?S 0xFFFFFFFE p)
     [data_packet 0xFFFFFFFF [2, 3], data_packet 1 [4, 5, 6], data_packet 0xFFFFFFFE [1]]"
    using data_packet_of[of ?S 1 "[2, 3]" "0xFFFFFFFF" "0xFFFFFFFE"] data_packet_of[of ?S 3 "[4, 5, 6]" 1 "0xFFFFFFFE"]
      data_packet_of[of ?S 0 "[1]" "0xFFFFFFFE" "0xFFFFFFFE"]
    by (simp add: cut_from_def)
  then show ?thesis using reassembly_prefix[OF _ p, of "sample_flow 0xFFFFFFFE"] by simp
qed

text \<open>C5: Reassembly is complete: when the sequence numbers do not wrap, segments that together cover
  a stream leave exactly that stream in the buffer, and nothing in the out-of-order buffer. They
  come in any order, repeated and overlapping, mixed with empty segments; at most 32 of them carry
  data, and one that comes under the sequence number of an earlier one is not shorter than it, since
  a shorter one loses bytes (\<open>shorter_retransmit_loses_bytes\<close>). At the start the direction knows the
  first sequence number and has nothing buffered out of order.\<close>

theorem reassembly_complete:
  assumes "length S < 2 ^ 31" and "unat isn + length S < 2 ^ 32"
    and "list_all (\<lambda>p. direction p = d \<and> packet_of S isn p) pkts"
    and "length (with_data pkts) \<le> OOO_CAP_SEGMENTS" and "no_shrink pkts"
    and "\<forall>i<length S. \<exists>p\<in>set pkts. key_off isn (tcp_seq p) \<le> i \<and> i < key_off isn (tcp_seq p) + length (payload p)"
    and "next_seq (dir_of d f) = Some isn" and "ooo (dir_of d f) = None"
  shows "\<exists>f'. run_steps append_payload f pkts = Some f'
    \<and> dir_buf (dir_of d f') = dir_buf (dir_of d f) @ S
    \<and> next_seq (dir_of d f') = Some (isn + of_nat (length S)) \<and> ooo_list (dir_of d f') = []"
proof -
  have start: "dir_complete S isn (dir_buf (dir_of d f)) 0 [] 0 (dir_of d f)"
    using assms(7,8) by (simp add: dir_complete_def dir_tracks_def stream_at_def ooo_list_def gaps_def bt_valid_def)
  have "length ([] :: (u32 \<times> bytes) list) + length (segments pkts) \<le> OOO_CAP_SEGMENTS"
    using assms(4) by (simp add: segments_def)
  then obtain f' n R' where f': "run_steps append_payload f pkts = Some f'"
    "set R' = set (segments pkts)" "dir_complete S isn (dir_buf (dir_of d f)) 0 R' n (dir_of d f')"
    using append_payloads_complete[OF assms(1,2,3) _ assms(5) _ start] by auto
  have n: "n \<le> length S" "dir_buf (dir_of d f') = dir_buf (dir_of d f) @ take n S"
    "next_seq (dir_of d f') = Some (isn + of_nat n)"
    and gp: "gaps isn n (ooo_list (dir_of d f'))"
    and segs: "list_all (segment_of S isn) (ooo_list (dir_of d f'))"
    using f'(3) by (auto simp: dir_complete_def dir_tracks_list stream_at_def)
  have "n = length S"
  proof (rule ccontr)
    assume "n \<noteq> length S"
    then obtain p where p: "p \<in> set pkts" "key_off isn (tcp_seq p) \<le> n"
      "n < key_off isn (tcp_seq p) + length (payload p)" using assms(6) n(1) by (metis le_neq_implies_less)
    then have "(tcp_seq p, payload p) \<in> set R'" using f'(2) by (auto simp: segments_def with_data_def)
    then obtain sb where "sb \<in> set (ooo_list (dir_of d f'))" "fst sb = tcp_seq p"
      using f'(3) p(3) by (fastforce simp: dir_complete_def covered_def)
    then show False using gp p(2) by (fastforce simp: gaps_def list_all_iff)
  qed
  moreover have "ooo_list (dir_of d f') = []"
  proof (cases "ooo_list (dir_of d f')")
    case (Cons sb m)
    then obtain off where "fst sb = isn + of_nat off" "off \<le> length S"
      using segs by (auto simp: segment_of_def cut_from_def)
    then have "key_off isn (fst sb) \<le> n" using assms(1) \<open>n = length S\<close> by (simp add: key_off_add)
    then show ?thesis using gp Cons by (simp add: gaps_def)
  qed
  ultimately show ?thesis using f'(1) n by auto
qed

theorem reassembly_complete_witness:
  "\<exists>f'. run_steps append_payload (sample_flow 16)
       [data_packet 19 [4, 5], data_packet 17 [2, 3, 4], data_packet 19 [4, 5, 6], data_packet 16 [], data_packet 16 [1, 2]] = Some f'
    \<and> dir_buf (dir_of AtoB f') = [1, 2, 3, 4, 5, 6]
    \<and> next_seq (dir_of AtoB f') = Some (16 + of_nat 6) \<and> ooo_list (dir_of AtoB f') = []"
proof -
  let ?S = "[1, 2, 3, 4, 5, 6] :: bytes"
  let ?P = "[data_packet 19 [4, 5], data_packet 17 [2, 3, 4], data_packet 19 [4, 5, 6], data_packet 16 [], data_packet 16 [1, 2]]"
  have p: "list_all (\<lambda>p. direction p = AtoB \<and> packet_of ?S 16 p) ?P"
    using data_packet_of[of ?S 3 "[4, 5]" 19 16] data_packet_of[of ?S 3 "[4, 5, 6]" 19 16]
      data_packet_of[of ?S 1 "[2, 3, 4]" 17 16] data_packet_of[of ?S 0 "[1, 2]" 16 16] data_packet_of[of ?S 0 "[]" 16 16]
    by (simp add: cut_from_def)
  have c: "\<forall>i<length ?S. \<exists>p\<in>set ?P. key_off 16 (tcp_seq p) \<le> i \<and> i < key_off 16 (tcp_seq p) + length (payload p)"
    by (auto simp: key_off_def)
  have "\<exists>f'. run_steps append_payload (sample_flow 16) ?P = Some f'
    \<and> dir_buf (dir_of AtoB f') = dir_buf (dir_of AtoB (sample_flow 16)) @ ?S
    \<and> next_seq (dir_of AtoB f') = Some (16 + of_nat (length ?S)) \<and> ooo_list (dir_of AtoB f') = []"
    by (rule reassembly_complete[OF _ _ p _ _ c]) (auto simp: OOO_CAP_SEGMENTS_def with_data_def no_shrink_def)
  then show ?thesis by simp
qed

text \<open>Across the wrap of the sequence numbers the map order is not the stream order: with all
  six bytes of a stream received, the drain stops at a segment after the wrap though the
  contiguous one is buffered. Away from the wrap the same arrivals drain completely.\<close>

theorem reassembly_wrap_stalls:
  "map_option (\<lambda>f. (dir_buf (a_to_b f), ooo (a_to_b f)))
     (run_steps append_payload (sample_flow 0xFFFFFFFE)
       [data_packet 0xFFFFFFFF [2, 3], data_packet 1 [4, 5, 6], data_packet 0xFFFFFFFE [1]])
   = Some ([1], Some [(1, [4, 5, 6]), (0xFFFFFFFF, [2, 3])])
   \<and> map_option (\<lambda>f. (dir_buf (a_to_b f), ooo (a_to_b f)))
     (run_steps append_payload (sample_flow 0x10)
       [data_packet 0x11 [2, 3], data_packet 0x13 [4, 5, 6], data_packet 0x10 [1]])
   = Some ([1, 2, 3, 4, 5, 6], None)"
  by (simp add: append_payload_def sample_flow_def data_packet_def seq_diff_def set_dir_def dir_of_def
     Let_def TcpFlow_new_def DirState_new_def drain_if_any_def drain_ooo_def ooo_evict_def OOO_CAP_SEGMENTS_def)

text \<open>A buffered out-of-order segment is replaced by a later segment with the same sequence
  number, even a shorter one, so bytes that were received are lost.\<close>

theorem shorter_retransmit_loses_bytes:
  "map_option (\<lambda>f. (dir_buf (a_to_b f), next_seq (a_to_b f), ooo (a_to_b f)))
     (run_steps append_payload (sample_flow 0)
       [data_packet 2 [3, 4, 5, 6], data_packet 2 [3], data_packet 0 [1, 2]])
   = Some ([1, 2, 3], Some 3, None)"
  by (simp add: append_payload_def sample_flow_def data_packet_def seq_diff_def set_dir_def dir_of_def
     Let_def TcpFlow_new_def DirState_new_def drain_if_any_def drain_ooo_def ooo_evict_def OOO_CAP_SEGMENTS_def)

lemma worker_reachable:
  assumes "run_steps (\<lambda>w i. map_option fst (process_input lib w i)) (FlowWorker_new m) is = Some w"
  shows "worker_inv w"
  using assms worker.run_inv[of "FlowWorker_new m" "is" lib w]
  by (simp add: worker_inv_def FlowWorker_new_def hm_valid_def list_all_iff)

text \<open>C8: Over any run of packets and heartbeats the flow table of a worker keeps one flow per
  key, each with the key and addresses it was created for, never closed, with a client side
  whenever it is synchronised, and with out-of-order buffers that are sorted, hold at most 32
  segments and exist only when the next sequence number is known.\<close>

theorem worker_run_invariant:
  assumes "run_steps (\<lambda>w i. map_option fst (process_input lib w i)) (FlowWorker_new m) is = Some w"
  shows "distinct (map fst (flows w)) \<and> list_all (\<lambda>(k, f). flow_inv k f \<and> tcp_state f \<noteq> Closed) (flows w)"
  using worker_reachable[OF assms] by (auto simp: worker_inv_def hm_valid_def list_all_iff flow_idle_def)

theorem worker_run_invariant_witness:
  "\<exists>w. run_steps (\<lambda>w i. map_option fst (process_input sample_libs w i)) (FlowWorker_new (\<lambda>_. 0))
      [WPacket sample_syn] = Some w \<and> flows w \<noteq> []
    \<and> distinct (map fst (flows w)) \<and> list_all (\<lambda>(k, f). flow_inv k f \<and> tcp_state f \<noteq> Closed) (flows w)"
proof -
  obtain w where w: "process_input sample_libs (FlowWorker_new (\<lambda>_. 0)) (WPacket sample_syn) = Some (w, [])"
    "map_of (flows w) sample_key \<noteq> None" using sample_syn_process by blast
  then have "run_steps (\<lambda>w i. map_option fst (process_input sample_libs w i)) (FlowWorker_new (\<lambda>_. 0))
      [WPacket sample_syn] = Some w" by simp
  from worker_run_invariant[OF this] this show ?thesis using w(2) by auto
qed

text \<open>C31: Sources do not disturb each other: after any run of a worker, an input of one source, packet
  or heartbeat, leaves the flows of every other source as they are, and every event it produces, also
  those of the sweep it starts, belongs to its own source.\<close>

theorem source_isolation:
  assumes "run_steps (\<lambda>w i. map_option fst (process_input lib w i)) (FlowWorker_new m) is = Some w"
    and "process_input lib w i = Some (w', evs)"
  shows "(\<forall>k. source_id k \<noteq> input_source i \<longrightarrow> map_of (flows w') k = map_of (flows w) k)
    \<and> list_all (\<lambda>ev. event_source ev = input_source i) evs"
  using process_input_op[OF worker_reachable[OF assms(1)] assms(2)] by blast

theorem source_isolation_witness:
  "\<exists>w w' evs. run_steps (\<lambda>w i. map_option fst (process_input sample_libs w i)) (FlowWorker_new (\<lambda>_. 0))
      [WPacket sample_syn] = Some w
    \<and> process_input sample_libs w (WHeartbeat 999000000 ''eth1'') = Some (w', evs) \<and> evs \<noteq> []
    \<and> map_of (flows w') sample_key \<noteq> None \<and> list_all (\<lambda>ev. event_source ev = ''eth1'') evs"
proof -
  obtain w where w: "process_input sample_libs (FlowWorker_new (\<lambda>_. 0)) (WPacket sample_syn) = Some (w, [])"
    "map_of (flows w) sample_key \<noteq> None" using sample_syn_process by blast
  then have r: "run_steps (\<lambda>w i. map_option fst (process_input sample_libs w i)) (FlowWorker_new (\<lambda>_. 0))
      [WPacket sample_syn] = Some w" by simp
  obtain w' evs where p: "process_input sample_libs w (WHeartbeat 999000000 ''eth1'') = Some (w', evs)"
    "evs \<noteq> []" using that by (simp add: process_input_def process_heartbeat_def case_prod_beta)
  from source_isolation[OF r p(1)] r p w(2) show ?thesis
    by (auto simp: input_source_def sample_key_def)
qed

text \<open>A clean-up removes a flow exactly when a sweep of its source is due (30 seconds of event
  time since the last) and the flow has seen no packet for more than 120 seconds.\<close>

theorem cleanup_exact:
  assumes "worker_inv w" and "maybe_cleanup_stale_flows lib w sid now out = (w', out')"
  shows "map_of (flows w') k = (if now - last_sweep w sid \<ge> CLEANUP_INTERVAL_US \<and> source_id k = sid
           \<and> (\<exists>f. map_of (flows w) k = Some f \<and> now - last_pkt_ts f > FLOW_TIMEOUT_US)
         then None else map_of (flows w) k)"
  using assms by (rule cleanup_op(2))

theorem cleanup_exact_witness:
  "map_of (flows (fst (maybe_cleanup_stale_flows sample_libs sample_worker ''eth0'' 999000000 []))) sample_key = None
   \<and> map_of (flows sample_worker) sample_key \<noteq> None"
  using cleanup_exact[OF sample_worker_inv, of sample_libs "''eth0''" 999000000 "[]"
      "fst (maybe_cleanup_stale_flows sample_libs sample_worker ''eth0'' 999000000 [])"
      "snd (maybe_cleanup_stale_flows sample_libs sample_worker ''eth0'' 999000000 [])" sample_key]
  by (simp add: last_sweep_def CLEANUP_INTERVAL_US_def FLOW_TIMEOUT_US_def)
    (simp add: sample_worker_def sample_key_def stale_flow_def TcpFlow_new_def)

text \<open>Pushing a packet keeps the flow invariant and the time of the last packet, learns the
  owning process from the first attributed packet and never changes it, and every event the
  packet produces carries the key of the flow and that process.\<close>

theorem push_attribution:
  assumes "flow_inv k f" and "push lib f pkt out = Some (r, g, out')"
  shows "flow_inv k g \<and> last_pkt_ts g = timestamp_us pkt
    \<and> fl_process g = (case fl_process f of None \<Rightarrow> process pkt | Some p \<Rightarrow> Some p)
    \<and> (\<exists>evs. out' = out @ evs \<and> list_all (from_flow k (fl_process g)) evs)"
  using assms by (rule push_op)

theorem push_attribution_witness:
  "\<exists>r g out'. push sample_libs stale_flow (sample_syn\<lparr>tcp_flags := TCP_RST\<rparr>) [] = Some (r, g, out')
    \<and> fl_process g = Some \<lparr>pid = 7, comm = ''claude'', exe = None\<rparr>
    \<and> out' \<noteq> [] \<and> list_all (from_flow sample_key (fl_process g)) out'"
proof -
  have inv: "flow_inv sample_key stale_flow"
    using worker_inv_get[OF sample_worker_inv, of sample_key stale_flow] by (simp add: sample_worker_def)
  have rst: "has_rst (sample_syn\<lparr>tcp_flags := TCP_RST\<rparr>)" by (simp add: has_rst_def TCP_RST_def)
  obtain r g out' where p: "push sample_libs stale_flow (sample_syn\<lparr>tcp_flags := TCP_RST\<rparr>) [] = Some (r, g, out')"
    using that[of False] by (simp add: push_def push_inner_def rst Let_def case_prod_beta)
  moreover have "out' \<noteq> []"
    using p by (auto simp: push_def push_inner_def rst Let_def finish_pending_response_def stale_flow_def
        client_direction_def finish_response_def complete_response_def HttpParser_new_def
        split: prod.splits option.splits)
  ultimately show ?thesis using push_attribution[OF inv p] by (auto simp: stale_flow_def)
qed

text \<open>The responses that a sweep ends for timed-out flows carry no process, even of a flow
  whose process is known.\<close>

theorem expired_events_unattributed:
  assumes "worker_inv w" and "maybe_cleanup_stale_flows lib w sid now out = (w', out @ evs)"
  shows "list_all (\<lambda>ev. event_process ev = None) evs"
  using cleanup_op(3)[OF assms] by (auto simp: list_all_iff from_flow_def)

theorem expired_events_unattributed_witness:
  "\<exists>w' ev. maybe_cleanup_stale_flows sample_libs sample_worker ''eth0'' 999000000 [] = (w', [] @ [ev])
    \<and> fl_process stale_flow \<noteq> None \<and> list_all (\<lambda>ev. event_process ev = None) [ev]"
proof -
  have "\<exists>w' ev. maybe_cleanup_stale_flows sample_libs sample_worker ''eth0'' 999000000 [] = (w', [] @ [ev])"
    by (simp add: maybe_cleanup_stale_flows_def sample_worker_def CLEANUP_INTERVAL_US_def FLOW_TIMEOUT_US_def
        timed_out_def sample_key_def stale_flow_def TcpFlow_new_def finish_pending_response_def client_direction_def
        finish_response_def complete_response_def HttpParser_new_def body_finish_def BodyReader_new_def Let_def)
  then show ?thesis
    using expired_events_unattributed[OF sample_worker_inv] by (fastforce simp: stale_flow_def)
qed

text \<open>Two FIN packets of the same side (a retransmitted FIN) close a flow: the state machine does
  not look at the direction of a FIN.\<close>

theorem repeated_fin_closes:
  "map_option (\<lambda>(_, f, _). tcp_state f)
     (case push_inner lib (sample_flow 5) sample_fin [] of
        None \<Rightarrow> None | Some (_, f, out) \<Rightarrow> push_inner lib f sample_fin out) = Some Closed"
  by (simp add: push_inner_def sample_fin_flags Let_def push_payload_def finish_pending_response_def
      client_direction_def sample_flow_def TcpFlow_new_def)

text \<open>A SYN that restarts a flow keeps the out-of-order buffer: a segment left over from the
  earlier connection is spliced into the new stream once the new sequence numbers reach it.\<close>

theorem syn_splices_stale_segment:
  "(case push_inner lib ((sample_flow 50)\<lparr>a_to_b := (a_to_b (sample_flow 50))\<lparr>ooo := Some [(13, [9, 9])]\<rparr>\<rparr>)
       sample_syn [] of
      None \<Rightarrow> None
    | Some (_, f, _) \<Rightarrow> map_option (\<lambda>g. dir_buf (a_to_b g)) (append_payload f (data_packet 10 [1, 2, 3])))
   = Some [1, 2, 3, 9, 9]"
  by (simp add: push_inner_def sample_syn_flags sample_syn_fields Let_def side_of_def
     append_payload_def sample_flow_def data_packet_def seq_diff_def set_dir_def dir_of_def
     TcpFlow_new_def DirState_new_def drain_if_any_def drain_ooo_def)
end
