(* ===== verification/Flow.thy ===== *)
theory Flow
  imports Decode Tcp
begin

text \<open>
  The stages in front of the flow workers: \<^verbatim>\<open>server/h-capture/src/routing.rs\<close> (packets to
  dispatchers by source), \<^verbatim>\<open>server/h-capture/src/heartbeat.rs\<close> (the per-source heartbeat
  tracker) and \<^verbatim>\<open>server/h-protocol/src/flow.rs\<close> (decoding, and packets to workers by flow key).
  A bounded channel is its queue and its capacity: \<open>try_send\<close> on a full or closed channel fails,
  \<open>send\<close> waits for room, so it fails only on a closed channel. The model of \<open>send\<close> appends; a
  caller that waits is a caller that runs later. \<open>DefaultHasher\<close> is a parameter.
\<close>

section \<open>Channels\<close>

record 'a channel =
  ch_queue :: "'a list"
  ch_capacity :: nat
  ch_closed :: bool

definition ch_send :: "'a \<Rightarrow> 'a channel \<Rightarrow> bool \<times> 'a channel" where
  "ch_send x c = (if ch_closed c then (False, c) else (True, c\<lparr>ch_queue := ch_queue c @ [x]\<rparr>))"

definition ch_try_send :: "'a \<Rightarrow> 'a channel \<Rightarrow> bool \<times> 'a channel" where
  "ch_try_send x c = (if ch_closed c \<or> length (ch_queue c) \<ge> ch_capacity c then (False, c)
                      else (True, c\<lparr>ch_queue := ch_queue c @ [x]\<rparr>))"

section \<open>Routing by source (\<^verbatim>\<open>routing.rs\<close>)\<close>

definition routing_index :: "(string \<Rightarrow> u64) \<Rightarrow> nat \<Rightarrow> string \<Rightarrow> nat" where
  "routing_index h n sid = (if n = 1 then 0 else unat (h sid) mod n)"

definition routing_send :: "(string \<Rightarrow> u64) \<Rightarrow> RawPacket channel list \<Rightarrow> RawPacket \<Rightarrow> bool \<times> RawPacket channel list" where
  "routing_send h txs pkt =
     (let i = routing_index h (length txs) (raw_source_id pkt);
          (ok, c) = ch_send pkt (txs ! i)
      in (ok, txs[i := c]))"

definition routing_is_closed :: "RawPacket channel list \<Rightarrow> bool" where
  "routing_is_closed txs = list_all ch_closed txs"

section \<open>Heartbeat tracker (\<^verbatim>\<open>heartbeat.rs\<close>)\<close>

definition HEARTBEAT_INTERVAL_US :: int where "HEARTBEAT_INTERVAL_US = 1000000"

type_synonym HeartbeatTracker = "(string \<times> int) list"

definition on_packet :: "HeartbeatTracker \<Rightarrow> RawPacket \<Rightarrow> RawPacket option \<times> HeartbeatTracker" where
  "on_packet t pkt =
     (let sid = raw_source_id pkt; ts = raw_timestamp_us pkt;
          slot = (case map_of t sid of Some s \<Rightarrow> s | None \<Rightarrow> 0)
      in if is_heartbeat pkt then
           (None, AList.update sid (if ts > slot then ts else slot) t)
         else if slot = 0 then (None, AList.update sid ts t)
         else if ts - slot < HEARTBEAT_INTERVAL_US then (None, AList.update sid slot t)
         else (Some (heartbeat ts sid), AList.update sid ts t))"

section \<open>Dispatch by flow key (\<^verbatim>\<open>flow.rs\<close>)\<close>

record FlowDispatcher =
  worker_txs :: "WorkerInput channel list"
  fd_metrics :: "ProtocolMetric MetricsWorker"

fun drop_metric :: "DecodeError \<Rightarrow> ProtocolMetric" where
  "drop_metric NotIp = NetParseDroppedNotIp"
| "drop_metric NotSupported = NetParseDroppedNotIp"
| "drop_metric NotTcp = NetParseDroppedNotTcp"
| "drop_metric Truncated = NetParseDroppedMalformed"
| "drop_metric InvalidHeader = NetParseDroppedMalformed"

definition worker_index :: "hasher \<Rightarrow> nat \<Rightarrow> FlowKey \<Rightarrow> nat" where
  "worker_index h n k = unat (shard_hash h k) mod n"

definition dispatch_packet :: "hasher \<Rightarrow> FlowDispatcher \<Rightarrow> RawPacket \<Rightarrow> bool \<times> FlowDispatcher" where
  "dispatch_packet h fd raw =
     (case decode (raw_data raw) (raw_link_type raw) (raw_timestamp_us raw) (raw_source_id raw) of
        Inl e \<Rightarrow> (True, fd\<lparr>fd_metrics := metric_inc (drop_metric e) (fd_metrics fd)\<rparr>)
      | Inr p \<Rightarrow>
          (let parsed = p\<lparr>process := raw_process raw\<rparr>;
               m = metric_inc DispatcherPacketsRouted (fd_metrics fd);
               i = worker_index h (length (worker_txs fd)) (flow_key parsed);
               (ok, c) = ch_send (WPacket parsed) (worker_txs fd ! i)
           in (ok, fd\<lparr>worker_txs := (worker_txs fd)[i := c], fd_metrics := m\<rparr>)))"

fun broadcast :: "'a \<Rightarrow> 'a channel list \<Rightarrow> nat \<times> 'a channel list" where
  "broadcast x [] = (0, [])"
| "broadcast x (c # cs) =
     (let (ok, c') = ch_try_send x c; (n, cs') = broadcast x cs
      in ((if ok then n else Suc n), c' # cs'))"

definition broadcast_heartbeat :: "FlowDispatcher \<Rightarrow> int \<Rightarrow> string \<Rightarrow> FlowDispatcher" where
  "broadcast_heartbeat fd ts sid =
     (let (dropped, cs) = broadcast (WHeartbeat ts sid) (worker_txs fd)
      in fd\<lparr>worker_txs := cs, fd_metrics := metric_add FlowHeartbeatsDropped (of_nat dropped) (fd_metrics fd)\<rparr>)"

definition dispatch :: "hasher \<Rightarrow> FlowDispatcher \<Rightarrow> RawPacket \<Rightarrow> bool \<times> FlowDispatcher" where
  "dispatch h fd raw =
     (if is_heartbeat raw
      then (True, broadcast_heartbeat fd (raw_timestamp_us raw) (raw_source_id raw))
      else dispatch_packet h fd raw)"

section \<open>Runs\<close>

definition decoded :: "RawPacket \<Rightarrow> ParsedPacket option" where
  "decoded raw = (if is_heartbeat raw then None else
     case decode (raw_data raw) (raw_link_type raw) (raw_timestamp_us raw) (raw_source_id raw) of
       Inl _ \<Rightarrow> None | Inr p \<Rightarrow> Some (p\<lparr>process := raw_process raw\<rparr>))"

fun queued_packets :: "WorkerInput list \<Rightarrow> ParsedPacket list" where
  "queued_packets [] = []"
| "queued_packets (WPacket p # q) = p # queued_packets q"
| "queued_packets (WHeartbeat _ _ # q) = queued_packets q"

fun dispatch_all :: "hasher \<Rightarrow> FlowDispatcher \<Rightarrow> RawPacket list \<Rightarrow> FlowDispatcher" where
  "dispatch_all h fd [] = fd"
| "dispatch_all h fd (r # rs) = dispatch_all h (snd (dispatch h fd r)) rs"

definition all_open :: "FlowDispatcher \<Rightarrow> bool" where
  "all_open fd \<longleftrightarrow> worker_txs fd \<noteq> [] \<and> list_all (\<lambda>c. \<not> ch_closed c) (worker_txs fd)"

definition hb_slot :: "HeartbeatTracker \<Rightarrow> string \<Rightarrow> int" where
  "hb_slot t sid = (case map_of t sid of Some s \<Rightarrow> s | None \<Rightarrow> 0)"

definition sample_hasher :: hasher where
  "sample_hasher t = (case t of (_, _, p, _, q) \<Rightarrow> ucast p + ucast q)"

definition sample_dispatcher :: FlowDispatcher where
  "sample_dispatcher = \<lparr>worker_txs = [\<lparr>ch_queue = [], ch_capacity = 4, ch_closed = False\<rparr>,
     \<lparr>ch_queue = [], ch_capacity = 4, ch_closed = False\<rparr>], fd_metrics = (\<lambda>_. 0)\<rparr>"

definition rev_ip :: "u8 \<Rightarrow> bytes" where
  "rev_ip n = [0x46, 0, 0, n, 0, 0, 0, 0, 64, 6, 0, 0, 10, 0, 0, 2, 10, 0, 0, 1, 1, 1, 1, 1]"

definition rev_tcp :: bytes where
  "rev_tcp = [0, 80, 0x30, 0x39, 0, 0, 3, 0xE8, 0, 0, 0, 0, 0x50, 0x18, 0, 0, 0, 0, 0, 0]"

section \<open>Lemmas\<close>

lemma decode_flow_key:
  "decode d lt ts sid = Inr p \<Longrightarrow> flow_key p = FlowKey_new sid (src_ip p) (src_port p) (dst_ip p) (dst_port p)
    \<and> direction p = (if (src_ip p, src_port p) \<le> (dst_ip p, dst_port p) then AtoB else BtoA)"
  by (auto simp: decode_def and_then_eq_Inr split: prod.splits)

lemma worker_index_less: "0 < n \<Longrightarrow> worker_index h n k < n"
  by (simp add: worker_index_def)

lemma queued_append [simp]: "queued_packets (a @ b) = queued_packets a @ queued_packets b"
  by (induction a rule: queued_packets.induct) auto

lemma broadcast_length [simp]: "length (snd (broadcast x cs)) = length cs"
  by (induction cs) (auto simp: Let_def case_prod_beta)

lemma broadcast_Nil [simp]: "snd (broadcast x cs) = [] \<longleftrightarrow> cs = []"
  by (metis broadcast_length length_0_conv)

lemma broadcast_nth:
  "i < length cs \<Longrightarrow> snd (broadcast x cs) ! i = snd (ch_try_send x (cs ! i))"
  by (induction cs arbitrary: i) (auto simp: Let_def case_prod_beta nth_Cons split: nat.splits)

lemma broadcast_dropped: "fst (broadcast x cs) = length (filter (\<lambda>c. \<not> fst (ch_try_send x c)) cs)"
  by (induction cs) (auto simp: Let_def case_prod_beta)

lemma dispatch_step:
  assumes "all_open fd"
  defines "n \<equiv> length (worker_txs fd)"
  shows "length (worker_txs (snd (dispatch h fd raw))) = n" "all_open (snd (dispatch h fd raw))"
    and "i < n \<Longrightarrow> queued_packets (ch_queue (worker_txs (snd (dispatch h fd raw)) ! i)) =
      queued_packets (ch_queue (worker_txs fd ! i)) @
        (case decoded raw of Some p \<Rightarrow> if worker_index h n (flow_key p) = i then [p] else [] | None \<Rightarrow> [])"
proof -
  have ne: "0 < n" using assms by (auto simp: all_open_def n_def)
  note lt = worker_index_less[OF ne]
  have op: "\<not> ch_closed (worker_txs fd ! j)" if "j < n" for j
    using assms that by (auto simp: all_open_def list_all_length)
  show "length (worker_txs (snd (dispatch h fd raw))) = n"
    by (auto simp: dispatch_def dispatch_packet_def broadcast_heartbeat_def n_def Let_def case_prod_beta split: sum.split)
  show "all_open (snd (dispatch h fd raw))"
    using assms(1) op lt
    by (auto simp: dispatch_def dispatch_packet_def broadcast_heartbeat_def n_def Let_def case_prod_beta
        all_open_def list_all_length broadcast_nth ch_try_send_def ch_send_def nth_list_update split: sum.split)
  show "queued_packets (ch_queue (worker_txs (snd (dispatch h fd raw)) ! i)) =
      queued_packets (ch_queue (worker_txs fd ! i)) @
        (case decoded raw of Some p \<Rightarrow> if worker_index h n (flow_key p) = i then [p] else [] | None \<Rightarrow> [])" if "i < n"
    using that op lt
    by (auto simp: dispatch_def dispatch_packet_def broadcast_heartbeat_def n_def Let_def case_prod_beta decoded_def
        broadcast_nth ch_try_send_def ch_send_def nth_list_update split: sum.split)
qed

lemma map_filter_Cons: "List.map_filter f (x # xs) = (case f x of None \<Rightarrow> [] | Some y \<Rightarrow> [y]) @ List.map_filter f xs"
  by (simp add: List.map_filter_simps split: option.split)

lemma rev_headers: "ipv4_frame_headers ex_eth [ex_tag] (rev_ip n) rev_tcp"
  by (simp add: ipv4_frame_headers_def ex_eth_def ex_tag_def rev_ip_def rev_tcp_def
      ethernet_ether_type_def vlan_ether_type_def field_def be_word_def ETHERTYPE_VLAN_def
      ETHERTYPE_IPV4_def ipv4_ihl_def ipv4_protocol_def IP_PROTO_TCP_def tcp_data_offset_def)

section \<open>Properties\<close>

text \<open>C36: Over any run of raw packets, with every worker channel open, the packets in the queue of
  a worker are those that decode and hash to it, in arrival order, each with the process
  attribution of its raw packet; heartbeats and undecodable packets add none.\<close>

theorem dispatch_partitions:
  assumes "all_open fd" and "i < length (worker_txs fd)"
  shows "queued_packets (ch_queue (worker_txs (dispatch_all h fd raws) ! i)) =
    queued_packets (ch_queue (worker_txs fd ! i)) @
      filter (\<lambda>p. worker_index h (length (worker_txs fd)) (flow_key p) = i) (List.map_filter decoded raws)"
  using assms
proof (induction raws arbitrary: fd)
  case Nil
  then show ?case by (simp add: List.map_filter_simps)
next
  case (Cons r rs)
  note st = dispatch_step[OF Cons.prems(1)]
  have "i < length (worker_txs (snd (dispatch h fd r)))" using st(1)[of h r] Cons.prems(2) by simp
  from Cons.IH[OF st(2) this] st(1)[of h r] st(3)[OF Cons.prems(2), of h r] show ?case
    by (auto simp: map_filter_Cons split: option.splits)
qed

theorem dispatch_partitions_witness:
  "queued_packets (ch_queue (worker_txs (dispatch_all sample_hasher sample_dispatcher [heartbeat 7 ''eth0'', (heartbeat 7 ''s'')\<lparr>raw_data := ex_eth @ concat [ex_tag] @ ex_ip 0 @ ex_tcp @ [1]\<rparr>]) ! 1)) =
    queued_packets (ch_queue (worker_txs sample_dispatcher ! 1)) @
      filter (\<lambda>p. worker_index sample_hasher (length (worker_txs sample_dispatcher)) (flow_key p) = 1)
        (List.map_filter decoded [heartbeat 7 ''eth0'', (heartbeat 7 ''s'')\<lparr>raw_data := ex_eth @ concat [ex_tag] @ ex_ip 0 @ ex_tcp @ [1]\<rparr>])"
  by (rule dispatch_partitions) (simp_all add: all_open_def sample_dispatcher_def)

text \<open>Both directions of a connection go to the same worker: two packets of one source with
  swapped end points have the same worker index, and opposite directions relative to the flow
  key.\<close>

theorem connection_to_one_worker:
  assumes "decode d1 lt1 ts1 sid = Inr p" and "decode d2 lt2 ts2 sid = Inr q"
    and "src_ip q = dst_ip p" "src_port q = dst_port p" "dst_ip q = src_ip p" "dst_port q = src_port p"
  shows "worker_index h n (flow_key q) = worker_index h n (flow_key p)
    \<and> ((src_ip p, src_port p) \<noteq> (dst_ip p, dst_port p) \<longrightarrow> direction q = opposite (direction p))"
proof -
  have "flow_key q = flow_key p"
    using decode_flow_key[OF assms(1)] decode_flow_key[OF assms(2)] assms(3-6) FlowKey_new_sym by metis
  moreover have "direction q = opposite (direction p)" if "(src_ip p, src_port p) \<noteq> (dst_ip p, dst_port p)"
    using decode_flow_key[OF assms(1)] decode_flow_key[OF assms(2)] assms(3-6) that
    by (cases "(src_ip p, src_port p) \<le> (dst_ip p, dst_port p)") (auto simp: less_eq_prod_def)
  ultimately show ?thesis by simp
qed

theorem connection_to_one_worker_witness:
  "\<exists>p q. decode (ex_eth @ concat [ex_tag] @ ex_ip 0 @ ex_tcp @ [1]) LINKTYPE_ETHERNET 7 ''s'' = Inr p
    \<and> decode (ex_eth @ concat [ex_tag] @ rev_ip 0 @ rev_tcp @ [2]) LINKTYPE_ETHERNET 8 ''s'' = Inr q
    \<and> worker_index sample_hasher 4 (flow_key q) = worker_index sample_hasher 4 (flow_key p)
    \<and> direction q = opposite (direction p)"
proof -
  have t: "unat (ipv4_total_length (ex_ip 0)) = 0" "unat (ipv4_total_length (rev_ip 0)) = 0"
    by (simp_all add: ipv4_total_length_def ex_ip_def rev_ip_def field_def be_word_def)
  let ?p = "tcp_packet ''s'' 7 (ex_ip 0) ex_tcp [1] 0" and ?q = "tcp_packet ''s'' 8 (rev_ip 0) rev_tcp [2] 0"
  have p: "decode (ex_eth @ concat [ex_tag] @ ex_ip 0 @ ex_tcp @ [1]) LINKTYPE_ETHERNET 7 ''s'' = Inr ?p"
    using decode_ipv4_frame_eq[OF ex_headers, of 0 "[1]" 7 "''s''"] t by (simp add: ex_ip_def)
  have q: "decode (ex_eth @ concat [ex_tag] @ rev_ip 0 @ rev_tcp @ [2]) LINKTYPE_ETHERNET 8 ''s'' = Inr ?q"
    using decode_ipv4_frame_eq[OF rev_headers, of 0 "[2]" 8 "''s''"] t by (simp add: rev_ip_def)
  have e: "src_ip ?q = dst_ip ?p" "src_port ?q = dst_port ?p" "dst_ip ?q = src_ip ?p" "dst_port ?q = src_port ?p"
    "(src_ip ?p, src_port ?p) \<noteq> (dst_ip ?p, dst_port ?p)"
    by (simp_all add: tcp_packet_def ipv4_src_ip_def ipv4_dst_ip_def tcp_src_port_def tcp_dst_port_def
        ex_ip_def ex_tcp_def rev_ip_def rev_tcp_def field_def be_word_def)
  show ?thesis using connection_to_one_worker[OF p q e(1-4), of sample_hasher 4] e(5) p q by blast
qed

text \<open>After a packet, the heartbeat time of its source is less than one interval behind the
  packet; the other sources are untouched, and a heartbeat is synthesised exactly when a real
  packet of a known source is a full interval ahead, with its time and source.\<close>

theorem heartbeat_lag:
  assumes "on_packet t pkt = (r, t')"
  shows "(sid \<noteq> raw_source_id pkt \<longrightarrow> hb_slot t' sid = hb_slot t sid)
    \<and> raw_timestamp_us pkt - hb_slot t' (raw_source_id pkt) < HEARTBEAT_INTERVAL_US
    \<and> (r \<noteq> None \<longleftrightarrow> \<not> is_heartbeat pkt \<and> hb_slot t (raw_source_id pkt) \<noteq> 0
         \<and> raw_timestamp_us pkt - hb_slot t (raw_source_id pkt) \<ge> HEARTBEAT_INTERVAL_US)
    \<and> (\<forall>hb. r = Some hb \<longrightarrow> is_heartbeat hb \<and> raw_timestamp_us hb = raw_timestamp_us pkt
         \<and> raw_source_id hb = raw_source_id pkt)"
  using assms heartbeat_is_heartbeat
  by (auto simp: on_packet_def hb_slot_def Let_def HEARTBEAT_INTERVAL_US_def update_conv' heartbeat_def
      split: if_splits)

theorem heartbeat_lag_witness:
  "\<exists>r t'. on_packet [(''eth0'', 5)] ((heartbeat 2000005 ''eth0'')\<lparr>raw_link_type := 101\<rparr>) = (r, t') \<and> r \<noteq> None
    \<and> 2000005 - hb_slot t' ''eth0'' < HEARTBEAT_INTERVAL_US"
proof -
  let ?p = "(heartbeat 2000005 ''eth0'')\<lparr>raw_link_type := 101\<rparr>"
  obtain r t' where o: "on_packet [(''eth0'', 5)] ?p = (r, t')" by (cases "on_packet [(''eth0'', 5)] ?p")
  have "raw_source_id ?p = ''eth0''" "raw_timestamp_us ?p = 2000005" "\<not> is_heartbeat ?p"
    by (simp_all add: heartbeat_def is_heartbeat_def)
  then show ?thesis using heartbeat_lag[OF o, of "''eth0''"] o by (auto simp: hb_slot_def HEARTBEAT_INTERVAL_US_def)
qed

end
