(* ===== verification/Joiner.thy ===== *)
theory Joiner
  imports Http
begin

text \<open>
  \<^verbatim>\<open>server/h-protocol/src/joiner.rs\<close>: pairs the requests, SSE events and responses of the parse
  events into exchanges, per flow, and drops requests that stay silent. A UUID is minted per
  exchange by the \<open>uuid\<close> crate: it is an argument of the model. Logging is not modelled.
\<close>

section \<open>State\<close>

definition PENDING_STALE_TIMEOUT_US :: int where "PENDING_STALE_TIMEOUT_US = 600000000"

record HttpExchange =
  ex_id :: string
  ex_request :: HttpRequestData
  ex_response :: HttpResponseData
  sse_event_count :: u32
  sse_data_bytes :: u64

datatype HttpJoinerEvent =
    JRequest HttpRequestData
  | JExchange string HttpRequestData HttpResponseData "SseEventData list"
  | JHeartbeat int string

record Pending =
  p_request :: HttpRequestData
  p_sse_events :: "SseEventData list"
  last_activity_us :: int

record HttpJoiner =
  pending :: "(FlowKey \<times> Pending) list"
  jn_metrics :: "ProtocolMetric MetricsWorker"

definition HttpJoiner_new :: "ProtocolMetric MetricsWorker \<Rightarrow> HttpJoiner" where
  "HttpJoiner_new m = \<lparr>pending = [], jn_metrics = m\<rparr>"

section \<open>Exchanges\<close>

definition sse_summary :: "SseEventData list \<Rightarrow> u32 \<times> u64" where
  "sse_summary evs = (of_nat (length evs), sum_list (map (\<lambda>e. of_nat (length (sse_data e))) evs))"

definition exchange_is_sse :: "HttpExchange \<Rightarrow> bool" where
  "exchange_is_sse ex =
     (case content_type (resp_headers (ex_response ex)) of
        Some ct \<Rightarrow> prefix ''text/event-stream'' ct | None \<Rightarrow> False)"

definition stored_response_body :: "HttpExchange \<Rightarrow> bytes option" where
  "stored_response_body ex = (if exchange_is_sse ex then None else Some (resp_body (ex_response ex)))"

definition exchange_source_id :: "HttpExchange \<Rightarrow> string" where
  "exchange_source_id ex = source_id (req_flow_key (ex_request ex))"

definition exchange_client_addr :: "HttpExchange \<Rightarrow> sock_addr" where
  "exchange_client_addr ex = req_client_addr (ex_request ex)"

definition exchange_server_addr :: "HttpExchange \<Rightarrow> sock_addr" where
  "exchange_server_addr ex = req_server_addr (ex_request ex)"

definition request_time_us :: "HttpExchange \<Rightarrow> int" where
  "request_time_us ex = req_timestamp_us (ex_request ex)"

definition response_first_byte_time_us :: "HttpExchange \<Rightarrow> int" where
  "response_first_byte_time_us ex = first_byte_timestamp_us (ex_response ex)"

definition response_complete_time_us :: "HttpExchange \<Rightarrow> int" where
  "response_complete_time_us ex = complete_timestamp_us (ex_response ex)"

section \<open>Operations\<close>

definition on_request :: "HttpJoiner \<Rightarrow> HttpRequestData \<Rightarrow> HttpJoiner \<times> HttpJoinerEvent list" where
  "on_request j req =
     (let k = req_flow_key req; t = req_timestamp_us req;
          pend = (case map_of (pending j) k of
                    Some prev \<Rightarrow> if t - last_activity_us prev > PENDING_STALE_TIMEOUT_US
                                 then AList.delete k (pending j) else pending j
                  | None \<Rightarrow> pending j)
      in (j\<lparr>pending := AList.update k \<lparr>p_request = req, p_sse_events = [], last_activity_us = t\<rparr> pend\<rparr>,
          [JRequest req]))"

definition on_sse :: "HttpJoiner \<Rightarrow> SseEventData \<Rightarrow> HttpJoiner" where
  "on_sse j sse =
     (case map_of (pending j) (sse_flow_key sse) of
        None \<Rightarrow> j
      | Some p \<Rightarrow>
          j\<lparr>pending := AList.update (sse_flow_key sse)
              (p\<lparr>last_activity_us := (if sse_timestamp_us sse > last_activity_us p
                                     then sse_timestamp_us sse else last_activity_us p),
                 p_sse_events := p_sse_events p @ [sse]\<rparr>) (pending j)\<rparr>)"

definition on_response :: "HttpJoiner \<Rightarrow> HttpResponseData \<Rightarrow> string \<Rightarrow> HttpJoiner \<times> HttpJoinerEvent list" where
  "on_response j resp uid =
     (case map_of (pending j) (resp_flow_key resp) of
        None \<Rightarrow> (j\<lparr>jn_metrics := metric_inc HttpJoinerUnpaired (jn_metrics j)\<rparr>, [])
      | Some p \<Rightarrow>
          (j\<lparr>pending := AList.delete (resp_flow_key resp) (pending j),
             jn_metrics := metric_inc HttpJoinerDone (jn_metrics j)\<rparr>,
           [JExchange uid (p_request p) resp (p_sse_events p)]))"

definition cleanup_stale :: "HttpJoiner \<Rightarrow> string \<Rightarrow> int \<Rightarrow> int \<Rightarrow> nat \<times> HttpJoiner" where
  "cleanup_stale j sid now timeout =
     (let kept = filter (\<lambda>(k, p). source_id k \<noteq> sid \<or> \<not> now - last_activity_us p > timeout) (pending j);
          expired = length (pending j) - length kept
      in (expired, j\<lparr>pending := kept,
            jn_metrics := (if expired > 0 then metric_add HttpJoinerExpired (of_nat expired) (jn_metrics j)
                           else jn_metrics j)\<rparr>))"

definition pending_count :: "HttpJoiner \<Rightarrow> nat" where
  "pending_count j = length (pending j)"

definition joiner_process :: "HttpJoiner \<Rightarrow> HttpParseEvent \<Rightarrow> string \<Rightarrow> HttpJoiner \<times> HttpJoinerEvent list" where
  "joiner_process j ev uid =
     (case ev of
        HttpRequest req \<Rightarrow> on_request j req
      | SseEvent sse \<Rightarrow> (on_sse j sse, [])
      | HttpResponse resp \<Rightarrow> on_response j resp uid
      | Heartbeat ts sid \<Rightarrow>
          (snd (cleanup_stale (j\<lparr>jn_metrics := metric_inc JoinerHeartbeatsReceived (jn_metrics j)\<rparr>)
                  sid ts PENDING_STALE_TIMEOUT_US),
           [JHeartbeat ts sid]))"

section \<open>Runs of the joiner\<close>

fun joiner_run :: "HttpJoiner \<Rightarrow> (HttpParseEvent \<times> string) list \<Rightarrow> HttpJoiner \<times> HttpJoinerEvent list" where
  "joiner_run j [] = (j, [])"
| "joiner_run j ((ev, uid) # evs) =
     (let (j1, o1) = joiner_process j ev uid; (j2, o2) = joiner_run j1 evs in (j2, o1 @ o2))"

fun pe_key :: "HttpParseEvent \<Rightarrow> FlowKey option" where
  "pe_key (HttpRequest r) = Some (req_flow_key r)"
| "pe_key (HttpResponse r) = Some (resp_flow_key r)"
| "pe_key (SseEvent e) = Some (sse_flow_key e)"
| "pe_key (Heartbeat _ _) = None"

fun je_key :: "HttpJoinerEvent \<Rightarrow> FlowKey option" where
  "je_key (JRequest r) = Some (req_flow_key r)"
| "je_key (JExchange _ r _ _) = Some (req_flow_key r)"
| "je_key (JHeartbeat _ _) = None"

text \<open>A heartbeat of the flow's source evicts nothing before \<open>t0\<close> plus the timeout.\<close>

fun spares :: "FlowKey \<Rightarrow> int \<Rightarrow> HttpParseEvent \<Rightarrow> bool" where
  "spares k t0 (Heartbeat ts sid) \<longleftrightarrow> sid = source_id k \<longrightarrow> ts - t0 \<le> PENDING_STALE_TIMEOUT_US"
| "spares k t0 _ \<longleftrightarrow> True"

definition pending_ok :: "HttpJoiner \<Rightarrow> bool" where
  "pending_ok j \<longleftrightarrow> hm_valid (pending j) \<and> list_all (\<lambda>(k, p). req_flow_key (p_request p) = k) (pending j)"

definition sample_request :: "FlowKey \<Rightarrow> int \<Rightarrow> HttpRequestData" where
  "sample_request k t = \<lparr>req_flow_key = k, req_client_addr = (V4 1, 1), req_server_addr = (V4 2, 80),
     req_method = ''POST'', req_uri = ''/'', req_version = 1, req_headers = [], req_body = [],
     req_timestamp_us = t, req_process = None\<rparr>"

definition sample_response :: "FlowKey \<Rightarrow> int \<Rightarrow> HttpResponseData" where
  "sample_response k t = \<lparr>resp_flow_key = k, resp_client_addr = (V4 1, 1), resp_server_addr = (V4 2, 80),
     resp_status = 200, resp_version = 1, resp_headers = [], resp_body = [], first_byte_timestamp_us = t,
     complete_timestamp_us = t, resp_process = None\<rparr>"

definition sample_sse :: "FlowKey \<Rightarrow> int \<Rightarrow> SseEventData" where
  "sample_sse k t = \<lparr>sse_flow_key = k, sse_client_addr = (V4 1, 1), sse_server_addr = (V4 2, 80),
     event_type = [], sse_data = ''hi'', sse_timestamp_us = t, sse_process = None\<rparr>"

definition sample_key :: "u16 \<Rightarrow> FlowKey" where
  "sample_key n = \<lparr>source_id = [], addr_a = (V4 1, n), addr_b = (V4 2, 80)\<rparr>"

definition sample_run :: "(HttpParseEvent \<times> string) list" where
  "sample_run =
    [(HttpRequest (sample_request (sample_key 1) 5), ''a''), (HttpRequest (sample_request (sample_key 2) 6), ''b''),
     (SseEvent (sample_sse (sample_key 1) 7), ''c''), (HttpResponse (sample_response (sample_key 2) 8), ''d''),
     (Heartbeat 9 [], ''e''), (HttpResponse (sample_response (sample_key 1) 10), ''f'')]"

section \<open>Lemmas\<close>

lemma pending_ok_get: "pending_ok j \<Longrightarrow> map_of (pending j) k = Some p \<Longrightarrow> req_flow_key (p_request p) = k"
  by (auto simp: pending_ok_def list_all_iff dest: map_of_SomeD)

lemma pending_ok_update:
  "hm_valid m \<Longrightarrow> list_all (\<lambda>(k, p). req_flow_key (p_request p) = k) m \<Longrightarrow> req_flow_key (p_request p) = k \<Longrightarrow>
   hm_valid (AList.update k p m) \<and> list_all (\<lambda>(k, p). req_flow_key (p_request p) = k) (AList.update k p m)"
  using hm.set_upsert[of m k p] hm.valid_upsert[of m k p] by (auto simp: list_all_iff)

lemma pending_ok_delete:
  "hm_valid m \<Longrightarrow> list_all (\<lambda>(k, p). req_flow_key (p_request p) = k) m \<Longrightarrow>
   hm_valid (AList.delete k m) \<and> list_all (\<lambda>(k, p). req_flow_key (p_request p) = k) (AList.delete k m)"
  using hm.set_remove[of m k] hm.valid_remove[of m k] by (auto simp: list_all_iff)

lemma process_ok:
  assumes "pending_ok j" shows "pending_ok (fst (joiner_process j ev uid))"
proof (cases ev)
  case (HttpRequest req)
  then show ?thesis using assms
    by (auto simp: joiner_process_def on_request_def Let_def pending_ok_def
        intro!: pending_ok_update[THEN conjunct1] pending_ok_update[THEN conjunct2] dest: pending_ok_delete split: option.splits)
next
  case (SseEvent e)
  then show ?thesis using assms pending_ok_get[OF assms]
    by (auto simp: joiner_process_def on_sse_def pending_ok_def
        intro!: pending_ok_update[THEN conjunct1] pending_ok_update[THEN conjunct2] split: option.splits)
next
  case (HttpResponse r)
  then show ?thesis using assms
    by (auto simp: joiner_process_def on_response_def pending_ok_def dest: pending_ok_delete split: option.splits)
next
  case (Heartbeat ts sid)
  then show ?thesis using assms hm.valid_retain
    by (auto simp: joiner_process_def cleanup_stale_def Let_def pending_ok_def list_all_iff)
qed

lemma on_request_get:
  assumes "pending_ok j"
  shows "map_of (pending (fst (on_request j req))) k =
    (if k = req_flow_key req then Some \<lparr>p_request = req, p_sse_events = [], last_activity_us = req_timestamp_us req\<rparr>
     else map_of (pending j) k)"
  using assms by (auto simp: on_request_def Let_def pending_ok_def hm.map_of_upsert hm.map_of_remove hm.valid_remove
      split: option.splits)

text \<open>An event of another flow, or a heartbeat that spares the flow, does not touch its entry.\<close>

lemma process_other:
  assumes "pending_ok j" "pe_key ev \<noteq> Some k" "spares k t0 ev"
    and "\<forall>p. map_of (pending j) k = Some p \<longrightarrow> t0 \<le> last_activity_us p"
  shows "map_of (pending (fst (joiner_process j ev uid))) k = map_of (pending j) k"
proof -
  have hv: "hm_valid (pending j)" using assms(1) by (simp add: pending_ok_def)
  show "map_of (pending (fst (joiner_process j ev uid))) k = map_of (pending j) k"
  proof (cases ev)
    case (HttpRequest req)
    then show ?thesis using assms(2) on_request_get[OF assms(1)] by (auto simp: joiner_process_def)
  next
    case (SseEvent e)
    then show ?thesis using assms(2) hv
      by (auto simp: joiner_process_def on_sse_def hm.map_of_upsert split: option.splits)
  next
    case (HttpResponse r)
    then show ?thesis using assms(2) hv
      by (auto simp: joiner_process_def on_response_def hm.map_of_remove split: option.splits)
  next
    case (Heartbeat ts sid)
    then show ?thesis using assms(3,4) hv
      by (fastforce simp: joiner_process_def cleanup_stale_def Let_def hm.map_of_retain split: option.splits)
  qed
qed

lemma process_other_out:
  assumes "pending_ok j" "pe_key ev \<noteq> Some k"
  shows "filter (\<lambda>o'. je_key o' = Some k) (snd (joiner_process j ev uid)) = []"
  using assms(2) pending_ok_get[OF assms(1)]
  by (cases ev) (auto simp: joiner_process_def on_request_def on_response_def Let_def split: option.splits)

lemma run_without:
  assumes "pending_ok j" "map_of (pending j) k = None"
    and "filter (\<lambda>e. pe_key (fst e) = Some k) evs = []" "list_all (\<lambda>e. spares k t0 (fst e)) evs"
  shows "filter (\<lambda>o'. je_key o' = Some k) (snd (joiner_run j evs)) = []"
  using assms
proof (induction evs arbitrary: j)
  case (Cons x evs)
  obtain ev u where x: "x = (ev, u)" by (cases x)
  have ne: "pe_key ev \<noteq> Some k" "spares k t0 ev" using Cons.prems(3,4) x by (auto split: if_splits)
  note o = process_other[OF Cons.prems(1) ne, of u]
  have "filter (\<lambda>o'. je_key o' = Some k) (snd (joiner_run (fst (joiner_process j ev u)) evs)) = []"
    using Cons.prems o x by (intro Cons.IH process_ok) (auto split: if_splits)
  then show ?case using process_other_out[OF Cons.prems(1) ne(1)] x by (simp add: case_prod_beta)
qed simp

text \<open>The rest of an exchange, from its pending request: the SSE events, then the response.\<close>

lemma run_from_pending:
  assumes "pending_ok j" "map_of (pending j) k = Some p" "t0 \<le> last_activity_us p"
    and "filter (\<lambda>e. pe_key (fst e) = Some k) evs = map (\<lambda>(e, u). (SseEvent e, u)) es @ [(HttpResponse r, uid)]"
    and "list_all (\<lambda>e. spares k t0 (fst e)) evs"
  shows "filter (\<lambda>o'. je_key o' = Some k) (snd (joiner_run j evs))
    = [JExchange uid (p_request p) r (p_sse_events p @ map fst es)]"
  using assms
proof (induction evs arbitrary: j p es)
  case (Cons x evs)
  obtain ev u where x: "x = (ev, u)" by (cases x)
  note IH = Cons.IH and prems = Cons.prems
  note j1 = process_ok[OF Cons.prems(1), of ev u]
  have hv: "hm_valid (pending j)" using Cons.prems(1) by (simp add: pending_ok_def)
  note other = process_other[OF Cons.prems(1) _ _]
  show ?case
  proof (cases "pe_key ev = Some k")
    case False
    have get: "map_of (pending (fst (joiner_process j ev u))) k = Some p"
      using other[of ev k t0 u] False Cons.prems(2,3,5) x by auto
    have "filter (\<lambda>o'. je_key o' = Some k) (snd (joiner_run (fst (joiner_process j ev u)) evs))
      = [JExchange uid (p_request p) r (p_sse_events p @ map fst es)]"
      using Cons.prems False x by (intro Cons.IH[OF j1 get]) auto
    then show ?thesis using process_other_out[OF Cons.prems(1) False] x by (simp add: case_prod_beta)
  next
    case True
    then have hd: "x = hd (map (\<lambda>(e, u). (SseEvent e, u)) es @ [(HttpResponse r, uid)])"
      and tl: "filter (\<lambda>e. pe_key (fst e) = Some k) evs = tl (map (\<lambda>(e, u). (SseEvent e, u)) es @ [(HttpResponse r, uid)])"
      using Cons.prems(4) x by (simp_all, metis list.sel(1), metis list.sel(3))
    show ?thesis
    proof (cases es)
      case Nil
      then have ev: "ev = HttpResponse r" "u = uid" "resp_flow_key r = k" using hd True x by auto
      let ?j = "fst (joiner_process j ev u)"
      have "map_of (pending ?j) k = None" using ev hv by (auto simp: joiner_process_def on_response_def hm.map_of_remove Cons.prems(2))
      then have "filter (\<lambda>o'. je_key o' = Some k) (snd (joiner_run ?j evs)) = []"
        using tl Nil Cons.prems(5) by (intro run_without[OF j1, of k _ t0]) auto
      moreover have "snd (joiner_process j ev u) = [JExchange uid (p_request p) r (p_sse_events p)]"
        using ev Cons.prems(2) by (simp add: joiner_process_def on_response_def)
      ultimately show ?thesis using x Nil pending_ok_get[OF Cons.prems(1,2)] by (simp add: case_prod_beta)
    next
      case (Cons eu es')
      obtain e u' where eu: "eu = (e, u')" by (cases eu)
      let ?j = "fst (joiner_process j ev u)"
      let ?p = "p\<lparr>last_activity_us := (if sse_timestamp_us e > last_activity_us p then sse_timestamp_us e else last_activity_us p),
          p_sse_events := p_sse_events p @ [e]\<rparr>"
      have ev: "ev = SseEvent e" "sse_flow_key e = k" using hd True x Cons eu by auto
      have get: "map_of (pending ?j) k = Some ?p"
        using ev hv prems(2) by (simp add: joiner_process_def on_sse_def hm.map_of_upsert)
      have "filter (\<lambda>o'. je_key o' = Some k) (snd (joiner_run ?j evs))
        = [JExchange uid (p_request ?p) r (p_sse_events ?p @ map fst es')]"
        using prems(3,5) tl Cons eu by (intro IH[OF j1 get]) auto
      then show ?thesis using x ev Cons eu by (simp add: case_prod_beta joiner_process_def)
    qed
  qed
qed simp

lemma run_from_request:
  assumes "pending_ok j"
    and "filter (\<lambda>e. pe_key (fst e) = Some k) evs
      = (HttpRequest q, u0) # map (\<lambda>(e, u). (SseEvent e, u)) es @ [(HttpResponse r, uid)]"
    and "list_all (\<lambda>e. spares k (req_timestamp_us q) (fst e)) evs"
  shows "filter (\<lambda>o'. je_key o' = Some k) (snd (joiner_run j evs)) = [JRequest q, JExchange uid q r (map fst es)]"
  using assms
proof (induction evs arbitrary: j)
  case (Cons x evs)
  obtain ev u where x: "x = (ev, u)" by (cases x)
  note j1 = process_ok[OF Cons.prems(1), of ev u]
  show ?case
  proof (cases "pe_key ev = Some k")
    case False
    have "filter (\<lambda>o'. je_key o' = Some k) (snd (joiner_run (fst (joiner_process j ev u)) evs))
      = [JRequest q, JExchange uid q r (map fst es)]"
      using Cons.prems False x by (intro Cons.IH j1) auto
    then show ?thesis using process_other_out[OF Cons.prems(1) False] x by (simp add: case_prod_beta)
  next
    case True
    then have ev: "ev = HttpRequest q" "req_flow_key q = k" using Cons.prems(2) x by auto
    have "filter (\<lambda>o'. je_key o' = Some k) (snd (joiner_run (fst (joiner_process j ev u)) evs))
      = [JExchange uid q r ([] @ map fst es)]"
      using Cons.prems(2,3) x ev on_request_get[OF Cons.prems(1), of q k]
        run_from_pending[OF j1, of k "\<lparr>p_request = q, p_sse_events = [], last_activity_us = req_timestamp_us q\<rparr>"
          "req_timestamp_us q" evs es r uid]
      by (simp add: joiner_process_def)
    then show ?thesis using x ev by (simp add: case_prod_beta joiner_process_def on_request_def Let_def)
  qed
qed simp

lemma retain_gone:
  assumes "hm_valid m"
  shows "length m - length (filter P m) = card {k. \<exists>p. map_of m k = Some p \<and> \<not> P (k, p)}"
proof -
  have d: "distinct (map fst m)" using assms by (rule hm.valid_distinct)
  have "length m - length (filter P m) = length (filter (\<lambda>e. \<not> P e) m)"
    using sum_length_filter_compl[of P m] by simp
  also have "\<dots> = card (fst ` set (filter (\<lambda>e. \<not> P e) m))"
    using distinct_card[of "map fst (filter (\<lambda>e. \<not> P e) m)"] distinct_map_filter[OF d] by simp
  also have "fst ` set (filter (\<lambda>e. \<not> P e) m) = {k. \<exists>p. map_of m k = Some p \<and> \<not> P (k, p)}"
    using hm.entry_iff[OF assms] by force
  finally show ?thesis .
qed

lemma mixed_case_is_sse: "is_sse [(''Content-Type'', ''Text/Event-Stream'')]"
proof -
  have low: "to_lowercase ''Text/Event-Stream'' = ''text/event-stream''"
    unfolding to_lowercase_graphic[of "''Text/Event-Stream''", simplified graphic_def, simplified]
    by code_simp
  show ?thesis by (simp add: is_sse_def header_names low str_contains_def)
qed

section \<open>Properties\<close>

text \<open>C11: One flow, one exchange: if the events of a flow in an interleaved stream are a request,
  SSE events and the response, and no heartbeat of its source is more than the stale timeout
  after the request, the joiner outputs for the flow exactly the request and then the exchange
  with that request, that response and all the SSE events in order, whatever the other flows
  do.\<close>

theorem joiner_pairs_exchange:
  assumes "pending_ok j"
    and "filter (\<lambda>e. pe_key (fst e) = Some k) evs
      = (HttpRequest q, u0) # map (\<lambda>(e, u). (SseEvent e, u)) es @ [(HttpResponse r, uid)]"
    and "list_all (\<lambda>e. spares k (req_timestamp_us q) (fst e)) evs"
  shows "filter (\<lambda>o'. je_key o' = Some k) (snd (joiner_run j evs)) = [JRequest q, JExchange uid q r (map fst es)]"
  using assms by (rule run_from_request)

theorem joiner_pairs_exchange_witness:
  "filter (\<lambda>o'. je_key o' = Some (sample_key 1)) (snd (joiner_run (HttpJoiner_new (\<lambda>_. 0)) sample_run))
   = [JRequest (sample_request (sample_key 1) 5), JExchange ''f'' (sample_request (sample_key 1) 5)
        (sample_response (sample_key 1) 10) [sample_sse (sample_key 1) 7]]"
proof -
  have ok: "pending_ok (HttpJoiner_new (\<lambda>_. 0))" by (simp add: pending_ok_def HttpJoiner_new_def hm.valid_empty)
  have flt: "filter (\<lambda>e. pe_key (fst e) = Some (sample_key 1)) sample_run
    = (HttpRequest (sample_request (sample_key 1) 5), ''a'')
        # map (\<lambda>(e, u). (SseEvent e, u)) [(sample_sse (sample_key 1) 7, ''c'')]
        @ [(HttpResponse (sample_response (sample_key 1) 10), ''f'')]"
    by (simp add: sample_run_def sample_request_def sample_response_def sample_sse_def sample_key_def)
  have "list_all (\<lambda>e. spares (sample_key 1) (req_timestamp_us (sample_request (sample_key 1) 5)) (fst e)) sample_run"
    by (simp add: sample_run_def sample_request_def PENDING_STALE_TIMEOUT_US_def)
  then show ?thesis using joiner_pairs_exchange[OF ok flt] by simp
qed

text \<open>A sweep removes a pending request exactly when it is of the named source and has been
  silent for longer than the timeout, and returns the number it removed.\<close>

theorem joiner_cleanup_exact:
  assumes "pending_ok j" and "cleanup_stale j sid now timeout = (n, j')"
  shows "map_of (pending j') k = (case map_of (pending j) k of None \<Rightarrow> None
      | Some p \<Rightarrow> if source_id k = sid \<and> now - last_activity_us p > timeout then None else Some p)
    \<and> n = card {k. \<exists>p. map_of (pending j) k = Some p \<and> source_id k = sid \<and> now - last_activity_us p > timeout}"
proof -
  let ?P = "\<lambda>(k, p). source_id k \<noteq> sid \<or> \<not> now - last_activity_us p > timeout"
  have hv: "hm_valid (pending j)" using assms(1) by (simp add: pending_ok_def)
  have c: "n = length (pending j) - length (filter ?P (pending j))" "pending j' = filter ?P (pending j)"
    using assms(2) by (auto simp: cleanup_stale_def Let_def)
  show ?thesis
    using hm.map_of_retain[OF hv, of ?P k] retain_gone[OF hv, of ?P] unfolding c by (simp split: option.splits)
qed

theorem joiner_cleanup_exact_witness:
  "map_of (pending (snd (cleanup_stale
      \<lparr>pending = [(sample_key 1, \<lparr>p_request = sample_request (sample_key 1) 5, p_sse_events = [], last_activity_us = 5\<rparr>)],
       jn_metrics = (\<lambda>_. 0)\<rparr> [] 16 10))) (sample_key 1) = None"
proof -
  let ?j = "\<lparr>pending = [(sample_key 1, \<lparr>p_request = sample_request (sample_key 1) 5, p_sse_events = [], last_activity_us = 5\<rparr>)],
       jn_metrics = (\<lambda>_. 0)\<rparr>"
  have ok: "pending_ok ?j" by (simp add: pending_ok_def sample_request_def hm_valid_def)
  obtain n j' where c: "cleanup_stale ?j [] 16 10 = (n, j')" by fastforce
  show ?thesis using joiner_cleanup_exact[OF ok c, of "sample_key 1"] c by (simp add: sample_key_def)
qed

text \<open>A response with content type Text/Event-Stream is an event stream for the parser, which
  gives it an empty body, but not for the exchange: its stored body is an empty blob and not
  the absent body of an event stream.\<close>

theorem mixed_case_event_stream_stored:
  assumes "pending_resp_headers p = [(''Content-Type'', ''Text/Event-Stream'')]"
    and "pending_resp_is_sse p = is_sse (pending_resp_headers p)"
  shows "\<exists>evs r. snd (complete_response cx p body out) = evs @ [HttpResponse r]
    \<and> stored_response_body \<lparr>ex_id = uid, ex_request = q, ex_response = r, sse_event_count = n, sse_data_bytes = b\<rparr> = Some []"
proof -
  have sse: "pending_resp_is_sse p" unfolding assms by (rule mixed_case_is_sse)
  have ct: "content_type [(''Content-Type'', ''Text/Event-Stream'')] = Some ''Text/Event-Stream''"
    by (simp add: content_type_def header_def header_names)
  have feed: "pending_resp_headers (fst (feed_sse cx p body out)) = pending_resp_headers p"
    "pending_resp_is_sse (fst (feed_sse cx p body out)) = pending_resp_is_sse p"
    by (auto simp: feed_sse_def split: option.splits prod.splits)
  obtain q' o1 where q': "(if \<not> was_incremental (body_reader p) then feed_sse cx p body out else (p, out)) = (q', o1)"
    by fastforce
  then have eq: "pending_resp_headers q' = pending_resp_headers p" "pending_resp_is_sse q'"
    using feed sse by (auto split: if_splits)
  obtain sp o2 where "sse_flush cx (sse_parser q') o1 = (sp, o2)" by fastforce
  then show ?thesis using sse eq q' assms(1) ct
    by (simp add: complete_response_def Let_def response_event_def stored_response_body_def exchange_is_sse_def)
qed

theorem mixed_case_event_stream_stored_witness:
  "\<exists>evs r. snd (complete_response sample_ctx
      (HttpParser_new\<lparr>pending_resp_headers := [(''Content-Type'', ''Text/Event-Stream'')], pending_resp_is_sse := True\<rparr>
        :: unit HttpParser) (as_bytes ''data: hi'') []) = evs @ [HttpResponse r]
    \<and> stored_response_body \<lparr>ex_id = ''u'', ex_request = sample_request (sample_key 1) 5, ex_response = r,
        sse_event_count = 1, sse_data_bytes = 2\<rparr> = Some []"
proof -
  let ?p = "HttpParser_new\<lparr>pending_resp_headers := [(''Content-Type'', ''Text/Event-Stream'')], pending_resp_is_sse := True\<rparr>
    :: unit HttpParser"
  have "pending_resp_is_sse ?p = is_sse (pending_resp_headers ?p)" using mixed_case_is_sse by simp
  then show ?thesis using mixed_case_event_stream_stored[of ?p] by simp
qed

end
