(* ===== verification/F64.thy ===== *)
theory F64
  imports Prelude
begin

text \<open>
  The \<open>f64\<close> arithmetic of Rust that the metrics use: addition, division and the \<open>as f64\<close> cast of
  integers, as IEEE 754 binary64 on bit patterns, rounding to nearest with ties to even. The
  one value the standard leaves open, the payload of a NaN result, is the canonical quiet NaN.
\<close>

type_synonym f64 = u64

definition f64_inf :: "bool \<Rightarrow> f64" where
  "f64_inf neg = (if neg then 0xFFF0000000000000 else 0x7FF0000000000000)"

definition f64_nan :: f64 where "f64_nan = 0x7FF8000000000000"

definition f64_neg :: "f64 \<Rightarrow> bool" where "f64_neg x = bit x 63"
definition f64_exp :: "f64 \<Rightarrow> int" where "f64_exp x = uint x div 2 ^ 52 mod 2 ^ 11"
definition f64_frac :: "f64 \<Rightarrow> int" where "f64_frac x = uint x mod 2 ^ 52"

definition f64_is_nan :: "f64 \<Rightarrow> bool" where
  "f64_is_nan x \<longleftrightarrow> f64_exp x = 2047 \<and> f64_frac x \<noteq> 0"

definition f64_is_inf :: "f64 \<Rightarrow> bool" where
  "f64_is_inf x \<longleftrightarrow> f64_exp x = 2047 \<and> f64_frac x = 0"

text \<open>A finite value is its significand times a power of two.\<close>

definition f64_signif :: "f64 \<Rightarrow> int" where
  "f64_signif x = (if f64_exp x = 0 then f64_frac x else f64_frac x + 2 ^ 52)"

definition f64_scale :: "f64 \<Rightarrow> int" where
  "f64_scale x = (if f64_exp x = 0 then - 1074 else f64_exp x - 1075)"

function bit_len :: "int \<Rightarrow> int" where
  "bit_len n = (if n \<le> 0 then 0 else 1 + bit_len (n div 2))"
  by pat_completeness auto
termination by (relation "measure nat") auto

declare bit_len.simps [simp del]

text \<open>Round \<open>p / q * 2 ^ e\<close> (with \<open>q > 0\<close>) to the nearest value. Adding the significand to the
  scaled exponent covers subnormal results and a carry into the next binade alike.\<close>

definition f64_round :: "bool \<Rightarrow> int \<Rightarrow> int \<Rightarrow> int \<Rightarrow> f64" where
  "f64_round neg p q e =
     (if p = 0 then (if neg then 0x8000000000000000 else 0)
      else
        (let l = bit_len p - bit_len q;
             k = (if q * 2 ^ nat l \<le> p * 2 ^ nat (- l) then l else l - 1);
             u = max (k + e - 52) (- 1074);
             n = p * 2 ^ nat (e - u); d = q * 2 ^ nat (u - e);
             m = n div d; r = n mod d;
             m' = (if 2 * r > d \<or> (2 * r = d \<and> odd m) then m + 1 else m);
             b = m' + (u + 1074) * 2 ^ 52
         in if b \<ge> 0x7FF0000000000000 then f64_inf neg
            else of_int (b + (if neg then 2 ^ 63 else 0))))"

definition f64_of_int :: "int \<Rightarrow> f64" where
  "f64_of_int i = f64_round (i < 0) \<bar>i\<bar> 1 0"

definition f64_add :: "f64 \<Rightarrow> f64 \<Rightarrow> f64" where
  "f64_add x y =
     (if f64_is_nan x \<or> f64_is_nan y then f64_nan
      else if f64_is_inf x then (if f64_is_inf y \<and> f64_neg x \<noteq> f64_neg y then f64_nan else x)
      else if f64_is_inf y then y
      else
        (let e = min (f64_scale x) (f64_scale y);
             sg = (\<lambda>z. if f64_neg z then - 1 else 1 :: int);
             v = (\<lambda>z. sg z * f64_signif z * 2 ^ nat (f64_scale z - e));
             s = v x + v y
         in if s = 0 then f64_round (f64_neg x \<and> f64_neg y) 0 1 0
            else f64_round (s < 0) \<bar>s\<bar> 1 e))"

definition f64_div :: "f64 \<Rightarrow> f64 \<Rightarrow> f64" where
  "f64_div x y =
     (let neg = (f64_neg x \<noteq> f64_neg y) in
      if f64_is_nan x \<or> f64_is_nan y then f64_nan
      else if f64_is_inf x then (if f64_is_inf y then f64_nan else f64_inf neg)
      else if f64_is_inf y then f64_round neg 0 1 0
      else if f64_signif y = 0 then (if f64_signif x = 0 then f64_nan else f64_inf neg)
      else f64_round neg (f64_signif x) (f64_signif y) (f64_scale x - f64_scale y))"

section \<open>Lemmas\<close>

text \<open>For finite operands addition does not depend on their order.\<close>

lemma f64_add_commute:
  "\<not> f64_is_inf x \<Longrightarrow> \<not> f64_is_inf y \<Longrightarrow> f64_add x y = f64_add y x"
  unfolding f64_add_def by (simp add: Let_def min.commute add.commute conj_commute disj_commute)

end
