(* ===== verification/Llm.thy ===== *)
theory Llm
  imports Net F64
begin

text \<open>
  The records that the stages after the protocol stage exchange: \<^verbatim>\<open>server/h-llm/src/model.rs\<close>
  (calls, their agent classification, the events of the LLM stage, the identity of a call),
  \<^verbatim>\<open>server/h-common/src/agent.rs\<close> (tool surfaces and topologies), and the text of addresses as
  \<open>IpAddr::to_string\<close> prints it. Traits, extraction and the display of a call are not here.
\<close>

section \<open>Taxonomies\<close>

datatype ToolSurface = FunctionCall | Mcp | Cli | Mixed | Unknown

fun tool_surface_str :: "ToolSurface \<Rightarrow> string" where
  "tool_surface_str FunctionCall = ''function_call''"
| "tool_surface_str Mcp = ''mcp''"
| "tool_surface_str Cli = ''cli''"
| "tool_surface_str Mixed = ''mixed''"
| "tool_surface_str Unknown = ''unknown''"

datatype AgentTopology = SingleAgent | SubAgent | Orchestrator

fun agent_topology_str :: "AgentTopology \<Rightarrow> string" where
  "agent_topology_str SingleAgent = ''single_agent''"
| "agent_topology_str SubAgent = ''sub_agent''"
| "agent_topology_str Orchestrator = ''orchestrator''"

datatype SuspiciousSignal = UnknownToolName string

section \<open>Addresses as text\<close>

definition digit_char :: "nat \<Rightarrow> char" where
  "digit_char d = char_of (if d < 10 then 48 + d else 87 + d)"

fun to_radix :: "nat \<Rightarrow> nat \<Rightarrow> nat \<Rightarrow> string" where
  "to_radix 0 r n = []"
| "to_radix (Suc fuel) r n =
     (if n < r then [digit_char n] else to_radix fuel r (n div r) @ [digit_char (n mod r)])"

definition ipv4_str :: "u32 \<Rightarrow> string" where
  "ipv4_str a =
     (let o' = (\<lambda>i. to_radix 3 10 (unat (drop_bit i a AND 0xFF)))
      in o' 24 @ ''.'' @ o' 16 @ ''.'' @ o' 8 @ ''.'' @ o' 0)"

definition segments :: "128 word \<Rightarrow> nat list" where
  "segments a = map (\<lambda>i. unat (drop_bit (112 - 16 * i) a AND 0xFFFF)) [0..<8]"

text \<open>The first of the longest runs of zero segments, as start and length.\<close>

fun zero_span :: "nat list \<Rightarrow> nat \<Rightarrow> nat \<times> nat \<Rightarrow> nat \<times> nat \<Rightarrow> nat \<times> nat" where
  "zero_span [] i cur longest = longest"
| "zero_span (s # ss) i cur longest =
     (if s = 0 then
        (let cur' = (if snd cur = 0 then i else fst cur, snd cur + 1)
         in zero_span ss (i + 1) cur' (if snd cur' > snd longest then cur' else longest))
      else zero_span ss (i + 1) (0, 0) longest)"

fun hex_join :: "nat list \<Rightarrow> string" where
  "hex_join [] = []"
| "hex_join [s] = to_radix 4 16 s"
| "hex_join (s # ss) = to_radix 4 16 s @ '':'' @ hex_join ss"

definition ipv6_str :: "128 word \<Rightarrow> string" where
  "ipv6_str a =
     (if drop_bit 32 a = 0xFFFF then ''::ffff:'' @ ipv4_str (ucast a)
      else (let ss = segments a; (st, len) = zero_span ss 0 (0, 0) (0, 0)
            in if len > 1 then hex_join (take st ss) @ ''::'' @ hex_join (drop (st + len) ss)
               else hex_join ss))"

fun ip_str :: "IpAddr \<Rightarrow> string" where
  "ip_str (V4 a) = ipv4_str a"
| "ip_str (V6 a) = ipv6_str a"

section \<open>Calls\<close>

datatype ApiType = Chat

record LlmCall =
  lc_source_id :: string
  lc_id :: string
  lc_wire_api :: string
  lc_model :: string
  lc_api_type :: ApiType
  lc_request_time :: int
  lc_response_time :: "int option"
  lc_complete_time :: "int option"
  lc_request_path :: string
  lc_is_stream :: bool
  lc_request_body :: "string option"
  lc_status_code :: "u16 option"
  lc_finish_reason :: "string option"
  lc_response_body :: "string option"
  lc_input_tokens :: "u32 option"
  lc_output_tokens :: "u32 option"
  lc_total_tokens :: "u32 option"
  lc_cache_read_input_tokens :: "u32 option"
  lc_cache_creation_input_tokens :: "u32 option"
  lc_ttft_ms :: "f64 option"
  lc_e2e_latency_ms :: "f64 option"
  lc_client_ip :: IpAddr
  lc_client_port :: u16
  lc_server_ip :: IpAddr
  lc_server_port :: u16
  lc_response_id :: "string option"
  lc_request_headers :: headers
  lc_response_headers :: headers
  lc_is_agent_request :: bool
  lc_tool_surface :: "ToolSurface option"
  lc_agent_topology :: "AgentTopology option"
  lc_tool_call_count :: u32
  lc_tool_names :: "string list"
  lc_body_bytes_dropped :: u64
  lc_process :: "ProcessInfo option"

record AgentCallInfo =
  ai_agent_kind :: string
  ai_session_id :: string
  ai_subagent_name :: "string option"
  ai_is_user_turn_start :: "bool option"
  ai_is_turn_terminal :: bool
  ai_is_auxiliary :: bool
  ai_user_input :: "string option"
  ai_assistant_text :: "string option"
  ai_is_agent_request :: bool
  ai_tool_surface :: "ToolSurface option"
  ai_agent_topology :: "AgentTopology option"
  ai_tool_names :: "string list"
  ai_tool_call_count :: u32
  ai_suspicious_signals :: "SuspiciousSignal list"

record AgentCall =
  ac_call :: LlmCall
  ac_agent :: AgentCallInfo

datatype TurnShardInput = TurnCall AgentCall | TurnHeartbeat int string

record LlmCallStart =
  st_source_id :: string
  st_wire_api :: string
  st_model :: string
  st_is_stream :: bool
  st_client_ip :: IpAddr
  st_client_port :: u16
  st_server_ip :: IpAddr
  st_server_port :: u16
  st_timestamp_us :: int

datatype LlmEvent =
    LlmStart LlmCallStart
  | LlmComplete LlmCall "AgentCallInfo option"
  | LlmHeartbeat int string

record CallKey =
  ck_source_id :: string
  ck_client :: sock_addr
  ck_server :: sock_addr
  ck_request_time_us :: int

definition start_call_key :: "LlmCallStart \<Rightarrow> CallKey" where
  "start_call_key s =
     \<lparr>ck_source_id = st_source_id s, ck_client = (st_client_ip s, st_client_port s),
      ck_server = (st_server_ip s, st_server_port s), ck_request_time_us = st_timestamp_us s\<rparr>"

definition call_key :: "LlmCall \<Rightarrow> CallKey" where
  "call_key c =
     \<lparr>ck_source_id = lc_source_id c, ck_client = (lc_client_ip c, lc_client_port c),
      ck_server = (lc_server_ip c, lc_server_port c), ck_request_time_us = lc_request_time c\<rparr>"

text \<open>\<open>&s[..max_len]\<close> panics (here \<open>None\<close>) inside a character.\<close>

definition truncate_str :: "string \<Rightarrow> nat \<Rightarrow> string option" where
  "truncate_str s max_len =
     (if length s \<le> max_len then Some s
      else if cont_char (s ! max_len) then None
      else Some (take max_len s @ ''...''))"

end
