(* ===== verification/Active_Calls.thy ===== *)
theory Active_Calls
  imports Llm
begin

text \<open>
  \<^verbatim>\<open>server/h-metrics/src/active.rs\<close>: the table of in-flight calls that every metrics shard of a
  pipeline shares. Each operation holds the mutex from start to end, so an execution of several
  shards is a sequence of operations. \<open>DimensionKey\<close> and \<open>dimension_keys\<close> are from
  \<^verbatim>\<open>aggregator.rs\<close>. A count is a \<open>u32\<close> that wraps, as in a release build; the lemmas show when it
  does not.
\<close>

section \<open>State\<close>

record DimensionKey =
  dk_source_id :: string
  dk_wire_api :: string
  dk_model :: string
  dk_server_ip :: string

definition dimension_keys :: "string \<Rightarrow> string \<Rightarrow> string \<Rightarrow> string \<Rightarrow> DimensionKey list" where
  "dimension_keys sid wire model ip =
     [\<lparr>dk_source_id = sid, dk_wire_api = wire, dk_model = model, dk_server_ip = ip\<rparr>,
      \<lparr>dk_source_id = sid, dk_wire_api = wire, dk_model = model, dk_server_ip = ''*''\<rparr>,
      \<lparr>dk_source_id = sid, dk_wire_api = ''*'', dk_model = ''*'', dk_server_ip = ip\<rparr>,
      \<lparr>dk_source_id = sid, dk_wire_api = ''*'', dk_model = ''*'', dk_server_ip = ''*''\<rparr>]"

definition MAX_OPEN_US :: int where "MAX_OPEN_US = 3600000000"

record Open =
  od_dims :: "DimensionKey list"
  od_start_us :: int

record ActiveCalls =
  open_calls :: "(CallKey \<times> Open) list"
  counts :: "(DimensionKey \<times> u32) list"

definition ActiveCalls_new :: ActiveCalls where
  "ActiveCalls_new = \<lparr>open_calls = [], counts = []\<rparr>"

section \<open>Operations\<close>

definition count_of :: "(DimensionKey \<times> u32) list \<Rightarrow> DimensionKey \<Rightarrow> u32" where
  "count_of m d = (case map_of m d of Some n \<Rightarrow> n | None \<Rightarrow> 0)"

definition increment :: "DimensionKey \<Rightarrow> (DimensionKey \<times> u32) list \<Rightarrow> (DimensionKey \<times> u32) list" where
  "increment d m = AList.update d (count_of m d + 1) m"

definition active_start ::
  "CallKey \<Rightarrow> DimensionKey list \<Rightarrow> int \<Rightarrow> ActiveCalls \<Rightarrow> ActiveCalls \<times> u32 list" where
  "active_start key dims start_us a =
     (let a' = (if map_of (open_calls a) key = None
                then a\<lparr>counts := fold increment dims (counts a),
                       open_calls := AList.update key \<lparr>od_dims = dims, od_start_us = start_us\<rparr> (open_calls a)\<rparr>
                else a)
      in (a', map (count_of (counts a')) dims))"

definition decrement_one :: "DimensionKey \<Rightarrow> (DimensionKey \<times> u32) list \<Rightarrow> (DimensionKey \<times> u32) list" where
  "decrement_one d m =
     (case map_of m d of
        None \<Rightarrow> m
      | Some n \<Rightarrow> if n - 1 = 0 then AList.delete d m else AList.update d (n - 1) m)"

definition decrement :: "DimensionKey list \<Rightarrow> (DimensionKey \<times> u32) list \<Rightarrow> (DimensionKey \<times> u32) list" where
  "decrement dims m = fold decrement_one dims m"

definition active_complete :: "CallKey \<Rightarrow> ActiveCalls \<Rightarrow> ActiveCalls" where
  "active_complete key a =
     (case map_of (open_calls a) key of
        None \<Rightarrow> a
      | Some op \<Rightarrow> a\<lparr>open_calls := AList.delete key (open_calls a), counts := decrement (od_dims op) (counts a)\<rparr>)"

definition stale_keys :: "string \<Rightarrow> int \<Rightarrow> ActiveCalls \<Rightarrow> CallKey list" where
  "stale_keys sid now a =
     map fst (filter (\<lambda>(k, op). ck_source_id k = sid \<and> now - od_start_us op > MAX_OPEN_US) (open_calls a))"

definition active_expire :: "string \<Rightarrow> int \<Rightarrow> ActiveCalls \<Rightarrow> nat \<times> ActiveCalls" where
  "active_expire sid now a =
     (let stale = stale_keys sid now a in (length stale, fold active_complete stale a))"

definition open_count :: "ActiveCalls \<Rightarrow> nat" where
  "open_count a = length (open_calls a)"

section \<open>Specification\<close>

datatype active_op = OpStart CallKey "DimensionKey list" int | OpComplete CallKey | OpExpire string int

fun active_step :: "active_op \<Rightarrow> ActiveCalls \<Rightarrow> ActiveCalls" where
  "active_step (OpStart k dims t) a = fst (active_start k dims t a)"
| "active_step (OpComplete k) a = active_complete k a"
| "active_step (OpExpire sid now) a = snd (active_expire sid now a)"

text \<open>What the table promises: a map from the open calls to their dimensions and start.\<close>

type_synonym open_map = "CallKey \<rightharpoonup> Open"

fun spec_step :: "active_op \<Rightarrow> open_map \<Rightarrow> open_map" where
  "spec_step (OpStart k dims t) m = (if m k = None then m(k \<mapsto> \<lparr>od_dims = dims, od_start_us = t\<rparr>) else m)"
| "spec_step (OpComplete k) m = m(k := None)"
| "spec_step (OpExpire sid now) m =
     (\<lambda>k. case m k of None \<Rightarrow> None
          | Some op \<Rightarrow> if ck_source_id k = sid \<and> now - od_start_us op > MAX_OPEN_US then None else Some op)"

definition dims_of :: "(CallKey \<times> Open) list \<Rightarrow> DimensionKey multiset" where
  "dims_of m = (\<Sum>e\<in>#mset m. mset (od_dims (snd e)))"

text \<open>The counts are those of the dimensions of the open calls, with no zero entry.\<close>

definition counts_repr :: "DimensionKey multiset \<Rightarrow> (DimensionKey \<times> u32) list \<Rightarrow> bool" where
  "counts_repr D m \<longleftrightarrow> hm_valid m \<and> size D < 2 ^ 32 \<and>
     (\<forall>d. map_of m d = (if count D d = 0 then None else Some (of_nat (count D d))))"

definition active_ok :: "ActiveCalls \<Rightarrow> bool" where
  "active_ok a \<longleftrightarrow> hm_valid (open_calls a) \<and> list_all (\<lambda>e. length (od_dims (snd e)) = 4) (open_calls a)
     \<and> counts_repr (dims_of (open_calls a)) (counts a)"

fun op_ok :: "active_op \<Rightarrow> bool" where
  "op_ok (OpStart k dims t) \<longleftrightarrow> length dims = 4"
| "op_ok _ \<longleftrightarrow> True"

section \<open>Samples\<close>

definition sample_call :: "u16 \<Rightarrow> CallKey" where
  "sample_call port = \<lparr>ck_source_id = [], ck_client = (V4 1, port), ck_server = (V4 2, 443), ck_request_time_us = 0\<rparr>"

definition sample_ops :: "active_op list" where
  "sample_ops =
     [OpStart (sample_call 1) (dimension_keys [] ''openai-chat'' ''m'' ''0.0.0.2'') 0,
      OpStart (sample_call 2) (dimension_keys [] ''openai-chat'' ''n'' ''0.0.0.2'') 0,
      OpComplete (sample_call 1), OpExpire [] 5]"

section \<open>Lemmas\<close>

lemma count_less: "counts_repr D m \<Longrightarrow> count D d < 2 ^ 32"
  using count_le_size[of D d] by (auto simp: counts_repr_def intro: le_less_trans)

lemma count_of_repr: "counts_repr D m \<Longrightarrow> count_of m d = of_nat (count D d)"
  by (simp add: counts_repr_def count_of_def)

lemma unat_count_of: "counts_repr D m \<Longrightarrow> unat (count_of m d) = count D d"
  using count_less[of D m d] by (simp add: count_of_repr unat_of_nat take_bit_nat_eq_self)

lemma increment_repr:
  assumes "counts_repr D m" "size D + 1 < 2 ^ 32"
  shows "counts_repr (add_mset d D) (increment d m)"
  using assms unfolding counts_repr_def
  by (simp add: increment_def count_of_def hm.valid_upsert hm.map_of_upsert not_in_iff)

lemma increments_repr:
  "counts_repr D m \<Longrightarrow> size D + length ds < 2 ^ 32 \<Longrightarrow> counts_repr (D + mset ds) (fold increment ds m)"
proof (induction ds arbitrary: D m)
  case (Cons d ds)
  then have "counts_repr (add_mset d D) (increment d m)" by (intro increment_repr) auto
  then show ?case using Cons.IH[of "add_mset d D" "increment d m"] Cons.prems(2) by simp
qed simp

lemma decrement_one_repr:
  assumes "counts_repr (add_mset d D) m"
  shows "counts_repr D (decrement_one d m)"
proof -
  have b: "count D d + 1 < 2 ^ 32" using count_less[OF assms, of d] by simp
  have m: "map_of m d = Some (of_nat (count D d + 1))" using assms by (simp add: counts_repr_def)
  have z: "of_nat (count D d) = (0 :: u32) \<longleftrightarrow> count D d = 0"
    using b by (simp add: unat_eq_0[symmetric] unat_of_nat take_bit_nat_eq_self)
  have n: "of_nat (count D d + 1) - 1 = (of_nat (count D d) :: u32)" by simp
  show ?thesis
    using assms m z n
    by (auto simp: not_in_iff decrement_one_def counts_repr_def hm.valid_remove hm.valid_upsert hm.map_of_remove
        hm.map_of_upsert)
qed

lemma decrement_repr: "counts_repr (mset ds + D) m \<Longrightarrow> counts_repr D (decrement ds m)"
  unfolding decrement_def
proof (induction ds arbitrary: m)
  case (Cons d ds)
  then have "counts_repr (add_mset d (mset ds + D)) m" by simp
  then show ?case using Cons.IH decrement_one_repr by simp
qed simp

lemma dims_of_insert:
  "hm_valid m \<Longrightarrow> map_of m k = None \<Longrightarrow> dims_of (AList.update k op m) = dims_of m + mset (od_dims op)"
proof (induction m)
  case (Cons e m)
  then show ?case by (cases e) (auto simp: dims_of_def hm_valid_def split: if_splits)
qed (simp add: dims_of_def)

lemma dims_of_remove:
  "hm_valid m \<Longrightarrow> map_of m k = Some op \<Longrightarrow> dims_of m = mset (od_dims op) + dims_of (AList.delete k m)"
proof (induction m)
  case (Cons e m)
  then show ?case
  proof (cases "fst e = k")
    case True
    then have "k \<notin> fst ` set m" using Cons.prems(1) by (auto simp: hm_valid_def)
    then have "AList.delete k m = m" by (simp add: delete_id)
    then show ?thesis using True Cons.prems by (cases e) (simp add: dims_of_def)
  qed (use Cons in \<open>auto simp: dims_of_def hm_valid_def\<close>)
qed simp

lemma size_dims_of: "list_all (\<lambda>e. length (od_dims (snd e)) = 4) m \<Longrightarrow> size (dims_of m) = 4 * length m"
  by (induction m) (auto simp: dims_of_def)

lemma update_len4:
  "hm_valid m \<Longrightarrow> list_all (\<lambda>e. length (od_dims (snd e)) = 4) m \<Longrightarrow> length (od_dims op) = 4 \<Longrightarrow>
   list_all (\<lambda>e. length (od_dims (snd e)) = 4) (AList.update k op m)"
  using hm.set_upsert[of m k op] by (auto simp: list_all_iff)

lemma length_update: "map_of m k = None \<Longrightarrow> length (AList.update k v m) = Suc (length m)"
  by (induction m) (auto split: if_splits)

lemma active_start_ok:
  assumes "active_ok a" "length dims = 4" "open_count a < 2 ^ 30 - 1"
  shows "active_ok (fst (active_start k dims t a))"
    and "map_of (open_calls (fst (active_start k dims t a))) = spec_step (OpStart k dims t) (map_of (open_calls a))"
    and "open_count (fst (active_start k dims t a)) \<le> Suc (open_count a)"
    and "snd (active_start k dims t a) = map (count_of (counts (fst (active_start k dims t a)))) dims"
proof -
  have hv: "hm_valid (open_calls a)" and l4: "list_all (\<lambda>e. length (od_dims (snd e)) = 4) (open_calls a)"
    and rp: "counts_repr (dims_of (open_calls a)) (counts a)"
    using assms(1) by (simp_all add: active_ok_def)
  have "size (dims_of (open_calls a)) + length dims < 2 ^ 32"
    using size_dims_of[OF l4] assms(2,3) by (simp add: open_count_def)
  then have "counts_repr (dims_of (open_calls a) + mset dims) (fold increment dims (counts a))"
    by (rule increments_repr[OF rp])
  then show "active_ok (fst (active_start k dims t a))"
    using assms(1,2) hv l4 by (simp add: active_start_def Let_def active_ok_def dims_of_insert hm.valid_upsert update_len4)
  show "map_of (open_calls (fst (active_start k dims t a))) = spec_step (OpStart k dims t) (map_of (open_calls a))"
    using hv by (simp add: active_start_def Let_def hm.map_of_upsert)
  show "open_count (fst (active_start k dims t a)) \<le> Suc (open_count a)"
    by (simp add: active_start_def Let_def open_count_def length_update)
  show "snd (active_start k dims t a) = map (count_of (counts (fst (active_start k dims t a)))) dims"
    by (simp add: active_start_def Let_def)
qed

lemma active_complete_ok:
  assumes "active_ok a"
  shows "active_ok (active_complete k a)"
    and "map_of (open_calls (active_complete k a)) = (map_of (open_calls a))(k := None)"
    and "open_count (active_complete k a) \<le> open_count a"
proof -
  have hv: "hm_valid (open_calls a)" and l4: "list_all (\<lambda>e. length (od_dims (snd e)) = 4) (open_calls a)"
    and rp: "counts_repr (dims_of (open_calls a)) (counts a)"
    using assms by (simp_all add: active_ok_def)
  show "active_ok (active_complete k a)"
    using assms hv l4 rp dims_of_remove[OF hv, of k] decrement_repr hm.valid_remove[OF hv] hm.set_remove[OF hv]
    by (auto simp: active_complete_def active_ok_def list_all_iff split: option.splits)
  show "map_of (open_calls (active_complete k a)) = (map_of (open_calls a))(k := None)"
    using hv by (auto simp: active_complete_def hm.map_of_remove split: option.splits)
  show "open_count (active_complete k a) \<le> open_count a"
    by (simp add: active_complete_def open_count_def length_delete_le split: option.splits)
qed

lemma active_completes_ok:
  assumes "active_ok a"
  shows "active_ok (fold active_complete ks a)
    \<and> map_of (open_calls (fold active_complete ks a)) = (\<lambda>k. if k \<in> set ks then None else map_of (open_calls a) k)
    \<and> open_count (fold active_complete ks a) \<le> open_count a"
  using assms
proof (induction ks arbitrary: a)
  case (Cons k ks)
  have "open_count (fold active_complete ks (active_complete k a)) \<le> open_count a"
    using Cons.IH[OF active_complete_ok(1)[OF Cons.prems]] active_complete_ok(3)[OF Cons.prems] by (meson order.trans)
  then show ?case using Cons.IH[OF active_complete_ok(1)[OF Cons.prems]] active_complete_ok(2)[OF Cons.prems] by auto
qed simp

lemma stale_keys_iff:
  assumes "hm_valid (open_calls a)"
  shows "k \<in> set (stale_keys sid now a) \<longleftrightarrow>
    (\<exists>op. map_of (open_calls a) k = Some op \<and> ck_source_id k = sid \<and> now - od_start_us op > MAX_OPEN_US)"
  using hm.entry_iff[OF assms] unfolding stale_keys_def by force

lemma active_expire_ok:
  assumes "active_ok a"
  shows "active_ok (snd (active_expire sid now a))"
    and "map_of (open_calls (snd (active_expire sid now a))) = spec_step (OpExpire sid now) (map_of (open_calls a))"
    and "open_count (snd (active_expire sid now a)) \<le> open_count a"
proof -
  note c = active_completes_ok[OF assms, of "stale_keys sid now a"]
  show "active_ok (snd (active_expire sid now a))"
    and "open_count (snd (active_expire sid now a)) \<le> open_count a"
    using c by (simp_all add: active_expire_def Let_def)
  have "hm_valid (open_calls a)" using assms by (simp add: active_ok_def)
  then show "map_of (open_calls (snd (active_expire sid now a))) = spec_step (OpExpire sid now) (map_of (open_calls a))"
    using c stale_keys_iff by (auto simp: active_expire_def Let_def fun_eq_iff split: option.splits)
qed

lemma active_step_ok:
  assumes "active_ok a" "op_ok op" "open_count a < 2 ^ 30 - 1"
  shows "active_ok (active_step op a) \<and> open_count (active_step op a) \<le> Suc (open_count a)
    \<and> map_of (open_calls (active_step op a)) = spec_step op (map_of (open_calls a))"
proof (cases op)
  case (OpStart k dims t)
  then show ?thesis using active_start_ok(1-3)[OF assms(1) _ assms(3), of dims k t] assms(2) by simp
next
  case (OpComplete k)
  then show ?thesis using active_complete_ok[OF assms(1), of k] by simp
next
  case (OpExpire sid now)
  then show ?thesis using active_expire_ok[OF assms(1), of sid now] by simp
qed

lemma active_new_ok: "active_ok ActiveCalls_new"
  by (simp add: active_ok_def ActiveCalls_new_def counts_repr_def dims_of_def hm.valid_empty)

lemma active_run_ok:
  "active_ok a \<Longrightarrow> list_all op_ok ops \<Longrightarrow> open_count a + length ops < 2 ^ 30 \<Longrightarrow>
   active_ok (fold active_step ops a) \<and> open_count (fold active_step ops a) \<le> open_count a + length ops
   \<and> map_of (open_calls (fold active_step ops a)) = fold spec_step ops (map_of (open_calls a))"
proof (induction ops arbitrary: a)
  case (Cons op ops)
  have s: "active_ok (active_step op a) \<and> open_count (active_step op a) \<le> Suc (open_count a)
    \<and> map_of (open_calls (active_step op a)) = spec_step op (map_of (open_calls a))"
    using Cons.prems by (intro active_step_ok) auto
  then have "open_count (active_step op a) + length ops < 2 ^ 30" using Cons.prems(3) by auto
  from Cons.IH[OF conjunct1[OF s] _ this] show ?case using s Cons.prems(2) by auto
qed simp

section \<open>Properties\<close>

text \<open>C35: Whatever the shards do, in any interleaving of fewer than 2 ^ 30 operations, the open
  calls are those of the specification (a call is open from its first start to its completion
  or expiry), and the count of every dimension is the number of open calls that carry it: it
  neither underflows nor drifts.\<close>

theorem active_calls_exact:
  assumes "list_all op_ok ops" and "length ops < 2 ^ 30" and "a = fold active_step ops ActiveCalls_new"
  shows "map_of (open_calls a) = fold spec_step ops (\<lambda>_. None)
    \<and> open_count a = card (dom (map_of (open_calls a)))
    \<and> (\<forall>d. unat (count_of (counts a) d) = count (dims_of (open_calls a)) d)"
proof -
  have r: "active_ok a" "map_of (open_calls a) = fold spec_step ops (\<lambda>_. None)"
    using active_run_ok[OF active_new_ok assms(1)] assms(2,3) by (simp_all add: ActiveCalls_new_def open_count_def)
  then have "hm_valid (open_calls a)" "counts_repr (dims_of (open_calls a)) (counts a)"
    by (simp_all add: active_ok_def)
  moreover from this(1) have "open_count a = card (dom (map_of (open_calls a)))"
    using distinct_card[of "map fst (open_calls a)"]
    by (simp add: open_count_def dom_map_of_conv_image_fst hm_valid_def)
  ultimately show ?thesis using r(2) unat_count_of by blast
qed

theorem active_calls_exact_witness:
  "list_all op_ok sample_ops \<and> length sample_ops < 2 ^ 30
   \<and> map_of (open_calls (fold active_step sample_ops ActiveCalls_new)) = fold spec_step sample_ops (\<lambda>_. None)
   \<and> (\<forall>d. unat (count_of (counts (fold active_step sample_ops ActiveCalls_new)) d)
          = count (dims_of (open_calls (fold active_step sample_ops ActiveCalls_new))) d)"
proof -
  have "list_all op_ok sample_ops" "length sample_ops < 2 ^ 30"
    by (simp_all add: sample_ops_def dimension_keys_def)
  then show ?thesis using active_calls_exact by blast
qed

text \<open>The order of the two events of a call matters: a start followed by the completion leaves
  the table as it was, but a completion that another shard processes before the start leaves
  the call open, and no expiry within the hour closes it.\<close>

theorem start_after_complete_stays_open:
  assumes "active_ok a" and "map_of (open_calls a) k = None" and "length dims = 4" and "open_count a < 2 ^ 30 - 1"
  shows "map_of (open_calls (fold active_step [OpStart k dims t, OpComplete k] a)) = map_of (open_calls a)
    \<and> map_of (open_calls (fold active_step [OpComplete k, OpStart k dims t] a)) k
        = Some \<lparr>od_dims = dims, od_start_us = t\<rparr>
    \<and> (\<forall>now. now - t \<le> MAX_OPEN_US \<longrightarrow> map_of (open_calls (fold active_step
          [OpComplete k, OpStart k dims t, OpExpire (ck_source_id k) now] a)) k \<noteq> None)"
proof -
  have c: "open_count (active_complete k a) < 2 ^ 30 - 1" using active_complete_ok(3)[OF assms(1), of k] assms(4) by simp
  note s = active_start_ok[OF active_complete_ok(1)[OF assms(1)] assms(3) c, of k t]
  show ?thesis
    using assms(2) s(2) active_expire_ok(2)[OF s(1)] active_start_ok(1,2)[OF assms(1,3,4), of k t] active_complete_ok(2)[OF assms(1)]
      active_complete_ok(2)[OF active_start_ok(1)[OF assms(1,3,4)], of k k t]
    by (auto simp: fun_eq_iff)
qed

theorem start_after_complete_stays_open_witness:
  "map_of (open_calls (fold active_step [OpComplete (sample_call 1),
      OpStart (sample_call 1) (dimension_keys [] ''openai-chat'' ''m'' ''0.0.0.2'') 0, OpExpire [] 3600000000]
      ActiveCalls_new)) (sample_call 1) \<noteq> None"
proof -
  have h: "map_of (open_calls ActiveCalls_new) (sample_call 1) = None" "open_count ActiveCalls_new < 2 ^ 30 - 1"
    "length (dimension_keys [] ''openai-chat'' ''m'' ''0.0.0.2'') = 4" "ck_source_id (sample_call 1) = []"
    "3600000000 - 0 \<le> MAX_OPEN_US"
    by (simp_all add: ActiveCalls_new_def open_count_def dimension_keys_def sample_call_def MAX_OPEN_US_def)
  show ?thesis using start_after_complete_stays_open[OF active_new_ok h(1,3,2), of 0] h(4,5) by metis
qed

end
