(* ===== verification/Bucket.thy ===== *)
theory Bucket
  imports Active_Calls
begin

text \<open>
  \<^verbatim>\<open>server/h-metrics/src/bucket.rs\<close> and the row types of \<^verbatim>\<open>model.rs\<close>: one bucket per source,
  granularity, window and dimension, the distributions it keeps, and the row it is flushed to.
  The \<open>tdigest\<close> crate is a parameter. Counters are \<open>u64\<close> that wrap, as in a release build.
\<close>

section \<open>Distributions\<close>

record 't tdigest =
  td_new_with_size :: "nat \<Rightarrow> 't"
  td_merge_unsorted :: "'t \<Rightarrow> f64 list \<Rightarrow> 't"
  td_estimate_quantile :: "'t \<Rightarrow> f64 \<Rightarrow> f64"

definition BUFFER_CAPACITY :: nat where "BUFFER_CAPACITY = 500"

record 't DistributionDigest =
  dd_digest :: 't
  dd_buffer :: "f64 list"
  dd_sum :: f64
  dd_count :: u64

definition DistributionDigest_new :: "'t tdigest \<Rightarrow> 't DistributionDigest" where
  "DistributionDigest_new td = \<lparr>dd_digest = td_new_with_size td 100, dd_buffer = [], dd_sum = 0, dd_count = 0\<rparr>"

definition compact :: "'t tdigest \<Rightarrow> 't DistributionDigest \<Rightarrow> 't DistributionDigest" where
  "compact td d =
     (if dd_buffer d = [] then d
      else d\<lparr>dd_digest := td_merge_unsorted td (dd_digest d) (dd_buffer d), dd_buffer := []\<rparr>)"

definition digest_add :: "'t tdigest \<Rightarrow> f64 \<Rightarrow> 't DistributionDigest \<Rightarrow> 't DistributionDigest" where
  "digest_add td v d =
     (let d' = d\<lparr>dd_buffer := dd_buffer d @ [v], dd_sum := f64_add (dd_sum d) v, dd_count := dd_count d + 1\<rparr>
      in if BUFFER_CAPACITY \<le> length (dd_buffer d') then compact td d' else d')"

definition quantile :: "'t tdigest \<Rightarrow> f64 \<Rightarrow> 't DistributionDigest \<Rightarrow> f64 option \<times> 't DistributionDigest" where
  "quantile td q d =
     (if dd_count d = 0 then (None, d)
      else (let d' = compact td d in (Some (td_estimate_quantile td (dd_digest d') q), d')))"

section \<open>Buckets\<close>

record 't WindowBucket =
  wb_call_count :: u64
  wb_stream_count :: u64
  wb_non_stream_count :: u64
  wb_active_calls_sum :: u64
  wb_active_calls_sample_count :: u64
  wb_active_calls_max :: u32
  wb_total_input_tokens :: u64
  wb_total_output_tokens :: u64
  wb_input_token_count :: u64
  wb_output_token_count :: u64
  wb_total_cache_read_input_tokens :: u64
  wb_total_cache_creation_input_tokens :: u64
  wb_error_count :: u64
  wb_error_4xx_count :: u64
  wb_error_429_count :: u64
  wb_error_5xx_count :: u64
  wb_finish_counts :: "(string \<times> u64) list"
  wb_ttft :: "'t DistributionDigest"
  wb_ttft_stream :: "'t DistributionDigest"
  wb_ttft_nonstream :: "'t DistributionDigest"
  wb_e2e :: "'t DistributionDigest"
  wb_tpot :: "'t DistributionDigest"
  wb_complete_count :: u64

definition WindowBucket_new :: "'t tdigest \<Rightarrow> 't WindowBucket" where
  "WindowBucket_new td =
     \<lparr>wb_call_count = 0, wb_stream_count = 0, wb_non_stream_count = 0, wb_active_calls_sum = 0,
      wb_active_calls_sample_count = 0, wb_active_calls_max = 0, wb_total_input_tokens = 0,
      wb_total_output_tokens = 0, wb_input_token_count = 0, wb_output_token_count = 0,
      wb_total_cache_read_input_tokens = 0, wb_total_cache_creation_input_tokens = 0,
      wb_error_count = 0, wb_error_4xx_count = 0, wb_error_429_count = 0, wb_error_5xx_count = 0,
      wb_finish_counts = [], wb_ttft = DistributionDigest_new td,
      wb_ttft_stream = DistributionDigest_new td, wb_ttft_nonstream = DistributionDigest_new td,
      wb_e2e = DistributionDigest_new td, wb_tpot = DistributionDigest_new td, wb_complete_count = 0\<rparr>"

definition bucket_on_call_start :: "bool \<Rightarrow> 't WindowBucket \<Rightarrow> 't WindowBucket" where
  "bucket_on_call_start stream b =
     (let b' = b\<lparr>wb_call_count := wb_call_count b + 1\<rparr>
      in if stream then b'\<lparr>wb_stream_count := wb_stream_count b + 1\<rparr>
         else b'\<lparr>wb_non_stream_count := wb_non_stream_count b + 1\<rparr>)"

definition sample_active_calls :: "u32 \<Rightarrow> 't WindowBucket \<Rightarrow> 't WindowBucket" where
  "sample_active_calls cur b =
     b\<lparr>wb_active_calls_sum := wb_active_calls_sum b + ucast cur,
       wb_active_calls_sample_count := wb_active_calls_sample_count b + 1,
       wb_active_calls_max := (if cur > wb_active_calls_max b then cur else wb_active_calls_max b)\<rparr>"

definition count_tokens :: "LlmCall \<Rightarrow> 't WindowBucket \<Rightarrow> 't WindowBucket" where
  "count_tokens c b =
     (let b1 = (case lc_input_tokens c of None \<Rightarrow> b | Some it \<Rightarrow>
                  b\<lparr>wb_total_input_tokens := wb_total_input_tokens b + ucast it,
                    wb_input_token_count := wb_input_token_count b + 1\<rparr>);
          b2 = (case lc_output_tokens c of None \<Rightarrow> b1 | Some ot \<Rightarrow>
                  b1\<lparr>wb_total_output_tokens := wb_total_output_tokens b1 + ucast ot,
                     wb_output_token_count := wb_output_token_count b1 + 1\<rparr>);
          b3 = (case lc_cache_read_input_tokens c of None \<Rightarrow> b2 | Some t \<Rightarrow>
                  b2\<lparr>wb_total_cache_read_input_tokens := wb_total_cache_read_input_tokens b2 + ucast t\<rparr>)
      in (case lc_cache_creation_input_tokens c of None \<Rightarrow> b3 | Some t \<Rightarrow>
            b3\<lparr>wb_total_cache_creation_input_tokens := wb_total_cache_creation_input_tokens b3 + ucast t\<rparr>))"

definition count_errors :: "LlmCall \<Rightarrow> 't WindowBucket \<Rightarrow> 't WindowBucket" where
  "count_errors c b =
     (case lc_status_code c of
        None \<Rightarrow> b
      | Some st \<Rightarrow>
          if 400 \<le> st then
            (let b' = b\<lparr>wb_error_count := wb_error_count b + 1\<rparr> in
             if 500 \<le> st then b'\<lparr>wb_error_5xx_count := wb_error_5xx_count b' + 1\<rparr>
             else if st = 429 then b'\<lparr>wb_error_429_count := wb_error_429_count b' + 1,
                                      wb_error_4xx_count := wb_error_4xx_count b' + 1\<rparr>
             else b'\<lparr>wb_error_4xx_count := wb_error_4xx_count b' + 1\<rparr>)
          else b)"

definition count_finish :: "LlmCall \<Rightarrow> 't WindowBucket \<Rightarrow> 't WindowBucket" where
  "count_finish c b =
     (case lc_finish_reason c of
        None \<Rightarrow> b
      | Some r \<Rightarrow> b\<lparr>wb_finish_counts := bt_insert r
            ((case map_of (wb_finish_counts b) r of Some n \<Rightarrow> n | None \<Rightarrow> 0) + 1) (wb_finish_counts b)\<rparr>)"

definition add_latencies :: "'t tdigest \<Rightarrow> LlmCall \<Rightarrow> 't WindowBucket \<Rightarrow> 't WindowBucket" where
  "add_latencies td c b =
     (let b1 = (case lc_ttft_ms c of
                  None \<Rightarrow> b
                | Some v \<Rightarrow>
                    (let b' = b\<lparr>wb_ttft := digest_add td v (wb_ttft b)\<rparr> in
                     if lc_is_stream c then b'\<lparr>wb_ttft_stream := digest_add td v (wb_ttft_stream b')\<rparr>
                     else b'\<lparr>wb_ttft_nonstream := digest_add td v (wb_ttft_nonstream b')\<rparr>))
      in (case lc_e2e_latency_ms c of None \<Rightarrow> b1 | Some v \<Rightarrow> b1\<lparr>wb_e2e := digest_add td v (wb_e2e b1)\<rparr>))"

definition add_tpot :: "'t tdigest \<Rightarrow> LlmCall \<Rightarrow> 't WindowBucket \<Rightarrow> 't WindowBucket" where
  "add_tpot td c b =
     (if lc_is_stream c then
        (case (lc_output_tokens c, lc_response_time c, lc_complete_time c) of
           (Some ot, Some rt, Some ct) \<Rightarrow>
             if ct - rt > 0 \<and> ot > 0 then
               b\<lparr>wb_tpot := digest_add td (f64_div (f64_div (f64_of_int (ct - rt)) (f64_of_int 1000))
                              (f64_of_int (uint ot))) (wb_tpot b)\<rparr>
             else b
         | _ \<Rightarrow> b)
      else b)"

definition bucket_on_call_complete :: "'t tdigest \<Rightarrow> LlmCall \<Rightarrow> 't WindowBucket \<Rightarrow> 't WindowBucket" where
  "bucket_on_call_complete td c b =
     add_tpot td c (add_latencies td c (count_finish c (count_errors c (count_tokens c
       (b\<lparr>wb_complete_count := wb_complete_count b + 1\<rparr>)))))"

definition has_data :: "'t WindowBucket \<Rightarrow> bool" where
  "has_data b \<longleftrightarrow> wb_call_count b > 0 \<or> wb_complete_count b > 0"

section \<open>Rows\<close>

record LlmMetric =
  m_timestamp_us :: int
  m_source_id :: string
  m_granularity :: string
  m_wire_api :: string
  m_model :: string
  m_server_ip :: string
  m_call_count :: u64
  m_stream_count :: u64
  m_non_stream_count :: u64
  m_active_calls_sum :: u64
  m_active_calls_sample_count :: u64
  m_active_calls_max :: u32
  m_total_input_tokens :: u64
  m_input_token_count :: u64
  m_total_output_tokens :: u64
  m_output_token_count :: u64
  m_total_cache_read_input_tokens :: u64
  m_total_cache_creation_input_tokens :: u64
  m_error_count :: u64
  m_error_4xx_count :: u64
  m_error_429_count :: u64
  m_error_5xx_count :: u64
  m_ttft_sum :: f64
  m_ttft_count :: u64
  m_ttft_p50 :: "f64 option"
  m_ttft_p95 :: "f64 option"
  m_ttft_p99 :: "f64 option"
  m_ttft_stream_sum :: f64
  m_ttft_stream_count :: u64
  m_ttft_stream_p50 :: "f64 option"
  m_ttft_stream_p95 :: "f64 option"
  m_ttft_stream_p99 :: "f64 option"
  m_ttft_nonstream_sum :: f64
  m_ttft_nonstream_count :: u64
  m_ttft_nonstream_p50 :: "f64 option"
  m_ttft_nonstream_p95 :: "f64 option"
  m_ttft_nonstream_p99 :: "f64 option"
  m_e2e_sum :: f64
  m_e2e_count :: u64
  m_e2e_p50 :: "f64 option"
  m_e2e_p95 :: "f64 option"
  m_e2e_p99 :: "f64 option"
  m_tpot_sum :: f64
  m_tpot_count :: u64
  m_tpot_p50 :: "f64 option"
  m_tpot_p95 :: "f64 option"
  m_tpot_p99 :: "f64 option"
  m_tool_surface :: "string option"

record LlmFinishMetric =
  fm_timestamp_us :: int
  fm_source_id :: string
  fm_granularity :: string
  fm_wire_api :: string
  fm_model :: string
  fm_server_ip :: string
  fm_finish_reason :: string
  fm_count :: u64

record LlmMetricsBatch =
  metric :: LlmMetric
  finish_metrics :: "LlmFinishMetric list"

definition Q50 :: f64 where "Q50 = 0x3FE0000000000000"
definition Q95 :: f64 where "Q95 = 0x3FEE666666666666"
definition Q99 :: f64 where "Q99 = 0x3FEFAE147AE147AE"

definition quantiles :: "'t tdigest \<Rightarrow> 't DistributionDigest \<Rightarrow>
    f64 option \<times> f64 option \<times> f64 option \<times> 't DistributionDigest" where
  "quantiles td d =
     (let (p50, d1) = quantile td Q50 d; (p95, d2) = quantile td Q95 d1; (p99, d3) = quantile td Q99 d2
      in (p50, p95, p99, d3))"

definition finish_rows :: "int \<Rightarrow> string \<Rightarrow> string \<Rightarrow> string \<Rightarrow> string \<Rightarrow> string \<Rightarrow>
    't WindowBucket \<Rightarrow> LlmFinishMetric list" where
  "finish_rows ts sid gran wire model ip b =
     map (\<lambda>(reason, n). \<lparr>fm_timestamp_us = ts, fm_source_id = sid, fm_granularity = gran, fm_wire_api = wire,
           fm_model = model, fm_server_ip = ip, fm_finish_reason = reason, fm_count = n\<rparr>) (wb_finish_counts b)"

definition bucket_flush :: "'t tdigest \<Rightarrow> 't WindowBucket \<Rightarrow> int \<Rightarrow> string \<Rightarrow> string \<Rightarrow> string \<Rightarrow> string \<Rightarrow>
    string \<Rightarrow> ToolSurface option \<Rightarrow> LlmMetricsBatch \<times> 't WindowBucket" where
  "bucket_flush td b ts sid gran wire model ip surface =
     (let q_ttft = quantiles td (wb_ttft b); q_ttft_stream = quantiles td (wb_ttft_stream b);
          q_ttft_nonstream = quantiles td (wb_ttft_nonstream b);
          q_e2e = quantiles td (wb_e2e b); q_tpot = quantiles td (wb_tpot b)
      in (\<lparr>metric =
           \<lparr>m_timestamp_us = ts, m_source_id = sid, m_granularity = gran, m_wire_api = wire,
            m_model = model, m_server_ip = ip,
            m_call_count = wb_call_count b, m_stream_count = wb_stream_count b,
            m_non_stream_count = wb_non_stream_count b, m_active_calls_sum = wb_active_calls_sum b,
            m_active_calls_sample_count = wb_active_calls_sample_count b,
            m_active_calls_max = wb_active_calls_max b,
            m_total_input_tokens = wb_total_input_tokens b, m_input_token_count = wb_input_token_count b,
            m_total_output_tokens = wb_total_output_tokens b, m_output_token_count = wb_output_token_count b,
            m_total_cache_read_input_tokens = wb_total_cache_read_input_tokens b,
            m_total_cache_creation_input_tokens = wb_total_cache_creation_input_tokens b,
            m_error_count = wb_error_count b, m_error_4xx_count = wb_error_4xx_count b,
            m_error_429_count = wb_error_429_count b, m_error_5xx_count = wb_error_5xx_count b,
            m_ttft_sum = dd_sum (wb_ttft b), m_ttft_count = dd_count (wb_ttft b),
            m_ttft_p50 = fst q_ttft, m_ttft_p95 = fst (snd q_ttft), m_ttft_p99 = fst (snd (snd q_ttft)),
            m_ttft_stream_sum = dd_sum (wb_ttft_stream b), m_ttft_stream_count = dd_count (wb_ttft_stream b),
            m_ttft_stream_p50 = fst q_ttft_stream, m_ttft_stream_p95 = fst (snd q_ttft_stream), m_ttft_stream_p99 = fst (snd (snd q_ttft_stream)),
            m_ttft_nonstream_sum = dd_sum (wb_ttft_nonstream b), m_ttft_nonstream_count = dd_count (wb_ttft_nonstream b),
            m_ttft_nonstream_p50 = fst q_ttft_nonstream, m_ttft_nonstream_p95 = fst (snd q_ttft_nonstream), m_ttft_nonstream_p99 = fst (snd (snd q_ttft_nonstream)),
            m_e2e_sum = dd_sum (wb_e2e b), m_e2e_count = dd_count (wb_e2e b),
            m_e2e_p50 = fst q_e2e, m_e2e_p95 = fst (snd q_e2e), m_e2e_p99 = fst (snd (snd q_e2e)),
            m_tpot_sum = dd_sum (wb_tpot b), m_tpot_count = dd_count (wb_tpot b),
            m_tpot_p50 = fst q_tpot, m_tpot_p95 = fst (snd q_tpot), m_tpot_p99 = fst (snd (snd q_tpot)),
            m_tool_surface = map_option tool_surface_str surface\<rparr>,
           finish_metrics = finish_rows ts sid gran wire model ip b\<rparr>,
          b\<lparr>wb_ttft := snd (snd (snd q_ttft)), wb_ttft_stream := snd (snd (snd q_ttft_stream)),
            wb_ttft_nonstream := snd (snd (snd q_ttft_nonstream)), wb_e2e := snd (snd (snd q_e2e)),
            wb_tpot := snd (snd (snd q_tpot))\<rparr>))"

section \<open>Averages of a row\<close>

definition safe_avg :: "f64 \<Rightarrow> u64 \<Rightarrow> f64 option" where
  "safe_avg s n = (if n = 0 then None else Some (f64_div s (f64_of_int (uint n))))"

definition active_calls_avg :: "LlmMetric \<Rightarrow> f64" where
  "active_calls_avg m =
     (if m_active_calls_sample_count m = 0 then 0
      else f64_div (f64_of_int (uint (m_active_calls_sum m))) (f64_of_int (uint (m_active_calls_sample_count m))))"

definition input_tokens_avg :: "LlmMetric \<Rightarrow> f64 option" where
  "input_tokens_avg m = safe_avg (f64_of_int (uint (m_total_input_tokens m))) (m_input_token_count m)"

definition output_tokens_avg :: "LlmMetric \<Rightarrow> f64 option" where
  "output_tokens_avg m = safe_avg (f64_of_int (uint (m_total_output_tokens m))) (m_output_token_count m)"

definition ttft_avg :: "LlmMetric \<Rightarrow> f64 option" where
  "ttft_avg m = safe_avg (m_ttft_sum m) (m_ttft_count m)"

definition ttft_stream_avg :: "LlmMetric \<Rightarrow> f64 option" where
  "ttft_stream_avg m = safe_avg (m_ttft_stream_sum m) (m_ttft_stream_count m)"

definition ttft_nonstream_avg :: "LlmMetric \<Rightarrow> f64 option" where
  "ttft_nonstream_avg m = safe_avg (m_ttft_nonstream_sum m) (m_ttft_nonstream_count m)"

definition e2e_avg :: "LlmMetric \<Rightarrow> f64 option" where
  "e2e_avg m = safe_avg (m_e2e_sum m) (m_e2e_count m)"

definition tpot_avg :: "LlmMetric \<Rightarrow> f64 option" where
  "tpot_avg m = safe_avg (m_tpot_sum m) (m_tpot_count m)"

end
