(* ===== verification/Aggregator.thy ===== *)
theory Aggregator
  imports Bucket "HOL-Library.Signed_Division" "HOL-Library.Option_ord"
begin

text \<open>
  \<^verbatim>\<open>server/h-metrics/src/aggregator.rs\<close>: events are written into one bucket per source, granularity, window and dimension; buckets are drained per source
  and granularity by event time. The in-flight table is shared with the other shards, so an
  operation takes the table as it finds it and returns it updated. The locale \<open>metric_column\<close> is
  what a counter column of a row promises (it starts at zero, each write adds to it, a flush
  copies it); its interpretations are the columns of the rows.
\<close>

section \<open>State\<close>

definition GRANULARITIES :: "(string \<times> int) list" where
  "GRANULARITIES = [(''10s'', 10), (''1m'', 60), (''5m'', 300), (''1h'', 3600)]"

record BucketKey =
  bk_source_id :: string
  bk_granularity_idx :: nat
  bk_window_start_us :: int
  bk_wire_api :: string
  bk_model :: string
  bk_server_ip :: string
  bk_tool_surface :: "ToolSurface option"

record 't MetricsAggregator =
  buckets :: "(BucketKey \<times> 't WindowBucket) list"
  latest_ts :: "(string \<times> int) list"
  last_flush_ts :: "((string \<times> nat) \<times> int) list"
  ag_metrics :: "AggregatorMetric MetricsWorker"

definition MetricsAggregator_new :: "AggregatorMetric MetricsWorker \<Rightarrow> 't MetricsAggregator" where
  "MetricsAggregator_new m = \<lparr>buckets = [], latest_ts = [], last_flush_ts = [], ag_metrics = m\<rparr>"

definition open_bucket_count :: "'t MetricsAggregator \<Rightarrow> nat" where
  "open_bucket_count ag = length (buckets ag)"

section \<open>Operations\<close>

fun event_clock :: "LlmEvent \<Rightarrow> string \<times> int" where
  "event_clock (LlmStart s) = (st_source_id s, st_timestamp_us s)"
| "event_clock (LlmComplete c _) =
     (lc_source_id c, case lc_complete_time c of Some t \<Rightarrow> t | None \<Rightarrow> lc_request_time c)"
| "event_clock (LlmHeartbeat ts sid) = (sid, ts)"

text \<open>Division of \<open>i64\<close> truncates towards zero.\<close>

definition window_start :: "int \<Rightarrow> int \<Rightarrow> int" where
  "window_start ts secs = (ts sdiv (secs * 1000000)) * (secs * 1000000)"

definition bucket_key :: "string \<Rightarrow> nat \<Rightarrow> int \<Rightarrow> ToolSurface option \<Rightarrow> DimensionKey \<Rightarrow> BucketKey" where
  "bucket_key sid gi ws surface dk =
     \<lparr>bk_source_id = sid, bk_granularity_idx = gi, bk_window_start_us = ws, bk_wire_api = dk_wire_api dk,
      bk_model = dk_model dk, bk_server_ip = dk_server_ip dk, bk_tool_surface = surface\<rparr>"

text \<open>\<open>entry(key).or_insert_with(new)\<close> and the update of the bucket there.\<close>

definition bucket_update ::
  "'t tdigest \<Rightarrow> BucketKey \<Rightarrow> ('t WindowBucket \<Rightarrow> 't WindowBucket) \<Rightarrow> 't MetricsAggregator \<Rightarrow> 't MetricsAggregator" where
  "bucket_update td bk f ag =
     ag\<lparr>buckets := AList.update bk
          (f (case map_of (buckets ag) bk of Some b \<Rightarrow> b | None \<Rightarrow> WindowBucket_new td)) (buckets ag)\<rparr>"

definition anchor_init :: "string \<Rightarrow> nat \<Rightarrow> int \<Rightarrow> 't MetricsAggregator \<Rightarrow> 't MetricsAggregator" where
  "anchor_init sid gi ws ag =
     (case map_of (last_flush_ts ag) (sid, gi) of
        Some _ \<Rightarrow> ag
      | None \<Rightarrow> ag\<lparr>last_flush_ts := AList.update (sid, gi) ws (last_flush_ts ag)\<rparr>)"

definition start_granularity :: "'t tdigest \<Rightarrow> LlmCallStart \<Rightarrow> (DimensionKey \<times> u32) list \<Rightarrow>
    nat \<times> string \<times> int \<Rightarrow> 't MetricsAggregator \<Rightarrow> 't MetricsAggregator" where
  "start_granularity td s samples g ag =
     (let (gi, _, secs) = g; ws = window_start (st_timestamp_us s) secs
      in fold (\<lambda>(dk, n). bucket_update td (bucket_key (st_source_id s) gi ws None dk)
                 (\<lambda>b. sample_active_calls n (bucket_on_call_start (st_is_stream s) b)))
           samples (anchor_init (st_source_id s) gi ws ag))"

definition on_call_start :: "'t tdigest \<Rightarrow> LlmCallStart \<Rightarrow> ActiveCalls \<Rightarrow> 't MetricsAggregator \<Rightarrow>
    ActiveCalls \<times> 't MetricsAggregator" where
  "on_call_start td s a ag =
     (let dims = dimension_keys (st_source_id s) (st_wire_api s) (st_model s) (ip_str (st_server_ip s));
          (a', vals) = active_start (start_call_key s) dims (st_timestamp_us s) a
      in (a', fold (start_granularity td s (zip dims vals)) (List.enumerate 0 GRANULARITIES) ag))"

definition complete_granularity :: "'t tdigest \<Rightarrow> LlmCall \<Rightarrow> DimensionKey list \<Rightarrow>
    nat \<times> string \<times> int \<Rightarrow> 't MetricsAggregator \<Rightarrow> 't MetricsAggregator" where
  "complete_granularity td c dims g ag =
     (let (gi, _, secs) = g; ws = window_start (lc_request_time c) secs
      in fold (\<lambda>dk. bucket_update td (bucket_key (lc_source_id c) gi ws (lc_tool_surface c) dk)
                 (bucket_on_call_complete td c))
           dims (anchor_init (lc_source_id c) gi ws ag))"

definition on_call_complete :: "'t tdigest \<Rightarrow> LlmCall \<Rightarrow> ActiveCalls \<Rightarrow> 't MetricsAggregator \<Rightarrow>
    ActiveCalls \<times> 't MetricsAggregator" where
  "on_call_complete td c a ag =
     (let dims = dimension_keys (lc_source_id c) (lc_wire_api c) (lc_model c) (ip_str (lc_server_ip c))
      in (active_complete (call_key c) a,
          fold (complete_granularity td c dims) (List.enumerate 0 GRANULARITIES) ag))"

text \<open>Remove one bucket and, when it has data, emit its row.\<close>

definition drain_key :: "'t tdigest \<Rightarrow> string \<Rightarrow> BucketKey \<Rightarrow> LlmMetricsBatch list \<times> 't MetricsAggregator \<Rightarrow>
    LlmMetricsBatch list \<times> 't MetricsAggregator" where
  "drain_key td label key st =
     (let (out, ag) = st in
      case map_of (buckets ag) key of
        None \<Rightarrow> (out, ag)
      | Some b \<Rightarrow>
          (let ag' = ag\<lparr>buckets := AList.delete key (buckets ag)\<rparr> in
           if has_data b
           then (out @ [fst (bucket_flush td b (bk_window_start_us key) (bk_source_id key) label
                   (bk_wire_api key) (bk_model key) (bk_server_ip key) (bk_tool_surface key))],
                 ag'\<lparr>ag_metrics := metric_inc MetricsWindowsEmitted (ag_metrics ag')\<rparr>)
           else (out, ag')))"

definition drain_granularity :: "'t tdigest \<Rightarrow> string \<Rightarrow> int \<Rightarrow> nat \<times> string \<times> int \<Rightarrow>
    LlmMetricsBatch list \<times> 't MetricsAggregator \<Rightarrow> LlmMetricsBatch list \<times> 't MetricsAggregator" where
  "drain_granularity td sid now g st =
     (let (gi, label, secs) = g; (out, ag) = st in
      case map_of (last_flush_ts ag) (sid, gi) of
        None \<Rightarrow> (out, ag)
      | Some anchor \<Rightarrow>
          if now - anchor < secs * 1000000 then (out, ag)
          else
            (let ag' = ag\<lparr>last_flush_ts := AList.update (sid, gi) now (last_flush_ts ag)\<rparr>;
                 dirty = filter (\<lambda>k. bk_source_id k = sid \<and> bk_granularity_idx k = gi) (map fst (buckets ag'))
             in fold (drain_key td label) dirty (out, ag')))"

definition maybe_drain :: "'t tdigest \<Rightarrow> string \<Rightarrow> int \<Rightarrow> 't MetricsAggregator \<Rightarrow>
    LlmMetricsBatch list \<times> 't MetricsAggregator" where
  "maybe_drain td sid now ag = fold (drain_granularity td sid now) (List.enumerate 0 GRANULARITIES) ([], ag)"

definition agg_process :: "'t tdigest \<Rightarrow> LlmEvent \<Rightarrow> ActiveCalls \<Rightarrow> 't MetricsAggregator \<Rightarrow>
    LlmMetricsBatch list \<times> ActiveCalls \<times> 't MetricsAggregator" where
  "agg_process td ev a ag =
     (let (sid, ts) = event_clock ev;
          (a1, ag1) =
            (case ev of
               LlmStart s \<Rightarrow> on_call_start td s a (ag\<lparr>ag_metrics := metric_inc MetricsLlmEventsStart (ag_metrics ag)\<rparr>)
             | LlmComplete c _ \<Rightarrow>
                 on_call_complete td c a (ag\<lparr>ag_metrics := metric_inc MetricsLlmEventsComplete (ag_metrics ag)\<rparr>)
             | LlmHeartbeat _ _ \<Rightarrow> (a, ag\<lparr>ag_metrics := metric_inc MetricsHeartbeatsReceived (ag_metrics ag)\<rparr>));
          watermark = max (case map_of (latest_ts ag1) sid of Some t \<Rightarrow> t | None \<Rightarrow> 0) ts;
          ag2 = ag1\<lparr>latest_ts := AList.update sid watermark (latest_ts ag1)\<rparr>;
          (expired, a2) = active_expire sid watermark a1;
          ag3 = (if expired > 0
                 then ag2\<lparr>ag_metrics := metric_add MetricsActiveCallsExpired (of_nat expired) (ag_metrics ag2)\<rparr>
                 else ag2);
          (out, ag4) = maybe_drain td sid watermark ag3
      in (out, a2, ag4))"

definition row_order :: "LlmMetricsBatch \<Rightarrow> string \<times> int \<times> string \<times> string \<times> string \<times> string option" where
  "row_order b = (m_granularity (metric b), m_timestamp_us (metric b), m_wire_api (metric b),
     m_model (metric b), m_server_ip (metric b), m_tool_surface (metric b))"

definition flush_all :: "'t tdigest \<Rightarrow> 't MetricsAggregator \<Rightarrow> LlmMetricsBatch list \<times> 't MetricsAggregator" where
  "flush_all td ag =
     (let (out, ag') = fold (\<lambda>key. drain_key td (fst (GRANULARITIES ! bk_granularity_idx key)) key)
                          (map fst (buckets ag)) ([], ag)
      in (sort_key row_order out, ag'))"

section \<open>Rows and writes\<close>

datatype bucket_write = WStart bool u32 | WComplete LlmCall

fun apply_write :: "'t tdigest \<Rightarrow> bucket_write \<Rightarrow> 't WindowBucket \<Rightarrow> 't WindowBucket" where
  "apply_write td (WStart s n) b = sample_active_calls n (bucket_on_call_start s b)"
| "apply_write td (WComplete c) b = bucket_on_call_complete td c b"

definition table_write :: "'t tdigest \<Rightarrow> BucketKey \<times> bucket_write \<Rightarrow> (BucketKey \<times> 't WindowBucket) list \<Rightarrow>
    (BucketKey \<times> 't WindowBucket) list" where
  "table_write td kw m = AList.update (fst kw)
     (apply_write td (snd kw) (case map_of m (fst kw) of Some b \<Rightarrow> b | None \<Rightarrow> WindowBucket_new td)) m"

text \<open>The sixteen writes of an event: four granularities times four dimensions.\<close>

definition grid :: "string \<Rightarrow> int \<Rightarrow> ToolSurface option \<Rightarrow> (DimensionKey \<times> bucket_write) list \<Rightarrow>
    (BucketKey \<times> bucket_write) list" where
  "grid sid ts surface dws = concat (map (\<lambda>g.
     map (\<lambda>dw. (bucket_key sid (fst g) (window_start ts (snd (snd g))) surface (fst dw), snd dw)) dws) (List.enumerate 0 GRANULARITIES))"

fun event_writes :: "ActiveCalls \<times> LlmEvent \<Rightarrow> (BucketKey \<times> bucket_write) list" where
  "event_writes (a, LlmStart s) =
     (let dims = dimension_keys (st_source_id s) (st_wire_api s) (st_model s) (ip_str (st_server_ip s))
      in grid (st_source_id s) (st_timestamp_us s) None
           (zip dims (map (WStart (st_is_stream s)) (snd (active_start (start_call_key s) dims (st_timestamp_us s) a)))))"
| "event_writes (a, LlmComplete c _) =
     grid (lc_source_id c) (lc_request_time c) (lc_tool_surface c)
       (map (\<lambda>dk. (dk, WComplete c))
         (dimension_keys (lc_source_id c) (lc_wire_api c) (lc_model c) (ip_str (lc_server_ip c))))"
| "event_writes (a, LlmHeartbeat _ _) = []"

text \<open>The key of a row in storage, and the bucket it comes from.\<close>

type_synonym row_key = "string \<times> string \<times> int \<times> string \<times> string \<times> string \<times> string option"

definition row_of :: "LlmMetric \<Rightarrow> row_key" where
  "row_of m = (m_source_id m, m_granularity m, m_timestamp_us m, m_wire_api m, m_model m, m_server_ip m, m_tool_surface m)"

definition key_row :: "BucketKey \<Rightarrow> row_key" where
  "key_row k = (bk_source_id k, fst (GRANULARITIES ! bk_granularity_idx k), bk_window_start_us k,
     bk_wire_api k, bk_model k, bk_server_ip k, map_option tool_surface_str (bk_tool_surface k))"

definition rows_sum :: "(LlmMetric \<Rightarrow> u64) \<Rightarrow> row_key \<Rightarrow> LlmMetricsBatch list \<Rightarrow> u64" where
  "rows_sum f K bs = sum_list (map (\<lambda>b. if row_of (metric b) = K then f (metric b) else 0) bs)"

definition open_sum :: "('t WindowBucket \<Rightarrow> u64) \<Rightarrow> row_key \<Rightarrow> (BucketKey \<times> 't WindowBucket) list \<Rightarrow> u64" where
  "open_sum f K m = sum_list (map (\<lambda>(k, b). if key_row k = K then f b else 0) m)"

definition writes_sum :: "(bucket_write \<Rightarrow> u64) \<Rightarrow> row_key \<Rightarrow> (BucketKey \<times> bucket_write) list \<Rightarrow> u64" where
  "writes_sum f K ws = sum_list (map (\<lambda>(k, w). if key_row k = K then f w else 0) ws)"

fun agg_run :: "'t tdigest \<Rightarrow> 't MetricsAggregator \<Rightarrow> (ActiveCalls \<times> LlmEvent) list \<Rightarrow>
    LlmMetricsBatch list \<times> 't MetricsAggregator" where
  "agg_run td ag [] = ([], ag)"
| "agg_run td ag ((a, ev) # steps) =
     (let (o1, _, ag1) = agg_process td ev a ag; (o2, ag2) = agg_run td ag1 steps in (o1 @ o2, ag2))"

text \<open>A bucket in the table has at least one write and at most \<open>N\<close>.\<close>

definition bucket_ok :: "nat \<Rightarrow> 't WindowBucket \<Rightarrow> bool" where
  "bucket_ok N b \<longleftrightarrow> (\<exists>n m. wb_call_count b = of_nat n \<and> wb_complete_count b = of_nat m \<and> n + m \<le> N \<and> 0 < n + m)"

definition table_ok :: "nat \<Rightarrow> (BucketKey \<times> 't WindowBucket) list \<Rightarrow> bool" where
  "table_ok N m \<longleftrightarrow> hm_valid m \<and> list_all (\<lambda>e. bucket_ok N (snd e)) m"

definition due :: "string \<Rightarrow> int \<Rightarrow> nat \<times> string \<times> int \<Rightarrow> 't MetricsAggregator \<Rightarrow> bool" where
  "due sid now g ag \<longleftrightarrow> (case map_of (last_flush_ts ag) (sid, fst g) of
     None \<Rightarrow> False | Some t \<Rightarrow> now - t \<ge> snd (snd g) * 1000000)"

fun call_inc :: "bucket_write \<Rightarrow> u64" where
  "call_inc (WStart s n) = 1"
| "call_inc (WComplete c) = 0"

fun input_inc :: "bucket_write \<Rightarrow> u64" where
  "input_inc (WStart s n) = 0"
| "input_inc (WComplete c) = (case lc_input_tokens c of Some t \<Rightarrow> ucast t | None \<Rightarrow> 0)"

fun output_inc :: "bucket_write \<Rightarrow> u64" where
  "output_inc (WStart s n) = 0"
| "output_inc (WComplete c) = (case lc_output_tokens c of Some t \<Rightarrow> ucast t | None \<Rightarrow> 0)"

fun error_inc :: "bucket_write \<Rightarrow> u64" where
  "error_inc (WStart s n) = 0"
| "error_inc (WComplete c) = (case lc_status_code c of Some st \<Rightarrow> if 400 \<le> st then 1 else 0 | None \<Rightarrow> 0)"

fun e2e_inc :: "bucket_write \<Rightarrow> u64" where
  "e2e_inc (WStart s n) = 0"
| "e2e_inc (WComplete c) = (case lc_e2e_latency_ms c of Some _ \<Rightarrow> 1 | None \<Rightarrow> 0)"

definition sample_td :: "unit tdigest" where
  "sample_td = \<lparr>td_new_with_size = (\<lambda>_. ()), td_merge_unsorted = (\<lambda>_ _. ()), td_estimate_quantile = (\<lambda>_ q. q)\<rparr>"

definition sample_start :: LlmEvent where
  "sample_start = LlmStart \<lparr>st_source_id = [], st_wire_api = ''openai-chat'', st_model = ''m'', st_is_stream = True,
     st_client_ip = V4 1, st_client_port = 1, st_server_ip = V4 2, st_server_port = 443, st_timestamp_us = 5\<rparr>"

definition sample_steps :: "(ActiveCalls \<times> LlmEvent) list" where
  "sample_steps = [(ActiveCalls_new, sample_start), (ActiveCalls_new, LlmHeartbeat 10000005 [])]"

definition sample_agg :: "unit MetricsAggregator" where
  "sample_agg = \<lparr>buckets = [(\<lparr>bk_source_id = [], bk_granularity_idx = 0, bk_window_start_us = 0, bk_wire_api = ''*'',
       bk_model = ''*'', bk_server_ip = ''*'', bk_tool_surface = None\<rparr>,
       bucket_on_call_start True (WindowBucket_new sample_td))],
     latest_ts = [], last_flush_ts = [(([], 0), 0)], ag_metrics = (\<lambda>_. 0)\<rparr>"

section \<open>Lemmas\<close>

lemma count_tokens_cols [simp]:
  "wb_complete_count (count_tokens c b) = wb_complete_count b"
  "wb_call_count (count_tokens c b) = wb_call_count b"
  "wb_error_count (count_tokens c b) = wb_error_count b"
  "wb_e2e (count_tokens c b) = wb_e2e b"
  "wb_total_input_tokens (count_tokens c b) = wb_total_input_tokens b
     + (case lc_input_tokens c of Some n \<Rightarrow> ucast n | None \<Rightarrow> 0)"
  "wb_total_output_tokens (count_tokens c b) = wb_total_output_tokens b
     + (case lc_output_tokens c of Some n \<Rightarrow> ucast n | None \<Rightarrow> 0)"
  unfolding count_tokens_def Let_def by (simp_all split: option.split)

lemma count_errors_cols [simp]:
  "wb_complete_count (count_errors c b) = wb_complete_count b"
  "wb_call_count (count_errors c b) = wb_call_count b"
  "wb_e2e (count_errors c b) = wb_e2e b"
  "wb_total_input_tokens (count_errors c b) = wb_total_input_tokens b"
  "wb_total_output_tokens (count_errors c b) = wb_total_output_tokens b"
  "wb_error_count (count_errors c b) = wb_error_count b
     + (case lc_status_code c of Some st \<Rightarrow> if 400 \<le> st then 1 else 0 | None \<Rightarrow> 0)"
  unfolding count_errors_def Let_def by (simp_all split: option.split)

lemma count_finish_cols [simp]:
  "wb_complete_count (count_finish c b) = wb_complete_count b"
  "wb_call_count (count_finish c b) = wb_call_count b"
  "wb_e2e (count_finish c b) = wb_e2e b"
  "wb_total_input_tokens (count_finish c b) = wb_total_input_tokens b"
  "wb_total_output_tokens (count_finish c b) = wb_total_output_tokens b"
  "wb_error_count (count_finish c b) = wb_error_count b"
  unfolding count_finish_def by (simp_all split: option.split)

lemma add_latencies_cols [simp]:
  "wb_complete_count (add_latencies td c b) = wb_complete_count b"
  "wb_call_count (add_latencies td c b) = wb_call_count b"
  "wb_total_input_tokens (add_latencies td c b) = wb_total_input_tokens b"
  "wb_total_output_tokens (add_latencies td c b) = wb_total_output_tokens b"
  "wb_error_count (add_latencies td c b) = wb_error_count b"
  "wb_e2e (add_latencies td c b) = (case lc_e2e_latency_ms c of None \<Rightarrow> wb_e2e b | Some v \<Rightarrow> digest_add td v (wb_e2e b))"
  unfolding add_latencies_def Let_def by (simp_all split: option.split)

lemma add_tpot_cols [simp]:
  "wb_complete_count (add_tpot td c b) = wb_complete_count b"
  "wb_call_count (add_tpot td c b) = wb_call_count b"
  "wb_total_input_tokens (add_tpot td c b) = wb_total_input_tokens b"
  "wb_total_output_tokens (add_tpot td c b) = wb_total_output_tokens b"
  "wb_error_count (add_tpot td c b) = wb_error_count b"
  "wb_e2e (add_tpot td c b) = wb_e2e b"
  unfolding add_tpot_def by (simp_all split: option.split)

lemma digest_add_count [simp]: "dd_count (digest_add td v d) = dd_count d + 1"
  by (simp add: digest_add_def compact_def Let_def)

lemma complete_counts [simp]:
  "wb_complete_count (bucket_on_call_complete td c b) = wb_complete_count b + 1"
  "wb_call_count (bucket_on_call_complete td c b) = wb_call_count b"
  by (simp_all add: bucket_on_call_complete_def)

lemma start_counts [simp]:
  "wb_complete_count (sample_active_calls n (bucket_on_call_start s b)) = wb_complete_count b"
  "wb_call_count (sample_active_calls n (bucket_on_call_start s b)) = wb_call_count b + 1"
  by (simp_all add: sample_active_calls_def bucket_on_call_start_def Let_def)

lemma bucket_ok_mono: "bucket_ok N b \<Longrightarrow> N \<le> M \<Longrightarrow> bucket_ok M b"
  unfolding bucket_ok_def by (meson order.trans)

lemma write_ok: "b = WindowBucket_new td \<or> bucket_ok N b \<Longrightarrow> bucket_ok (Suc N) (apply_write td w b)"
proof -
  assume "b = WindowBucket_new td \<or> bucket_ok N b"
  then obtain n m where nm: "wb_call_count b = of_nat n" "wb_complete_count b = of_nat m" "n + m \<le> N"
    unfolding bucket_ok_def WindowBucket_new_def by (auto intro: that[of 0 0])
  show ?thesis
  proof (cases w)
    case (WStart s k)
    then show ?thesis unfolding bucket_ok_def using nm by (intro exI[of _ "Suc n"] exI[of _ m]) simp
  next
    case (WComplete c)
    then show ?thesis unfolding bucket_ok_def using nm by (intro exI[of _ n] exI[of _ "Suc m"]) simp
  qed
qed

lemma bucket_ok_has_data:
  assumes "bucket_ok N b" "N < 2 ^ 64"
  shows "has_data b"
proof -
  obtain n m where nm: "wb_call_count b = of_nat n" "wb_complete_count b = of_nat m" "n + m \<le> N" "0 < n + m"
    using assms(1) unfolding bucket_ok_def by blast
  then have "n < 2 ^ 64" "m < 2 ^ 64" using assms(2) by auto
  then have "of_nat n = (0 :: u64) \<longleftrightarrow> n = 0" "of_nat m = (0 :: u64) \<longleftrightarrow> m = 0"
    by (simp_all add: unat_eq_0[symmetric] unat_of_nat take_bit_nat_eq_self)
  then show ?thesis using nm unfolding has_data_def by (auto simp: word_gt_0)
qed

lemma table_write_ok:
  assumes "table_ok N m"
  shows "table_ok (Suc N) (table_write td kw m)"
proof -
  let ?b = "case map_of m (fst kw) of Some b \<Rightarrow> b | None \<Rightarrow> WindowBucket_new td"
  have all: "\<And>e. e \<in> set m \<Longrightarrow> bucket_ok N (snd e)" and hv: "hm_valid m"
    using assms by (auto simp: table_ok_def list_all_iff)
  then have "?b = WindowBucket_new td \<or> bucket_ok N ?b"
    by (auto split: option.splits dest!: map_of_SomeD)
  note w = write_ok[OF this, of "snd kw"]
  have "bucket_ok (Suc N) (snd e)" if "e \<in> set m" for e using all[OF that] bucket_ok_mono by fastforce
  then show ?thesis unfolding table_ok_def table_write_def
    using w hm.valid_upsert[OF hv] hm.set_upsert[OF hv] by (auto simp: list_all_iff)
qed

lemma table_writes_ok: "table_ok N m \<Longrightarrow> table_ok (N + length ws) (fold (table_write td) ws m)"
proof (induction ws arbitrary: m N)
  case (Cons w ws)
  from Cons.IH[OF table_write_ok[OF Cons.prems], of td w] show ?case by simp
qed simp

lemma anchor_init_buckets [simp]: "buckets (anchor_init sid gi ws ag) = buckets ag"
  by (simp add: anchor_init_def split: option.splits)

lemma fold_update_start:
  "buckets (fold (\<lambda>(dk, n). bucket_update td (f dk) (\<lambda>b. sample_active_calls n (bucket_on_call_start st b))) xs ag)
    = fold (table_write td) (map (\<lambda>(dk, n). (f dk, WStart st n)) xs) (buckets ag)"
  by (induction xs arbitrary: ag) (auto simp: bucket_update_def table_write_def)

lemma fold_update_complete:
  "buckets (fold (\<lambda>dk. bucket_update td (f dk) (bucket_on_call_complete td c)) xs ag)
    = fold (table_write td) (map (\<lambda>dk. (f dk, WComplete c)) xs) (buckets ag)"
  by (induction xs arbitrary: ag) (auto simp: bucket_update_def table_write_def)

lemma fold_concat_buckets:
  assumes "\<And>g ag. g \<in> set gs \<Longrightarrow> buckets (f g ag) = fold (table_write td) (h g) (buckets ag)"
  shows "buckets (fold f gs ag) = fold (table_write td) (concat (map h gs)) (buckets ag)"
  using assms by (induction gs arbitrary: ag) auto

lemma process_writes:
  "buckets (snd (on_call_start td s a ag)) = fold (table_write td) (event_writes (a, LlmStart s)) (buckets ag)"
  "buckets (snd (on_call_complete td c a ag)) = fold (table_write td) (event_writes (a, LlmComplete c i)) (buckets ag)"
proof -
  let ?dims = "dimension_keys (st_source_id s) (st_wire_api s) (st_model s) (ip_str (st_server_ip s))"
  obtain a' vals where v: "active_start (start_call_key s) ?dims (st_timestamp_us s) a = (a', vals)" by fastforce
  have "buckets (fold (start_granularity td s (zip ?dims vals)) (List.enumerate 0 GRANULARITIES) ag)
    = fold (table_write td) (concat (map (\<lambda>g. map (\<lambda>(dk, n).
        (bucket_key (st_source_id s) (fst g) (window_start (st_timestamp_us s) (snd (snd g))) None dk,
         WStart (st_is_stream s) n)) (zip ?dims vals)) (List.enumerate 0 GRANULARITIES))) (buckets ag)"
    by (rule fold_concat_buckets) (simp add: start_granularity_def fold_update_start Let_def split: prod.split)
  then show "buckets (snd (on_call_start td s a ag)) = fold (table_write td) (event_writes (a, LlmStart s)) (buckets ag)"
    by (simp add: on_call_start_def grid_def v Let_def zip_map2 comp_def split_def)
  let ?dims' = "dimension_keys (lc_source_id c) (lc_wire_api c) (lc_model c) (ip_str (lc_server_ip c))"
  have "buckets (fold (complete_granularity td c ?dims') (List.enumerate 0 GRANULARITIES) ag)
    = fold (table_write td) (concat (map (\<lambda>g. map (\<lambda>dk.
        (bucket_key (lc_source_id c) (fst g) (window_start (lc_request_time c) (snd (snd g))) (lc_tool_surface c) dk,
         WComplete c)) ?dims') (List.enumerate 0 GRANULARITIES))) (buckets ag)"
    by (rule fold_concat_buckets) (simp add: complete_granularity_def fold_update_complete Let_def split: prod.split)
  then show "buckets (snd (on_call_complete td c a ag)) = fold (table_write td) (event_writes (a, LlmComplete c i)) (buckets ag)"
    by (simp add: on_call_complete_def grid_def Let_def comp_def)
qed

lemma event_writes_length: "length (event_writes (a, ev)) \<le> 16"
  by (cases ev) (auto simp: grid_def GRANULARITIES_def dimension_keys_def active_start_def Let_def enumerate_eq_zip upt_rec)

lemma sum_list_update:
  "sum_list (map (\<lambda>(k, v). g k v) (AList.update k v m))
    = (sum_list (map (\<lambda>(k, v). g k v) m) :: u64) + g k v - (case map_of m k of Some w \<Rightarrow> g k w | None \<Rightarrow> 0)"
  by (induction m) (auto simp: algebra_simps split: option.splits)

lemma sum_list_delete:
  "hm_valid m \<Longrightarrow> sum_list (map (\<lambda>(k, v). g k v) (AList.delete k m))
    = (sum_list (map (\<lambda>(k, v). g k v) m) :: u64) - (case map_of m k of Some w \<Rightarrow> g k w | None \<Rightarrow> 0)"
proof (induction m)
  case (Cons e m)
  have "AList.delete k m = m" if "fst e = k"
    using Cons.prems that by (intro delete_id) (auto simp: hm_valid_def)
  then show ?case using Cons by (cases e) (auto simp: hm_valid_def algebra_simps split: option.splits)
qed simp

lemma table_ok_mono: "table_ok N m \<Longrightarrow> N \<le> M \<Longrightarrow> table_ok M m"
  using bucket_ok_mono by (fastforce simp: table_ok_def list_all_iff)

lemma table_ok_delete: "table_ok N m \<Longrightarrow> table_ok N (AList.delete k m)"
  using hm.valid_remove[of m k] hm.set_remove[of m k] by (auto simp: table_ok_def list_all_iff)

lemma drain_key_table: "buckets (snd (drain_key td label k (out, ag))) = AList.delete k (buckets ag)"
  by (simp add: drain_key_def Let_def delete_id map_of_eq_None_iff split: option.splits)

lemma drain_keys_table:
  "buckets (snd (fold (\<lambda>k. drain_key td (f k) k) ks (out, ag))) = fold AList.delete ks (buckets ag)"
proof (induction ks arbitrary: out ag)
  case (Cons k ks)
  obtain o1 ag1 where d: "drain_key td (f k) k (out, ag) = (o1, ag1)" by fastforce
  then show ?case using Cons.IH[of o1 ag1] drain_key_table[of td "f k" k out ag] by simp
qed simp

lemma deletes_ok: "table_ok N m \<Longrightarrow> table_ok N (fold AList.delete ks m)"
  by (induction ks arbitrary: m) (auto intro: table_ok_delete)

lemma drain_key_ok: "table_ok N (buckets ag) \<Longrightarrow> drain_key td label k (out, ag) = (out', ag') \<Longrightarrow> table_ok N (buckets ag')"
  using drain_key_table[of td label k out ag] table_ok_delete by fastforce

lemma drain_granularity_table:
  "buckets (snd (drain_granularity td sid now g (out, ag)))
    = (if due sid now g ag then fold AList.delete
        (filter (\<lambda>k. bk_source_id k = sid \<and> bk_granularity_idx k = fst g) (map fst (buckets ag))) (buckets ag)
       else buckets ag)"
  using drain_keys_table[of td "\<lambda>_. fst (snd g)"]
  by (auto simp: drain_granularity_def due_def Let_def split: option.splits prod.splits)

lemma drain_granularity_ok:
  "table_ok N (buckets ag) \<Longrightarrow> drain_granularity td sid now g (out, ag) = (out', ag') \<Longrightarrow> table_ok N (buckets ag')"
  using drain_granularity_table[of td sid now g out ag] deletes_ok by fastforce

lemma maybe_drain_ok:
  assumes "table_ok N (buckets ag)" "maybe_drain td sid now ag = (out', ag')"
  shows "table_ok N (buckets ag')"
proof -
  have "table_ok N (buckets (snd (fold (drain_granularity td sid now) gs (out, ag))))" for gs out
    using assms(1)
  proof (induction gs arbitrary: out ag)
    case (Cons g gs)
    obtain o1 ag1 where d: "drain_granularity td sid now g (out, ag) = (o1, ag1)" by fastforce
    then show ?case using Cons.IH[OF drain_granularity_ok[OF Cons.prems d]] by simp
  qed simp
  then show ?thesis using assms(2) unfolding maybe_drain_def by (metis snd_conv)
qed

lemma keys_deletes: "fst ` set (fold AList.delete ks m) = fst ` set m - set ks"
  by (induction ks arbitrary: m) (auto simp: AList.delete_eq)

lemma flush_all_empty:
  assumes "table_ok N (buckets ag)" "fold (\<lambda>k. drain_key td (f k) k) (map fst (buckets ag)) ([], ag) = (out, ag')"
  shows "buckets ag' = []"
proof -
  have "fst ` set (buckets ag') = {}"
    using drain_keys_table[of td f "map fst (buckets ag)" "[]" ag] assms(2)
      keys_deletes[of "map fst (buckets ag)" "buckets ag"] by simp
  then show ?thesis by simp
qed

lemma process_shape:
  assumes "agg_process td ev a ag = (out, a', ag')"
  shows "\<exists>ag3 w. maybe_drain td (fst (event_clock ev)) w ag3 = (out, ag')
    \<and> buckets ag3 = fold (table_write td) (event_writes (a, ev)) (buckets ag)"
proof -
  obtain a1 ag1 where e: "(case ev of
       LlmStart s \<Rightarrow> on_call_start td s a (ag\<lparr>ag_metrics := metric_inc MetricsLlmEventsStart (ag_metrics ag)\<rparr>)
     | LlmComplete c _ \<Rightarrow>
         on_call_complete td c a (ag\<lparr>ag_metrics := metric_inc MetricsLlmEventsComplete (ag_metrics ag)\<rparr>)
     | LlmHeartbeat _ _ \<Rightarrow> (a, ag\<lparr>ag_metrics := metric_inc MetricsHeartbeatsReceived (ag_metrics ag)\<rparr>)) = (a1, ag1)"
    by fastforce
  have b: "buckets ag1 = fold (table_write td) (event_writes (a, ev)) (buckets ag)"
    using arg_cong[OF e, of "\<lambda>p. buckets (snd p)"] process_writes[of td] by (cases ev) auto
  show ?thesis
    using assms unfolding agg_process_def e by (auto simp: Let_def b split: prod.splits if_splits intro!: exI)
qed

locale metric_column =
  fixes td :: "'t tdigest"
    and col :: "'t WindowBucket \<Rightarrow> u64"
    and row :: "LlmMetric \<Rightarrow> u64"
    and inc :: "bucket_write \<Rightarrow> u64"
  assumes col_new: "col (WindowBucket_new td) = 0"
    and col_write: "col (apply_write td w b) = col b + inc w"
    and row_flush: "row (metric (fst (bucket_flush td b ts sid gran wire model ip sf))) = col b"
begin

lemma open_write: "open_sum col K (table_write td kw m) = open_sum col K m + writes_sum inc K [kw]"
  unfolding open_sum_def table_write_def sum_list_update
  by (cases kw) (auto simp: writes_sum_def col_write col_new split: option.splits)

lemma open_writes: "open_sum col K (fold (table_write td) ws m) = open_sum col K m + writes_sum inc K ws"
proof (induction ws arbitrary: m)
  case (Cons w ws)
  then show ?case by (simp add: open_write) (simp add: writes_sum_def)
qed (simp add: writes_sum_def)

lemma drain_key_sum:
  assumes "hm_valid (buckets ag)" "\<And>b. map_of (buckets ag) k = Some b \<Longrightarrow> has_data b"
    and "label = fst (GRANULARITIES ! bk_granularity_idx k)"
    and "drain_key td label k (out, ag) = (out', ag')"
  shows "rows_sum row K out' + open_sum col K (buckets ag') = rows_sum row K out + open_sum col K (buckets ag)"
proof (cases "map_of (buckets ag) k")
  case (Some b)
  let ?r = "fst (bucket_flush td b (bk_window_start_us k) (bk_source_id k) label (bk_wire_api k) (bk_model k)
    (bk_server_ip k) (bk_tool_surface k))"
  have "out' = out @ [?r]" "buckets ag' = AList.delete k (buckets ag)"
    using assms(2,4) Some by (auto simp: drain_key_def Let_def)
  moreover have "row_of (metric ?r) = key_row k"
    using assms(3) by (simp add: row_of_def key_row_def bucket_flush_def Let_def)
  ultimately show ?thesis
    using Some by (simp add: rows_sum_def open_sum_def sum_list_delete[OF assms(1)] row_flush)
qed (use assms(4) in \<open>simp add: drain_key_def\<close>)

lemma drain_keys_sum:
  assumes "table_ok N (buckets ag)" "N < 2 ^ 64" "\<And>k. k \<in> set ks \<Longrightarrow> f k = fst (GRANULARITIES ! bk_granularity_idx k)"
    and "fold (\<lambda>k. drain_key td (f k) k) ks (out, ag) = (out', ag')"
  shows "rows_sum row K out' + open_sum col K (buckets ag') = rows_sum row K out + open_sum col K (buckets ag)"
  using assms
proof (induction ks arbitrary: out ag)
  case (Cons k ks)
  obtain o1 ag1 where d: "drain_key td (f k) k (out, ag) = (o1, ag1)" by fastforce
  have hv: "hm_valid (buckets ag)" and dt: "\<And>b. map_of (buckets ag) k = Some b \<Longrightarrow> has_data b"
    using Cons.prems(1,2) bucket_ok_has_data by (fastforce simp: table_ok_def list_all_iff dest: map_of_SomeD)+
  have "rows_sum row K o1 + open_sum col K (buckets ag1) = rows_sum row K out + open_sum col K (buckets ag)"
    using Cons.prems(3) by (intro drain_key_sum[OF hv dt _ d]) auto
  moreover have "rows_sum row K out' + open_sum col K (buckets ag') = rows_sum row K o1 + open_sum col K (buckets ag1)"
    using Cons.prems d drain_key_ok[OF Cons.prems(1) d] by (intro Cons.IH) auto
  ultimately show ?case by simp
qed simp

lemma drain_granularity_sum:
  assumes "table_ok N (buckets ag)" "N < 2 ^ 64" "g \<in> set (List.enumerate 0 GRANULARITIES)"
    and "drain_granularity td sid now g (out, ag) = (out', ag')"
  shows "rows_sum row K out' + open_sum col K (buckets ag') = rows_sum row K out + open_sum col K (buckets ag)"
proof -
  obtain gi label secs where g: "g = (gi, label, secs)" by (cases g)
  then have l: "label = fst (GRANULARITIES ! gi)" using assms(3) by (auto simp: in_set_enumerate_eq)
  show ?thesis
  proof (cases "due sid now g ag")
    case True
    let ?ag = "ag\<lparr>last_flush_ts := AList.update (sid, gi) now (last_flush_ts ag)\<rparr>"
    let ?ks = "filter (\<lambda>k. bk_source_id k = sid \<and> bk_granularity_idx k = gi) (map fst (buckets ag))"
    have f: "fold (\<lambda>k. drain_key td label k) ?ks (out, ?ag) = (out', ag')"
      using assms(4) True by (auto simp: drain_granularity_def g due_def Let_def split: option.splits)
    show ?thesis using drain_keys_sum[OF _ assms(2) _ f, of K] assms(1) l by simp
  qed (use assms(4) in \<open>auto simp: drain_granularity_def g due_def split: option.splits if_splits\<close>)
qed

lemma drain_granularities_sum:
  assumes "table_ok N (buckets ag)" "N < 2 ^ 64" "set gs \<subseteq> set (List.enumerate 0 GRANULARITIES)"
    and "fold (drain_granularity td sid now) gs (out, ag) = (out', ag')"
  shows "rows_sum row K out' + open_sum col K (buckets ag') = rows_sum row K out + open_sum col K (buckets ag)"
  using assms
proof (induction gs arbitrary: out ag)
  case (Cons g gs)
  obtain o1 ag1 where d: "drain_granularity td sid now g (out, ag) = (o1, ag1)" by fastforce
  have "rows_sum row K o1 + open_sum col K (buckets ag1) = rows_sum row K out + open_sum col K (buckets ag)"
    using Cons.prems(1-3) by (intro drain_granularity_sum[OF _ _ _ d]) auto
  moreover have "rows_sum row K out' + open_sum col K (buckets ag') = rows_sum row K o1 + open_sum col K (buckets ag1)"
    using Cons.prems d drain_granularity_ok[OF Cons.prems(1) d] by (intro Cons.IH) auto
  ultimately show ?case by simp
qed simp

lemma process_sum:
  assumes "table_ok N (buckets ag)" "N + 16 < 2 ^ 64" "agg_process td ev a ag = (out, a', ag')"
  shows "rows_sum row K out + open_sum col K (buckets ag') = open_sum col K (buckets ag) + writes_sum inc K (event_writes (a, ev))"
    and "table_ok (N + 16) (buckets ag')"
proof -
  obtain ag3 w where d: "maybe_drain td (fst (event_clock ev)) w ag3 = (out, ag')"
    and b: "buckets ag3 = fold (table_write td) (event_writes (a, ev)) (buckets ag)"
    using process_shape[OF assms(3)] by blast
  have t: "table_ok (N + 16) (buckets ag3)"
    using table_writes_ok[OF assms(1), of "event_writes (a, ev)" td] event_writes_length[of a ev]
      table_ok_mono[of _ "buckets ag3" "N + 16"] unfolding b by simp
  show "rows_sum row K out + open_sum col K (buckets ag') = open_sum col K (buckets ag) + writes_sum inc K (event_writes (a, ev))"
    using drain_granularities_sum[OF t assms(2) order.refl d[unfolded maybe_drain_def]] open_writes[of K "event_writes (a, ev)" "buckets ag"]
    unfolding b by (simp add: rows_sum_def)
  show "table_ok (N + 16) (buckets ag')" using maybe_drain_ok[OF t d] .
qed

lemma run_sum:
  assumes "table_ok N (buckets ag)" "N + 16 * length steps < 2 ^ 64" "agg_run td ag steps = (out, ag')"
  shows "rows_sum row K out + open_sum col K (buckets ag')
      = open_sum col K (buckets ag) + writes_sum inc K (concat (map event_writes steps))
    \<and> table_ok (N + 16 * length steps) (buckets ag')"
  using assms
proof (induction steps arbitrary: ag N out)
  case (Cons step steps)
  obtain a ev o1 a1 ag1 o2 where s: "step = (a, ev)" "agg_process td ev a ag = (o1, a1, ag1)"
    "agg_run td ag1 steps = (o2, ag')" "out = o1 @ o2"
    using Cons.prems(3) by (cases step) (auto split: prod.splits)
  have "N + 16 < 2 ^ 64" using Cons.prems(2) by simp
  note p = process_sum[OF Cons.prems(1) this s(2)]
  have "rows_sum row K o2 + open_sum col K (buckets ag')
      = open_sum col K (buckets ag1) + writes_sum inc K (concat (map event_writes steps))
    \<and> table_ok (N + 16 + 16 * length steps) (buckets ag')"
    using Cons.prems(2) by (intro Cons.IH[OF p(2) _ s(3)]) simp
  moreover have "rows_sum row K out = rows_sum row K o1 + rows_sum row K o2"
    "writes_sum inc K (concat (map event_writes (step # steps)))
      = writes_sum inc K (event_writes (a, ev)) + writes_sum inc K (concat (map event_writes steps))"
    using s(1,4) by (simp_all add: rows_sum_def writes_sum_def)
  ultimately show ?case using p(1)[of K] by (metis (no_types, lifting) add.assoc add.commute length_Cons mult_Suc_right)
qed (simp add: rows_sum_def writes_sum_def)

lemma flush_all_sum:
  assumes "table_ok N (buckets ag)" "N < 2 ^ 64" "flush_all td ag = (out, ag')"
  shows "rows_sum row K out = open_sum col K (buckets ag)"
proof -
  let ?f = "\<lambda>k. fst (GRANULARITIES ! bk_granularity_idx k)"
  obtain o1 where f: "fold (\<lambda>k. drain_key td (?f k) k) (map fst (buckets ag)) ([], ag) = (o1, ag')"
    and o1: "out = sort_key row_order o1"
    using assms(3) by (auto simp: flush_all_def split: prod.splits)
  have "rows_sum row K o1 + open_sum col K (buckets ag') = open_sum col K (buckets ag)"
    using drain_keys_sum[OF assms(1,2) _ f, of K] by (simp add: rows_sum_def)
  moreover have "buckets ag' = []" using flush_all_empty[OF assms(1) f] .
  moreover have "rows_sum row K out = rows_sum row K o1"
    unfolding rows_sum_def o1 sum_mset_sum_list[symmetric] by simp
  ultimately show ?thesis by (simp add: open_sum_def)
qed

lemma all_rows:
  assumes "16 * length steps < 2 ^ 64" "agg_run td (MetricsAggregator_new m) steps = (out, ag)" "flush_all td ag = (rest, ag')"
  shows "rows_sum row K (out @ rest) = writes_sum inc K (concat (map event_writes steps))"
proof -
  have "table_ok 0 (buckets (MetricsAggregator_new m :: 't MetricsAggregator))"
    by (simp add: table_ok_def MetricsAggregator_new_def hm.valid_empty)
  note r = run_sum[OF this _ assms(2), of K]
  have "rows_sum row K rest = open_sum col K (buckets ag)"
    using r assms(1) by (intro flush_all_sum[OF _ _ assms(3), where N = "16 * length steps"]) simp_all
  then show ?thesis using r assms(1) by (simp add: rows_sum_def open_sum_def MetricsAggregator_new_def)
qed

end

lemma start_cols [simp]:
  "wb_total_input_tokens (sample_active_calls n (bucket_on_call_start s b)) = wb_total_input_tokens b"
  "wb_total_output_tokens (sample_active_calls n (bucket_on_call_start s b)) = wb_total_output_tokens b"
  "wb_error_count (sample_active_calls n (bucket_on_call_start s b)) = wb_error_count b"
  "wb_e2e (sample_active_calls n (bucket_on_call_start s b)) = wb_e2e b"
  by (simp_all add: sample_active_calls_def bucket_on_call_start_def Let_def)

lemma complete_cols [simp]:
  "wb_total_input_tokens (bucket_on_call_complete td c b) = wb_total_input_tokens b + input_inc (WComplete c)"
  "wb_total_output_tokens (bucket_on_call_complete td c b) = wb_total_output_tokens b + output_inc (WComplete c)"
  "wb_error_count (bucket_on_call_complete td c b) = wb_error_count b + error_inc (WComplete c)"
  "dd_count (wb_e2e (bucket_on_call_complete td c b)) = dd_count (wb_e2e b) + e2e_inc (WComplete c)"
  by (simp_all add: bucket_on_call_complete_def split: option.split)

lemma flush_cols [simp]:
  "m_call_count (metric (fst (bucket_flush td b ts sid gran wire model ip sf))) = wb_call_count b"
  "m_total_input_tokens (metric (fst (bucket_flush td b ts sid gran wire model ip sf))) = wb_total_input_tokens b"
  "m_total_output_tokens (metric (fst (bucket_flush td b ts sid gran wire model ip sf))) = wb_total_output_tokens b"
  "m_error_count (metric (fst (bucket_flush td b ts sid gran wire model ip sf))) = wb_error_count b"
  "m_e2e_count (metric (fst (bucket_flush td b ts sid gran wire model ip sf))) = dd_count (wb_e2e b)"
  by (simp_all add: bucket_flush_def Let_def)

lemma new_cols [simp]:
  "wb_call_count (WindowBucket_new td) = 0" "wb_total_input_tokens (WindowBucket_new td) = 0"
  "wb_total_output_tokens (WindowBucket_new td) = 0" "wb_error_count (WindowBucket_new td) = 0"
  "dd_count (wb_e2e (WindowBucket_new td)) = 0"
  by (simp_all add: WindowBucket_new_def DistributionDigest_new_def)

interpretation calls: metric_column td wb_call_count m_call_count call_inc for td
proof unfold_locales
  show "wb_call_count (apply_write td w b) = wb_call_count b + call_inc w" for w b by (cases w) simp_all
qed simp_all

interpretation inputs: metric_column td wb_total_input_tokens m_total_input_tokens input_inc for td
proof unfold_locales
  show "wb_total_input_tokens (apply_write td w b) = wb_total_input_tokens b + input_inc w" for w b by (cases w) simp_all
qed simp_all

interpretation outputs: metric_column td wb_total_output_tokens m_total_output_tokens output_inc for td
proof unfold_locales
  show "wb_total_output_tokens (apply_write td w b) = wb_total_output_tokens b + output_inc w" for w b by (cases w) simp_all
qed simp_all

interpretation errors: metric_column td wb_error_count m_error_count error_inc for td
proof unfold_locales
  show "wb_error_count (apply_write td w b) = wb_error_count b + error_inc w" for w b by (cases w) simp_all
qed simp_all

interpretation latencies: metric_column td "\<lambda>b. dd_count (wb_e2e b)" m_e2e_count e2e_inc for td
proof unfold_locales
  show "dd_count (wb_e2e (apply_write td w b)) = dd_count (wb_e2e b) + e2e_inc w" for w b by (cases w) simp_all
qed simp_all

lemma drain_keys_flush:
  "last_flush_ts (snd (fold (\<lambda>k. drain_key td (f k) k) ks (out, ag))) = last_flush_ts ag"
proof (induction ks arbitrary: out ag)
  case (Cons k ks)
  obtain o1 ag1 where d: "drain_key td (f k) k (out, ag) = (o1, ag1)" by fastforce
  then have "last_flush_ts ag1 = last_flush_ts ag"
    by (auto simp: drain_key_def Let_def split: option.splits if_splits)
  then show ?case using Cons.IH[of o1 ag1] d by simp
qed simp

lemma drain_granularity_flush:
  "last_flush_ts (snd (drain_granularity td sid now g (out, ag)))
    = (if due sid now g ag then AList.update (sid, fst g) now (last_flush_ts ag) else last_flush_ts ag)"
  using drain_keys_flush[of td "\<lambda>_. fst (snd g)"]
  by (auto simp: drain_granularity_def due_def Let_def split: option.splits prod.splits)

lemma map_of_deletes: "map_of (fold AList.delete ks m) k = (if k \<in> set ks then None else map_of m k)"
  by (induction ks arbitrary: m) (auto simp: delete_conv')

lemma drain_granularity_get:
  "map_of (buckets (snd (drain_granularity td sid now g (out, ag)))) k
    = (if bk_source_id k = sid \<and> bk_granularity_idx k = fst g \<and> due sid now g ag then None else map_of (buckets ag) k)"
  unfolding drain_granularity_table by (auto simp: map_of_deletes map_of_eq_None_iff)

lemma if_merge: "(if a \<and> q then x else if a \<and> p then x else y) = (if a \<and> (p \<or> q) then x else y)"
  by auto

lemma drain_all:
  assumes "distinct (map fst gs)"
  shows "map_of (buckets (snd (fold (drain_granularity td sid now) gs (out, ag)))) k
      = (if bk_source_id k = sid \<and> (\<exists>g \<in> set gs. fst g = bk_granularity_idx k \<and> due sid now g ag) then None
         else map_of (buckets ag) k)
    \<and> map_of (last_flush_ts (snd (fold (drain_granularity td sid now) gs (out, ag)))) (s, gi)
      = (if s = sid \<and> (\<exists>g \<in> set gs. fst g = gi \<and> due sid now g ag) then Some now
         else map_of (last_flush_ts ag) (s, gi))"
  using assms
proof (induction gs arbitrary: out ag)
  case (Cons g gs)
  obtain o1 ag1 where d: "drain_granularity td sid now g (out, ag) = (o1, ag1)" by fastforce
  have lf: "map_of (last_flush_ts ag1) (s, i) = (if s = sid \<and> i = fst g \<and> due sid now g ag then Some now
      else map_of (last_flush_ts ag) (s, i))" for s i
    using drain_granularity_flush[of td sid now g out ag] d by (auto simp: update_conv')
  have due: "due sid now g' ag1 = due sid now g' ag" if "g' \<in> set gs" for g'
    using lf[of sid "fst g'"] that Cons.prems unfolding due_def by (auto simp: rev_image_eqI)
  have ex: "(\<exists>g' \<in> set gs. fst g' = i \<and> due sid now g' ag1) \<longleftrightarrow> (\<exists>g' \<in> set gs. fst g' = i \<and> due sid now g' ag)" for i
    using due by blast
  have step: "fold (drain_granularity td sid now) (g # gs) (out, ag) = fold (drain_granularity td sid now) gs (o1, ag1)"
    using d by simp
  have "distinct (map fst gs)" using Cons.prems by simp
  note IH = Cons.IH[OF this, of o1 ag1, unfolded ex]
  have get: "map_of (buckets ag1) k = (if bk_source_id k = sid \<and> bk_granularity_idx k = fst g \<and> due sid now g ag
      then None else map_of (buckets ag) k)"
    using drain_granularity_get[of td sid now g out ag k] d by simp
  have split: "(\<exists>g' \<in> set (g # gs). fst g' = i \<and> due sid now g' ag)
      \<longleftrightarrow> i = fst g \<and> due sid now g ag \<or> (\<exists>g' \<in> set gs. fst g' = i \<and> due sid now g' ag)" for i
    by auto
  show ?case unfolding step IH[THEN conjunct1] IH[THEN conjunct2] lf get split by (simp only: if_merge)
qed simp

section \<open>Properties\<close>

text \<open>C12: Nothing is lost or counted twice: over a whole run of a shard, whatever the shared in-
  flight table does between the events and however the drains cut the windows into rows, the
  rows emitted under a storage key (drained ones and those of the final flush) sum to exactly
  the starts, the input and output tokens, the errors and the latency samples of the events
  written under that key.\<close>

theorem metric_rows_complete:
  assumes "16 * length steps < 2 ^ 64"
    and "agg_run td (MetricsAggregator_new m) steps = (out, ag)" and "flush_all td ag = (rest, ag')"
  shows "rows_sum m_call_count K (out @ rest) = writes_sum call_inc K (concat (map event_writes steps))
    \<and> rows_sum m_total_input_tokens K (out @ rest) = writes_sum input_inc K (concat (map event_writes steps))
    \<and> rows_sum m_total_output_tokens K (out @ rest) = writes_sum output_inc K (concat (map event_writes steps))
    \<and> rows_sum m_error_count K (out @ rest) = writes_sum error_inc K (concat (map event_writes steps))
    \<and> rows_sum m_e2e_count K (out @ rest) = writes_sum e2e_inc K (concat (map event_writes steps))"
  using calls.all_rows[OF assms] inputs.all_rows[OF assms] outputs.all_rows[OF assms] errors.all_rows[OF assms]
    latencies.all_rows[OF assms] by blast

theorem metric_rows_complete_witness:
  "\<exists>out ag rest ag'. agg_run sample_td (MetricsAggregator_new (\<lambda>_. 0)) sample_steps = (out, ag)
    \<and> flush_all sample_td ag = (rest, ag')
    \<and> (\<forall>K. rows_sum m_call_count K (out @ rest) = writes_sum call_inc K (concat (map event_writes sample_steps)))"
proof -
  obtain out ag where r: "agg_run sample_td (MetricsAggregator_new (\<lambda>_. 0)) sample_steps = (out, ag)" by fastforce
  obtain rest ag' where f: "flush_all sample_td ag = (rest, ag')" by fastforce
  have "16 * length sample_steps < 2 ^ 64" by (simp add: sample_steps_def)
  from metric_rows_complete[OF this r f] show ?thesis using r f by blast
qed

text \<open>A drain removes exactly the buckets of the source whose granularity is due (a full
  window of event time since its anchor), leaves every other bucket alone, and leaves no
  granularity of the source due.\<close>

theorem drain_exact:
  assumes "maybe_drain td sid now ag = (out, ag')"
  shows "map_of (buckets ag') k
      = (if bk_source_id k = sid \<and> (\<exists>g \<in> set (List.enumerate 0 GRANULARITIES).
            fst g = bk_granularity_idx k \<and> due sid now g ag) then None else map_of (buckets ag) k)
    \<and> (\<forall>g \<in> set (List.enumerate 0 GRANULARITIES). \<not> due sid now g ag')"
proof -
  have ds: "distinct (map fst (List.enumerate 0 GRANULARITIES))" by simp
  note all = drain_all[OF ds, of td sid now "[]" ag, unfolded maybe_drain_def[symmetric], unfolded assms, simplified]
  have "\<not> due sid now g ag'" if g: "g \<in> set (List.enumerate 0 GRANULARITIES)" for g
  proof (cases "due sid now g ag")
    case True
    then have "map_of (last_flush_ts ag') (sid, fst g) = Some now" using all[of _ sid "fst g"] g by auto
    moreover have "0 < snd (snd g)" using g by (auto simp: GRANULARITIES_def enumerate_eq_zip upt_rec)
    ultimately show ?thesis by (simp add: due_def)
  next
    case False
    have "\<not> (\<exists>g' \<in> set (List.enumerate 0 GRANULARITIES). fst g' = fst g \<and> due sid now g' ag)"
      using False g ds by (metis (no_types, lifting) eq_key_imp_eq_value prod.collapse)
    then have "map_of (last_flush_ts ag') (sid, fst g) = map_of (last_flush_ts ag) (sid, fst g)"
      using all[of _ sid "fst g"] by auto
    then show ?thesis using False by (simp add: due_def)
  qed
  then show ?thesis using all[of k] by auto
qed

theorem drain_exact_witness:
  "\<exists>out ag'. maybe_drain sample_td [] 10000000 sample_agg = (out, ag')
    \<and> map_of (buckets ag') (fst (hd (buckets sample_agg))) = None"
proof -
  obtain out ag' where d: "maybe_drain sample_td [] 10000000 sample_agg = (out, ag')" by fastforce
  show ?thesis using drain_exact[OF d, of "fst (hd (buckets sample_agg))"] d
    by (simp add: sample_agg_def GRANULARITIES_def due_def)
qed

end
