(* ===== verification/Write_Buffer.thy ===== *)
theory Write_Buffer
  imports Net
begin

text \<open>
  \<^verbatim>\<open>server/h-storage/src/buffer.rs\<close> and \<^verbatim>\<open>server/h-common/src/throttle.rs\<close>: the consumer that
  batches records by size or time before they are written, and the throttle of its error log.
  One turn of the \<open>select!\<close> loop is a step on an input: a record, the end of the channel, or a
  tick of the interval, whichever the runtime takes first. The write itself is the storage's:
  an input carries its outcome and the time of the throttle's clock. Logging is not modelled.
\<close>

section \<open>Throttle\<close>

record ThrottledWarn =
  tw_interval :: int
  last_emit :: "int option"
  suppressed :: u64

definition ThrottledWarn_new :: "int \<Rightarrow> ThrottledWarn" where
  "ThrottledWarn_new d = \<lparr>tw_interval = d, last_emit = None, suppressed = 0\<rparr>"

text \<open>\<open>duration_since\<close> is zero when the other instant is later.\<close>

definition tick_at :: "int \<Rightarrow> ThrottledWarn \<Rightarrow> u64 option \<times> ThrottledWarn" where
  "tick_at now w =
     (case last_emit w of
        None \<Rightarrow> (Some 0, w\<lparr>last_emit := Some now\<rparr>)
      | Some t \<Rightarrow>
          if max 0 (now - t) \<ge> tw_interval w
          then (Some (suppressed w), w\<lparr>last_emit := Some now, suppressed := 0\<rparr>)
          else (None, w\<lparr>suppressed := sat_add (suppressed w) 1\<rparr>))"

section \<open>Buffer\<close>

definition FLUSH_ERR_WARN_THROTTLE :: int where "FLUSH_ERR_WARN_THROTTLE = 10000000000"

record BufferMetrics =
  bm_buffered :: u64
  bm_flushed :: u64
  bm_errors :: u64

record 'a WriteBuffer =
  batch_size :: nat
  wb_metrics :: "BufferMetrics option"
  err_throttle :: ThrottledWarn

definition WriteBuffer_new :: "nat \<Rightarrow> BufferMetrics option \<Rightarrow> 'a WriteBuffer" where
  "WriteBuffer_new n m = \<lparr>batch_size = n, wb_metrics = m, err_throttle = ThrottledWarn_new FLUSH_ERR_WARN_THROTTLE\<rparr>"

datatype 'a buffer_input = Recv 'a | RecvClosed | IntervalTick

datatype flush_trigger = BySize | ByTime | ByShutdown

text \<open>What the world does during a turn: the outcome of the write, if one is made, and the clock.\<close>

record flush_env =
  write_ok :: bool
  clock_ns :: int

definition set_buffered :: "nat \<Rightarrow> 'a WriteBuffer \<Rightarrow> 'a WriteBuffer" where
  "set_buffered n w = w\<lparr>wb_metrics := map_option (\<lambda>m. m\<lparr>bm_buffered := of_nat n\<rparr>) (wb_metrics w)\<rparr>"

definition buffer_flush :: "flush_env \<Rightarrow> 'a list \<Rightarrow> 'a WriteBuffer \<Rightarrow> 'a WriteBuffer" where
  "buffer_flush env b w =
     (if write_ok env
      then w\<lparr>wb_metrics := map_option (\<lambda>m. m\<lparr>bm_flushed := bm_flushed m + of_nat (length b)\<rparr>) (wb_metrics w)\<rparr>
      else w\<lparr>wb_metrics := map_option (\<lambda>m. m\<lparr>bm_errors := bm_errors m + 1\<rparr>) (wb_metrics w),
             err_throttle := snd (tick_at (clock_ns env) (err_throttle w))\<rparr>)"

datatype 'a buffer_state = Running "'a list" | Stopped

text \<open>A turn: the new state of the loop and the batch handed to the storage, if any.\<close>

fun buffer_step :: "'a WriteBuffer \<Rightarrow> 'a list \<Rightarrow> flush_env \<times> 'a buffer_input \<Rightarrow>
    'a WriteBuffer \<times> 'a buffer_state \<times> (flush_trigger \<times> 'a list) option" where
  "buffer_step w b (env, Recv x) =
     (let b' = b @ [x]; w1 = set_buffered (length b') w in
      if length b' \<ge> batch_size w
      then (set_buffered 0 (buffer_flush env b' w1), Running [], Some (BySize, b'))
      else (w1, Running b', None))"
| "buffer_step w b (env, RecvClosed) =
     (if b \<noteq> [] then (set_buffered 0 (buffer_flush env b w), Stopped, Some (ByShutdown, b))
      else (w, Stopped, None))"
| "buffer_step w b (env, IntervalTick) =
     (if b \<noteq> [] then (set_buffered 0 (buffer_flush env b w), Running [], Some (ByTime, b))
      else (w, Running [], None))"

fun buffer_run :: "'a WriteBuffer \<Rightarrow> 'a list \<Rightarrow> (flush_env \<times> 'a buffer_input) list \<Rightarrow>
    'a WriteBuffer \<times> 'a buffer_state \<times> (bool \<times> 'a list) list" where
  "buffer_run w b [] = (w, Running b, [])"
| "buffer_run w b (i # is) =
     (let (w1, s, fl) = buffer_step w b i;
          written = (case fl of Some (_, batch) \<Rightarrow> [(write_ok (fst i), batch)] | None \<Rightarrow> [])
      in case s of
           Stopped \<Rightarrow> (w1, Stopped, written)
         | Running b1 \<Rightarrow> (let (w2, s2, out) = buffer_run w1 b1 is in (w2, s2, written @ out)))"

section \<open>Specification\<close>

fun received :: "(flush_env \<times> 'a buffer_input) list \<Rightarrow> 'a list" where
  "received [] = []"
| "received ((_, Recv x) # is) = x # received is"
| "received ((_, RecvClosed) # is) = []"
| "received ((_, IntervalTick) # is) = received is"

fun pending_of :: "'a buffer_state \<Rightarrow> 'a list" where
  "pending_of (Running b) = b"
| "pending_of Stopped = []"

definition written_ok :: "(bool \<times> 'a list) list \<Rightarrow> nat" where
  "written_ok out = sum_list (map (\<lambda>(ok, b). if ok then length b else 0) out)"

definition written_bad :: "(bool \<times> 'a list) list \<Rightarrow> nat" where
  "written_bad out = length (filter (\<lambda>e. \<not> fst e) out)"

text \<open>Log events of a throttle over a sequence of ticks.\<close>

fun throttle_run :: "ThrottledWarn \<Rightarrow> int list \<Rightarrow> ThrottledWarn \<times> (int \<times> u64) list" where
  "throttle_run w [] = (w, [])"
| "throttle_run w (t # ts) =
     (let (r, w1) = tick_at t w; (w2, out) = throttle_run w1 ts
      in (w2, (case r of Some n \<Rightarrow> [(t, n)] | None \<Rightarrow> []) @ out))"

section \<open>Lemmas\<close>

lemma batch_size_set [simp]: "batch_size (set_buffered n w) = batch_size w"
  by (simp add: set_buffered_def)

lemma batch_size_flush [simp]: "batch_size (buffer_flush env b w) = batch_size w"
  by (simp add: buffer_flush_def)

lemma buffer_step_shape:
  assumes "buffer_step w b i = (w1, s, fl)"
  shows "batch_size w1 = batch_size w
    \<and> b @ received [i] = (case fl of Some (_, x) \<Rightarrow> x | None \<Rightarrow> []) @ pending_of s
    \<and> (s = Stopped \<longleftrightarrow> snd i = RecvClosed)
    \<and> (length b < max 1 (batch_size w) \<longrightarrow>
        (case fl of Some (_, x) \<Rightarrow> x \<noteq> [] \<and> length x \<le> max 1 (batch_size w) | None \<Rightarrow> True)
        \<and> length (pending_of s) < max 1 (batch_size w))"
  using assms by (cases i; cases "snd i") (auto simp: Let_def split: if_splits)

lemma buffer_run_shape:
  assumes "buffer_run w b is = (w', s, out)" "length b < max 1 (batch_size w)"
  shows "b @ received is = concat (map snd out) @ pending_of s
    \<and> list_all (\<lambda>(_, x). x \<noteq> [] \<and> length x \<le> max 1 (batch_size w)) out
    \<and> (s = Stopped \<longleftrightarrow> RecvClosed \<in> snd ` set is)"
  using assms
proof (induction "is" arbitrary: w b s out w')
  case (Cons i "is")
  obtain w1 s1 fl where st: "buffer_step w b i = (w1, s1, fl)" by (metis prod_cases3)
  note sh = buffer_step_shape[OF st]
  show ?case
  proof (cases s1)
    case Stopped
    then have "snd i = RecvClosed" using sh by blast
    moreover from this have "received (i # is) = []" by (cases i) simp
    ultimately show ?thesis using Cons.prems sh st Stopped
      by (cases i) (auto simp: Let_def split: option.splits)
  next
    case (Running b1)
    obtain w2 s2 out2 where r: "buffer_run w1 b1 is = (w2, s2, out2)" by (metis prod_cases3)
    have ni: "snd i \<noteq> RecvClosed" "received (i # is) = received [i] @ received is"
      using sh Running by (cases i; cases "snd i"; auto)+
    have len: "length b1 < max 1 (batch_size w1)" using sh Running Cons.prems(2) by simp
    note IH = Cons.IH[OF r len]
    have out: "out = (case fl of Some (_, x) \<Rightarrow> [(write_ok (fst i), x)] | None \<Rightarrow> []) @ out2" "s = s2"
      using Cons.prems(1) st Running r by (auto simp: Let_def)
    have "b @ received [i] = (case fl of Some (_, x) \<Rightarrow> x | None \<Rightarrow> []) @ b1" using sh Running by simp
    then have "(b @ received [i]) @ received is = concat (map snd out) @ pending_of s"
      using IH out by (simp split: option.splits)
    then have "b @ received (i # is) = concat (map snd out) @ pending_of s" using ni(2) by simp
    moreover have "RecvClosed \<in> snd ` set (i # is) \<longleftrightarrow> RecvClosed \<in> snd ` set is" using ni(1) by auto
    ultimately show ?thesis using IH sh out Cons.prems(2) by (auto split: option.splits)
  qed
qed simp

lemma step_metrics:
  assumes "buffer_step w b i = (w1, s, fl)" "wb_metrics w = Some m"
  shows "\<exists>m1. wb_metrics w1 = Some m1
    \<and> bm_flushed m1 = bm_flushed m + of_nat (written_ok (case fl of Some (_, x) \<Rightarrow> [(write_ok (fst i), x)] | None \<Rightarrow> []))
    \<and> bm_errors m1 = bm_errors m + of_nat (written_bad (case fl of Some (_, x) \<Rightarrow> [(write_ok (fst i), x)] | None \<Rightarrow> []))
    \<and> (bm_buffered m = of_nat (length b) \<longrightarrow> bm_buffered m1 = of_nat (length (pending_of s)))"
  using assms by (cases i; cases "snd i")
    (auto simp: Let_def set_buffered_def buffer_flush_def written_ok_def written_bad_def split: if_splits)

lemma written_append:
  "written_ok (a @ c) = written_ok a + written_ok c" "written_bad (a @ c) = written_bad a + written_bad c"
  by (simp_all add: written_ok_def written_bad_def)

lemma run_metrics:
  assumes "buffer_run w b is = (w', s, out)" "wb_metrics w = Some m" "bm_buffered m = of_nat (length b)"
  shows "\<exists>m'. wb_metrics w' = Some m' \<and> bm_flushed m' = bm_flushed m + of_nat (written_ok out)
    \<and> bm_errors m' = bm_errors m + of_nat (written_bad out) \<and> bm_buffered m' = of_nat (length (pending_of s))"
  using assms
proof (induction "is" arbitrary: w b m s out w')
  case (Cons i "is")
  obtain w1 s1 fl where st: "buffer_step w b i = (w1, s1, fl)" by (metis prod_cases3)
  obtain m1 where m1: "wb_metrics w1 = Some m1"
    "bm_flushed m1 = bm_flushed m + of_nat (written_ok (case fl of Some (_, x) \<Rightarrow> [(write_ok (fst i), x)] | None \<Rightarrow> []))"
    "bm_errors m1 = bm_errors m + of_nat (written_bad (case fl of Some (_, x) \<Rightarrow> [(write_ok (fst i), x)] | None \<Rightarrow> []))"
    "bm_buffered m1 = of_nat (length (pending_of s1))"
    using step_metrics[OF st Cons.prems(2)] Cons.prems(3) by blast
  show ?case
  proof (cases s1)
    case Stopped
    then show ?thesis using Cons.prems(1) st m1 by (auto simp: Let_def)
  next
    case (Running b1)
    obtain w2 s2 out2 where r: "buffer_run w1 b1 is = (w2, s2, out2)" by (metis prod_cases3)
    have out: "out = (case fl of Some (_, x) \<Rightarrow> [(write_ok (fst i), x)] | None \<Rightarrow> []) @ out2" "s = s2" "w' = w2"
      using Cons.prems(1) st Running r by (auto simp: Let_def)
    obtain m2 where "wb_metrics w2 = Some m2" "bm_flushed m2 = bm_flushed m1 + of_nat (written_ok out2)"
      "bm_errors m2 = bm_errors m1 + of_nat (written_bad out2)" "bm_buffered m2 = of_nat (length (pending_of s2))"
      using Cons.IH[OF r m1(1)] m1(4) Running by auto
    then show ?thesis using m1 out by (auto simp: written_append algebra_simps)
  qed
qed (simp add: written_ok_def written_bad_def)

lemma tick_interval: "tw_interval (snd (tick_at t w)) = tw_interval w"
  by (simp add: tick_at_def split: option.splits)

lemma tick_accounts:
  assumes "tick_at t w = (r, w1)" "unat (suppressed w) + 1 < 2 ^ 64" "last_emit w = None \<longrightarrow> suppressed w = 0"
  shows "(case r of Some n \<Rightarrow> 1 + unat n | None \<Rightarrow> 0) + unat (suppressed w1) = 1 + unat (suppressed w)
    \<and> last_emit w1 \<noteq> None"
  using assms by (auto simp: tick_at_def sat_add_def unat_word_ariths split: option.splits if_splits)

lemma throttle_sum:
  assumes "throttle_run w ts = (w', out)" "unat (suppressed w) + length ts < 2 ^ 64" "last_emit w = None \<longrightarrow> suppressed w = 0"
  shows "length out + sum_list (map (\<lambda>e. unat (snd e)) out) + unat (suppressed w') = length ts + unat (suppressed w)"
  using assms
proof (induction ts arbitrary: w out w')
  case (Cons t ts)
  obtain r w1 where k: "tick_at t w = (r, w1)" by fastforce
  obtain w2 out2 where r2: "throttle_run w1 ts = (w2, out2)" by fastforce
  have "unat (suppressed w) + 1 < 2 ^ 64" using Cons.prems(2) by simp
  note a = tick_accounts[OF k this Cons.prems(3)]
  have "unat (suppressed w1) + length ts < 2 ^ 64" using a Cons.prems(2) by (auto split: option.splits)
  note IH = Cons.IH[OF r2 this]
  have "out = (case r of Some n \<Rightarrow> [(t, n)] | None \<Rightarrow> []) @ out2" "w' = w2" using Cons.prems(1) k r2 by auto
  then show ?case using a IH by (auto split: option.splits)
qed simp

lemma throttle_gap:
  assumes "throttle_run w ts = (w', out)" "sorted ts" "last_emit w = Some t0" "\<forall>t \<in> set ts. t0 \<le> t"
  shows "successively (\<lambda>a b. b - a \<ge> tw_interval w) (t0 # map fst out)"
  using assms
proof (induction ts arbitrary: w t0 out)
  case (Cons t ts)
  obtain r w1 where k: "tick_at t w = (r, w1)" by fastforce
  obtain w2 out2 where r2: "throttle_run w1 ts = (w2, out2)" by fastforce
  have iv: "tw_interval w1 = tw_interval w" using tick_interval[of t w] k by simp
  have out: "out = (case r of Some n \<Rightarrow> [(t, n)] | None \<Rightarrow> []) @ out2" using Cons.prems(1) k r2 by auto
  show ?case
  proof (cases r)
    case None
    then have "last_emit w1 = Some t0" using k Cons.prems(3) by (auto simp: tick_at_def split: if_splits)
    then show ?thesis using Cons.IH[OF _ _ \<open>last_emit w1 = Some t0\<close>, of out2] Cons.prems(2,4) r2 None out iv
      by (cases "throttle_run w1 ts") (use Cons.prems(1) k in \<open>auto\<close>)
  next
    case (Some n)
    then have l: "last_emit w1 = Some t" and g: "t - t0 \<ge> tw_interval w"
      using k Cons.prems(3,4) by (auto simp: tick_at_def max_def split: if_splits)
    have "w' = w2" using Cons.prems(1) k r2 by auto
    then have "successively (\<lambda>a b. b - a \<ge> tw_interval w1) (t # map fst out2)"
      using Cons.IH[OF _ _ l, of out2] r2 Cons.prems(2) by auto
    then show ?thesis using g iv out Some by simp
  qed
qed simp

section \<open>Properties\<close>

text \<open>C39: Nothing is lost before the storage: whatever the arrivals, ticks and write outcomes, the
  batches handed to the storage, in order, followed by what is still held back, are exactly
  the records received; every batch is non-empty and at most the batch size; a closed channel
  leaves nothing held back; and the three metrics are the number held back, the records
  written and the writes that failed.\<close>

theorem write_buffer_batches:
  assumes "buffer_run (WriteBuffer_new n (Some \<lparr>bm_buffered = 0, bm_flushed = 0, bm_errors = 0\<rparr>)) [] is = (w, s, out)"
  shows "received is = concat (map snd out) @ pending_of s
    \<and> list_all (\<lambda>(_, x). x \<noteq> [] \<and> length x \<le> max 1 n) out
    \<and> (s = Stopped \<longleftrightarrow> RecvClosed \<in> snd ` set is)
    \<and> wb_metrics w = Some \<lparr>bm_buffered = of_nat (length (pending_of s)), bm_flushed = of_nat (written_ok out),
        bm_errors = of_nat (written_bad out)\<rparr>"
  using buffer_run_shape[OF assms] run_metrics[OF assms, simplified WriteBuffer_new_def, simplified]
  by (auto simp: WriteBuffer_new_def)

theorem write_buffer_batches_witness:
  "\<exists>w s out. buffer_run (WriteBuffer_new 2 (Some \<lparr>bm_buffered = 0, bm_flushed = 0, bm_errors = 0\<rparr>)) []
      [(\<lparr>write_ok = True, clock_ns = 0\<rparr>, Recv (1 :: nat)), (\<lparr>write_ok = False, clock_ns = 0\<rparr>, Recv 2),
       (\<lparr>write_ok = True, clock_ns = 0\<rparr>, Recv 3), (\<lparr>write_ok = True, clock_ns = 0\<rparr>, RecvClosed)] = (w, s, out)
    \<and> concat (map snd out) @ pending_of s = [1, 2, 3] \<and> s = Stopped"
proof -
  let ?is = "[(\<lparr>write_ok = True, clock_ns = 0\<rparr>, Recv (1 :: nat)), (\<lparr>write_ok = False, clock_ns = 0\<rparr>, Recv 2),
       (\<lparr>write_ok = True, clock_ns = 0\<rparr>, Recv 3), (\<lparr>write_ok = True, clock_ns = 0\<rparr>, RecvClosed)]"
  obtain w s out where r: "buffer_run (WriteBuffer_new 2 (Some \<lparr>bm_buffered = 0, bm_flushed = 0, bm_errors = 0\<rparr>)) [] ?is
      = (w, s, out)" by (metis prod_cases3)
  show ?thesis using write_buffer_batches[OF r] r by auto
qed

text \<open>The throttle accounts for every event: log lines, the suppressed events they report and
  those still held back add up to the events, and consecutive log lines are at least the
  interval apart.\<close>

theorem throttle_accounts:
  assumes "throttle_run (ThrottledWarn_new d) ts = (w, out)" and "sorted ts" and "length ts < 2 ^ 64"
  shows "length out + sum_list (map (\<lambda>e. unat (snd e)) out) + unat (suppressed w) = length ts
    \<and> successively (\<lambda>a b. b - a \<ge> d) (map fst out)"
proof -
  have "successively (\<lambda>a b. b - a \<ge> d) (map fst out)"
  proof (cases ts)
    case (Cons t ts')
    let ?w = "ThrottledWarn_new d\<lparr>last_emit := Some t\<rparr>"
    obtain out' where "throttle_run ?w ts' = (w, out')" "out = (t, 0) # out'"
      using assms(1) Cons by (auto simp: tick_at_def ThrottledWarn_new_def split: prod.splits)
    then show ?thesis using throttle_gap[of ?w ts' w out' t] assms(2) Cons by (simp add: ThrottledWarn_new_def)
  qed (use assms(1) in simp)
  then show ?thesis using throttle_sum[OF assms(1)] assms(3) by (simp add: ThrottledWarn_new_def)
qed

theorem throttle_accounts_witness:
  "\<exists>w out. throttle_run (ThrottledWarn_new 10) [0, 3, 12, 15] = (w, out)
    \<and> length out + sum_list (map (\<lambda>e. unat (snd e)) out) + unat (suppressed w) = 4"
proof -
  obtain w out where r: "throttle_run (ThrottledWarn_new 10) [0, 3, 12, 15] = (w, out)" by fastforce
  show ?thesis using throttle_accounts[OF r] r by simp
qed

end
