(* ===== verification/Turn.thy ===== *)
theory Turn
  imports Llm
begin

text \<open>
  \<^verbatim>\<open>server/h-turn/src/tracker.rs\<close> with the records of \<^verbatim>\<open>model.rs\<close>: calls of an agent session are
  buffered by request time until a main-agent terminal call has been there for the grace
  period, then the buffer is cut at the terminals and every part becomes one turn, or is
  discarded. The \<open>uuid\<close> crate is a parameter: the identifiers it mints, in order. Wall-clock
  instants and durations are nanoseconds; event times are microseconds. The loop of
  \<open>finalize_session\<close> has fuel, one more than the number of buffered request times;
  \<open>finalize_loop_parts\<close> shows that this is enough. The empty \<open>metadata\<close> object of a trace has no
  field here, and a lock of the shared registry that another thread poisoned is not modelled.
\<close>

section \<open>Records\<close>

datatype TraceStatus = InProgress | CompleteTurn | IncompleteTurn

record SuspiciousSkillRollup =
  sk_tool_name :: string
  sk_reason :: string

record Trace =
  tr_source_id :: string
  tr_turn_id :: string
  tr_session_id :: string
  tr_wire_api :: string
  tr_agent_kind :: string
  tr_client_ip :: IpAddr
  tr_server_ip :: IpAddr
  tr_start_time_us :: int
  tr_end_time_us :: int
  tr_duration_ms :: u64
  tr_call_count :: u32
  tr_models_used :: "string list"
  tr_subagents_used :: "string list"
  tr_total_input_tokens :: u64
  tr_total_output_tokens :: u64
  tr_total_cache_read_input_tokens :: u64
  tr_total_cache_creation_input_tokens :: u64
  tr_total_cost_usd :: "f64 option"
  tr_status :: TraceStatus
  tr_final_finish_reason :: "string option"
  tr_user_input_preview :: "string option"
  tr_user_call_id :: "string option"
  tr_final_answer_preview :: "string option"
  tr_final_call_id :: "string option"
  tr_span_ids :: "string list"
  tr_tool_surfaces :: "ToolSurface list"
  tr_tool_call_total :: u32
  tr_agent_topology :: "AgentTopology option"
  tr_suspicious_skills :: "SuspiciousSkillRollup list"

record TrackerConfig =
  idle_timeout_us :: int
  sweep_interval_us :: int
  grace :: int

definition TrackerConfig_default :: TrackerConfig where
  "TrackerConfig_default = \<lparr>idle_timeout_us = 600000000, sweep_interval_us = 10000000, grace = 1000000000\<rparr>"

datatype TurnEvent = Completed Trace

record BufferedCall =
  bc_ic :: AgentCall
  arrived_at_wall :: int
  is_terminal :: bool

record SessionBuffer =
  sb_pending :: "(int \<times> BufferedCall list) list"
  grace_started_at_wall :: "int option"
  last_finalized_request_time :: "int option"
  sb_last_activity_us :: int
  current_turn_id :: "string option"

definition SessionBuffer_default :: SessionBuffer where
  "SessionBuffer_default = \<lparr>sb_pending = [], grace_started_at_wall = None, last_finalized_request_time = None,
     sb_last_activity_us = 0, current_turn_id = None\<rparr>"

type_synonym session_key = "string \<times> string"

record TurnTracker =
  tk_config :: TrackerConfig
  tk_buffers :: "(session_key \<times> SessionBuffer) list"
  virtual_now_by_source :: "(string \<times> int) list"
  last_sweep_us :: int
  tk_metrics :: "TurnMetric MetricsWorker"
  active_registry :: "(string \<times> Trace) list option"
  minted :: nat

definition TurnTracker_new :: "TrackerConfig \<Rightarrow> TurnMetric MetricsWorker \<Rightarrow> (string \<times> Trace) list option \<Rightarrow> TurnTracker" where
  "TurnTracker_new cfg m reg = \<lparr>tk_config = cfg, tk_buffers = [], virtual_now_by_source = [], last_sweep_us = 0,
     tk_metrics = m, active_registry = reg, minted = 0\<rparr>"

section \<open>Building a turn\<close>

definition FINAL_ANSWER_PREVIEW_CHARS :: nat where "FINAL_ANSWER_PREVIEW_CHARS = 500"
definition USER_INPUT_PREVIEW_CHARS :: nat where "USER_INPUT_PREVIEW_CHARS = 500"

definition ellipsis :: string where "ellipsis = [CHR 0xE2, CHR 0x80, CHR 0xA6]"

definition truncate_preview :: "string \<Rightarrow> nat \<Rightarrow> string" where
  "truncate_preview s n =
     (if length (utf8_chars s) \<le> n then s else concat (take n (utf8_chars s)) @ ellipsis)"

definition push_unique :: "string \<Rightarrow> string list \<Rightarrow> string list" where
  "push_unique v xs = (if v \<in> set xs then xs else xs @ [v])"

definition main_agent :: "AgentCall \<Rightarrow> bool" where
  "main_agent ic \<longleftrightarrow> ai_subagent_name (ac_agent ic) = None"

definition main_agent_terminal :: "AgentCall \<Rightarrow> bool" where
  "main_agent_terminal ic \<longleftrightarrow> main_agent ic \<and> ai_is_turn_terminal (ac_agent ic)"

definition main_agent_user_turn_start :: "AgentCall \<Rightarrow> bool" where
  "main_agent_user_turn_start ic \<longleftrightarrow> main_agent ic \<and> ai_is_user_turn_start (ac_agent ic) = Some True"

definition partition_has_pid_attribution :: "AgentCall list \<Rightarrow> bool" where
  "partition_has_pid_attribution calls = list_ex (\<lambda>ic. main_agent ic \<and> lc_process (ac_call ic) \<noteq> None) calls"

definition call_end_time :: "AgentCall \<Rightarrow> int" where
  "call_end_time ic =
     (case lc_complete_time (ac_call ic) of
        Some t \<Rightarrow> t
      | None \<Rightarrow> (case lc_response_time (ac_call ic) of Some t \<Rightarrow> t | None \<Rightarrow> lc_request_time (ac_call ic)))"

definition sum_tokens :: "(LlmCall \<Rightarrow> u32 option) \<Rightarrow> AgentCall list \<Rightarrow> u64" where
  "sum_tokens f calls = fold (\<lambda>ic t. case f (ac_call ic) of Some n \<Rightarrow> t + ucast n | None \<Rightarrow> t) calls 0"

definition user_pick :: "AgentCall list \<Rightarrow> AgentCall option" where
  "user_pick calls =
     (case find main_agent_user_turn_start calls of
        Some ic \<Rightarrow> Some ic
      | None \<Rightarrow> find (\<lambda>ic. main_agent ic \<and> ai_user_input (ac_agent ic) \<noteq> None) calls)"

definition user_fields :: "AgentCall list \<Rightarrow> string option \<times> string option" where
  "user_fields calls =
     (case user_pick calls of
        None \<Rightarrow> (None, None)
      | Some ic \<Rightarrow>
          (case ai_user_input (ac_agent ic) of
             None \<Rightarrow> (None, None)
           | Some text \<Rightarrow> (Some (truncate_preview text USER_INPUT_PREVIEW_CHARS), Some (lc_id (ac_call ic)))))"

definition terminal_pick :: "AgentCall list \<Rightarrow> AgentCall option" where
  "terminal_pick calls = find main_agent_terminal (rev calls)"

fun topology_rank :: "AgentTopology \<Rightarrow> nat" where
  "topology_rank Orchestrator = 2"
| "topology_rank SubAgent = 1"
| "topology_rank SingleAgent = 0"

definition topology_step :: "AgentCall \<Rightarrow> nat \<times> AgentTopology option \<Rightarrow> nat \<times> AgentTopology option" where
  "topology_step ic st =
     (case ai_agent_topology (ac_agent ic) of
        None \<Rightarrow> st
      | Some t \<Rightarrow> if topology_rank t \<ge> fst st then (topology_rank t, Some t) else st)"

text \<open>The order in which a set of tool surfaces (a \<open>BTreeSet\<close>) iterates.\<close>

definition surfaces_of :: "AgentCall list \<Rightarrow> ToolSurface list" where
  "surfaces_of calls = filter (\<lambda>s. Some s \<in> set (map (\<lambda>ic. ai_tool_surface (ac_agent ic)) calls))
     [FunctionCall, Mcp, Cli, Mixed, Unknown]"

definition suspicious_of :: "AgentCall list \<Rightarrow> SuspiciousSkillRollup list" where
  "suspicious_of calls = concat (map (\<lambda>ic. map (\<lambda>sig. case sig of UnknownToolName name \<Rightarrow>
     \<lparr>sk_tool_name = name, sk_reason = ''unknown_tool_name''\<rparr>) (ai_suspicious_signals (ac_agent ic))) calls)"

fun retain_first :: "string list \<Rightarrow> SuspiciousSkillRollup list \<Rightarrow> SuspiciousSkillRollup list" where
  "retain_first seen [] = []"
| "retain_first seen (s # ss) =
     (if sk_tool_name s \<in> set seen then retain_first seen ss
      else s # retain_first (sk_tool_name s # seen) ss)"

text \<open>\<open>build_turn\<close> on the calls \<open>first # rest\<close> with the turn's identifier.\<close>

definition build_turn :: "AgentCall \<Rightarrow> AgentCall list \<Rightarrow> string \<Rightarrow> TraceStatus option \<Rightarrow> Trace" where
  "build_turn first rest turn_id status_override =
     (let calls = first # rest; c = ac_call first;
          end_time = fold (\<lambda>ic t. max t (call_end_time ic)) rest (call_end_time first);
          terminal = terminal_pick calls
      in \<lparr>tr_source_id = lc_source_id c, tr_turn_id = turn_id, tr_session_id = ai_session_id (ac_agent first),
          tr_wire_api = lc_wire_api c, tr_agent_kind = ai_agent_kind (ac_agent first),
          tr_client_ip = lc_client_ip c, tr_server_ip = lc_server_ip c,
          tr_start_time_us = lc_request_time c, tr_end_time_us = end_time,
          tr_duration_ms = of_int (max 0 (end_time - lc_request_time c) div 1000),
          tr_call_count = of_nat (length calls),
          tr_models_used = fold (\<lambda>ic. push_unique (lc_model (ac_call ic))) calls [],
          tr_subagents_used = fold (\<lambda>ic xs. case ai_subagent_name (ac_agent ic) of
             Some sa \<Rightarrow> push_unique sa xs | None \<Rightarrow> xs) calls [],
          tr_total_input_tokens = sum_tokens lc_input_tokens calls,
          tr_total_output_tokens = sum_tokens lc_output_tokens calls,
          tr_total_cache_read_input_tokens = sum_tokens lc_cache_read_input_tokens calls,
          tr_total_cache_creation_input_tokens = sum_tokens lc_cache_creation_input_tokens calls,
          tr_total_cost_usd = None,
          tr_status = (case status_override of Some s \<Rightarrow> s
             | None \<Rightarrow> (case terminal of Some _ \<Rightarrow> CompleteTurn | None \<Rightarrow> IncompleteTurn)),
          tr_final_finish_reason = (case terminal of Some ic \<Rightarrow> lc_finish_reason (ac_call ic) | None \<Rightarrow> None),
          tr_user_input_preview = fst (user_fields calls), tr_user_call_id = snd (user_fields calls),
          tr_final_answer_preview = (case terminal of
             Some ic \<Rightarrow> map_option (\<lambda>t. truncate_preview t FINAL_ANSWER_PREVIEW_CHARS) (ai_assistant_text (ac_agent ic))
           | None \<Rightarrow> None),
          tr_final_call_id = (case terminal of Some ic \<Rightarrow> Some (lc_id (ac_call ic)) | None \<Rightarrow> None),
          tr_span_ids = map (\<lambda>ic. lc_id (ac_call ic)) calls,
          tr_tool_surfaces = surfaces_of calls,
          tr_tool_call_total = fold (\<lambda>ic n. sat_add n (ai_tool_call_count (ac_agent ic))) calls 0,
          tr_agent_topology = snd (fold topology_step calls (0, None)),
          tr_suspicious_skills = retain_first [] (suspicious_of calls)\<rparr>)"

section \<open>Finalizing\<close>

text \<open>What the finalizing functions thread through: the identifiers minted so far, the counters and the
  events.\<close>

record turn_out =
  to_minted :: nat
  to_metrics :: "TurnMetric MetricsWorker"
  to_events :: "TurnEvent list"

datatype FinalizeKind = Idle_kind | Flush_kind

definition kept :: "AgentCall list \<Rightarrow> bool" where
  "kept calls \<longleftrightarrow> list_ex main_agent_user_turn_start calls \<or> partition_has_pid_attribution calls"

definition emit_or_discard :: "(nat \<Rightarrow> string) \<Rightarrow> session_key \<Rightarrow> BufferedCall list \<Rightarrow> string option \<Rightarrow> FinalizeKind \<Rightarrow>
    turn_out \<Rightarrow> bool \<times> turn_out" where
  "emit_or_discard uuid key calls turn_id kind out =
     (case map bc_ic calls of
        [] \<Rightarrow> (False, out)
      | first # rest \<Rightarrow>
          (let has_user_start = list_ex main_agent_user_turn_start (first # rest);
               kept_by_pid = (\<not> has_user_start \<and> partition_has_pid_attribution (first # rest));
               m1 = (if kept_by_pid then metric_inc TurnKeptByPidAttribution (to_metrics out) else to_metrics out)
           in if \<not> (has_user_start \<or> kept_by_pid)
              then (False, out\<lparr>to_metrics := metric_inc TurnDiscardedNoUserStart m1\<rparr>)
              else
                (let (tid, n) = (case turn_id of Some t \<Rightarrow> (t, to_minted out)
                                 | None \<Rightarrow> (uuid (to_minted out), Suc (to_minted out)));
                     turn = (build_turn first rest tid None)\<lparr>tr_source_id := fst key, tr_session_id := snd key\<rparr>;
                     m2 = metric_inc TurnsCompleted m1;
                     m3 = (case kind of Idle_kind \<Rightarrow> metric_inc TurnClosedByIdle m2 | Flush_kind \<Rightarrow> m2)
                 in (True, \<lparr>to_minted = n, to_metrics = m3, to_events = to_events out @ [Completed turn]\<rparr>))))"

definition pending_calls :: "SessionBuffer \<Rightarrow> BufferedCall list" where
  "pending_calls b = concat (map snd (sb_pending b))"

definition bc_time :: "BufferedCall \<Rightarrow> int" where
  "bc_time bc = lc_request_time (ac_call (bc_ic bc))"

text \<open>\<open>duration_since\<close> is zero when the other instant is later.\<close>

definition in_grace :: "int \<Rightarrow> int \<Rightarrow> int \<Rightarrow> bool" where
  "in_grace g now started \<longleftrightarrow> max 0 (now - started) < g"

fun finalize_loop :: "(nat \<Rightarrow> string) \<Rightarrow> session_key \<Rightarrow> int \<Rightarrow> int \<Rightarrow> nat \<Rightarrow> SessionBuffer \<times> turn_out \<Rightarrow>
    SessionBuffer \<times> turn_out" where
  "finalize_loop uuid key now g 0 st = st"
| "finalize_loop uuid key now g (Suc fuel) (buf, out) =
     (let sorted = sort_key bc_time (pending_calls buf) in
      case find is_terminal sorted of
        None \<Rightarrow> (buf\<lparr>grace_started_at_wall := None\<rparr>, out)
      | Some t \<Rightarrow>
          if in_grace g now (arrived_at_wall t)
          then (buf\<lparr>grace_started_at_wall := Some (arrived_at_wall t)\<rparr>, out)
          else
            (let turn_calls = concat (map snd (filter (\<lambda>e. fst e \<le> bc_time t) (sb_pending buf)));
                 buf1 = buf\<lparr>sb_pending := filter (\<lambda>e. \<not> fst e \<le> bc_time t) (sb_pending buf), current_turn_id := None\<rparr>;
                 (emitted, out1) = emit_or_discard uuid key turn_calls (current_turn_id buf) Flush_kind out;
                 out2 = (if emitted then out1\<lparr>to_metrics := metric_inc TurnClosedByGrace (to_metrics out1)\<rparr> else out1)
             in finalize_loop uuid key now g fuel
                  (buf1\<lparr>last_finalized_request_time := Some (bc_time t)\<rparr>, out2)))"

definition finalize_session :: "(nat \<Rightarrow> string) \<Rightarrow> session_key \<Rightarrow> int \<Rightarrow> int \<Rightarrow> SessionBuffer \<times> turn_out \<Rightarrow>
    SessionBuffer \<times> turn_out" where
  "finalize_session uuid key now g st = finalize_loop uuid key now g (Suc (length (sb_pending (fst st)))) st"

section \<open>The tracker\<close>

definition tracker_out :: "TurnTracker \<Rightarrow> TurnEvent list \<Rightarrow> turn_out" where
  "tracker_out tk evs = \<lparr>to_minted = minted tk, to_metrics = tk_metrics tk, to_events = evs\<rparr>"

text \<open>Run an operation on one buffer and put back what it changed.\<close>

definition on_buffer :: "session_key \<Rightarrow> (SessionBuffer \<times> turn_out \<Rightarrow> SessionBuffer \<times> turn_out) \<Rightarrow>
    TurnTracker \<times> TurnEvent list \<Rightarrow> TurnTracker \<times> TurnEvent list" where
  "on_buffer key f st =
     (let (tk, evs) = st in
      case map_of (tk_buffers tk) key of
        None \<Rightarrow> st
      | Some buf \<Rightarrow>
          (let (buf', out) = f (buf, tracker_out tk evs)
           in (tk\<lparr>tk_buffers := AList.update key buf' (tk_buffers tk), tk_metrics := to_metrics out,
                  minted := to_minted out\<rparr>, to_events out)))"

definition source_now :: "TurnTracker \<Rightarrow> string \<Rightarrow> int" where
  "source_now tk sid = (case map_of (virtual_now_by_source tk) sid of Some t \<Rightarrow> t | None \<Rightarrow> 0)"

definition active_count :: "TurnTracker \<Rightarrow> nat" where
  "active_count tk = sum_list (map (\<lambda>(_, b). sum_list (map (\<lambda>(_, v). length v) (sb_pending b))) (tk_buffers tk))"

definition bump_event_time :: "string \<Rightarrow> int \<Rightarrow> TurnTracker \<Rightarrow> int \<times> TurnTracker" where
  "bump_event_time sid ts tk =
     (let t = max (source_now tk sid) ts
      in (t, tk\<lparr>virtual_now_by_source := AList.update sid t (virtual_now_by_source tk)\<rparr>))"

definition gc_buffers :: "TurnTracker \<Rightarrow> TurnTracker" where
  "gc_buffers tk =
     tk\<lparr>tk_buffers := filter (\<lambda>(k, b). \<not> (sb_pending b = [] \<and> last_finalized_request_time b \<noteq> None
        \<and> sb_last_activity_us b < source_now tk (fst k) - 2 * idle_timeout_us (tk_config tk))) (tk_buffers tk)\<rparr>"

definition drop_completed_from_registry :: "TurnEvent list \<Rightarrow> TurnTracker \<Rightarrow> TurnTracker" where
  "drop_completed_from_registry evs tk =
     tk\<lparr>active_registry := map_option (fold (\<lambda>ev. case ev of Completed t \<Rightarrow> AList.delete (tr_turn_id t)) evs)
        (active_registry tk)\<rparr>"

definition flush_ready_buffers :: "(nat \<Rightarrow> string) \<Rightarrow> int \<Rightarrow> TurnTracker \<Rightarrow> TurnTracker \<times> TurnEvent list" where
  "flush_ready_buffers uuid now tk =
     (let g = grace (tk_config tk);
          ready = map fst (filter (\<lambda>(_, b). case grace_started_at_wall b of
                    Some started \<Rightarrow> \<not> in_grace g now started | None \<Rightarrow> False) (tk_buffers tk));
          (tk1, evs) = fold (\<lambda>key. on_buffer key (finalize_session uuid key now g)) ready (tk, [])
      in (drop_completed_from_registry evs (gc_buffers tk1), evs))"

text \<open>The calls up to and including the first terminal.\<close>

fun upto_terminal :: "BufferedCall list \<Rightarrow> AgentCall list" where
  "upto_terminal [] = []"
| "upto_terminal (bc # bcs) = (if is_terminal bc then [bc_ic bc] else bc_ic bc # upto_terminal bcs)"

definition refresh_active_snapshot :: "session_key \<Rightarrow> TurnTracker \<Rightarrow> TurnTracker" where
  "refresh_active_snapshot key tk =
     (case (active_registry tk, map_of (tk_buffers tk) key) of
        (Some reg, Some buf) \<Rightarrow>
          (case (current_turn_id buf, upto_terminal (sort_key bc_time (pending_calls buf))) of
             (Some tid, first # rest) \<Rightarrow>
               if kept (first # rest)
               then tk\<lparr>active_registry := Some (AList.update tid
                      ((build_turn first rest tid (Some InProgress))\<lparr>tr_source_id := fst key, tr_session_id := snd key\<rparr>) reg)\<rparr>
               else tk
           | _ \<Rightarrow> tk)
      | _ \<Rightarrow> tk)"

definition push_call :: "BufferedCall \<Rightarrow> int \<Rightarrow> SessionBuffer \<Rightarrow> SessionBuffer" where
  "push_call bc virtual_now buf =
     (let t = bc_time bc;
          b1 = buf\<lparr>sb_pending := bt_insert t ((case map_of (sb_pending buf) t of Some v \<Rightarrow> v | None \<Rightarrow> []) @ [bc])
                    (sb_pending buf),
                   sb_last_activity_us := virtual_now\<rparr>
      in if is_terminal bc \<and> grace_started_at_wall b1 = None
         then b1\<lparr>grace_started_at_wall := Some (arrived_at_wall bc)\<rparr> else b1)"

definition ingest_at :: "(nat \<Rightarrow> string) \<Rightarrow> AgentCall \<Rightarrow> int \<Rightarrow> TurnTracker \<Rightarrow> TurnTracker \<times> TurnEvent list" where
  "ingest_at uuid ic now tk =
     (let sid = lc_source_id (ac_call ic); key = (sid, ai_session_id (ac_agent ic));
          (virtual_now, tk1) = bump_event_time sid (call_end_time ic) tk;
          tk2 = tk1\<lparr>tk_metrics := metric_inc TurnCallsIngested (tk_metrics tk1)\<rparr>
      in if ai_is_auxiliary (ac_agent ic)
         then flush_ready_buffers uuid now (tk2\<lparr>tk_metrics := metric_inc TurnCallsAuxiliary (tk_metrics tk2)\<rparr>)
         else
           (let buf = (case map_of (tk_buffers tk2) key of Some b \<Rightarrow> b | None \<Rightarrow> SessionBuffer_default);
                tk3 = tk2\<lparr>tk_buffers := AList.update key buf (tk_buffers tk2)\<rparr>
            in if (case last_finalized_request_time buf of Some hw \<Rightarrow> lc_request_time (ac_call ic) < hw | None \<Rightarrow> False)
               then flush_ready_buffers uuid now (tk3\<lparr>tk_metrics := metric_inc TurnCallsDroppedLate (tk_metrics tk3)\<rparr>)
               else
                 (let buf1 = push_call \<lparr>bc_ic = ic, arrived_at_wall = now, is_terminal = main_agent_terminal ic\<rparr>
                               virtual_now buf;
                      (buf2, n) = (case current_turn_id buf1 of
                                     Some _ \<Rightarrow> (buf1, minted tk3)
                                   | None \<Rightarrow> (buf1\<lparr>current_turn_id := Some (uuid (minted tk3))\<rparr>, Suc (minted tk3)));
                      tk4 = tk3\<lparr>tk_buffers := AList.update key buf2 (tk_buffers tk3), minted := n\<rparr>
                  in flush_ready_buffers uuid now (refresh_active_snapshot key tk4))))"

text \<open>Drain what is pending in a buffer as one part.\<close>

definition drain_buffer :: "(nat \<Rightarrow> string) \<Rightarrow> session_key \<Rightarrow> FinalizeKind \<Rightarrow> SessionBuffer \<times> turn_out \<Rightarrow>
    SessionBuffer \<times> turn_out" where
  "drain_buffer uuid key kind st =
     (let (buf, out) = st in
      case pending_calls buf of
        [] \<Rightarrow> (buf\<lparr>sb_pending := []\<rparr>, out)
      | bc # bcs \<Rightarrow>
          (buf\<lparr>sb_pending := [], last_finalized_request_time := Some (fold (\<lambda>b t. max t (bc_time b)) bcs (bc_time bc)),
               grace_started_at_wall := None, current_turn_id := None\<rparr>,
           snd (emit_or_discard uuid key (bc # bcs) (current_turn_id buf) kind out)))"

definition idle :: "TurnTracker \<Rightarrow> session_key \<times> SessionBuffer \<Rightarrow> bool" where
  "idle tk kb \<longleftrightarrow> sb_pending (snd kb) \<noteq> [] \<and> \<not> list_ex is_terminal (pending_calls (snd kb))
     \<and> sb_last_activity_us (snd kb) < source_now tk (fst (fst kb)) - idle_timeout_us (tk_config tk)"

definition sweep :: "(nat \<Rightarrow> string) \<Rightarrow> TurnTracker \<Rightarrow> TurnTracker \<times> TurnEvent list" where
  "sweep uuid tk =
     (let global_now = (case map snd (virtual_now_by_source tk) of [] \<Rightarrow> 0 | t # ts \<Rightarrow> fold max ts t) in
      if global_now - last_sweep_us tk < sweep_interval_us (tk_config tk) then (tk, [])
      else
        (let tk1 = tk\<lparr>last_sweep_us := global_now\<rparr>;
             (tk2, evs) = fold (\<lambda>key. on_buffer key (drain_buffer uuid key Idle_kind))
                            (map fst (filter (idle tk1) (tk_buffers tk1))) (tk1, [])
         in (drop_completed_from_registry evs (gc_buffers tk2), evs)))"

definition advance_time_at :: "(nat \<Rightarrow> string) \<Rightarrow> int \<Rightarrow> string \<Rightarrow> int \<Rightarrow> TurnTracker \<Rightarrow> TurnTracker \<times> TurnEvent list" where
  "advance_time_at uuid ts sid now tk =
     (let tk1 = tk\<lparr>tk_metrics := metric_inc TurnHeartbeatsReceived (tk_metrics tk)\<rparr>;
          (_, tk2) = bump_event_time sid ts tk1;
          (tk3, evs) = flush_ready_buffers uuid now tk2;
          (tk4, evs') = sweep uuid tk3
      in (tk4, evs @ evs'))"

definition tracker_flush_all_at :: "(nat \<Rightarrow> string) \<Rightarrow> int \<Rightarrow> TurnTracker \<Rightarrow> TurnTracker \<times> TurnEvent list" where
  "tracker_flush_all_at uuid now tk =
     (let g = grace (tk_config tk); force_wall = now + g + 1;
          (tk1, evs) = fold (\<lambda>key. on_buffer key (\<lambda>st. drain_buffer uuid key Flush_kind
                         (finalize_session uuid key force_wall g st)))
                         (sort (map fst (tk_buffers tk))) (tk, [])
      in (drop_completed_from_registry evs tk1, evs))"

definition snapshot_active :: "TurnTracker \<Rightarrow> Trace list" where
  "snapshot_active tk = (case active_registry tk of Some reg \<Rightarrow> map snd reg | None \<Rightarrow> [])"

section \<open>Runs of the tracker\<close>

definition call_session :: "AgentCall \<Rightarrow> session_key" where
  "call_session ic = (lc_source_id (ac_call ic), ai_session_id (ac_agent ic))"

definition part_trace :: "session_key \<Rightarrow> BufferedCall list \<Rightarrow> string \<Rightarrow> Trace" where
  "part_trace k p tid = (build_turn (bc_ic (hd p)) (map bc_ic (tl p)) tid None)
     \<lparr>tr_source_id := fst k, tr_session_id := snd k\<rparr>"

text \<open>The events are the turns of the kept parts, in order.\<close>

fun explains :: "(session_key \<times> BufferedCall list) list \<Rightarrow> TurnEvent list \<Rightarrow> bool" where
  "explains [] evs \<longleftrightarrow> evs = []"
| "explains ((k, p) # ps) evs \<longleftrightarrow>
     (if kept (map bc_ic p) then \<exists>tid evs'. evs = Completed (part_trace k p tid) # evs' \<and> explains ps evs'
      else explains ps evs)"

definition bc_ok :: "session_key \<Rightarrow> int \<Rightarrow> BufferedCall \<Rightarrow> bool" where
  "bc_ok k t bc \<longleftrightarrow> bc_time bc = t \<and> is_terminal bc = main_agent_terminal (bc_ic bc) \<and> call_session (bc_ic bc) = k"

definition buf_ok :: "session_key \<Rightarrow> SessionBuffer \<Rightarrow> bool" where
  "buf_ok k b \<longleftrightarrow> bt_valid (sb_pending b) \<and> list_all (\<lambda>(t, v). v \<noteq> [] \<and> list_all (bc_ok k t) v) (sb_pending b)"

text \<open>A part of a session: its calls in order of request time.\<close>

definition part_ok :: "session_key \<times> BufferedCall list \<Rightarrow> bool" where
  "part_ok kp \<longleftrightarrow> snd kp \<noteq> [] \<and> sorted (map bc_time (snd kp)) \<and> list_all (\<lambda>bc. call_session (bc_ic bc) = fst kp) (snd kp)"

text \<open>What every drain of a session buffer promises.\<close>

definition drains :: "session_key \<Rightarrow> (SessionBuffer \<times> turn_out \<Rightarrow> SessionBuffer \<times> turn_out) \<Rightarrow> bool" where
  "drains k f \<longleftrightarrow> (\<forall>buf out buf' out'. buf_ok k buf \<longrightarrow> f (buf, out) = (buf', out') \<longrightarrow>
     buf_ok k buf' \<and> to_metrics out' TurnCallsDroppedLate = to_metrics out TurnCallsDroppedLate
     \<and> (\<exists>parts evs. to_events out' = to_events out @ evs \<and> explains (map (Pair k) parts) evs
          \<and> pending_calls buf = concat parts @ pending_calls buf' \<and> list_all part_ok (map (Pair k) parts)))"

definition all_pending :: "TurnTracker \<Rightarrow> BufferedCall multiset" where
  "all_pending tk = (\<Sum>e\<in>#mset (tk_buffers tk). mset (pending_calls (snd e)))"

definition tracker_ok :: "TurnTracker \<Rightarrow> bool" where
  "tracker_ok tk \<longleftrightarrow> hm_valid (tk_buffers tk) \<and> list_all (\<lambda>(k, b). buf_ok k b) (tk_buffers tk)"

text \<open>A step of the tracker that closes parts and accepts no call.\<close>

definition closes :: "TurnTracker \<Rightarrow> (session_key \<times> BufferedCall list) list \<Rightarrow> TurnTracker \<Rightarrow> bool" where
  "closes tk parts tk' \<longleftrightarrow> tracker_ok tk' \<and> list_all part_ok parts
     \<and> all_pending tk = mset (concat (map snd parts)) + all_pending tk'
     \<and> tk_metrics tk' TurnCallsDroppedLate = tk_metrics tk TurnCallsDroppedLate"

datatype turn_op = Ingest AgentCall int | Advance int string int | FlushAll int

fun turn_step :: "(nat \<Rightarrow> string) \<Rightarrow> turn_op \<Rightarrow> TurnTracker \<Rightarrow> TurnTracker \<times> TurnEvent list" where
  "turn_step uuid (Ingest ic now) tk = ingest_at uuid ic now tk"
| "turn_step uuid (Advance ts sid now) tk = advance_time_at uuid ts sid now tk"
| "turn_step uuid (FlushAll now) tk = tracker_flush_all_at uuid now tk"

fun turn_run :: "(nat \<Rightarrow> string) \<Rightarrow> TurnTracker \<Rightarrow> turn_op list \<Rightarrow> TurnTracker \<times> TurnEvent list" where
  "turn_run uuid tk [] = (tk, [])"
| "turn_run uuid tk (op # ops) =
     (let (tk1, e1) = turn_step uuid op tk; (tk2, e2) = turn_run uuid tk1 ops in (tk2, e1 @ e2))"

fun op_calls :: "turn_op \<Rightarrow> AgentCall list" where
  "op_calls (Ingest ic now) = (if ai_is_auxiliary (ac_agent ic) then [] else [ic])"
| "op_calls _ = []"

definition pending_ics :: "TurnTracker \<Rightarrow> AgentCall multiset" where
  "pending_ics tk = image_mset bc_ic (all_pending tk)"

definition part_ics :: "(session_key \<times> BufferedCall list) list \<Rightarrow> AgentCall multiset" where
  "part_ics parts = mset (map bc_ic (concat (map snd parts)))"

definition accounts :: "TurnTracker \<Rightarrow> AgentCall list \<Rightarrow> (session_key \<times> BufferedCall list) list \<Rightarrow> AgentCall list \<Rightarrow>
    TurnTracker \<Rightarrow> bool" where
  "accounts tk calls parts late tk' \<longleftrightarrow> tracker_ok tk' \<and> list_all part_ok parts
     \<and> pending_ics tk + mset calls = part_ics parts + mset late + pending_ics tk'
     \<and> tk_metrics tk' TurnCallsDroppedLate = tk_metrics tk TurnCallsDroppedLate + of_nat (length late)"

definition sample_llm_call :: "string \<Rightarrow> int \<Rightarrow> LlmCall" where
  "sample_llm_call i t = \<lparr>lc_source_id = ''s'', lc_id = i, lc_wire_api = ''anthropic'', lc_model = ''m'', lc_api_type = Chat,
     lc_request_time = t, lc_response_time = None, lc_complete_time = None, lc_request_path = ''/'', lc_is_stream = False,
     lc_request_body = None, lc_status_code = None, lc_finish_reason = None, lc_response_body = None, lc_input_tokens = None,
     lc_output_tokens = None, lc_total_tokens = None, lc_cache_read_input_tokens = None,
     lc_cache_creation_input_tokens = None, lc_ttft_ms = None, lc_e2e_latency_ms = None, lc_client_ip = V4 1,
     lc_client_port = 1, lc_server_ip = V4 2, lc_server_port = 443, lc_response_id = None, lc_request_headers = [],
     lc_response_headers = [], lc_is_agent_request = True, lc_tool_surface = None, lc_agent_topology = None,
     lc_tool_call_count = 0, lc_tool_names = [], lc_body_bytes_dropped = 0, lc_process = None\<rparr>"

definition sample_agent_call :: "string \<Rightarrow> int \<Rightarrow> bool \<Rightarrow> bool \<Rightarrow> AgentCall" where
  "sample_agent_call i t user_start terminal = \<lparr>ac_call = sample_llm_call i t,
     ac_agent = \<lparr>ai_agent_kind = ''claude-cli'', ai_session_id = ''x'', ai_subagent_name = None,
       ai_is_user_turn_start = Some user_start, ai_is_turn_terminal = terminal, ai_is_auxiliary = False,
       ai_user_input = None, ai_assistant_text = None, ai_is_agent_request = True, ai_tool_surface = None,
       ai_agent_topology = None, ai_tool_names = [], ai_tool_call_count = 0, ai_suspicious_signals = []\<rparr>\<rparr>"

definition sample_uuid :: "nat \<Rightarrow> string" where
  "sample_uuid n = replicate n CHR ''u''"

definition sample_turn_ops :: "turn_op list" where
  "sample_turn_ops = [Ingest (sample_agent_call ''open'' 10 True False) 0, Ingest (sample_agent_call ''old'' 5 False True) 0,
     Advance 10 ''s'' 1000000000, FlushAll 2000000000]"

definition trace_view :: "Trace \<Rightarrow> string \<times> TraceStatus \<times> string list" where
  "trace_view t = (tr_turn_id t, tr_status t, tr_span_ids t)"

fun event_trace :: "TurnEvent \<Rightarrow> Trace" where
  "event_trace (Completed t) = t"

section \<open>Lemmas\<close>

lemma explains_append: "explains ps e1 \<Longrightarrow> explains qs e2 \<Longrightarrow> explains (ps @ qs) (e1 @ e2)"
  by (induction ps e1 rule: explains.induct) (auto split: if_splits)

lemma explains_split:
  "explains (ps @ qs) evs \<Longrightarrow> \<exists>e1 e2. evs = e1 @ e2 \<and> explains ps e1 \<and> explains qs e2"
proof (induction ps evs rule: explains.induct)
  case (2 k p ps evs)
  then show ?case by (auto split: if_splits) (metis append_Cons)+
qed auto

lemma emit_explains:
  assumes "emit_or_discard uuid k p tid kind out = (b, out')"
  shows "\<exists>evs. to_events out' = to_events out @ evs \<and> explains [(k, p)] evs
    \<and> to_metrics out' TurnCallsDroppedLate = to_metrics out TurnCallsDroppedLate"
proof (cases p)
  case Nil
  then show ?thesis using assms
    by (auto simp: emit_or_discard_def kept_def partition_has_pid_attribution_def)
next
  case (Cons c cs)
  have kd: "kept (map bc_ic p) \<longleftrightarrow> list_ex main_agent_user_turn_start (map bc_ic p) \<or>
      (\<not> list_ex main_agent_user_turn_start (map bc_ic p) \<and> partition_has_pid_attribution (map bc_ic p))"
    by (auto simp: kept_def)
  show ?thesis
  proof (cases "kept (map bc_ic p)")
    case True
    then show ?thesis using assms Cons kd
      by (auto simp: emit_or_discard_def Let_def part_trace_def metric_inc_def metric_add_def
          split: option.splits FinalizeKind.splits if_splits)
  next
    case False
    then show ?thesis using assms Cons kd
      by (auto simp: emit_or_discard_def Let_def metric_inc_def metric_add_def split: if_splits)
  qed
qed

lemma sorted_keys_bound:
  assumes "sorted_wrt (<) (map fst ((t, v) # m))" "list_all (\<lambda>(t, v). v \<noteq> [] \<and> list_all (bc_ok k t) v) m"
  shows "\<forall>bc \<in> set (concat (map snd m)). t \<le> bc_time bc"
proof
  fix bc assume "bc \<in> set (concat (map snd m))"
  then obtain e where e: "e \<in> set m" "bc \<in> set (snd e)" by auto
  then have "t < fst e" "bc_time bc = fst e" using assms by (auto simp: list_all_iff bc_ok_def)
  then show "t \<le> bc_time bc" by simp
qed

lemma pending_sorted:
  assumes "buf_ok k b"
  shows "sorted (map bc_time (pending_calls b))" and "list_all (\<lambda>bc. call_session (bc_ic bc) = k) (pending_calls b)"
    and "bc \<in> set (pending_calls b) \<Longrightarrow> bc_time bc \<in> fst ` set (sb_pending b)"
proof -
  let ?m = "sb_pending b"
  have "sorted_wrt (<) (map fst ?m)" "list_all (\<lambda>(t, v). v \<noteq> [] \<and> list_all (bc_ok k t) v) ?m"
    using assms by (auto simp: buf_ok_def bt_valid_def)
  then show "sorted (map bc_time (pending_calls b))" unfolding pending_calls_def
  proof (induction ?m arbitrary: b)
    case (Cons e m)
    obtain t v where e: "e = (t, v)" by (cases e)
    have v: "map bc_time v = replicate (length v) t"
      using Cons.prems(2) Cons.hyps(2)[symmetric] e by (auto simp: list_all_iff bc_ok_def map_replicate_const[symmetric])
    have "sorted (map bc_time (concat (map snd m)))"
      using Cons.hyps(1)[of "b\<lparr>sb_pending := m\<rparr>"] Cons.prems Cons.hyps(2)[symmetric] by simp
    moreover have "\<forall>bc \<in> set (concat (map snd m)). t \<le> bc_time bc"
      using sorted_keys_bound[of t v m k] Cons.prems Cons.hyps(2)[symmetric] e by simp
    ultimately show ?case using v Cons.hyps(2)[symmetric] e by (auto simp: sorted_append)
  qed simp
  show "list_all (\<lambda>bc. call_session (bc_ic bc) = k) (pending_calls b)"
    using assms by (fastforce simp: buf_ok_def pending_calls_def list_all_iff bc_ok_def)
  show "bc_time bc \<in> fst ` set ?m" if h: "bc \<in> set (pending_calls b)"
  proof -
    obtain e where e: "e \<in> set ?m" "bc \<in> set (snd e)" using h by (auto simp: pending_calls_def)
    then have "bc_time bc = fst e" using assms by (auto simp: buf_ok_def list_all_iff bc_ok_def)
    then show ?thesis using e(1) by simp
  qed
qed

lemma sorted_split:
  "sorted_wrt (<) (map fst m) \<Longrightarrow> m = filter (\<lambda>e. fst e \<le> (t :: int)) m @ filter (\<lambda>e. \<not> fst e \<le> t) m"
proof (induction m)
  case (Cons e m)
  show ?case
  proof (cases "fst e \<le> t")
    case False
    then have "filter (\<lambda>e. fst e \<le> t) m = []" "filter (\<lambda>e. \<not> fst e \<le> t) m = m"
      using Cons.prems by (force simp: filter_empty_conv filter_id_conv)+
    then show ?thesis using False by simp
  qed (use Cons in auto)
qed simp

lemma buf_ok_filter: "buf_ok k b \<Longrightarrow> buf_ok k (b\<lparr>sb_pending := filter P (sb_pending b)\<rparr>)"
  using bt.valid_retain[of "sb_pending b" P] by (auto simp: buf_ok_def list_all_iff)

lemma buf_ok_cong: "sb_pending b = sb_pending b' \<Longrightarrow> buf_ok k b = buf_ok k b'"
  by (simp add: buf_ok_def)

lemma finalize_loop_parts:
  assumes "buf_ok k buf" "length (sb_pending buf) < fuel" "finalize_loop uuid k now g fuel (buf, out) = (buf', out')"
  shows "buf_ok k buf' \<and> to_metrics out' TurnCallsDroppedLate = to_metrics out TurnCallsDroppedLate
     \<and> (\<exists>parts evs. to_events out' = to_events out @ evs \<and> explains (map (Pair k) parts) evs
          \<and> pending_calls buf = concat parts @ pending_calls buf'
          \<and> list_all (\<lambda>p. part_ok (k, p) \<and> list_ex is_terminal p) parts)
     \<and> (case find is_terminal (pending_calls buf') of None \<Rightarrow> True | Some t \<Rightarrow> in_grace g now (arrived_at_wall t))"
  using assms
proof (induction fuel arbitrary: buf out)
  case (Suc fuel)
  have so: "sort_key bc_time (pending_calls buf) = pending_calls buf"
    using pending_sorted(1)[OF Suc.prems(1)] by (simp add: sort_key_id_if_sorted)
  show ?case
  proof (cases "find is_terminal (pending_calls buf)")
    case None
    then have "buf' = buf\<lparr>grace_started_at_wall := None\<rparr>" "out' = out" using Suc.prems(3) so by simp_all
    then show ?thesis using Suc.prems(1) None
      by (intro conjI exI[of _ "[]"]) (auto simp: buf_ok_def pending_calls_def)
  next
    case (Some t)
    show ?thesis
    proof (cases "in_grace g now (arrived_at_wall t)")
      case True
      then have "buf' = buf\<lparr>grace_started_at_wall := Some (arrived_at_wall t)\<rparr>" "out' = out"
        using Suc.prems(3) so Some by simp_all
      then show ?thesis using Suc.prems(1) Some True
        by (intro conjI exI[of _ "[]"]) (auto simp: buf_ok_def pending_calls_def)
    next
      case False
      let ?m = "sb_pending buf" and ?t = "bc_time t"
      let ?p = "concat (map snd (filter (\<lambda>e. fst e \<le> ?t) ?m))"
      let ?b = "buf\<lparr>sb_pending := filter (\<lambda>e. \<not> fst e \<le> ?t) ?m, current_turn_id := None,
        last_finalized_request_time := Some ?t\<rparr>"
      obtain em out1 where em: "emit_or_discard uuid k ?p (current_turn_id buf) Flush_kind out = (em, out1)" by fastforce
      let ?o = "if em then out1\<lparr>to_metrics := metric_inc TurnClosedByGrace (to_metrics out1)\<rparr> else out1"
      have step: "finalize_loop uuid k now g fuel (?b, ?o) = (buf', out')"
        using Suc.prems(3) so Some False em by (simp add: Let_def)
      have t: "t \<in> set (pending_calls buf)" "is_terminal t" using Some by (auto simp: find_Some_iff)
      have split: "?m = filter (\<lambda>e. fst e \<le> ?t) ?m @ filter (\<lambda>e. \<not> fst e \<le> ?t) ?m"
        using Suc.prems(1) by (intro sorted_split) (simp add: buf_ok_def bt_valid_def)
      have pc: "pending_calls buf = ?p @ pending_calls ?b"
        unfolding pending_calls_def using arg_cong[OF split, of "\<lambda>m. concat (map snd m)"] by simp
      have "bc_time t \<in> fst ` set ?m" using pending_sorted(3)[OF Suc.prems(1) t(1)] .
      then have "filter (\<lambda>e. fst e \<le> ?t) ?m \<noteq> []" by (force simp: filter_empty_conv)
      then have "length (filter (\<lambda>e. \<not> fst e \<le> ?t) ?m) < length ?m"
        using arg_cong[OF split, of length] by (simp add: length_greater_0_conv[symmetric] del: length_greater_0_conv)
      then have len: "length (sb_pending ?b) < fuel" using Suc.prems(2) by simp
      have ok: "buf_ok k ?b" using buf_ok_filter[OF Suc.prems(1)] by (simp add: buf_ok_def)
      have tp: "t \<in> set ?p"
        using t(1) pc ok by (fastforce simp: pending_calls_def buf_ok_def list_all_iff bc_ok_def)
      have srt: "sorted (map bc_time ?p)" "list_all (\<lambda>bc. call_session (bc_ic bc) = k) ?p"
        using pending_sorted(1,2)[OF Suc.prems(1)] unfolding pc by (simp_all add: sorted_append)
      have part: "part_ok (k, ?p) \<and> list_ex is_terminal ?p"
        using tp t(2) srt list_ex_iff[of is_terminal ?p] unfolding part_ok_def fst_conv snd_conv by (metis empty_iff list.set(1))
      obtain e0 where e0: "to_events ?o = to_events out @ e0" "explains [(k, ?p)] e0"
        "to_metrics ?o TurnCallsDroppedLate = to_metrics out TurnCallsDroppedLate"
        using emit_explains[OF em] by (auto simp: metric_inc_def metric_add_def)
      obtain parts evs where IH: "to_events out' = to_events ?o @ evs" "explains (map (Pair k) parts) evs"
        "pending_calls ?b = concat parts @ pending_calls buf'"
        "list_all (\<lambda>p. part_ok (k, p) \<and> list_ex is_terminal p) parts"
        and rest: "buf_ok k buf'" "to_metrics out' TurnCallsDroppedLate = to_metrics ?o TurnCallsDroppedLate"
          "case find is_terminal (pending_calls buf') of None \<Rightarrow> True | Some t \<Rightarrow> in_grace g now (arrived_at_wall t)"
        using Suc.IH[OF ok len step] by blast
      have "explains (map (Pair k) (?p # parts)) (e0 @ evs)"
        using explains_append[OF e0(2) IH(2)] by simp
      then show ?thesis using IH rest e0 pc part
        by (intro conjI exI[of _ "?p # parts"] exI[of _ "e0 @ evs"]) simp_all
    qed
  qed
qed simp

lemma finalize_drains: "drains k (finalize_session uuid k now g)"
  unfolding drains_def finalize_session_def
  using finalize_loop_parts[of k _ "Suc (length (sb_pending _))" uuid now g] 
  by (fastforce simp: list_all_iff)

lemma closes_trans: "closes tk ps tk' \<Longrightarrow> closes tk' qs tk'' \<Longrightarrow> closes tk (ps @ qs) tk''"
  by (simp add: closes_def)

lemma tracker_ok_get: "tracker_ok tk \<Longrightarrow> map_of (tk_buffers tk) k = Some b \<Longrightarrow> buf_ok k b"
  by (auto simp: tracker_ok_def list_all_iff dest: map_of_SomeD)

lemma all_pending_update:
  "map_of m k = Some b \<Longrightarrow> mset (pending_calls b) + X = Y + mset (pending_calls b') \<Longrightarrow>
   (\<Sum>e\<in>#mset m. mset (pending_calls (snd e))) + X = Y + (\<Sum>e\<in>#mset (AList.update k b' m). mset (pending_calls (snd e)))"
proof (induction m)
  case (Cons e m)
  show ?case
  proof (cases "fst e = k")
    case True
    then show ?thesis using Cons.prems by (cases e) (simp add: union_assoc union_commute union_lcomm)
  next
    case False
    then show ?thesis using Cons by (cases e) (simp add: union_assoc union_commute union_lcomm)
  qed
qed simp

lemma on_buffer_closes:
  assumes "tracker_ok tk" "drains k f" "on_buffer k f (tk, evs) = (tk', evs')"
  shows "\<exists>parts new. evs' = evs @ new \<and> explains parts new \<and> closes tk parts tk'"
proof (cases "map_of (tk_buffers tk) k")
  case None
  then show ?thesis using assms(1,3) by (intro exI[of _ "[]"]) (simp add: on_buffer_def closes_def)
next
  case (Some buf)
  obtain buf' out where f: "f (buf, tracker_out tk evs) = (buf', out)" by fastforce
  have tk': "tk' = tk\<lparr>tk_buffers := AList.update k buf' (tk_buffers tk), tk_metrics := to_metrics out, minted := to_minted out\<rparr>"
    "evs' = to_events out"
    using assms(3) Some f by (auto simp: on_buffer_def)
  obtain parts new where p: "buf_ok k buf'" "to_metrics out TurnCallsDroppedLate = tk_metrics tk TurnCallsDroppedLate"
    "to_events out = evs @ new" "explains (map (Pair k) parts) new" "pending_calls buf = concat parts @ pending_calls buf'"
    "list_all part_ok (map (Pair k) parts)"
    using assms(2) tracker_ok_get[OF assms(1) Some] f unfolding drains_def by (fastforce simp: tracker_out_def)
  have hv: "hm_valid (tk_buffers tk)" using assms(1) by (simp add: tracker_ok_def)
  have "tracker_ok tk'" using assms(1) hv p(1) hm.valid_upsert[OF hv] hm.set_upsert[OF hv, of k buf']
    by (auto simp: tk' tracker_ok_def list_all_iff)
  moreover have "all_pending tk = mset (concat parts) + all_pending tk'"
    using all_pending_update[OF Some, of "{#}" "mset (concat parts)" buf'] p(5) by (simp add: all_pending_def tk')
  ultimately show ?thesis using p tk'
    by (intro exI[of _ "map (Pair k) parts"] exI[of _ new]) (simp add: closes_def comp_def)
qed

lemma on_buffers_close:
  assumes "tracker_ok tk" "\<And>k. drains k (f k)" "fold (\<lambda>k. on_buffer k (f k)) ks (tk, evs) = (tk', evs')"
  shows "\<exists>parts new. evs' = evs @ new \<and> explains parts new \<and> closes tk parts tk'"
  using assms
proof (induction ks arbitrary: tk evs)
  case Nil
  then show ?case by (intro exI[of _ "[]"]) (simp add: closes_def)
next
  case (Cons k ks)
  obtain tk1 e1 where o: "on_buffer k (f k) (tk, evs) = (tk1, e1)" by fastforce
  obtain p1 n1 where 1: "e1 = evs @ n1" "explains p1 n1" "closes tk p1 tk1"
    using on_buffer_closes[OF Cons.prems(1,2) o] by blast
  then have "tracker_ok tk1" by (simp add: closes_def)
  then obtain p2 n2 where 2: "evs' = e1 @ n2" "explains p2 n2" "closes tk1 p2 tk'"
    using Cons.IH[OF _ Cons.prems(2), of tk1 e1] Cons.prems(3) o by auto
  show ?case using 1 2 explains_append[OF 1(2) 2(2)] closes_trans[OF 1(3) 2(3)]
    by (intro exI[of _ "p1 @ p2"] exI[of _ "n1 @ n2"]) simp
qed

lemma closes_same:
  assumes "tracker_ok tk" "tk_buffers tk' = tk_buffers tk"
    "tk_metrics tk' TurnCallsDroppedLate = tk_metrics tk TurnCallsDroppedLate"
  shows "closes tk [] tk'"
  using assms by (simp add: closes_def tracker_ok_def all_pending_def)

lemma pending_filter:
  "list_all (\<lambda>e. \<not> P e \<longrightarrow> pending_calls (snd e) = []) m \<Longrightarrow>
   (\<Sum>e\<in>#mset (filter P m). mset (pending_calls (snd e))) = (\<Sum>e\<in>#mset m. mset (pending_calls (snd e)))"
  by (induction m) auto

lemma gc_closes:
  assumes "tracker_ok tk"
  shows "closes tk [] (gc_buffers tk)"
proof -
  let ?P = "\<lambda>(k, b). \<not> (sb_pending b = [] \<and> last_finalized_request_time b \<noteq> None
        \<and> sb_last_activity_us b < source_now tk (fst k) - 2 * idle_timeout_us (tk_config tk))"
  have "list_all (\<lambda>e. \<not> ?P e \<longrightarrow> pending_calls (snd e) = []) (tk_buffers tk)"
    by (auto simp: list_all_iff pending_calls_def)
  then have "all_pending (gc_buffers tk) = all_pending tk"
    using pending_filter[of ?P "tk_buffers tk"] unfolding all_pending_def gc_buffers_def by simp
  moreover have "tracker_ok (gc_buffers tk)" using assms hm.valid_retain
    by (auto simp: gc_buffers_def tracker_ok_def list_all_iff)
  ultimately show ?thesis by (simp add: closes_def gc_buffers_def)
qed

lemma drop_registry_same: "tk_buffers (drop_completed_from_registry evs tk) = tk_buffers tk"
  "tk_metrics (drop_completed_from_registry evs tk) = tk_metrics tk"
  by (simp_all add: drop_completed_from_registry_def)

lemma refresh_same: "tk_buffers (refresh_active_snapshot k tk) = tk_buffers tk"
  "tk_metrics (refresh_active_snapshot k tk) = tk_metrics tk"
  by (simp_all add: refresh_active_snapshot_def split: option.splits list.splits)

lemma settle_closes:
  assumes "closes tk parts tk1"
  shows "closes tk parts (drop_completed_from_registry evs (gc_buffers tk1))"
proof -
  have ok: "tracker_ok tk1" using assms by (simp add: closes_def)
  have "tracker_ok (gc_buffers tk1)" using gc_closes[OF ok] by (simp add: closes_def)
  from closes_trans[OF closes_trans[OF assms gc_closes[OF ok]] closes_same[OF this, of "drop_completed_from_registry evs (gc_buffers tk1)"]]
  show ?thesis by (simp add: drop_registry_same)
qed

lemma flush_ready_closes:
  assumes "tracker_ok tk" "flush_ready_buffers uuid now tk = (tk', evs)"
  shows "\<exists>parts. explains parts evs \<and> closes tk parts tk'"
proof -
  obtain ready tk1 where f: "fold (\<lambda>key. on_buffer key (finalize_session uuid key now (grace (tk_config tk)))) ready (tk, []) = (tk1, evs)"
    and t: "tk' = drop_completed_from_registry evs (gc_buffers tk1)"
    using assms(2) by (auto simp: flush_ready_buffers_def Let_def split: prod.splits)
  show ?thesis using on_buffers_close[OF assms(1) finalize_drains f] settle_closes t by auto
qed

lemma drain_drains: "drains k (drain_buffer uuid k kind)"
  unfolding drains_def
proof (intro allI impI)
  fix buf out buf' out'
  assume ok: "buf_ok k buf" and d: "drain_buffer uuid k kind (buf, out) = (buf', out')"
  show "buf_ok k buf' \<and> to_metrics out' TurnCallsDroppedLate = to_metrics out TurnCallsDroppedLate
     \<and> (\<exists>parts evs. to_events out' = to_events out @ evs \<and> explains (map (Pair k) parts) evs
          \<and> pending_calls buf = concat parts @ pending_calls buf' \<and> list_all part_ok (map (Pair k) parts))"
  proof (cases "pending_calls buf")
    case Nil
    then have "buf' = buf\<lparr>sb_pending := []\<rparr>" "out' = out" using d by (auto simp: drain_buffer_def)
    then show ?thesis unfolding Nil
      by (intro conjI exI[of _ "[]"]) (auto simp: buf_ok_def bt.valid_empty pending_calls_def)
  next
    case (Cons bc bcs)
    let ?p = "bc # bcs"
    obtain e em where em: "emit_or_discard uuid k ?p (current_turn_id buf) kind out = (e, em)" by fastforce
    obtain evs where ev: "to_events em = to_events out @ evs" "explains [(k, ?p)] evs"
      "to_metrics em TurnCallsDroppedLate = to_metrics out TurnCallsDroppedLate"
      using emit_explains[OF em] by blast
    have "sb_pending buf' = []" "out' = em" using d Cons em by (auto simp: drain_buffer_def)
    moreover have "part_ok (k, ?p)" using pending_sorted(1,2)[OF ok] Cons by (simp add: part_ok_def)
    ultimately show ?thesis using ev Cons
      by (intro conjI exI[of _ "[?p]"] exI[of _ evs]) (auto simp: buf_ok_def bt.valid_empty pending_calls_def)
  qed
qed

lemma drains_comp: "drains k f \<Longrightarrow> drains k h \<Longrightarrow> drains k (\<lambda>st. h (f st))"
  unfolding drains_def
proof (intro allI impI)
  fix buf out buf' out'
  assume f: "\<forall>buf out buf' out'. buf_ok k buf \<longrightarrow> f (buf, out) = (buf', out') \<longrightarrow>
     buf_ok k buf' \<and> to_metrics out' TurnCallsDroppedLate = to_metrics out TurnCallsDroppedLate
     \<and> (\<exists>parts evs. to_events out' = to_events out @ evs \<and> explains (map (Pair k) parts) evs
          \<and> pending_calls buf = concat parts @ pending_calls buf' \<and> list_all part_ok (map (Pair k) parts))"
    and h: "\<forall>buf out buf' out'. buf_ok k buf \<longrightarrow> h (buf, out) = (buf', out') \<longrightarrow>
     buf_ok k buf' \<and> to_metrics out' TurnCallsDroppedLate = to_metrics out TurnCallsDroppedLate
     \<and> (\<exists>parts evs. to_events out' = to_events out @ evs \<and> explains (map (Pair k) parts) evs
          \<and> pending_calls buf = concat parts @ pending_calls buf' \<and> list_all part_ok (map (Pair k) parts))"
    and ok: "buf_ok k buf" and d: "h (f (buf, out)) = (buf', out')"
  obtain b1 o1 where 1: "f (buf, out) = (b1, o1)" by fastforce
  obtain p1 e1 where 2: "buf_ok k b1" "to_metrics o1 TurnCallsDroppedLate = to_metrics out TurnCallsDroppedLate"
    "to_events o1 = to_events out @ e1" "explains (map (Pair k) p1) e1" "pending_calls buf = concat p1 @ pending_calls b1"
    "list_all part_ok (map (Pair k) p1)"
    using f ok 1 by blast
  obtain p2 e2 where 3: "buf_ok k buf'" "to_metrics out' TurnCallsDroppedLate = to_metrics o1 TurnCallsDroppedLate"
    "to_events out' = to_events o1 @ e2" "explains (map (Pair k) p2) e2" "pending_calls b1 = concat p2 @ pending_calls buf'"
    "list_all part_ok (map (Pair k) p2)"
    using h 2(1) d 1 by fastforce
  show "buf_ok k buf' \<and> to_metrics out' TurnCallsDroppedLate = to_metrics out TurnCallsDroppedLate
     \<and> (\<exists>parts evs. to_events out' = to_events out @ evs \<and> explains (map (Pair k) parts) evs
          \<and> pending_calls buf = concat parts @ pending_calls buf' \<and> list_all part_ok (map (Pair k) parts))"
    using 2 3 explains_append[OF 2(4) 3(4)]
    by (intro conjI exI[of _ "p1 @ p2"] exI[of _ "e1 @ e2"]) simp_all
qed

lemma sweep_closes:
  assumes "tracker_ok tk" "sweep uuid tk = (tk', evs)"
  shows "\<exists>parts. explains parts evs \<and> closes tk parts tk'"
proof (cases "tk' = tk \<and> evs = []")
  case True
  then show ?thesis using closes_same[OF assms(1)] by (intro exI[of _ "[]"]) simp
next
  case False
  define n where "n = (case map snd (virtual_now_by_source tk) of [] \<Rightarrow> 0 | t # ts \<Rightarrow> fold max ts t)"
  let ?tk1 = "tk\<lparr>last_sweep_us := n\<rparr>"
  have ok1: "tracker_ok ?tk1" using assms(1) by (simp add: tracker_ok_def)
  obtain ks tk2 where f: "fold (\<lambda>key. on_buffer key (drain_buffer uuid key Idle_kind)) ks (?tk1, []) = (tk2, evs)"
    and t: "tk' = drop_completed_from_registry evs (gc_buffers tk2)"
    using assms(2) False unfolding sweep_def Let_def n_def[symmetric] by (auto split: prod.splits if_splits)
  obtain parts where "explains parts evs" "closes ?tk1 parts tk2"
    using on_buffers_close[OF ok1 drain_drains f] by auto
  then show ?thesis using settle_closes t closes_trans[OF closes_same[OF assms(1), of ?tk1]] by fastforce
qed

lemma closes_accounts: "closes tk parts tk' \<Longrightarrow> accounts tk [] parts [] tk'"
  by (simp add: closes_def accounts_def pending_ics_def part_ics_def)

lemma accounts_trans:
  assumes "accounts tk c1 p1 l1 tk1" "accounts tk1 c2 p2 l2 tk2"
  shows "accounts tk (c1 @ c2) (p1 @ p2) (l1 @ l2) tk2"
proof -
  have "pending_ics tk + mset c1 + mset c2 = part_ics p1 + mset l1 + (part_ics p2 + mset l2 + pending_ics tk2)"
    using assms unfolding accounts_def by (metis union_assoc)
  then show ?thesis using assms unfolding accounts_def by (simp add: part_ics_def algebra_simps)
qed

lemma bt_insert_mset:
  "bt_valid m \<Longrightarrow> mset (concat (map snd (bt_insert t ((case map_of m t of Some v \<Rightarrow> v | None \<Rightarrow> []) @ [x]) m)))
    = add_mset x (mset (concat (map snd m)))"
proof (induction m)
  case (Cons e m)
  obtain t' v' where e: "e = (t', v')" by (cases e)
  have "map_of m t = None" if "t < t'" 
    using Cons.prems e that by (force simp: bt_valid_def map_of_eq_None_iff)
  moreover have "bt_valid m" using Cons.prems e by (simp add: bt_valid_def)
  ultimately show ?case using Cons.IH e by auto
qed simp

lemma push_call_pending: "bt_valid (sb_pending buf) \<Longrightarrow>
   mset (pending_calls (push_call bc vn buf)) = add_mset bc (mset (pending_calls buf))"
  using bt_insert_mset[of "sb_pending buf" "bc_time bc" bc]
  by (simp add: push_call_def Let_def pending_calls_def)

lemma push_call_ok:
  assumes "buf_ok k buf" "bc_ok k (bc_time bc) bc"
  shows "buf_ok k (push_call bc vn buf)"
proof -
  let ?v = "(case map_of (sb_pending buf) (bc_time bc) of Some v \<Rightarrow> v | None \<Rightarrow> []) @ [bc]"
  have bv: "bt_valid (sb_pending buf)" using assms(1) by (simp add: buf_ok_def)
  have "list_all (bc_ok k (bc_time bc)) ?v"
    using assms by (cases "map_of (sb_pending buf) (bc_time bc)") (auto simp: buf_ok_def list_all_iff dest!: map_of_SomeD)
  then have "buf_ok k (buf\<lparr>sb_pending := bt_insert (bc_time bc) ?v (sb_pending buf)\<rparr>)"
    using assms(1) bt.set_upsert[OF bv, of "bc_time bc" ?v] bt.valid_upsert[OF bv]
    by (auto simp: buf_ok_def list_all_iff)
  then show ?thesis by (simp add: push_call_def Let_def buf_ok_def)
qed

lemma default_ok: "buf_ok k SessionBuffer_default"
  by (simp add: buf_ok_def SessionBuffer_default_def bt.valid_empty)

lemma upsert_pending:
  assumes "b0 = (case map_of m k of Some b \<Rightarrow> b | None \<Rightarrow> SessionBuffer_default)"
    and "mset (pending_calls b0) + X = mset (pending_calls b')"
  shows "(\<Sum>e\<in>#mset m. mset (pending_calls (snd e))) + X = (\<Sum>e\<in>#mset (AList.update k b' m). mset (pending_calls (snd e)))"
proof (cases "map_of m k")
  case (Some b)
  then show ?thesis using all_pending_update[OF Some, of X "{#}" b'] assms by simp
next
  case None
  then have "(\<Sum>e\<in>#mset (AList.update k b' m). mset (pending_calls (snd e)))
    = (\<Sum>e\<in>#mset m. mset (pending_calls (snd e))) + mset (pending_calls b')"
    by (induction m) (auto split: if_splits)
  then show ?thesis using assms None by (simp add: SessionBuffer_default_def pending_calls_def)
qed

lemma upsert_ok: "tracker_ok tk \<Longrightarrow> buf_ok k b \<Longrightarrow> tracker_ok (tk\<lparr>tk_buffers := AList.update k b (tk_buffers tk)\<rparr>)"
  using hm.valid_upsert[of "tk_buffers tk" k b] hm.set_upsert[of "tk_buffers tk" k b]
  by (auto simp: tracker_ok_def list_all_iff)

lemma tracker_ok_cong: "tk_buffers tk = tk_buffers tk' \<Longrightarrow> tracker_ok tk = tracker_ok tk'"
  by (simp add: tracker_ok_def)

lemma flush_ready_accounts:
  assumes "accounts tk calls [] late tk1" "flush_ready_buffers uuid now tk1 = (tk', evs)"
  shows "\<exists>parts. explains parts evs \<and> accounts tk calls parts late tk'"
proof -
  have "tracker_ok tk1" using assms(1) by (simp add: accounts_def)
  then obtain parts where "explains parts evs" "closes tk1 parts tk'" using flush_ready_closes assms(2) by blast
  then show ?thesis using accounts_trans[OF assms(1) closes_accounts] by fastforce
qed

lemma ingest_accounts:
  assumes "tracker_ok tk" "ingest_at uuid ic now tk = (tk', evs)"
  shows "\<exists>parts late. explains parts evs \<and> accounts tk (op_calls (Ingest ic now)) parts late tk'"
proof -
  let ?sid = "lc_source_id (ac_call ic)"
  let ?key = "(?sid, ai_session_id (ac_agent ic))"
  define vn where "vn = fst (bump_event_time ?sid (call_end_time ic) tk)"
  define tk1 where "tk1 = snd (bump_event_time ?sid (call_end_time ic) tk)"
  define tk2 where "tk2 = tk1\<lparr>tk_metrics := metric_inc TurnCallsIngested (tk_metrics tk1)\<rparr>"
  define buf where "buf = (case map_of (tk_buffers tk2) ?key of Some b \<Rightarrow> b | None \<Rightarrow> SessionBuffer_default)"
  define late where "late \<longleftrightarrow> (case last_finalized_request_time buf of
    Some hw \<Rightarrow> lc_request_time (ac_call ic) < hw | None \<Rightarrow> False)"
  let ?tk3 = "tk2\<lparr>tk_buffers := AList.update ?key buf (tk_buffers tk2)\<rparr>"
  let ?bc = "\<lparr>bc_ic = ic, arrived_at_wall = now, is_terminal = main_agent_terminal ic\<rparr>"
  let ?b1 = "push_call ?bc vn buf"
  define b2n where "b2n = (case current_turn_id ?b1 of Some _ \<Rightarrow> (?b1, minted ?tk3)
    | None \<Rightarrow> (?b1\<lparr>current_turn_id := Some (uuid (minted ?tk3))\<rparr>, Suc (minted ?tk3)))"
  let ?tk4 = "?tk3\<lparr>tk_buffers := AList.update ?key (fst b2n) (tk_buffers ?tk3), minted := snd b2n\<rparr>"
  have ing: "ingest_at uuid ic now tk =
    (if ai_is_auxiliary (ac_agent ic)
     then flush_ready_buffers uuid now (tk2\<lparr>tk_metrics := metric_inc TurnCallsAuxiliary (tk_metrics tk2)\<rparr>)
     else if late
     then flush_ready_buffers uuid now (?tk3\<lparr>tk_metrics := metric_inc TurnCallsDroppedLate (tk_metrics ?tk3)\<rparr>)
     else flush_ready_buffers uuid now (refresh_active_snapshot ?key ?tk4))"
    unfolding ingest_at_def Let_def case_prod_beta b2n_def late_def buf_def tk2_def tk1_def vn_def by (rule refl)
  have tk2: "tk_buffers tk2 = tk_buffers tk" "tk_metrics tk2 TurnCallsDroppedLate = tk_metrics tk TurnCallsDroppedLate"
    by (simp_all add: tk2_def tk1_def bump_event_time_def Let_def metric_inc_def metric_add_def)
  show ?thesis
  proof (cases "ai_is_auxiliary (ac_agent ic)")
    case True
    let ?tk = "tk2\<lparr>tk_metrics := metric_inc TurnCallsAuxiliary (tk_metrics tk2)\<rparr>"
    have "accounts tk [] [] [] ?tk"
      by (rule closes_accounts, rule closes_same[OF assms(1)]) (simp_all add: tk2 metric_inc_def metric_add_def)
    then obtain parts where "explains parts evs" "accounts tk [] parts [] tk'"
      using flush_ready_accounts[of tk "[]" "[]" ?tk uuid now tk' evs] True assms(2) ing by auto
    then show ?thesis using True by auto
  next
    case False
    have bok: "buf_ok ?key buf" using tracker_ok_get[OF assms(1)] default_ok
      by (auto simp: buf_def tk2 split: option.splits)
    have ok3: "tracker_ok ?tk3" using upsert_ok[OF assms(1) bok] by (simp add: tracker_ok_def tk2)
    have pend3: "all_pending ?tk3 = all_pending tk"
      using upsert_pending[of buf "tk_buffers tk2" ?key "{#}" buf] by (simp add: all_pending_def buf_def tk2)
    show ?thesis
    proof (cases late)
      case True
      let ?tk = "?tk3\<lparr>tk_metrics := metric_inc TurnCallsDroppedLate (tk_metrics ?tk3)\<rparr>"
      have "accounts tk [ic] [] [ic] ?tk"
        using ok3 pend3 tk2(2) by (simp add: accounts_def tracker_ok_def pending_ics_def all_pending_def part_ics_def
            metric_inc_def metric_add_def)
      then obtain parts where "explains parts evs" "accounts tk [ic] parts [ic] tk'"
        using flush_ready_accounts[of tk "[ic]" "[ic]" ?tk uuid now tk' evs] True False assms(2) ing by auto
      then show ?thesis using False by auto
    next
      case ontime: False
      have sb: "sb_pending (fst b2n) = sb_pending ?b1" by (simp add: b2n_def split: option.splits)
      have "bc_ok ?key (bc_time ?bc) ?bc" by (simp add: bc_ok_def call_session_def)
      then have "buf_ok ?key (fst b2n)" using push_call_ok[OF bok] buf_ok_cong[OF sb] by blast
      then have ok4: "tracker_ok ?tk4" using upsert_ok[OF ok3, of ?key "fst b2n"] by (simp add: tracker_ok_def)
      have g3: "map_of (tk_buffers ?tk3) ?key = Some buf" by (simp add: update_conv')
      have "mset (pending_calls buf) + {#?bc#} = mset (pending_calls (fst b2n))"
        using push_call_pending[of buf ?bc vn] bok sb by (simp add: buf_ok_def pending_calls_def)
      then have "all_pending ?tk3 + {#?bc#} = all_pending ?tk4"
        using upsert_pending[of buf "tk_buffers ?tk3" ?key "{#?bc#}" "fst b2n"] g3 by (simp add: all_pending_def)
      then have "pending_ics tk + {#ic#} = pending_ics ?tk4"
        using pend3 unfolding pending_ics_def by (metis BufferedCall.select_convs(1) image_mset_single image_mset_union)
      then have "accounts tk [ic] [] [] (refresh_active_snapshot ?key ?tk4)"
        using ok4 tk2(2)
        by (simp add: accounts_def tracker_ok_def pending_ics_def all_pending_def part_ics_def refresh_same)
      then obtain parts where "explains parts evs" "accounts tk [ic] parts [] tk'"
        using flush_ready_accounts[of tk "[ic]" "[]" "refresh_active_snapshot ?key ?tk4" uuid now tk' evs] ontime False assms(2) ing
        by auto
      then show ?thesis using False by auto
    qed
  qed
qed

lemma advance_accounts:
  assumes "tracker_ok tk" "advance_time_at uuid ts sid now tk = (tk', evs)"
  shows "\<exists>parts late. explains parts evs \<and> accounts tk [] parts late tk'"
proof -
  define tk2 where "tk2 = snd (bump_event_time sid ts (tk\<lparr>tk_metrics := metric_inc TurnHeartbeatsReceived (tk_metrics tk)\<rparr>))"
  have b: "tk_buffers tk2 = tk_buffers tk" "tk_metrics tk2 TurnCallsDroppedLate = tk_metrics tk TurnCallsDroppedLate"
    by (simp_all add: tk2_def bump_event_time_def Let_def metric_inc_def metric_add_def)
  obtain tk3 e1 e2 where f: "flush_ready_buffers uuid now tk2 = (tk3, e1)" "sweep uuid tk3 = (tk', e2)" "evs = e1 @ e2"
    using assms(2) by (auto simp: advance_time_at_def tk2_def Let_def split: prod.splits)
  have c2: "closes tk [] tk2" by (rule closes_same[OF assms(1) b])
  then have "tracker_ok tk2" by (simp add: closes_def)
  then obtain p1 where 1: "explains p1 e1" "closes tk2 p1 tk3" using flush_ready_closes f(1) by blast
  then have "tracker_ok tk3" by (simp add: closes_def)
  then obtain p2 where 2: "explains p2 e2" "closes tk3 p2 tk'" using sweep_closes f(2) by blast
  show ?thesis using explains_append[OF 1(1) 2(1)] closes_accounts[OF closes_trans[OF c2 closes_trans[OF 1(2) 2(2)]]] f(3)
    by auto
qed

lemma flush_all_accounts:
  assumes "tracker_ok tk" "tracker_flush_all_at uuid now tk = (tk', evs)"
  shows "\<exists>parts late. explains parts evs \<and> accounts tk [] parts late tk'"
proof -
  obtain ks w tk1 where f: "fold (\<lambda>key. on_buffer key (\<lambda>st. drain_buffer uuid key Flush_kind
      (finalize_session uuid key w (grace (tk_config tk)) st))) ks (tk, []) = (tk1, evs)"
    and t: "tk' = drop_completed_from_registry evs tk1"
    using assms(2) by (auto simp: tracker_flush_all_at_def Let_def split: prod.splits)
  obtain parts where p: "explains parts evs" "closes tk parts tk1"
    using on_buffers_close[OF assms(1) drains_comp[OF finalize_drains drain_drains] f] by auto
  have "tracker_ok tk1" using p(2) by (simp add: closes_def)
  then have "closes tk1 [] tk'" using closes_same t drop_registry_same by simp
  then show ?thesis using p closes_accounts[OF closes_trans[OF p(2)]] by fastforce
qed

lemma step_accounts:
  assumes "tracker_ok tk" "turn_step uuid op tk = (tk', evs)"
  shows "\<exists>parts late. explains parts evs \<and> accounts tk (op_calls op) parts late tk'"
proof (cases op)
  case (Ingest ic now)
  then show ?thesis using ingest_accounts[OF assms(1), of uuid ic now] assms(2) by simp
next
  case (Advance ts sid now)
  then show ?thesis using advance_accounts[OF assms(1), of uuid ts sid now] assms(2) by simp
next
  case (FlushAll now)
  then show ?thesis using flush_all_accounts[OF assms(1), of uuid now] assms(2) by simp
qed

lemma run_accounts:
  assumes "tracker_ok tk" "turn_run uuid tk ops = (tk', evs)"
  shows "\<exists>parts late. explains parts evs \<and> accounts tk (concat (map op_calls ops)) parts late tk'"
  using assms
proof (induction ops arbitrary: tk evs)
  case Nil
  then show ?case using closes_accounts[OF closes_same[OF Nil.prems(1) refl refl]] by (intro exI[of _ "[]"]) auto
next
  case (Cons op ops)
  obtain tk1 e1 e2 where r: "turn_step uuid op tk = (tk1, e1)" "turn_run uuid tk1 ops = (tk', e2)" "evs = e1 @ e2"
    using Cons.prems(2) by (auto split: prod.splits)
  obtain p1 l1 where 1: "explains p1 e1" "accounts tk (op_calls op) p1 l1 tk1"
    using step_accounts[OF Cons.prems(1) r(1)] by blast
  then have "tracker_ok tk1" by (simp add: accounts_def)
  then obtain p2 l2 where 2: "explains p2 e2" "accounts tk1 (concat (map op_calls ops)) p2 l2 tk'"
    using Cons.IH r(2) by blast
  show ?case using explains_append[OF 1(1) 2(1)] accounts_trans[OF 1(2) 2(2)] r(3) by auto
qed

lemma drain_empties: "sb_pending (fst (drain_buffer uuid k kind st)) = []"
  by (cases st) (auto simp: drain_buffer_def split: list.splits)

lemma on_buffers_empty:
  assumes "\<And>k st. sb_pending (fst (f k st)) = []" "hm_valid (tk_buffers tk)"
  shows "hm_valid (tk_buffers (fst (fold (\<lambda>k. on_buffer k (f k)) ks (tk, evs))))
    \<and> (\<forall>k b. map_of (tk_buffers (fst (fold (\<lambda>k. on_buffer k (f k)) ks (tk, evs)))) k = Some b \<longrightarrow>
        (k \<in> set ks \<longrightarrow> sb_pending b = []) \<and> (k \<notin> set ks \<longrightarrow> map_of (tk_buffers tk) k = Some b))"
  using assms(2)
proof (induction ks arbitrary: tk evs rule: rev_induct)
  case (snoc x ks)
  obtain tk1 e1 where r: "fold (\<lambda>k. on_buffer k (f k)) ks (tk, evs) = (tk1, e1)" by fastforce
  note IH = snoc.IH[OF snoc.prems, of evs, unfolded r, simplified]
  have step: "fold (\<lambda>k. on_buffer k (f k)) (ks @ [x]) (tk, evs) = on_buffer x (f x) (tk1, e1)" using r by simp
  have "hm_valid (tk_buffers (fst (on_buffer x (f x) (tk1, e1))))
    \<and> (\<forall>k b. map_of (tk_buffers (fst (on_buffer x (f x) (tk1, e1)))) k = Some b \<longrightarrow>
        (k \<in> set (ks @ [x]) \<longrightarrow> sb_pending b = []) \<and> (k \<notin> set (ks @ [x]) \<longrightarrow> map_of (tk_buffers tk) k = Some b))"
  proof (cases "map_of (tk_buffers tk1) x")
    case None
    then show ?thesis using IH by (auto simp: on_buffer_def)
  next
    case (Some buf)
    obtain buf' out where fb: "f x (buf, tracker_out tk1 e1) = (buf', out)" by fastforce
    then have "sb_pending buf' = []" using assms(1)[of x "(buf, tracker_out tk1 e1)"] by simp
    then show ?thesis using IH Some fb by (auto simp: on_buffer_def hm.valid_upsert hm.map_of_upsert split: if_splits)
  qed
  then show ?case unfolding step .
qed simp

lemma flush_all_empty_pending:
  assumes "tracker_ok tk" "tracker_flush_all_at uuid now tk = (tk', evs)"
  shows "all_pending tk' = {#}"
proof -
  let ?f = "\<lambda>key st. drain_buffer uuid key Flush_kind (finalize_session uuid key (now + grace (tk_config tk) + 1) (grace (tk_config tk)) st)"
  let ?ks = "sort (map fst (tk_buffers tk))"
  have hv: "hm_valid (tk_buffers tk)" using assms(1) by (simp add: tracker_ok_def)
  have b: "tk_buffers tk' = tk_buffers (fst (fold (\<lambda>k. on_buffer k (?f k)) ?ks (tk, [])))"
    using assms(2) by (auto simp: tracker_flush_all_at_def Let_def drop_registry_same split: prod.splits)
  note e = on_buffers_empty[of ?f, OF drain_empties hv, of ?ks "[]", folded b]
  have "sb_pending (snd x) = []" if "x \<in> set (tk_buffers tk')" for x
  proof -
    have m: "map_of (tk_buffers tk') (fst x) = Some (snd x)" using hm.entry_iff[of "tk_buffers tk'"] e that by (metis prod.collapse)
    have "fst x \<in> set ?ks" if "map_of (tk_buffers tk) (fst x) = Some (snd x)"
      using map_of_SomeD[OF that] by force
    then show ?thesis using e m by blast
  qed
  then show ?thesis unfolding all_pending_def by (auto simp: pending_calls_def sum_mset_0_iff)
qed

lemma turn_run_snoc:
  "turn_run uuid tk (ops @ [op]) = (tk', evs) \<Longrightarrow>
   \<exists>tk1 e1 e2. turn_run uuid tk ops = (tk1, e1) \<and> turn_step uuid op tk1 = (tk', e2)"
  by (induction ops arbitrary: tk evs) (fastforce split: prod.splits)+

lemma new_tracker_ok: "tracker_ok (TurnTracker_new cfg m reg)"
  by (simp add: tracker_ok_def TurnTracker_new_def hm.valid_empty)

lemmas sample_call_eval = sample_agent_call_def sample_llm_call_def main_agent_terminal_def main_agent_def
  main_agent_user_turn_start_def partition_has_pid_attribution_def kept_def call_end_time_def bc_time_def sample_uuid_def

lemmas ingest_eval = ingest_at_def bump_event_time_def source_now_def Let_def TurnTracker_new_def SessionBuffer_default_def
  push_call_def refresh_active_snapshot_def flush_ready_buffers_def gc_buffers_def drop_completed_from_registry_def
  pending_calls_def TrackerConfig_default_def in_grace_def

lemmas finalize_eval = advance_time_at_def sweep_def idle_def on_buffer_def finalize_session_def emit_or_discard_def
  tracker_out_def tracker_flush_all_at_def drain_buffer_def

lemma build_turn_view:
  "tr_turn_id (build_turn f r i st) = i"
  "tr_span_ids (build_turn f r i st) = map (\<lambda>ic. lc_id (ac_call ic)) (f # r)"
  "tr_status (build_turn f r i st) = (case st of Some s \<Rightarrow> s
     | None \<Rightarrow> (case terminal_pick (f # r) of Some _ \<Rightarrow> CompleteTurn | None \<Rightarrow> IncompleteTurn))"
  by (simp_all add: build_turn_def Let_def)

section \<open>Properties\<close>

text \<open>C13: No call is lost or put in two turns: over any run of calls, heartbeats and final flushes
  there is a list of parts, each the calls of one session in order of request time, such that
  the emitted turns are exactly those of the parts that are kept, in order, and the parts, the
  calls that came too late (as many as the counter says) and the calls still buffered make up
  exactly the non-auxiliary calls; after a final flush nothing is buffered.\<close>

theorem turns_partition_calls:
  assumes "turn_run uuid (TurnTracker_new cfg m reg) ops = (tk, evs)"
  shows "\<exists>parts late. explains parts evs \<and> list_all part_ok parts
    \<and> mset (concat (map op_calls ops)) = part_ics parts + mset late + pending_ics tk
    \<and> tk_metrics tk TurnCallsDroppedLate = m TurnCallsDroppedLate + of_nat (length late)
    \<and> (ops \<noteq> [] \<and> (\<exists>now. last ops = FlushAll now) \<longrightarrow> pending_ics tk = {#})"
proof -
  let ?new = "TurnTracker_new cfg m reg"
  obtain parts late where r: "explains parts evs" "accounts ?new (concat (map op_calls ops)) parts late tk"
    using run_accounts[OF new_tracker_ok assms] by blast
  have new: "pending_ics ?new = {#}" "tk_metrics ?new = m"
    by (simp_all add: pending_ics_def all_pending_def TurnTracker_new_def)
  have "pending_ics tk = {#}" if op: "ops \<noteq> []" "last ops = FlushAll now" for now
  proof -
    have "turn_run uuid ?new (butlast ops @ [FlushAll now]) = (tk, evs)" using assms op by (metis append_butlast_last_id)
    then obtain tk1 e1 e2 where 1: "turn_run uuid ?new (butlast ops) = (tk1, e1)" "turn_step uuid (FlushAll now) tk1 = (tk, e2)"
      using turn_run_snoc by blast
    have "tracker_ok tk1" using run_accounts[OF new_tracker_ok 1(1)] by (auto simp: accounts_def)
    then show ?thesis using flush_all_empty_pending[of tk1 uuid now tk e2] 1(2) by (simp add: pending_ics_def)
  qed
  then show ?thesis using r new unfolding accounts_def by auto
qed

theorem turns_partition_calls_witness:
  "\<exists>tk evs parts late. turn_run sample_uuid (TurnTracker_new TrackerConfig_default (\<lambda>_. 0) (Some [])) sample_turn_ops = (tk, evs)
    \<and> explains parts evs
    \<and> {#sample_agent_call ''open'' 10 True False, sample_agent_call ''old'' 5 False True#} = part_ics parts + mset late"
proof -
  obtain tk evs where r: "turn_run sample_uuid (TurnTracker_new TrackerConfig_default (\<lambda>_. 0) (Some [])) sample_turn_ops = (tk, evs)"
    by fastforce
  show ?thesis using turns_partition_calls[OF r] r by (force simp: sample_turn_ops_def sample_agent_call_def)
qed

text \<open>A terminal call that arrives with an earlier request time than the open turn takes the
  identifier of the open turn with it when its own part is discarded: the turn is later
  emitted under a fresh identifier and its in-progress entry stays in the registry for ever,
  with no buffered call left.\<close>

theorem registry_entry_leaks:
  "(let (tk, evs) = turn_run sample_uuid (TurnTracker_new TrackerConfig_default (\<lambda>_. 0) (Some [])) sample_turn_ops
    in map (trace_view \<circ> event_trace) evs = [(''u'', IncompleteTurn, [''open''])]
       \<and> map trace_view (snapshot_active tk) = [([], InProgress, [''open''])]
       \<and> active_count tk = 0)"
proof -
  let ?u = "sample_agent_call ''open'' 10 True False" and ?t = "sample_agent_call ''old'' 5 False True"
  let ?k = "(''s'', ''x'')"
  let ?bu = "\<lparr>bc_ic = ?u, arrived_at_wall = 0, is_terminal = False\<rparr>"
  let ?bt = "\<lparr>bc_ic = ?t, arrived_at_wall = 0, is_terminal = True\<rparr>"
  let ?snap = "(build_turn ?u [] [] (Some InProgress))\<lparr>tr_source_id := ''s'', tr_session_id := ''x''\<rparr>"
  let ?new = "TurnTracker_new TrackerConfig_default (\<lambda>_. 0) (Some [])"
  obtain tk1 where 1: "turn_step sample_uuid (Ingest ?u 0) ?new = (tk1, [])"
    "tk_config tk1 = TrackerConfig_default" "active_registry tk1 = Some [([], ?snap)]" "minted tk1 = 1"
    "virtual_now_by_source tk1 = [(''s'', 10)]" "last_sweep_us tk1 = 0"
    "tk_buffers tk1 = [(?k, \<lparr>sb_pending = [(10, [?bu])], grace_started_at_wall = None, last_finalized_request_time = None,
       sb_last_activity_us = 10, current_turn_id = Some []\<rparr>)]"
    by (simp add: sample_call_eval ingest_eval)
  obtain tk2 where 2: "turn_step sample_uuid (Ingest ?t 0) tk1 = (tk2, [])"
    "tk_config tk2 = TrackerConfig_default" "active_registry tk2 = Some [([], ?snap)]" "minted tk2 = 1"
    "virtual_now_by_source tk2 = [(''s'', 10)]" "last_sweep_us tk2 = 0"
    "tk_buffers tk2 = [(?k, \<lparr>sb_pending = [(5, [?bt]), (10, [?bu])], grace_started_at_wall = Some 0,
       last_finalized_request_time = None, sb_last_activity_us = 10, current_turn_id = Some []\<rparr>)]"
    using 1(2-) by (simp add: sample_call_eval ingest_eval)
  obtain tk3 where 3: "turn_step sample_uuid (Advance 10 ''s'' 1000000000) tk2 = (tk3, [])"
    "tk_config tk3 = TrackerConfig_default" "active_registry tk3 = Some [([], ?snap)]" "minted tk3 = 1"
    "tk_buffers tk3 = [(?k, \<lparr>sb_pending = [(10, [?bu])], grace_started_at_wall = None,
       last_finalized_request_time = Some 5, sb_last_activity_us = 10, current_turn_id = None\<rparr>)]"
    using 2(2-) by (simp add: sample_call_eval ingest_eval finalize_eval)
  obtain tk4 where 4: "turn_step sample_uuid (FlushAll 2000000000) tk3
      = (tk4, [Completed ((build_turn ?u [] ''u'' None)\<lparr>tr_source_id := ''s'', tr_session_id := ''x''\<rparr>)])"
    "active_registry tk4 = Some [([], ?snap)]" "active_count tk4 = 0"
    using 3(2-) by (simp add: sample_call_eval ingest_eval finalize_eval active_count_def build_turn_view)
  show ?thesis
    using 1(1) 2(1) 3(1) 4 by (simp add: sample_turn_ops_def trace_view_def snapshot_active_def build_turn_view
        terminal_pick_def sample_call_eval)
qed

end
