(* ===== verification/Proxy_Pair.thy ===== *)
theory Proxy_Pair
  imports Turn
begin

text \<open>
  \<^verbatim>\<open>server/h-turn/src/proxy_pair.rs\<close>: turns that are copies of one call, seen at several points of
  the network, are folded into groups. Candidates with the same content fingerprint are clustered
  by start time; the member of a cluster with the earliest start (then the latest end) is canonical,
  and the others are mirrors of it, nested in it, or dropped. The order in which the \<open>HashMap\<close> of
  fingerprints iterates and the identifiers of the \<open>uuid\<close> crate are parameters; the JSON object of
  \<open>metadata_for\<close> is a record.
\<close>

section \<open>Candidates and groups\<close>

datatype ProxyRole = ProxyIn | ProxyOut | MirrorPrimary | MirrorSecondary

fun proxy_role_str :: "ProxyRole \<Rightarrow> string" where
  "proxy_role_str ProxyIn = ''proxy_in''"
| "proxy_role_str ProxyOut = ''proxy_out''"
| "proxy_role_str MirrorPrimary = ''mirror_primary''"
| "proxy_role_str MirrorSecondary = ''mirror_secondary''"

fun hidden_by_default :: "ProxyRole \<Rightarrow> bool" where
  "hidden_by_default ProxyOut = True"
| "hidden_by_default MirrorSecondary = True"
| "hidden_by_default _ = False"

definition MAX_REQ_TIME_GAP_US :: int where "MAX_REQ_TIME_GAP_US = 100000"

definition MIRROR_TIME_TOLERANCE_US :: int where "MIRROR_TIME_TOLERANCE_US = 500"

record PairCandidate =
  pc_turn_id :: string
  pc_session_id :: string
  pc_agent_kind :: string
  pc_wire_api :: string
  pc_start_time_us :: int
  pc_end_time_us :: int
  pc_call_count :: u32
  pc_total_input_tokens :: u64
  pc_total_output_tokens :: u64
  pc_final_finish_reason :: "string option"
  pc_primary_model :: "string option"
  pc_network_view :: string

record GroupMember =
  gm_turn_id :: string
  gm_role :: ProxyRole

record ProxyGroup =
  pg_group_id :: string
  pg_members :: "GroupMember list"

definition ProxyGroup_new :: "string \<Rightarrow> GroupMember list \<Rightarrow> ProxyGroup" where
  "ProxyGroup_new uuid members = \<lparr>pg_group_id = ''group-'' @ uuid, pg_members = members\<rparr>"

text \<open>The \<open>proxy\<close> object that \<open>metadata_for\<close> returns as JSON.\<close>

record proxy_metadata =
  px_role :: string
  px_pair_id :: string
  px_peer_turn_ids :: "string list"
  px_peer_turn_id :: "string option"

definition metadata_for :: "ProxyGroup \<Rightarrow> string \<Rightarrow> proxy_metadata option" where
  "metadata_for g turn_id =
     (case find (\<lambda>m. gm_turn_id m = turn_id) (pg_members g) of
        None \<Rightarrow> None
      | Some me \<Rightarrow>
          (let peers = sort (map gm_turn_id (filter (\<lambda>m. gm_turn_id m \<noteq> turn_id) (pg_members g)))
           in Some \<lparr>px_role = proxy_role_str (gm_role me), px_pair_id = pg_group_id g, px_peer_turn_ids = peers,
                px_peer_turn_id = (case peers of [] \<Rightarrow> None | p # _ \<Rightarrow> Some p)\<rparr>))"

type_synonym fingerprint = "string \<times> string \<times> u32 \<times> u64 \<times> u64"

definition content_fingerprint :: "PairCandidate \<Rightarrow> fingerprint" where
  "content_fingerprint c = (pc_session_id c, pc_agent_kind c, pc_call_count c, pc_total_input_tokens c,
     pc_total_output_tokens c)"

text \<open>Push an index on the last cluster, or open a new one.\<close>

definition cluster_step :: "PairCandidate list \<Rightarrow> nat \<Rightarrow> nat list list \<Rightarrow> nat list list" where
  "cluster_step cands i out =
     (if out \<noteq> [] \<and> pc_start_time_us (cands ! i) - pc_start_time_us (cands ! last (last out)) \<le> MAX_REQ_TIME_GAP_US
      then butlast out @ [last out @ [i]] else out @ [[i]])"

definition time_clusters :: "nat list \<Rightarrow> PairCandidate list \<Rightarrow> nat list list" where
  "time_clusters idxs cands = fold (cluster_step cands) (sort_key (\<lambda>i. pc_start_time_us (cands ! i)) idxs) []"

definition canon_cmp_greater :: "PairCandidate \<Rightarrow> PairCandidate \<Rightarrow> bool" where
  "canon_cmp_greater ca cb \<longleftrightarrow>
     pc_start_time_us cb < pc_start_time_us ca
     \<or> pc_start_time_us ca = pc_start_time_us cb \<and>
       (pc_end_time_us ca < pc_end_time_us cb
        \<or> pc_end_time_us ca = pc_end_time_us cb \<and> pc_turn_id cb < pc_turn_id ca)"

text \<open>\<open>min_by\<close> keeps the earlier of two equal elements; \<open>expect\<close> panics (here \<open>None\<close>) on an empty cluster.\<close>

fun pick_canonical :: "nat list \<Rightarrow> PairCandidate list \<Rightarrow> nat option" where
  "pick_canonical [] cands = None"
| "pick_canonical (i # is) cands =
     Some (fold (\<lambda>b a. if canon_cmp_greater (cands ! a) (cands ! b) then b else a) is i)"

definition role_of :: "PairCandidate \<Rightarrow> PairCandidate \<Rightarrow> ProxyRole option" where
  "role_of canon c =
     (if pc_network_view c = pc_network_view canon then None
      else if \<bar>pc_start_time_us c - pc_start_time_us canon\<bar> \<le> MIRROR_TIME_TOLERANCE_US
              \<and> \<bar>pc_end_time_us c - pc_end_time_us canon\<bar> \<le> MIRROR_TIME_TOLERANCE_US then Some MirrorSecondary
      else if pc_start_time_us canon \<le> pc_start_time_us c \<and> pc_end_time_us c \<le> pc_end_time_us canon
      then Some ProxyOut else None)"

definition assign_roles :: "nat list \<Rightarrow> nat \<Rightarrow> PairCandidate list \<Rightarrow> (nat \<times> ProxyRole option) list" where
  "assign_roles cluster canonical_idx cands =
     map (\<lambda>i. (i, if i = canonical_idx then None else role_of (cands ! canonical_idx) (cands ! i))) cluster"

text \<open>The members of the group of one cluster, if it gives one; \<open>None\<close> for \<open>continue\<close>.\<close>

definition cluster_members :: "PairCandidate list \<Rightarrow> nat list \<Rightarrow> GroupMember list option" where
  "cluster_members cands cluster =
     (if length cluster < 2 then None
      else case pick_canonical cluster cands of
        None \<Rightarrow> None
      | Some canonical_idx \<Rightarrow>
          (let valid_non_canon = List.map_filter (\<lambda>(i, r). if i = canonical_idx then None else map_option (Pair i) r)
                 (assign_roles cluster canonical_idx cands)
           in if valid_non_canon = [] then None
              else Some (\<lparr>gm_turn_id = pc_turn_id (cands ! canonical_idx),
                          gm_role = (if list_ex (\<lambda>(_, r). r = ProxyOut) valid_non_canon then ProxyIn else MirrorPrimary)\<rparr>
                   # map (\<lambda>(i, r). \<lparr>gm_turn_id = pc_turn_id (cands ! i), gm_role = r\<rparr>) valid_non_canon)))"

definition by_fp :: "PairCandidate list \<Rightarrow> (fingerprint \<times> nat list) list" where
  "by_fp cands = fold (\<lambda>i m. let fp = content_fingerprint (cands ! i)
     in AList.update fp ((case map_of m fp of Some v \<Rightarrow> v | None \<Rightarrow> []) @ [i]) m) [0..<length cands] []"

text \<open>\<open>iter\<close> is the order in which the map of fingerprints iterates, \<open>uuid\<close> the identifiers in the order they
  are minted.\<close>

definition group_members :: "((fingerprint \<times> nat list) list \<Rightarrow> (fingerprint \<times> nat list) list) \<Rightarrow>
    PairCandidate list \<Rightarrow> GroupMember list list" where
  "group_members iter cands =
     concat (map (\<lambda>(_, ids). if length ids < 2 then [] else List.map_filter (cluster_members cands) (time_clusters ids cands))
       (iter (by_fp cands)))"

definition group_all :: "(nat \<Rightarrow> string) \<Rightarrow> ((fingerprint \<times> nat list) list \<Rightarrow> (fingerprint \<times> nat list) list) \<Rightarrow>
    PairCandidate list \<Rightarrow> ProxyGroup list" where
  "group_all uuid iter cands = map (\<lambda>(n, ms). ProxyGroup_new (uuid n) ms) (enumerate 0 (group_members iter cands))"

definition candidate_from_turn :: "Trace \<Rightarrow> PairCandidate" where
  "candidate_from_turn t = \<lparr>pc_turn_id = tr_turn_id t, pc_session_id = tr_session_id t, pc_agent_kind = tr_agent_kind t,
     pc_wire_api = tr_wire_api t, pc_start_time_us = tr_start_time_us t, pc_end_time_us = tr_end_time_us t,
     pc_call_count = tr_call_count t, pc_total_input_tokens = tr_total_input_tokens t,
     pc_total_output_tokens = tr_total_output_tokens t, pc_final_finish_reason = tr_final_finish_reason t,
     pc_primary_model = (case tr_models_used t of [] \<Rightarrow> None | m # _ \<Rightarrow> Some m),
     pc_network_view = ip_str (tr_client_ip t) @ ''->'' @ ip_str (tr_server_ip t)\<rparr>"






text \<open>A call seen on two interfaces and at the upstream of a proxy.\<close>

definition leg :: "string \<Rightarrow> int \<Rightarrow> int \<Rightarrow> string \<Rightarrow> PairCandidate" where
  "leg tid start end_t view = \<lparr>pc_turn_id = tid, pc_session_id = ''s'', pc_agent_kind = ''generic'', pc_wire_api = ''openai-chat'',
     pc_start_time_us = start, pc_end_time_us = end_t, pc_call_count = 1, pc_total_input_tokens = 10,
     pc_total_output_tokens = 20, pc_final_finish_reason = None, pc_primary_model = None, pc_network_view = view\<rparr>"


text \<open>Legs that are each within the gap of the one before are one group, however far the last is from the first.\<close>

definition chained_legs :: "PairCandidate list" where
  "chained_legs = [leg ''a'' 0 900000 ''x->p'', leg ''b'' 90000 800000 ''p->u'', leg ''c'' 180000 700000 ''u->v'']"

section \<open>Lemmas\<close>


























lemma group_all_members: "map pg_members (group_all uuid iter s) = group_members iter s"
  by (simp add: group_all_def ProxyGroup_new_def comp_def split_beta)

section \<open>Properties\<close>



text \<open>Legs that are each within the gap of the one before are one group, though the first
  and the last start further apart than MAX_REQ_TIME_GAP_US.\<close>

theorem proxy_group_exceeds_gap:
  "map pg_members (group_all uuid id chained_legs) =
     [[\<lparr>gm_turn_id = ''a'', gm_role = ProxyIn\<rparr>, \<lparr>gm_turn_id = ''b'', gm_role = ProxyOut\<rparr>,
       \<lparr>gm_turn_id = ''c'', gm_role = ProxyOut\<rparr>]]
   \<and> pc_start_time_us (chained_legs ! 2) - pc_start_time_us (chained_legs ! 0) > MAX_REQ_TIME_GAP_US"
  unfolding group_all_members by code_simp

end
