(* ===== verification/Json.thy ===== *)
theory Json
  imports Llm
begin

text \<open>
  JSON values as the \<open>serde_json\<close> crate exposes them (without its \<open>preserve_order\<close> feature, so an
  object is a \<open>BTreeMap\<close>, here an association list sorted by key), the accessors the sources call,
  and \<^verbatim>\<open>server/h-llm/src/parsed_json.rs\<close>. Reading and printing JSON text are parameters, the
  record \<open>json_lib\<close>.
\<close>

section \<open>Values\<close>

datatype JsonNumber = PosInt u64 | NegInt int | Float f64

datatype Value =
    VNull
  | VBool bool
  | VNumber JsonNumber
  | VString string
  | VArray "Value list"
  | VObject "(string \<times> Value) list"

record json_lib =
  json_from_str :: "string \<Rightarrow> Value option"
  json_to_string :: "Value \<Rightarrow> string"

definition json_from_slice :: "json_lib \<Rightarrow> bytes \<Rightarrow> Value option" where
  "json_from_slice js bs = json_from_str js (bytes_str bs)"

fun get :: "Value \<Rightarrow> string \<Rightarrow> Value option" where
  "get (VObject m) k = map_of m k"
| "get _ k = None"

fun get_index :: "Value \<Rightarrow> nat \<Rightarrow> Value option" where
  "get_index (VArray vs) i = (if i < length vs then Some (vs ! i) else None)"
| "get_index _ i = None"

fun as_str :: "Value \<Rightarrow> string option" where
  "as_str (VString s) = Some s"
| "as_str _ = None"

fun as_bool :: "Value \<Rightarrow> bool option" where
  "as_bool (VBool b) = Some b"
| "as_bool _ = None"

fun as_u64 :: "Value \<Rightarrow> u64 option" where
  "as_u64 (VNumber (PosInt n)) = Some n"
| "as_u64 _ = None"

fun as_array :: "Value \<Rightarrow> Value list option" where
  "as_array (VArray vs) = Some vs"
| "as_array _ = None"

fun is_object :: "Value \<Rightarrow> bool" where
  "is_object (VObject _) = True"
| "is_object _ = False"

text \<open>\<open>obj.insert\<close> on the map of an object; other values have no map.\<close>

fun obj_insert :: "string \<Rightarrow> Value \<Rightarrow> Value \<Rightarrow> Value" where
  "obj_insert k v (VObject m) = VObject (bt_insert k v m)"
| "obj_insert k v w = w"

text \<open>\<open>if let Some(v) = \<dots> { map.insert(k, v) }\<close>.\<close>

definition insert_some :: "string \<Rightarrow> Value option \<Rightarrow> Value \<Rightarrow> Value" where
  "insert_some k x v = (case x of Some y \<Rightarrow> obj_insert k y v | None \<Rightarrow> v)"

text \<open>What \<open>serde_json\<close> guarantees of every value it makes: the keys of each object are sorted and unique.\<close>

fun json_wf :: "Value \<Rightarrow> bool" where
  "json_wf (VArray vs) = (\<forall>v\<in>set vs. json_wf v)"
| "json_wf (VObject m) = (bt_valid m \<and> (\<forall>e\<in>set m. json_wf (snd e)))"
| "json_wf _ = True"

text \<open>The chains \<open>v.get(k).and_then(|x| x.as_str())\<close> and their like.\<close>

definition get_str :: "Value \<Rightarrow> string \<Rightarrow> string option" where
  "get_str v k = Option.bind (get v k) as_str"

definition get_u64 :: "Value \<Rightarrow> string \<Rightarrow> u64 option" where
  "get_u64 v k = Option.bind (get v k) as_u64"

definition get_u32 :: "Value \<Rightarrow> string \<Rightarrow> u32 option" where
  "get_u32 v k = map_option ucast (get_u64 v k)"

definition get_bool :: "Value \<Rightarrow> string \<Rightarrow> bool option" where
  "get_bool v k = Option.bind (get v k) as_bool"

definition get_array :: "Value \<Rightarrow> string \<Rightarrow> Value list option" where
  "get_array v k = Option.bind (get v k) as_array"

definition unwrap_or :: "'a \<Rightarrow> 'a option \<Rightarrow> 'a" where
  "unwrap_or d x = (case x of Some y \<Rightarrow> y | None \<Rightarrow> d)"

definition or_keep :: "'a option \<Rightarrow> 'a option \<Rightarrow> 'a option" where
  "or_keep new old = (case new of Some _ \<Rightarrow> new | None \<Rightarrow> old)"

text \<open>\<open>parts.join("\n")\<close>.\<close>

fun join_lines :: "string list \<Rightarrow> string" where
  "join_lines [] = []"
| "join_lines [p] = p"
| "join_lines (p # ps) = p @ ''\<newline>'' @ join_lines ps"

text \<open>Messages and content blocks carry a role or a type and a text.\<close>

definition has_type :: "string \<Rightarrow> Value \<Rightarrow> bool" where
  "has_type ty b \<longleftrightarrow> get_str b ''type'' = Some ty"

definition has_role :: "string \<Rightarrow> Value \<Rightarrow> bool" where
  "has_role r m \<longleftrightarrow> get_str m ''role'' = Some r"

definition text_parts :: "Value list \<Rightarrow> string list" where
  "text_parts blocks = List.map_filter (\<lambda>b. get_str b ''text'') (filter (has_type ''text'') blocks)"

definition last_opt :: "'a list \<Rightarrow> 'a option" where
  "last_opt xs = (if xs = [] then None else Some (last xs))"

definition non_blank :: "string \<Rightarrow> string option" where
  "non_blank s = (if trim s = [] then None else Some (trim s))"

section \<open>The parse cache\<close>

text \<open>\<open>OnceLock\<close> memoizes a pure parse, so the cache is its source.\<close>

datatype ParsedJson = Lazy bytes | Eager "Value option"

definition from_bytes :: "bytes \<Rightarrow> ParsedJson" where "from_bytes bs = Lazy bs"
definition from_value :: "Value option \<Rightarrow> ParsedJson" where "from_value v = Eager v"

fun pj_get :: "json_lib \<Rightarrow> ParsedJson \<Rightarrow> Value option" where
  "pj_get js (Lazy bs) = json_from_slice js bs"
| "pj_get js (Eager v) = v"

section \<open>Lemmas\<close>

lemma or_keep_simps [simp]: "or_keep None x = x" "or_keep (Some y) x = Some y"
  by (simp_all add: or_keep_def)

lemma or_keep_None [simp]: "or_keep x None = x"
  by (simp add: or_keep_def split: option.split)

lemma unwrap_or_simps [simp]: "unwrap_or d None = d" "unwrap_or d (Some y) = y"
  by (simp_all add: unwrap_or_def)

lemma map_of_bt_insert_any: "map_of (bt_insert k v m) k' = (if k' = k then Some v else map_of m k')"
  by (induction k v m rule: bt_insert.induct) auto

lemma get_obj_insert: "get (obj_insert k v w) k' = (if is_object w \<and> k' = k then Some v else get w k')"
  by (cases w) (simp_all add: map_of_bt_insert_any)

lemma json_wf_insert [intro]: "json_wf v \<Longrightarrow> json_wf w \<Longrightarrow> json_wf (obj_insert k v w)"
  by (cases w) (auto simp: bt_insert_valid dest: bt_insert_entries)

lemma json_wf_insert_some: "(\<And>y. x = Some y \<Longrightarrow> json_wf y) \<Longrightarrow> json_wf v \<Longrightarrow> json_wf (insert_some k x v)"
  by (auto simp: insert_some_def split: option.split)

lemma json_wf_get: "json_wf v \<Longrightarrow> get v k = Some w \<Longrightarrow> json_wf w"
  by (cases v) (force dest: map_of_SomeD)+

lemma json_wf_index: "json_wf v \<Longrightarrow> get_index v i = Some w \<Longrightarrow> json_wf w"
  by (cases v) (auto split: if_splits)

lemma json_wf_array: "json_wf v \<Longrightarrow> get_array v k = Some ws \<Longrightarrow> w \<in> set ws \<Longrightarrow> json_wf w"
  by (cases "get v k"; cases "the (get v k)") (auto simp: get_array_def dest: json_wf_get)

declare map_filter_append [simp]

lemma find_append: "find P (xs @ ys) = (case find P xs of Some x \<Rightarrow> Some x | None \<Rightarrow> find P ys)"
  by (induction xs) simp_all

lemma unwrap_or_keep: "unwrap_or d (or_keep x y) = unwrap_or (unwrap_or d y) x"
  by (cases x) simp_all

lemma is_object_insert [simp]: "is_object (obj_insert k x v) = is_object v" "is_object (insert_some k y v) = is_object v"
  by (cases v; simp add: insert_some_def split: option.split)+

lemma get_insert_some: "get (insert_some k x v) k' = (if k' = k \<and> is_object v \<and> x \<noteq> None then x else get v k')"
  by (auto simp: insert_some_def get_obj_insert split: option.split)

section \<open>Accumulating by key\<close>

text \<open>The pattern \<open>map.entry(key(x)).or_default()\<close> followed by a merge, over a stream of fragments, against the
  fragments grouped by key and read as a whole.\<close>

definition keyed_step :: "('a \<Rightarrow> 'k::linorder) \<Rightarrow> ('a \<Rightarrow> 'e \<Rightarrow> 'e) \<Rightarrow> 'e \<Rightarrow> 'a \<Rightarrow> ('k \<times> 'e) list \<Rightarrow> ('k \<times> 'e) list" where
  "keyed_step key merge new x m = bt_insert (key x) (merge x (unwrap_or new (map_of m (key x)))) m"

definition group_by_key :: "('a \<Rightarrow> 'k::linorder) \<Rightarrow> ('a list \<Rightarrow> 'e) \<Rightarrow> 'a list \<Rightarrow> ('k \<times> 'e) list" where
  "group_by_key key whole xs = map (\<lambda>i. (i, whole (filter (\<lambda>x. key x = i) xs))) (sorted_list_of_set (set (map key xs)))"

locale keyed_fold =
  fixes key :: "'a \<Rightarrow> 'k::linorder" and merge :: "'a \<Rightarrow> 'e \<Rightarrow> 'e" and whole :: "'a list \<Rightarrow> 'e"
  assumes whole_snoc: "whole (xs @ [x]) = merge x (whole xs)"
begin

lemma lookup:
  "map_of (group_by_key key whole xs) i =
     (if i \<in> set (map key xs) then Some (whole (filter (\<lambda>x. key x = i) xs)) else None)"
  unfolding group_by_key_def by (simp add: map_of_map_restrict restrict_map_def)

lemma valid: "bt_valid (group_by_key key whole xs)"
  by (simp add: group_by_key_def bt_valid_def comp_def)

lemma step: "keyed_step key merge (whole []) x (group_by_key key whole xs) = group_by_key key whole (xs @ [x])"
proof (rule bt_ext)
  show "bt_valid (keyed_step key merge (whole []) x (group_by_key key whole xs))" "bt_valid (group_by_key key whole (xs @ [x]))"
    by (simp_all add: keyed_step_def bt_insert_valid valid)
  fix i
  have "filter (\<lambda>x. key x = i) xs = []" if "i \<notin> key ` set xs" for i
    using that by (auto simp: filter_empty_conv)
  then show "map_of (keyed_step key merge (whole []) x (group_by_key key whole xs)) i = map_of (group_by_key key whole (xs @ [x])) i"
    by (auto simp: keyed_step_def map_of_bt_insert_any lookup whole_snoc)
qed

lemma steps: "fold (keyed_step key merge (whole [])) ys (group_by_key key whole xs) = group_by_key key whole (xs @ ys)"
  by (induction ys arbitrary: xs) (simp_all add: step)

end

end
