(* ===== verification/Wire_Api.thy ===== *)
theory Wire_Api
  imports Json
begin

text \<open>
  The interface of a wire API and its registry: \<^verbatim>\<open>RequestInfo\<close>, \<^verbatim>\<open>ResponseInfo\<close>, \<^verbatim>\<open>RouteVerdict\<close> and
  the trait \<^verbatim>\<open>WireApi\<close> of \<^verbatim>\<open>server/h-llm/src/model.rs\<close> (a trait object is a record of its methods),
  \<^verbatim>\<open>wire_api_registry.rs\<close> with its two-pass detection, and the identifiers of \<^verbatim>\<open>wire_apis/mod.rs\<close>.
\<close>

section \<open>The trait\<close>

record RequestInfo =
  rq_model :: string
  rq_is_stream :: bool

record ResponseInfo =
  ri_model :: "string option"
  ri_finish_reason :: "string option"
  ri_input_tokens :: "u32 option"
  ri_output_tokens :: "u32 option"
  ri_total_tokens :: "u32 option"
  ri_cache_read_input_tokens :: "u32 option"
  ri_cache_creation_input_tokens :: "u32 option"
  ri_response_body :: "string option"
  ri_response_id :: "string option"

datatype RouteVerdict = Accept | Reject | UnknownRoute

record WireApi =
  wa_name :: string
  wa_classify_route :: "HttpRequestData \<Rightarrow> RouteVerdict"
  wa_matches_shape :: "HttpRequestData \<Rightarrow> ParsedJson \<Rightarrow> bool"
  wa_extract_request :: "HttpRequestData \<Rightarrow> ParsedJson \<Rightarrow> RequestInfo"
  wa_extract_response :: "HttpResponseData \<Rightarrow> ParsedJson \<Rightarrow> ResponseInfo"
  wa_extract_sse :: "SseEventData list \<Rightarrow> ResponseInfo \<times> ParsedJson"
  wa_is_terminal :: "string \<Rightarrow> bool"
  wa_is_tool_use :: "string \<Rightarrow> bool"

definition ANTHROPIC :: string where "ANTHROPIC = ''anthropic''"
definition OPENAI_CHAT :: string where "OPENAI_CHAT = ''openai-chat''"
definition OPENAI_RESPONSES :: string where "OPENAI_RESPONSES = ''openai-responses''"
definition GEMINI_AISTUDIO :: string where "GEMINI_AISTUDIO = ''gemini-aistudio''"

definition by_name :: "string \<Rightarrow> string option" where
  "by_name name = (if name \<in> {ANTHROPIC, OPENAI_CHAT, OPENAI_RESPONSES, GEMINI_AISTUDIO} then Some name else None)"

datatype AssistantSig = ToolId string | SigText string

text \<open>The part of a request target before the query, and a response info with nothing in it.\<close>

definition uri_path :: "string \<Rightarrow> string" where
  "uri_path uri = takeWhile (\<lambda>c. c \<noteq> CHR ''?'') uri"

definition empty_info :: ResponseInfo where
  "empty_info = \<lparr>ri_model = None, ri_finish_reason = None, ri_input_tokens = None, ri_output_tokens = None,
     ri_total_tokens = None, ri_cache_read_input_tokens = None, ri_cache_creation_input_tokens = None,
     ri_response_body = None, ri_response_id = None\<rparr>"

section \<open>Detection\<close>

type_synonym WireApiRegistry = "WireApi list"

definition is_json_content_type :: "HttpRequestData \<Rightarrow> bool" where
  "is_json_content_type req =
     (case content_type (req_headers req) of
        Some ct \<Rightarrow> eq_ignore_ascii_case (trim (takeWhile (\<lambda>c. c \<noteq> CHR '';'') ct)) ''application/json''
      | None \<Rightarrow> False)"

text \<open>Pass 1: the first wire API that accepts, or the ones that do not know.\<close>

fun route_pass :: "HttpRequestData \<Rightarrow> WireApi list \<Rightarrow> WireApi + WireApi list" where
  "route_pass req [] = Inr []"
| "route_pass req (p # ps) =
     (case wa_classify_route p req of
        Accept \<Rightarrow> Inl p
      | Reject \<Rightarrow> route_pass req ps
      | UnknownRoute \<Rightarrow> (case route_pass req ps of Inl q \<Rightarrow> Inl q | Inr qs \<Rightarrow> Inr (p # qs)))"

definition detect :: "json_lib \<Rightarrow> WireApiRegistry \<Rightarrow> HttpRequestData \<Rightarrow> ParsedJson \<Rightarrow> (WireApi \<times> RequestInfo) option" where
  "detect js reg req req_cache =
     (case route_pass req reg of
        Inl p \<Rightarrow> Some (p, wa_extract_request p req req_cache)
      | Inr deferred \<Rightarrow>
          if deferred = [] then None
          else if req_method req \<noteq> ''POST'' \<or> \<not> is_json_content_type req then None
          else case pj_get js req_cache of
                 None \<Rightarrow> None
               | Some _ \<Rightarrow>
                   map_option (\<lambda>w. (w, wa_extract_request w req req_cache))
                     (find (\<lambda>p. wa_matches_shape p req req_cache) deferred))"

definition find_by_name :: "WireApiRegistry \<Rightarrow> string \<Rightarrow> WireApi option" where
  "find_by_name reg name = find (\<lambda>p. wa_name p = name) reg"

section \<open>The contract of a wire API\<close>

text \<open>What the registry, the processor and the profiles rely on: only POST requests are claimed by route, a shape
  match needs a body that parses, a reader sees a cache only through its value, a tool-use reason is
  terminal, and the stored body of a stream is the print of the value the cache hands to the profiles,
  which is well-formed.\<close>

locale wire_api =
  fixes js :: json_lib and api :: WireApi
  assumes non_post: "req_method req \<noteq> ''POST'' \<Longrightarrow> wa_classify_route api req = Reject"
    and shape_parses: "wa_matches_shape api req cache \<Longrightarrow> pj_get js cache \<noteq> None"
    and shape_by_value: "pj_get js cache = pj_get js cache' \<Longrightarrow> wa_matches_shape api req cache = wa_matches_shape api req cache'"
    and request_by_value: "pj_get js cache = pj_get js cache' \<Longrightarrow> wa_extract_request api req cache = wa_extract_request api req cache'"
    and response_by_value: "pj_get js cache = pj_get js cache' \<Longrightarrow> wa_extract_response api resp cache = wa_extract_response api resp cache'"
    and tool_use_terminal: "wa_is_tool_use api r \<Longrightarrow> wa_is_terminal api r"
    and sse_stored: "ri_response_body (fst (wa_extract_sse api evs)) = map_option (json_to_string js) (pj_get js (snd (wa_extract_sse api evs)))"
    and sse_well_formed: "(\<And>s v. json_from_str js s = Some v \<Longrightarrow> json_wf v) \<Longrightarrow> pj_get js (snd (wa_extract_sse api evs)) = Some b \<Longrightarrow> json_wf b"
begin

text \<open>A printer that reads back recovers the value of the cache from what was stored.\<close>

lemma stored_reparses:
  assumes "\<And>s v. json_from_str js s = Some v \<Longrightarrow> json_wf v" "\<And>v. json_wf v \<Longrightarrow> json_from_str js (json_to_string js v) = Some v"
  shows "Option.bind (ri_response_body (fst (wa_extract_sse api evs))) (json_from_str js) = pj_get js (snd (wa_extract_sse api evs))"
  using assms(2) sse_well_formed[OF assms(1)] by (cases "pj_get js (snd (wa_extract_sse api evs))") (auto simp: sse_stored)

end

text \<open>Detection over a registry whose members keep the contract.\<close>

lemma route_pass_non_post:
  "(\<And>p. p \<in> set reg \<Longrightarrow> wire_api js p) \<Longrightarrow> req_method req \<noteq> ''POST'' \<Longrightarrow> route_pass req reg = Inr []"
proof (induction reg)
  case (Cons p reg)
  then have "wa_classify_route p req = Reject" by (meson list.set_intros(1) wire_api.non_post)
  with Cons show ?case by simp
qed simp

lemma detect_non_post:
  assumes "\<And>p. p \<in> set reg \<Longrightarrow> wire_api js p" "req_method req \<noteq> ''POST''"
  shows "detect js reg req cache = None"
  using route_pass_non_post[OF assms] by (simp add: detect_def)

lemma route_pass_members:
  "(case route_pass req reg of Inl p \<Rightarrow> p \<in> set reg | Inr ps \<Rightarrow> set ps \<subseteq> set reg)"
  by (induction reg) (auto split: RouteVerdict.splits sum.splits)

lemma detect_by_value:
  assumes reg: "\<And>p. p \<in> set reg \<Longrightarrow> wire_api js p" and same: "pj_get js cache = pj_get js cache'"
  shows "detect js reg req cache = detect js reg req cache'"
proof (cases "route_pass req reg")
  case (Inl p)
  then have p: "wire_api js p" using route_pass_members[where req = req and reg = reg] reg by simp
  show ?thesis using Inl wire_api.request_by_value[OF p same] by (simp add: detect_def)
next
  case (Inr ps)
  then have ps: "wire_api js p" if "p \<in> set ps" for p
    using that route_pass_members[where req = req and reg = reg] reg by auto
  have f: "find (\<lambda>p. wa_matches_shape p req cache) ps = find (\<lambda>p. wa_matches_shape p req cache') ps"
    by (rule find_cong[OF refl]) (rule wire_api.shape_by_value[OF ps same])
  have "map_option (\<lambda>w. (w, wa_extract_request w req cache)) (find P ps)
      = map_option (\<lambda>w. (w, wa_extract_request w req cache')) (find P ps)" for P
  proof (cases "find P ps")
    case (Some w)
    then have "w \<in> set ps" by (auto simp: find_Some_iff)
    from wire_api.request_by_value[OF ps[OF this] same] show ?thesis using Some by simp
  qed simp
  then show ?thesis using Inr f same by (simp add: detect_def split: option.split)
qed

end
