(* ===== verification/Token_Estimator.thy ===== *)
theory Token_Estimator
  imports Wire_Api
begin

text \<open>
  \<^verbatim>\<open>server/h-llm/src/token_estimator.rs\<close> and the estimators of \<^verbatim>\<open>wire_apis/openai/chat.rs\<close> and
  \<^verbatim>\<open>responses.rs\<close> that rest on it: which texts of a request and a response are counted when the
  response carried no usage. The tokenizer is a parameter. The pattern
  \<^verbatim>\<open>(?s)<think>(.*?)</think>\<close> is modelled by what it matches: an opening tag up to the first closing
  tag after it.
\<close>

section \<open>Counting\<close>

text \<open>\<open>count_text\<close> of the production estimator, over the length of the encoding.\<close>

definition count_text :: "(string \<Rightarrow> nat) \<Rightarrow> string \<Rightarrow> u32" where
  "count_text bpe text = (if text = [] then 0 else of_nat (bpe text))"

definition sum_counts :: "(string \<Rightarrow> u32) \<Rightarrow> string list \<Rightarrow> u32" where
  "sum_counts est texts = fold (\<lambda>t total. sat_add total (est t)) texts 0"

section \<open>Assistant text\<close>

function extract_think_blocks :: "string \<Rightarrow> string list \<times> string" where
  "extract_think_blocks c =
     (case find_sub ''<think>'' c of
        None \<Rightarrow> ([], c)
      | Some i \<Rightarrow>
          (case find_sub ''</think>'' (drop (i + 7) c) of
             None \<Rightarrow> ([], c)
           | Some j \<Rightarrow>
               (let (blocks, rest) = extract_think_blocks (drop (i + 15 + j) c)
                in (take j (drop (i + 7) c) # blocks, take i c @ rest))))"
  by pat_completeness auto
termination
proof (relation "measure length")
  fix c :: string and i j
  assume "find_sub ''<think>'' c = Some i"
  then have "c \<noteq> []" by (cases c) auto
  then show "(drop (i + 15 + j) c, c) \<in> measure length" by simp
qed simp

declare extract_think_blocks.simps [simp del]

definition push_unique_frag :: "string \<Rightarrow> string list \<Rightarrow> string list" where
  "push_unique_frag s frags = (if s \<noteq> [] \<and> s \<notin> set frags then frags @ [s] else frags)"

definition opt_frag :: "string option \<Rightarrow> string list" where
  "opt_frag x = (case x of Some s \<Rightarrow> [s] | None \<Rightarrow> [])"

definition think_frags :: "string \<Rightarrow> string list" where
  "think_frags t = (let (blocks, rest) = extract_think_blocks t in blocks @ [rest])"

definition part_frags :: "string list \<Rightarrow> Value \<Rightarrow> string list" where
  "part_frags kinds part =
     (case get_str part ''type'' of
        Some kind \<Rightarrow>
          if kind \<in> set kinds
          then (case get_str part ''text'' of Some t \<Rightarrow> think_frags t | None \<Rightarrow> []) else []
      | None \<Rightarrow> [])"

definition collect_chat_assistant_text :: "json_lib \<Rightarrow> Value \<Rightarrow> string" where
  "collect_chat_assistant_text js message =
     join_lines (fold push_unique_frag
       (opt_frag (get_str message ''reasoning_content'') @ opt_frag (get_str message ''reasoning'')
        @ (case get_str message ''content'' of
             Some c \<Rightarrow> think_frags c
           | None \<Rightarrow> (case get_array message ''content'' of
                        Some arr \<Rightarrow> concat (map (part_frags [''text'', ''input_text'', ''output_text'']) arr)
                      | None \<Rightarrow> []))
        @ (case get_array message ''tool_calls'' of Some tcs \<Rightarrow> map (json_to_string js) tcs | None \<Rightarrow> [])) [])"

definition anthropic_block_frags :: "json_lib \<Rightarrow> Value \<Rightarrow> string list" where
  "anthropic_block_frags js blk =
     (let kind = unwrap_or [] (get_str blk ''type'') in
      if kind = ''thinking'' then opt_frag (get_str blk ''thinking'')
      else if kind = ''text'' then (case get_str blk ''text'' of Some t \<Rightarrow> think_frags t | None \<Rightarrow> [])
      else if kind = ''tool_use'' then [json_to_string js blk] else [])"

definition collect_anthropic_assistant_text :: "json_lib \<Rightarrow> Value \<Rightarrow> string" where
  "collect_anthropic_assistant_text js message =
     join_lines (fold push_unique_frag
       (case get_array message ''content'' of
          Some blocks \<Rightarrow> concat (map (anthropic_block_frags js) blocks)
        | None \<Rightarrow> (case get_str message ''content'' of Some s \<Rightarrow> think_frags s | None \<Rightarrow> [])) [])"

definition responses_item_frags :: "json_lib \<Rightarrow> Value \<Rightarrow> string list" where
  "responses_item_frags js item =
     (let kind = unwrap_or [] (get_str item ''type'') in
      if kind = ''reasoning'' then
        concat (map (\<lambda>s. opt_frag (get_str s ''text'')) (unwrap_or [] (get_array item ''summary'')))
        @ concat (map (\<lambda>c. opt_frag (get_str c ''text'')) (unwrap_or [] (get_array item ''content'')))
      else if kind = ''message'' then
        concat (map (part_frags [''output_text'', ''input_text'', ''text'']) (unwrap_or [] (get_array item ''content'')))
      else if kind = ''function_call'' \<or> kind = ''tool_call'' then [json_to_string js item] else [])"

definition collect_responses_output_text :: "json_lib \<Rightarrow> Value \<Rightarrow> string" where
  "collect_responses_output_text js output =
     (case as_array output of
        None \<Rightarrow> []
      | Some items \<Rightarrow> join_lines (fold push_unique_frag (concat (map (responses_item_frags js) items)) []))"

section \<open>OpenAI chat\<close>

definition chat_collected_response_text :: "json_lib \<Rightarrow> Value \<Rightarrow> string" where
  "chat_collected_response_text js body =
     (case Option.bind (Option.bind (get body ''choices'') (\<lambda>c. get_index c 0)) (\<lambda>c. get c ''message'') of
        Some m \<Rightarrow> collect_chat_assistant_text js m
      | None \<Rightarrow> [])"

definition serialized :: "json_lib \<Rightarrow> Value \<Rightarrow> string \<Rightarrow> string list" where
  "serialized js v k = map (json_to_string js) (unwrap_or [] (get_array v k))"

definition chat_message_texts :: "json_lib \<Rightarrow> Value \<Rightarrow> string list" where
  "chat_message_texts js m =
     opt_frag (get_str m ''role'')
     @ (case get_str m ''content'' of
          Some s \<Rightarrow> [s]
        | None \<Rightarrow> concat (map (\<lambda>p. opt_frag (get_str p ''text'')) (unwrap_or [] (get_array m ''content''))))
     @ serialized js m ''tool_calls''"

definition chat_estimate_input_tokens :: "json_lib \<Rightarrow> (string \<Rightarrow> u32) \<Rightarrow> Value \<Rightarrow> u32" where
  "chat_estimate_input_tokens js est req = sum_counts est
     (concat (map (chat_message_texts js) (unwrap_or [] (get_array req ''messages'')))
      @ serialized js req ''tools'' @ opt_frag (get_str req ''tool_choice''))"

definition chat_estimate_output_tokens :: "json_lib \<Rightarrow> (string \<Rightarrow> u32) \<Rightarrow> Value \<Rightarrow> u32" where
  "chat_estimate_output_tokens js est resp = est (chat_collected_response_text js resp)"

definition count_positive :: "Value \<Rightarrow> string \<Rightarrow> bool" where
  "count_positive u k = (case get_u64 u k of Some n \<Rightarrow> n > 0 | None \<Rightarrow> False)"

definition chat_usage_present :: "Value \<Rightarrow> bool" where
  "chat_usage_present body =
     (case get body ''usage'' of
        None \<Rightarrow> False
      | Some u \<Rightarrow> is_object u \<and> (count_positive u ''prompt_tokens'' \<or> count_positive u ''completion_tokens''
                    \<or> count_positive u ''total_tokens''))"

section \<open>OpenAI responses\<close>

definition responses_collected_response_text :: "json_lib \<Rightarrow> Value \<Rightarrow> string" where
  "responses_collected_response_text js body =
     (case get body ''output'' of Some out \<Rightarrow> collect_responses_output_text js out | None \<Rightarrow> [])"

definition responses_item_texts :: "json_lib \<Rightarrow> Value \<Rightarrow> string list" where
  "responses_item_texts js it =
     opt_frag (get_str it ''role'')
     @ (case get_array it ''content'' of
          Some content \<Rightarrow> concat (map (\<lambda>c. opt_frag (get_str c ''text'')) content)
        | None \<Rightarrow> opt_frag (get_str it ''content''))
     @ opt_frag (get_str it ''output'')
     @ (if get_str it ''type'' = Some ''function_call'' then [json_to_string js it] else [])"

definition responses_estimate_input_tokens :: "json_lib \<Rightarrow> (string \<Rightarrow> u32) \<Rightarrow> Value \<Rightarrow> u32" where
  "responses_estimate_input_tokens js est req = sum_counts est
     (opt_frag (get_str req ''instructions'')
      @ concat (map (responses_item_texts js) (unwrap_or [] (get_array req ''input'')))
      @ serialized js req ''tools''
      @ opt_frag (map_option (json_to_string js) (get req ''tool_choice'')))"

definition responses_estimate_output_tokens :: "json_lib \<Rightarrow> (string \<Rightarrow> u32) \<Rightarrow> Value \<Rightarrow> u32" where
  "responses_estimate_output_tokens js est resp = est (responses_collected_response_text js resp)"

definition responses_usage_present :: "Value \<Rightarrow> bool" where
  "responses_usage_present body =
     (case get body ''usage'' of
        None \<Rightarrow> False
      | Some u \<Rightarrow> is_object u \<and> (count_positive u ''input_tokens'' \<or> count_positive u ''output_tokens''))"

end
