(* ===== verification/Anthropic.thy ===== *)
theory Anthropic
  imports Token_Estimator
begin

text \<open>
  \<^verbatim>\<open>server/h-llm/src/wire_apis/anthropic.rs\<close>: the Anthropic Messages wire API. Detection by route
  and by shape, extraction from a body and from a stream of server-sent events (with the synthetic
  body that is assembled from interleaved content blocks), the body readers of the agent profiles,
  and token estimation.
\<close>

section \<open>Detection\<close>

definition has_anthropic_api_key :: "HttpRequestData \<Rightarrow> bool" where
  "has_anthropic_api_key req \<longleftrightarrow>
     (case header (req_headers req) ''x-api-key'' of Some v \<Rightarrow> prefix ''sk-ant-'' v | None \<Rightarrow> False)
     \<or> (case Option.bind (header (req_headers req) ''authorization'') (strip_prefix ''Bearer '') of
           Some t \<Rightarrow> prefix ''sk-ant-'' t | None \<Rightarrow> False)"

definition anthropic_classify_route :: "HttpRequestData \<Rightarrow> RouteVerdict" where
  "anthropic_classify_route req =
     (if req_method req \<noteq> ''POST'' then Reject
      else
        (let path = uri_path (req_uri req) in
         if suffix ''/v1/messages/count_tokens'' path \<or> suffix ''/v1/messages/batches'' path then Reject
         else if suffix ''/v1/messages'' path
              \<and> (header (req_headers req) ''anthropic-version'' \<noteq> None \<or> has_anthropic_api_key req) then Accept
         else UnknownRoute))"

definition strict_role :: "Value \<Rightarrow> bool" where
  "strict_role m \<longleftrightarrow> get_str m ''role'' = Some ''user'' \<or> get_str m ''role'' = Some ''assistant''"

definition anthropic_matches_shape :: "json_lib \<Rightarrow> HttpRequestData \<Rightarrow> ParsedJson \<Rightarrow> bool" where
  "anthropic_matches_shape js req req_cache =
     (case pj_get js req_cache of
        None \<Rightarrow> False
      | Some body \<Rightarrow>
          if get_str body ''model'' = None then False
          else case get_array body ''messages'' of
            None \<Rightarrow> False
          | Some messages \<Rightarrow>
              if \<not> list_all strict_role messages then False
              else if get body ''input'' \<noteq> None then False
              else if header (req_headers req) ''anthropic-version'' \<noteq> None \<or> has_anthropic_api_key req then True
              else get body ''system'' \<noteq> None \<or> get body ''stop_sequences'' \<noteq> None)"

definition anthropic_is_terminal :: "string \<Rightarrow> bool" where
  "anthropic_is_terminal r \<longleftrightarrow> r \<in> {''end_turn'', ''stop_sequence'', ''max_tokens'', ''tool_use'', ''refusal'',
     ''model_context_window_exceeded''}"

definition anthropic_is_tool_use :: "string \<Rightarrow> bool" where
  "anthropic_is_tool_use r \<longleftrightarrow> r = ''tool_use''"

section \<open>Extraction\<close>

definition extract_from_request :: "json_lib \<Rightarrow> HttpRequestData \<Rightarrow> ParsedJson \<Rightarrow> RequestInfo" where
  "extract_from_request js req req_cache =
     (let body = pj_get js req_cache
      in \<lparr>rq_model = unwrap_or ''unknown'' (Option.bind body (\<lambda>b. get_str b ''model'')),
          rq_is_stream = unwrap_or False (Option.bind body (\<lambda>b. get_bool b ''stream''))\<rparr>)"

definition extract_from_response :: "json_lib \<Rightarrow> HttpResponseData \<Rightarrow> ParsedJson \<Rightarrow> ResponseInfo" where
  "extract_from_response js resp resp_cache =
     (let parsed = pj_get js resp_cache;
          str = (\<lambda>k. Option.bind parsed (\<lambda>b. get_str b k));
          usage = Option.bind parsed (\<lambda>b. get b ''usage'');
          count = (\<lambda>k. Option.bind usage (\<lambda>u. get_u32 u k))
      in \<lparr>ri_model = str ''model'', ri_finish_reason = str ''stop_reason'',
          ri_input_tokens = count ''input_tokens'', ri_output_tokens = count ''output_tokens'',
          ri_total_tokens = None, ri_cache_read_input_tokens = count ''cache_read_input_tokens'',
          ri_cache_creation_input_tokens = count ''cache_creation_input_tokens'',
          ri_response_body = from_utf8 (resp_body resp), ri_response_id = str ''id''\<rparr>)"

text \<open>One event of the main loop of \<open>extract_from_sse\<close>.\<close>

definition sse_info_step :: "string \<times> Value \<Rightarrow> ResponseInfo \<Rightarrow> ResponseInfo" where
  "sse_info_step ev info =
     (let (ty, data) = ev in
      if ty = ''message_start'' then
        (case get data ''message'' of
           None \<Rightarrow> info
         | Some msg \<Rightarrow>
             (let count = (\<lambda>k. Option.bind (get msg ''usage'') (\<lambda>u. get_u32 u k))
              in info\<lparr>ri_response_id := or_keep (get_str msg ''id'') (ri_response_id info),
                      ri_model := or_keep (get_str msg ''model'') (ri_model info),
                      ri_input_tokens := or_keep (count ''input_tokens'') (ri_input_tokens info),
                      ri_cache_read_input_tokens := or_keep (count ''cache_read_input_tokens'') (ri_cache_read_input_tokens info),
                      ri_cache_creation_input_tokens :=
                        or_keep (count ''cache_creation_input_tokens'') (ri_cache_creation_input_tokens info)\<rparr>))
      else if ty = ''message_delta'' then
        (let count = (\<lambda>k. Option.bind (get data ''usage'') (\<lambda>u. get_u32 u k));
             input = Option.bind (get data ''usage'') (\<lambda>u. get_u64 u ''input_tokens'')
         in info\<lparr>ri_finish_reason := or_keep (Option.bind (get data ''delta'') (\<lambda>d. get_str d ''stop_reason'')) (ri_finish_reason info),
                 ri_input_tokens := (case input of Some n \<Rightarrow> if n > 0 then Some (ucast n) else ri_input_tokens info
                                     | None \<Rightarrow> ri_input_tokens info),
                 ri_output_tokens := or_keep (count ''output_tokens'') (ri_output_tokens info),
                 ri_cache_read_input_tokens := or_keep (count ''cache_read_input_tokens'') (ri_cache_read_input_tokens info),
                 ri_cache_creation_input_tokens :=
                   or_keep (count ''cache_creation_input_tokens'') (ri_cache_creation_input_tokens info)\<rparr>)
      else info)"

record PartialBlock =
  pb_block :: Value
  pb_text :: string
  pb_json :: string

record body_builder =
  bb_message :: Value
  bb_stop_reason :: "string option"
  bb_usage :: "Value option"
  bb_blocks :: "(u64 \<times> PartialBlock) list"

definition body_builder_new :: body_builder where
  "body_builder_new = \<lparr>bb_message = VNull, bb_stop_reason = None, bb_usage = None, bb_blocks = []\<rparr>"

definition block_delta :: "Value \<Rightarrow> PartialBlock \<Rightarrow> PartialBlock" where
  "block_delta delta e =
     (let ty = get_str delta ''type'' in
      if ty = Some ''text_delta'' then e\<lparr>pb_text := pb_text e @ unwrap_or [] (get_str delta ''text'')\<rparr>
      else if ty = Some ''input_json_delta'' then e\<lparr>pb_json := pb_json e @ unwrap_or [] (get_str delta ''partial_json'')\<rparr>
      else if ty = Some ''thinking_delta'' then e\<lparr>pb_text := pb_text e @ unwrap_or [] (get_str delta ''thinking'')\<rparr>
      else e)"

definition build_step :: "string \<times> Value \<Rightarrow> body_builder \<Rightarrow> body_builder" where
  "build_step ev b =
     (let (ty, data) = ev in
      if ty = ''message_start'' then (case get data ''message'' of Some msg \<Rightarrow> b\<lparr>bb_message := msg\<rparr> | None \<Rightarrow> b)
      else if ty = ''content_block_start'' then
        (case (get_u64 data ''index'', get data ''content_block'') of
           (Some idx, Some cb) \<Rightarrow>
             b\<lparr>bb_blocks := bt_insert idx \<lparr>pb_block = cb, pb_text = [], pb_json = []\<rparr> (bb_blocks b)\<rparr>
         | _ \<Rightarrow> b)
      else if ty = ''content_block_delta'' then
        (case get_u64 data ''index'' of
           None \<Rightarrow> b
         | Some idx \<Rightarrow>
             (case (map_of (bb_blocks b) idx, get data ''delta'') of
                (Some e, Some delta) \<Rightarrow> b\<lparr>bb_blocks := bt_insert idx (block_delta delta e) (bb_blocks b)\<rparr>
              | _ \<Rightarrow> b))
      else if ty = ''message_delta'' then
        b\<lparr>bb_stop_reason := or_keep (Option.bind (get data ''delta'') (\<lambda>d. get_str d ''stop_reason'')) (bb_stop_reason b),
          bb_usage := or_keep (get data ''usage'') (bb_usage b)\<rparr>
      else b)"

definition finalize_block :: "json_lib \<Rightarrow> PartialBlock \<Rightarrow> Value" where
  "finalize_block js p =
     (if \<not> is_object (pb_block p) then pb_block p
      else
        (let ty = unwrap_or [] (get_str (pb_block p) ''type'') in
         if ty = ''text'' then obj_insert ''text'' (VString (pb_text p)) (pb_block p)
         else if ty = ''thinking'' then obj_insert ''thinking'' (VString (pb_text p)) (pb_block p)
         else if ty = ''tool_use'' then
           obj_insert ''input'' (unwrap_or (VString (pb_json p)) (json_from_str js (pb_json p))) (pb_block p)
         else pb_block p))"

definition build_response_body :: "json_lib \<Rightarrow> (string \<times> Value) list \<Rightarrow> Value option" where
  "build_response_body js evs =
     (let b = fold build_step evs body_builder_new;
          content_blocks = map (\<lambda>(_, p). finalize_block js p) (bb_blocks b)
      in if bb_message b = VNull \<and> content_blocks = [] then None
         else
           (let r0 = (if is_object (bb_message b) then bb_message b else VObject []);
                r1 = obj_insert ''content'' (VArray content_blocks) r0;
                r2 = (case bb_stop_reason b of Some sr \<Rightarrow> obj_insert ''stop_reason'' (VString sr) r1 | None \<Rightarrow> r1);
                r3 = (case bb_usage b of Some u \<Rightarrow> obj_insert ''usage'' u r2 | None \<Rightarrow> r2)
            in Some r3))"

definition parsed_events :: "json_lib \<Rightarrow> SseEventData list \<Rightarrow> (string \<times> Value) list" where
  "parsed_events js evs = map (\<lambda>e. (event_type e, unwrap_or VNull (json_from_str js (sse_data e)))) evs"

definition extract_from_sse :: "json_lib \<Rightarrow> SseEventData list \<Rightarrow> ResponseInfo \<times> ParsedJson" where
  "extract_from_sse js evs =
     (let parsed = parsed_events js evs;
          info = fold sse_info_step parsed empty_info;
          synthetic = build_response_body js parsed
      in (info\<lparr>ri_response_body := map_option (json_to_string js) synthetic\<rparr>, from_value synthetic))"

definition AnthropicWireApi :: "json_lib \<Rightarrow> WireApi" where
  "AnthropicWireApi js = \<lparr>wa_name = ANTHROPIC, wa_classify_route = anthropic_classify_route,
     wa_matches_shape = anthropic_matches_shape js, wa_extract_request = extract_from_request js,
     wa_extract_response = extract_from_response js, wa_extract_sse = extract_from_sse js,
     wa_is_terminal = anthropic_is_terminal, wa_is_tool_use = anthropic_is_tool_use\<rparr>"

section \<open>Body readers\<close>

definition anthropic_tool_names :: "Value \<Rightarrow> string list option" where
  "anthropic_tool_names req =
     (case get req ''tools'' of
        None \<Rightarrow> Some []
      | Some (VArray arr) \<Rightarrow> Some (List.map_filter (\<lambda>t. get_str t ''name'') arr)
      | Some _ \<Rightarrow> None)"

definition anthropic_first_system_text :: "Value \<Rightarrow> string option" where
  "anthropic_first_system_text req =
     (case get req ''system'' of
        Some (VString s) \<Rightarrow> Some s
      | Some (VArray blocks) \<Rightarrow> (case List.map_filter (\<lambda>b. get_str b ''text'') blocks of [] \<Rightarrow> None | t # _ \<Rightarrow> Some t)
      | _ \<Rightarrow> None)"

definition anthropic_first_user_text :: "Value \<Rightarrow> string option" where
  "anthropic_first_user_text req =
     (case Option.bind (Option.bind (get_array req ''messages'') (find (has_role ''user''))) (\<lambda>m. get m ''content'') of
        Some (VString s) \<Rightarrow> if trim s \<noteq> [] then Some s else None
      | Some (VArray blocks) \<Rightarrow> if text_parts blocks = [] then None else Some (join_lines (text_parts blocks))
      | _ \<Rightarrow> None)"

definition blocks_sig :: "Value list \<Rightarrow> AssistantSig option" where
  "blocks_sig blocks =
     (case List.map_filter (\<lambda>b. get_str b ''id'') (filter (has_type ''tool_use'') blocks) of
        i # _ \<Rightarrow> Some (ToolId i)
      | [] \<Rightarrow> if text_parts blocks = [] then None else Some (SigText (join_lines (text_parts blocks))))"

definition anthropic_first_assistant_sig_from_request :: "Value \<Rightarrow> AssistantSig option" where
  "anthropic_first_assistant_sig_from_request req =
     Option.bind (Option.bind (Option.bind (get_array req ''messages'') (find (has_role ''assistant'')))
       (\<lambda>m. get_array m ''content'')) blocks_sig"

definition anthropic_first_assistant_sig_from_response_value :: "Value \<Rightarrow> AssistantSig option" where
  "anthropic_first_assistant_sig_from_response_value resp = Option.bind (get_array resp ''content'') blocks_sig"

definition anthropic_first_assistant_sig_from_response :: "json_lib \<Rightarrow> string \<Rightarrow> AssistantSig option" where
  "anthropic_first_assistant_sig_from_response js body =
     Option.bind (json_from_str js body) anthropic_first_assistant_sig_from_response_value"

definition anthropic_extract_user_input :: "Value \<Rightarrow> string option" where
  "anthropic_extract_user_input req =
     (case Option.bind (get_array req ''messages'') last_opt of
        None \<Rightarrow> None
      | Some m \<Rightarrow>
          if \<not> has_role ''user'' m then None
          else case get m ''content'' of
            Some (VString s) \<Rightarrow> non_blank s
          | Some (VArray blocks) \<Rightarrow> non_blank (join_lines (text_parts blocks))
          | _ \<Rightarrow> None)"

definition user_visible_block :: "Value \<Rightarrow> bool" where
  "user_visible_block b =
     (case get_str b ''type'' of
        None \<Rightarrow> False
      | Some ty \<Rightarrow>
          if ty = ''tool_result'' then False
          else if ty = ''text'' then (case get_str b ''text'' of Some s \<Rightarrow> trim s \<noteq> [] | None \<Rightarrow> False)
          else True)"

definition anthropic_is_user_turn_start :: "Value \<Rightarrow> bool option" where
  "anthropic_is_user_turn_start req =
     (case Option.bind (get_array req ''messages'') (\<lambda>ms. find (\<lambda>m. \<not> has_role ''system'' m) (rev ms)) of
        None \<Rightarrow> None
      | Some m \<Rightarrow>
          if \<not> has_role ''user'' m then Some False
          else case get m ''content'' of
            Some (VString s) \<Rightarrow> Some (trim s \<noteq> [])
          | Some (VArray blocks) \<Rightarrow> Some (list_ex user_visible_block blocks)
          | _ \<Rightarrow> None)"

definition anthropic_extract_assistant_text_value :: "Value \<Rightarrow> string option" where
  "anthropic_extract_assistant_text_value resp =
     (case get_array resp ''content'' of
        None \<Rightarrow> None
      | Some blocks \<Rightarrow>
          (let joined = join_lines (text_parts blocks) in if trim joined = [] then None else Some joined))"

definition anthropic_extract_assistant_text :: "json_lib \<Rightarrow> string \<Rightarrow> string option" where
  "anthropic_extract_assistant_text js body = Option.bind (json_from_str js body) anthropic_extract_assistant_text_value"

section \<open>Token estimation\<close>

definition anthropic_usage_present :: "Value \<Rightarrow> bool" where
  "anthropic_usage_present body =
     (case get body ''usage'' of
        None \<Rightarrow> False
      | Some u \<Rightarrow> is_object u \<and> (count_positive u ''input_tokens'' \<or> count_positive u ''output_tokens''))"

definition anthropic_collected_response_text :: "json_lib \<Rightarrow> Value \<Rightarrow> string" where
  "anthropic_collected_response_text js body = collect_anthropic_assistant_text js body"

definition anthropic_block_texts :: "json_lib \<Rightarrow> Value \<Rightarrow> string list" where
  "anthropic_block_texts js blk =
     (let kind = unwrap_or [] (get_str blk ''type'') in
      if kind = ''text'' then opt_frag (get_str blk ''text'')
      else if kind = ''thinking'' then opt_frag (get_str blk ''thinking'')
      else if kind = ''tool_use'' \<or> kind = ''tool_result'' then [json_to_string js blk] else [])"

definition anthropic_message_texts :: "json_lib \<Rightarrow> Value \<Rightarrow> string list" where
  "anthropic_message_texts js m =
     opt_frag (get_str m ''role'')
     @ (case get_str m ''content'' of
          Some s \<Rightarrow> [s]
        | None \<Rightarrow> concat (map (anthropic_block_texts js) (unwrap_or [] (get_array m ''content''))))"

definition anthropic_estimate_input_tokens :: "json_lib \<Rightarrow> (string \<Rightarrow> u32) \<Rightarrow> Value \<Rightarrow> u32" where
  "anthropic_estimate_input_tokens js est req = sum_counts est
     ((case get_str req ''system'' of
         Some s \<Rightarrow> [s]
       | None \<Rightarrow> concat (map (\<lambda>b. opt_frag (get_str b ''text'')) (unwrap_or [] (get_array req ''system''))))
      @ concat (map (anthropic_message_texts js) (unwrap_or [] (get_array req ''messages'')))
      @ serialized js req ''tools''
      @ opt_frag (map_option (json_to_string js) (get req ''tool_choice'')))"

definition anthropic_estimate_output_tokens :: "json_lib \<Rightarrow> (string \<Rightarrow> u32) \<Rightarrow> Value \<Rightarrow> u32" where
  "anthropic_estimate_output_tokens js est resp = est (anthropic_collected_response_text js resp)"

section \<open>Streams as a server sends them\<close>

text \<open>What a server sends: content blocks with their fragments, as parsed events.\<close>

datatype wire_block = TextBlock "string list" | ThinkingBlock "string list" | ToolUseBlock string string "string list"

fun block_payload :: "wire_block \<Rightarrow> Value" where
  "block_payload (TextBlock _) = VObject [(''text'', VString []), (''type'', VString ''text'')]"
| "block_payload (ThinkingBlock _) = VObject [(''thinking'', VString []), (''type'', VString ''thinking'')]"
| "block_payload (ToolUseBlock i n _) = VObject [(''id'', VString i), (''input'', VObject []), (''name'', VString n),
     (''type'', VString ''tool_use'')]"

fun block_deltas :: "wire_block \<Rightarrow> Value list" where
  "block_deltas (TextBlock fs) = map (\<lambda>f. VObject [(''text'', VString f), (''type'', VString ''text_delta'')]) fs"
| "block_deltas (ThinkingBlock fs) = map (\<lambda>f. VObject [(''thinking'', VString f), (''type'', VString ''thinking_delta'')]) fs"
| "block_deltas (ToolUseBlock _ _ fs) =
     map (\<lambda>f. VObject [(''partial_json'', VString f), (''type'', VString ''input_json_delta'')]) fs"

definition block_events :: "u64 \<Rightarrow> wire_block \<Rightarrow> (string \<times> Value) list" where
  "block_events i b =
     (''content_block_start'', VObject [(''content_block'', block_payload b), (''index'', VNumber (PosInt i))])
     # map (\<lambda>d. (''content_block_delta'', VObject [(''delta'', d), (''index'', VNumber (PosInt i))])) (block_deltas b)"

text \<open>The block a client of the unstreamed API would have got.\<close>

fun whole_block :: "json_lib \<Rightarrow> wire_block \<Rightarrow> Value" where
  "whole_block js (TextBlock fs) = VObject [(''text'', VString (concat fs)), (''type'', VString ''text'')]"
| "whole_block js (ThinkingBlock fs) = VObject [(''thinking'', VString (concat fs)), (''type'', VString ''thinking'')]"
| "whole_block js (ToolUseBlock i n fs) = VObject [(''id'', VString i),
     (''input'', unwrap_or (VString (concat fs)) (json_from_str js (concat fs))), (''name'', VString n), (''type'', VString ''tool_use'')]"

definition block_event :: "u64 \<Rightarrow> string \<times> Value \<Rightarrow> bool" where
  "block_event i ev \<longleftrightarrow> (fst ev = ''content_block_start'' \<or> fst ev = ''content_block_delta'') \<and> get_u64 (snd ev) ''index'' = Some i"

definition message_event :: "string \<times> Value \<Rightarrow> bool" where
  "message_event ev \<longleftrightarrow> fst ev = ''message_start'' \<or> fst ev = ''message_delta''"

definition partial_of :: "wire_block \<Rightarrow> PartialBlock" where
  "partial_of b = (case b of
     TextBlock fs \<Rightarrow> \<lparr>pb_block = block_payload b, pb_text = concat fs, pb_json = []\<rparr>
   | ThinkingBlock fs \<Rightarrow> \<lparr>pb_block = block_payload b, pb_text = concat fs, pb_json = []\<rparr>
   | ToolUseBlock _ _ fs \<Rightarrow> \<lparr>pb_block = block_payload b, pb_text = [], pb_json = concat fs\<rparr>)"

definition bb_head :: "body_builder \<Rightarrow> Value \<times> string option \<times> Value option" where
  "bb_head b = (bb_message b, bb_stop_reason b, bb_usage b)"

definition builder_wf :: "body_builder \<Rightarrow> bool" where
  "builder_wf b \<longleftrightarrow> json_wf (bb_message b) \<and> (\<forall>u. bb_usage b = Some u \<longrightarrow> json_wf u) \<and> (\<forall>e\<in>set (bb_blocks b). json_wf (pb_block (snd e)))"

text \<open>A text block and a tool call whose fragments arrive interleaved; the JSON reader is a table in which
  the text of an event is its number in unary.\<close>

definition sample_blocks :: "(u64 \<times> wire_block) list" where
  "sample_blocks = [(0, TextBlock [''Hel'', ''lo'']), (1, ToolUseBlock ''t1'' ''ls'' [''{'', ''}''])]"

definition sample_parsed :: "(string \<times> Value) list" where
  "sample_parsed =
     [(''message_start'', VObject [(''message'', VObject [(''id'', VString ''msg_1''), (''model'', VString ''c'')])]),
      block_events 0 (TextBlock [''Hel'', ''lo'']) ! 0, block_events 1 (ToolUseBlock ''t1'' ''ls'' [''{'', ''}'']) ! 0,
      block_events 0 (TextBlock [''Hel'', ''lo'']) ! 1, block_events 1 (ToolUseBlock ''t1'' ''ls'' [''{'', ''}'']) ! 1,
      block_events 1 (ToolUseBlock ''t1'' ''ls'' [''{'', ''}'']) ! 2, block_events 0 (TextBlock [''Hel'', ''lo'']) ! 2,
      (''message_delta'', VObject [(''delta'', VObject [(''stop_reason'', VString ''tool_use'')]),
         (''usage'', VObject [(''output_tokens'', VNumber (PosInt 7))])])]"

definition sample_json_lib :: json_lib where
  "sample_json_lib = \<lparr>json_from_str = (\<lambda>s. if s = ''{}'' then Some (VObject [])
      else if list_all (\<lambda>c. c = CHR ''1'') s \<and> length s < length sample_parsed then Some (snd (sample_parsed ! length s)) else None),
     json_to_string = (\<lambda>_. ''body'')\<rparr>"

definition sample_stream :: "SseEventData list" where
  "sample_stream = map (\<lambda>n. \<lparr>sse_flow_key = FlowKey_new [] (V4 0) 0 (V4 0) 0, sse_client_addr = (V4 0, 0), sse_server_addr = (V4 0, 0),
     event_type = fst (sample_parsed ! n), sse_data = replicate n (CHR ''1''), sse_timestamp_us = 0, sse_process = None\<rparr>)
     [0..<length sample_parsed]"

text \<open>A system message after the prompt.\<close>

definition system_after_prompt :: Value where
  "system_after_prompt = VObject [(''messages'', VArray [
     VObject [(''content'', VString ''hi''), (''role'', VString ''user'')],
     VObject [(''content'', VString ''note''), (''role'', VString ''system'')]])]"

section \<open>Lemmas\<close>

lemma build_step_other:
  "\<not> block_event i ev \<Longrightarrow> map_of (bb_blocks (build_step ev b)) i = map_of (bb_blocks b) i"
  by (cases ev) (auto simp: build_step_def block_event_def map_of_bt_insert_any split: option.splits)

lemma build_step_same:
  "block_event i ev \<Longrightarrow> map_of (bb_blocks b) i = map_of (bb_blocks b') i \<Longrightarrow>
   map_of (bb_blocks (build_step ev b)) i = map_of (bb_blocks (build_step ev b')) i"
  by (cases ev) (auto simp: build_step_def block_event_def map_of_bt_insert_any split: option.splits)

lemma build_blocks_by_index:
  "map_of (bb_blocks b) i = map_of (bb_blocks b') i \<Longrightarrow>
   map_of (bb_blocks (fold build_step evs b)) i = map_of (bb_blocks (fold build_step (filter (block_event i) evs) b')) i"
proof (induction evs arbitrary: b b')
  case (Cons ev evs)
  show ?case
  proof (cases "block_event i ev")
    case True
    with Cons.IH[OF build_step_same[OF True Cons.prems]] show ?thesis by simp
  next
    case False
    with Cons.IH[of "build_step ev b" b'] Cons.prems show ?thesis by (simp add: build_step_other)
  qed
qed simp

lemma build_step_valid: "bt_valid (bb_blocks b) \<Longrightarrow> bt_valid (bb_blocks (build_step ev b))"
  by (cases ev) (auto simp: build_step_def bt_insert_valid split: option.splits)

lemma build_valid: "bt_valid (bb_blocks b) \<Longrightarrow> bt_valid (bb_blocks (fold build_step evs b))"
  by (induction evs arbitrary: b) (simp_all add: build_step_valid)

lemma delta_events:
  "map_of (bb_blocks b) i = Some e \<Longrightarrow>
   map_of (bb_blocks (fold build_step (map (\<lambda>d. (''content_block_delta'', VObject [(''delta'', d), (''index'', VNumber (PosInt i))])) ds) b)) i
   = Some (fold block_delta ds e)"
proof (induction ds arbitrary: b e)
  case (Cons d ds)
  have "map_of (bb_blocks (build_step (''content_block_delta'', VObject [(''delta'', d), (''index'', VNumber (PosInt i))]) b)) i
     = Some (block_delta d e)"
    using Cons.prems by (simp add: build_step_def get_u64_def map_of_bt_insert_any)
  then show ?case by (simp add: Cons.IH)
qed simp

lemma block_delta_texts:
  "fold block_delta (map (\<lambda>f. VObject [(''text'', VString f), (''type'', VString ''text_delta'')]) fs) e
     = e\<lparr>pb_text := pb_text e @ concat fs\<rparr>"
  "fold block_delta (map (\<lambda>f. VObject [(''thinking'', VString f), (''type'', VString ''thinking_delta'')]) fs) e
     = e\<lparr>pb_text := pb_text e @ concat fs\<rparr>"
  "fold block_delta (map (\<lambda>f. VObject [(''partial_json'', VString f), (''type'', VString ''input_json_delta'')]) fs) e
     = e\<lparr>pb_json := pb_json e @ concat fs\<rparr>"
  by (induction fs arbitrary: e) (simp_all add: block_delta_def get_str_def)

lemma block_deltas_partial:
  "fold block_delta (block_deltas b) \<lparr>pb_block = block_payload b, pb_text = [], pb_json = []\<rparr> = partial_of b"
  by (cases b) (simp_all add: partial_of_def block_delta_texts)

lemma block_events_partial: "map_of (bb_blocks (fold build_step (block_events i b) bb)) i = Some (partial_of b)"
proof -
  have "map_of (bb_blocks (build_step (''content_block_start'',
      VObject [(''content_block'', block_payload b), (''index'', VNumber (PosInt i))]) bb)) i
    = Some \<lparr>pb_block = block_payload b, pb_text = [], pb_json = []\<rparr>"
    by (simp add: build_step_def get_u64_def map_of_bt_insert_any)
  from delta_events[OF this, of "block_deltas b"] show ?thesis
    by (simp add: block_events_def block_deltas_partial)
qed

lemma finalize_partial: "finalize_block js (partial_of b) = whole_block js b"
  by (cases b) (simp_all add: partial_of_def finalize_block_def get_str_def Let_def)

lemma build_blocks:
  assumes "bt_valid blocks" and own: "\<forall>(i, b)\<in>set blocks. filter (block_event i) evs = block_events i b"
    and only: "\<forall>ev\<in>set evs. \<forall>i. block_event i ev \<longrightarrow> i \<in> fst ` set blocks"
  shows "bb_blocks (fold build_step evs body_builder_new) = map (\<lambda>(i, b). (i, partial_of b)) blocks"
proof (rule bt_ext)
  show "bt_valid (bb_blocks (fold build_step evs body_builder_new))"
    by (intro build_valid) (simp add: body_builder_new_def bt_valid_def)
  show "bt_valid (map (\<lambda>(i, b). (i, partial_of b)) blocks)"
    using assms(1) by (simp add: bt_valid_def split_beta comp_def)
  fix i
  have m: "map_of (map (\<lambda>(i, b). (i, partial_of b)) blocks) i = map_option partial_of (map_of blocks i)"
    by (simp add: map_of_map)
  have f: "map_of (bb_blocks (fold build_step evs body_builder_new)) i =
      map_of (bb_blocks (fold build_step (filter (block_event i) evs) body_builder_new)) i"
    by (rule build_blocks_by_index) simp
  show "map_of (bb_blocks (fold build_step evs body_builder_new)) i = map_of (map (\<lambda>(i, b). (i, partial_of b)) blocks) i"
  proof (cases "map_of blocks i")
    case None
    then have "i \<notin> fst ` set blocks" by (simp add: map_of_eq_None_iff)
    with only have "filter (block_event i) evs = []" by (auto simp: filter_empty_conv)
    with None show ?thesis unfolding f m by (simp add: body_builder_new_def)
  next
    case (Some b)
    then have "filter (block_event i) evs = block_events i b" using own map_of_SomeD by fastforce
    with Some show ?thesis unfolding f m by (simp add: block_events_partial)
  qed
qed

text \<open>The fields that come from the message events only.\<close>

lemma info_by_message: "fold sse_info_step evs info = fold sse_info_step (filter message_event evs) info"
proof (induction evs arbitrary: info)
  case (Cons ev evs)
  then show ?case by (cases ev) (simp add: sse_info_step_def message_event_def)
qed simp

lemma build_step_head:
  "\<not> message_event ev \<Longrightarrow> bb_head (build_step ev b) = bb_head b"
  "bb_head b = bb_head b' \<Longrightarrow> bb_head (build_step ev b) = bb_head (build_step ev b')"
  by (cases ev; auto simp: build_step_def message_event_def bb_head_def split: option.splits)+

lemma head_by_message:
  "bb_head b = bb_head b' \<Longrightarrow> bb_head (fold build_step evs b) = bb_head (fold build_step (filter message_event evs) b')"
proof (induction evs arbitrary: b b')
  case (Cons ev evs)
  show ?case
  proof (cases "message_event ev")
    case True
    with Cons.IH[OF build_step_head(2)[OF Cons.prems, of ev]] show ?thesis by simp
  next
    case False
    with Cons.IH[of "build_step ev b" b'] Cons.prems show ?thesis by (simp add: build_step_head(1))
  qed
qed simp

lemma finalize_wf:
  assumes lib: "\<And>s v. json_from_str js s = Some v \<Longrightarrow> json_wf v" and "json_wf (pb_block p)"
  shows "json_wf (finalize_block js p)"
  using assms by (cases "json_from_str js (pb_json p)") (auto simp: finalize_block_def Let_def)

lemma block_delta_block [simp]: "pb_block (block_delta d e) = pb_block e"
  by (simp add: block_delta_def Let_def)

lemma build_step_wf:
  assumes "json_wf (snd ev)" "builder_wf b"
  shows "builder_wf (build_step ev b)"
proof -
  obtain ty data where ev: "ev = (ty, data)" by (cases ev)
  have sub: "json_wf w" if "get data k = Some w" for k w using assms(1) that unfolding ev by (auto dest: json_wf_get)
  have old: "json_wf (pb_block e)" if "map_of (bb_blocks b) i = Some e" for i e
    using assms(2) map_of_SomeD[OF that] by (force simp: builder_wf_def)
  have ins: "builder_wf (b\<lparr>bb_blocks := bt_insert i e (bb_blocks b)\<rparr>)" if "json_wf (pb_block e)" for i e
    using assms(2) that by (auto simp: builder_wf_def dest!: bt_insert_entries)
  have "builder_wf (b\<lparr>bb_message := m\<rparr>)" if "json_wf m" for m using assms(2) that by (simp add: builder_wf_def)
  moreover have "builder_wf (b\<lparr>bb_stop_reason := r, bb_usage := or_keep (get data k) (bb_usage b)\<rparr>)" for r k
    using assms(2) sub by (cases "get data k") (simp_all add: builder_wf_def)
  ultimately show ?thesis
    using assms(2) sub old ins unfolding ev build_step_def Let_def by (simp split: option.split)
qed

lemma build_wf: "(\<forall>ev\<in>set evs. json_wf (snd ev)) \<Longrightarrow> builder_wf b \<Longrightarrow> builder_wf (fold build_step evs b)"
  by (induction evs arbitrary: b) (simp_all add: build_step_wf)

lemma response_body_wf:
  assumes lib: "\<And>s v. json_from_str js s = Some v \<Longrightarrow> json_wf v" and evs: "\<forall>ev\<in>set evs. json_wf (snd ev)"
    and b: "build_response_body js evs = Some body"
  shows "json_wf body"
proof -
  define bb where "bb = fold build_step evs body_builder_new"
  have w: "builder_wf bb"
    unfolding bb_def by (rule build_wf[OF evs]) (simp add: builder_wf_def body_builder_new_def)
  let ?content = "VArray (map (\<lambda>(_, p). finalize_block js p) (bb_blocks bb))"
  let ?head = "if is_object (bb_message bb) then bb_message bb else VObject []"
  have "json_wf ?content" using w finalize_wf[OF lib] by (auto simp: builder_wf_def)
  moreover have "json_wf ?head" using w by (simp add: builder_wf_def bt_valid_def)
  moreover have "body = insert_some ''usage'' (bb_usage bb) (insert_some ''stop_reason'' (map_option VString (bb_stop_reason bb))
      (obj_insert ''content'' ?content ?head))"
    using b unfolding build_response_body_def bb_def[symmetric] Let_def insert_some_def
    by (cases "bb_stop_reason bb"; cases "bb_usage bb"; simp split: if_splits)
  ultimately show ?thesis using w
    by (auto intro!: json_wf_insert_some json_wf_insert simp: builder_wf_def bt_valid_def simp del: json_wf.simps(1))
qed

lemma anthropic_wire_api: "wire_api js (AnthropicWireApi js)"
proof
  fix evs b
  assume lib: "\<And>s v. json_from_str js s = Some v \<Longrightarrow> json_wf v"
    and b: "pj_get js (snd (wa_extract_sse (AnthropicWireApi js) evs)) = Some b"
  have "\<forall>ev\<in>set (parsed_events js evs). json_wf (snd ev)"
    using lib by (auto simp: parsed_events_def unwrap_or_def split: option.split)
  then show "json_wf b"
    using response_body_wf[OF lib] b by (simp add: AnthropicWireApi_def extract_from_sse_def from_value_def Let_def)
qed (auto simp: AnthropicWireApi_def anthropic_classify_route_def anthropic_matches_shape_def extract_from_request_def
  extract_from_response_def anthropic_is_tool_use_def anthropic_is_terminal_def extract_from_sse_def from_value_def Let_def
  split: option.splits)

interpretation anthropic: wire_api js "AnthropicWireApi js" for js
  by (rule anthropic_wire_api)

section \<open>Properties\<close>

text \<open>C17: Let the events of a streamed message, as the JSON reader sees them, contain one
  message_start and one message_delta and, for each content block, its start and its fragments
  in order, the events of different blocks interleaved in any way. Then extract_from_sse
  returns a body whose content is exactly the list of whole blocks in index order (texts
  concatenated, tool input parsed), with the stop reason and usage of the delta and every
  other field of the message, and a response info with the model, identifier, finish reason
  and token counts of the two message events.\<close>

theorem anthropic_stream_assembled:
  fixes blocks :: "(u64 \<times> wire_block) list"
  assumes "bt_valid blocks"
    and "\<forall>(i, b)\<in>set blocks. filter (block_event i) (parsed_events js evs) = block_events i b"
    and "\<forall>ev\<in>set (parsed_events js evs). \<forall>i. block_event i ev \<longrightarrow> i \<in> fst ` set blocks"
    and msgs: "filter message_event (parsed_events js evs) =
      [(''message_start'', VObject [(''message'', VObject m)]),
       (''message_delta'', VObject [(''delta'', VObject [(''stop_reason'', VString sr)]), (''usage'', u)])]"
  shows "\<exists>body. extract_from_sse js evs =
      (\<lparr>ri_model = get_str (VObject m) ''model'', ri_finish_reason = Some sr,
        ri_input_tokens = (case get_u64 u ''input_tokens'' of
            Some n \<Rightarrow> if n > 0 then Some (ucast n) else Option.bind (map_of m ''usage'') (\<lambda>v. get_u32 v ''input_tokens'')
          | None \<Rightarrow> Option.bind (map_of m ''usage'') (\<lambda>v. get_u32 v ''input_tokens'')),
        ri_output_tokens = get_u32 u ''output_tokens'', ri_total_tokens = None,
        ri_cache_read_input_tokens = or_keep (get_u32 u ''cache_read_input_tokens'')
          (Option.bind (map_of m ''usage'') (\<lambda>v. get_u32 v ''cache_read_input_tokens'')),
        ri_cache_creation_input_tokens = or_keep (get_u32 u ''cache_creation_input_tokens'')
          (Option.bind (map_of m ''usage'') (\<lambda>v. get_u32 v ''cache_creation_input_tokens'')),
        ri_response_body = Some (json_to_string js body), ri_response_id = get_str (VObject m) ''id''\<rparr>,
       Eager (Some body))
    \<and> get body ''content'' = Some (VArray (map (\<lambda>(_, b). whole_block js b) blocks))
    \<and> get body ''stop_reason'' = Some (VString sr) \<and> get body ''usage'' = Some u
    \<and> (\<forall>k. k \<noteq> ''content'' \<and> k \<noteq> ''stop_reason'' \<and> k \<noteq> ''usage'' \<longrightarrow> get body k = map_of m k)"
proof -
  let ?evs = "parsed_events js evs" and ?bb = "fold build_step (parsed_events js evs) body_builder_new"
  have head: "bb_message ?bb = VObject m" "bb_stop_reason ?bb = Some sr" "bb_usage ?bb = Some u"
    using head_by_message[of body_builder_new body_builder_new ?evs] unfolding msgs
    by (simp_all add: bb_head_def build_step_def body_builder_new_def get_str_def)
  have blocks: "map (\<lambda>(_, p). finalize_block js p) (bb_blocks ?bb) = map (\<lambda>(_, b). whole_block js b) blocks"
    unfolding build_blocks[OF assms(1-3)] by (simp add: split_beta comp_def finalize_partial)
  let ?body = "obj_insert ''usage'' u (obj_insert ''stop_reason'' (VString sr)
     (obj_insert ''content'' (VArray (map (\<lambda>(_, b). whole_block js b) blocks)) (VObject m)))"
  have body: "build_response_body js ?evs = Some ?body"
    unfolding build_response_body_def Let_def blocks head by simp
  have info: "fold sse_info_step ?evs empty_info =
      \<lparr>ri_model = get_str (VObject m) ''model'', ri_finish_reason = Some sr,
        ri_input_tokens = (case get_u64 u ''input_tokens'' of
            Some n \<Rightarrow> if n > 0 then Some (ucast n) else Option.bind (map_of m ''usage'') (\<lambda>v. get_u32 v ''input_tokens'')
          | None \<Rightarrow> Option.bind (map_of m ''usage'') (\<lambda>v. get_u32 v ''input_tokens'')),
        ri_output_tokens = get_u32 u ''output_tokens'', ri_total_tokens = None,
        ri_cache_read_input_tokens = or_keep (get_u32 u ''cache_read_input_tokens'')
          (Option.bind (map_of m ''usage'') (\<lambda>v. get_u32 v ''cache_read_input_tokens'')),
        ri_cache_creation_input_tokens = or_keep (get_u32 u ''cache_creation_input_tokens'')
          (Option.bind (map_of m ''usage'') (\<lambda>v. get_u32 v ''cache_creation_input_tokens'')),
        ri_response_body = None, ri_response_id = get_str (VObject m) ''id''\<rparr>"
    unfolding info_by_message[of ?evs] msgs
    by (simp add: sse_info_step_def empty_info_def Let_def get_str_def get_u64_def split: option.split)
  show ?thesis
    by (intro exI[of _ ?body])
       (simp add: extract_from_sse_def body info from_value_def map_of_bt_insert_any Let_def)
qed

theorem anthropic_stream_assembled_witness:
  "\<exists>body. snd (extract_from_sse sample_json_lib sample_stream) = Eager (Some body)
    \<and> get body ''content'' = Some (VArray [VObject [(''text'', VString ''Hello''), (''type'', VString ''text'')],
         VObject [(''id'', VString ''t1''), (''input'', VObject []), (''name'', VString ''ls''), (''type'', VString ''tool_use'')]])"
proof -
  have r: "replicate n (CHR ''1'') \<noteq> ''{}''" for n by (cases n) auto
  have p: "parsed_events sample_json_lib sample_stream = sample_parsed"
    by (rule nth_equalityI) (auto simp: parsed_events_def sample_stream_def sample_json_lib_def list_all_length r)
  have 1: "bt_valid sample_blocks" by (simp add: bt_valid_def sample_blocks_def)
  have 2: "\<forall>(i, b)\<in>set sample_blocks. filter (block_event i) (parsed_events sample_json_lib sample_stream) = block_events i b"
    unfolding p by (simp add: sample_blocks_def sample_parsed_def block_events_def block_event_def get_u64_def)
  have 3: "\<forall>ev\<in>set (parsed_events sample_json_lib sample_stream). \<forall>i. block_event i ev \<longrightarrow> i \<in> fst ` set sample_blocks"
    unfolding p by (simp add: sample_blocks_def sample_parsed_def block_events_def block_event_def get_u64_def)
  have 4: "filter message_event (parsed_events sample_json_lib sample_stream) =
      [(''message_start'', VObject [(''message'', VObject [(''id'', VString ''msg_1''), (''model'', VString ''c'')])]),
       (''message_delta'', VObject [(''delta'', VObject [(''stop_reason'', VString ''tool_use'')]),
         (''usage'', VObject [(''output_tokens'', VNumber (PosInt 7))])])]"
    unfolding p by (simp add: sample_parsed_def block_events_def message_event_def)
  have w: "map (\<lambda>(_, b). whole_block sample_json_lib b) sample_blocks =
      [VObject [(''text'', VString ''Hello''), (''type'', VString ''text'')],
       VObject [(''id'', VString ''t1''), (''input'', VObject []), (''name'', VString ''ls''), (''type'', VString ''tool_use'')]]"
    by (simp add: sample_blocks_def sample_json_lib_def)
  from anthropic_stream_assembled[OF 1 2 3 4] obtain body info where
    "extract_from_sse sample_json_lib sample_stream = (info, Eager (Some body))"
    "get body ''content'' = Some (VArray (map (\<lambda>(_, b). whole_block sample_json_lib b) sample_blocks))"
    by blast
  then show ?thesis unfolding w by (intro exI[of _ body]) simp
qed

text \<open>A tool call without arguments: its block starts with an empty object as input and no fragment brings JSON.
  The empty text is not JSON, so the input of the assembled block is an empty string.\<close>

theorem no_argument_tool_input_lost:
  assumes "json_from_str js [] = None"
  shows "get (block_payload (ToolUseBlock i n [[]])) ''input'' = Some (VObject [])
    \<and> get (finalize_block js (partial_of (ToolUseBlock i n [[]]))) ''input'' = Some (VString [])"
  unfolding finalize_partial using assms by simp

text \<open>A system message after the prompt: the request starts a user turn, but has no user input.\<close>

theorem trailing_system_hides_prompt:
  "anthropic_is_user_turn_start system_after_prompt = Some True \<and> anthropic_extract_user_input system_after_prompt = None"
  by code_simp

end
