(* ===== verification/Processor.thy ===== *)
theory Processor
  imports Anthropic Joiner
begin

text \<open>
  \<^verbatim>\<open>server/h-llm/src/processor.rs\<close> with \<^verbatim>\<open>agent_classifier.rs\<close>, \<^verbatim>\<open>agent_primitives.rs\<close>, the profile
  interface of \<^verbatim>\<open>profile.rs\<close> (a trait object is a record of its methods) and the body cap of
  \<^verbatim>\<open>h-common/src/config.rs\<close>: a joiner event becomes a start, a completed call with its agent
  classification, or a heartbeat. A slice of a string at an index inside a character panics, here
  \<open>None\<close>. The identifier of a call (the \<open>uuid\<close> crate) is an argument; sums of token counts wrap.
\<close>

section \<open>Body cap\<close>

record BodyCapConfig =
  cap_enabled :: bool
  head_bytes :: u64
  tail_bytes :: u64

definition BodyCapConfig_default :: BodyCapConfig where
  "BodyCapConfig_default = \<lparr>cap_enabled = True, head_bytes = 262144, tail_bytes = 65536\<rparr>"

definition budget :: "BodyCapConfig \<Rightarrow> u64" where
  "budget cap = sat_add (head_bytes cap) (tail_bytes cap)"

definition is_char_boundary :: "string \<Rightarrow> nat \<Rightarrow> bool" where
  "is_char_boundary s i \<longleftrightarrow> i = 0 \<or> i = length s \<or> i < length s \<and> \<not> cont_char (s ! i)"

definition slice_to :: "string \<Rightarrow> nat \<Rightarrow> string option" where
  "slice_to s i = (if is_char_boundary s i then Some (take i s) else None)"

definition slice_from :: "string \<Rightarrow> nat \<Rightarrow> string option" where
  "slice_from s i = (if is_char_boundary s i then Some (drop i s) else None)"

fun snap_down :: "string \<Rightarrow> nat \<Rightarrow> nat" where
  "snap_down s 0 = 0"
| "snap_down s (Suc i) = (if is_char_boundary s (Suc i) then Suc i else snap_down s i)"

function snap_up :: "string \<Rightarrow> nat \<Rightarrow> nat" where
  "snap_up s i = (if i < length s \<and> \<not> is_char_boundary s i then snap_up s (Suc i) else i)"
  by pat_completeness auto
termination by (relation "measure (\<lambda>(s, i). length s - i)") auto

declare snap_up.simps [simp del]

definition cap_marker :: "u64 \<Rightarrow> string" where
  "cap_marker dropped = ''\<newline>...[heron body cap: '' @ to_radix 20 10 (unat dropped) @ '' bytes elided]...\<newline>''"

definition cap_body :: "string option \<Rightarrow> BodyCapConfig \<Rightarrow> (string option \<times> u64) option" where
  "cap_body body_opt cap =
     (case body_opt of
        None \<Rightarrow> Some (None, 0)
      | Some body \<Rightarrow>
          if \<not> cap_enabled cap \<or> length body \<le> unat (budget cap) then Some (Some body, 0)
          else
            (let head_end = snap_down body (min (unat (head_bytes cap)) (length body));
                 tail_start = snap_up body (length body - unat (tail_bytes cap))
             in if tail_start \<le> head_end then Some (Some body, 0)
                else
                  (let dropped = of_nat (tail_start - head_end)
                   in case (slice_to body head_end, slice_from body tail_start) of
                        (Some h, Some t) \<Rightarrow> Some (Some (h @ cap_marker dropped @ t), dropped)
                      | _ \<Rightarrow> None)))"

section \<open>Agent classification\<close>

definition AGENT_LOOP :: u32 where "AGENT_LOOP = 1"
definition REACT_SKELETON :: u32 where "REACT_SKELETON = 2"
definition TOOL_USE_INSTRUCTION :: u32 where "TOOL_USE_INSTRUCTION = 4"
definition MCP_SERVER :: u32 where "MCP_SERVER = 8"

record AgentPrimitives =
  ap_tool_call_count :: u32
  ap_tool_names :: "string list"
  ap_has_system_prompt :: bool
  ap_system_prompt_markers :: u32
  ap_subagent_marker :: "string option"
  ap_dispatches_to_subagent :: bool

definition AgentPrimitives_default :: AgentPrimitives where
  "AgentPrimitives_default = \<lparr>ap_tool_call_count = 0, ap_tool_names = [], ap_has_system_prompt = False,
     ap_system_prompt_markers = 0, ap_subagent_marker = None, ap_dispatches_to_subagent = False\<rparr>"

record ClassifierConfig =
  cli_tool_allowlist :: "string list"
  orchestrator_tool_names :: "string list"
  mcp_tool_prefixes :: "string list"
  known_tool_registry :: "string list"

definition ClassifierConfig_default :: ClassifierConfig where
  "ClassifierConfig_default =
     \<lparr>cli_tool_allowlist = [''bash'', ''shell'', ''exec'', ''run_command'', ''ShellExec''],
      orchestrator_tool_names = [''Task'', ''dispatch_agent''],
      mcp_tool_prefixes = [''mcp__''],
      known_tool_registry = [''Read'', ''Write'', ''Edit'', ''MultiEdit'', ''NotebookEdit'', ''NotebookRead'', ''Grep'', ''Glob'',
        ''Bash'', ''BashOutput'', ''KillShell'', ''KillBash'', ''WebFetch'', ''WebSearch'', ''TodoWrite'', ''ExitPlanMode'',
        ''SlashCommand'', ''Skill'', ''AskUserQuestion'', ''Task'', ''Agent'', ''TaskCreate'', ''TaskGet'', ''TaskList'',
        ''TaskOutput'', ''TaskStop'', ''TaskUpdate'', ''apply_patch'', ''update_plan'', ''view_image'']\<rparr>"

text \<open>\<open>from_toml\<close> on the lists of the configuration file; a set is the list of what it was built from.\<close>

definition ClassifierConfig_from_toml :: "ClassifierConfig \<Rightarrow> ClassifierConfig" where
  "ClassifierConfig_from_toml t =
     (let d = ClassifierConfig_default; pick = (\<lambda>x seed. if x = [] then seed else x)
      in \<lparr>cli_tool_allowlist = pick (cli_tool_allowlist t) (cli_tool_allowlist d),
          orchestrator_tool_names = pick (orchestrator_tool_names t) (orchestrator_tool_names d),
          mcp_tool_prefixes = pick (mcp_tool_prefixes t) (mcp_tool_prefixes d),
          known_tool_registry = pick (known_tool_registry t) (known_tool_registry d)\<rparr>)"

record ClassifiedAgent =
  cl_is_agent_request :: bool
  cl_tool_surface :: "ToolSurface option"
  cl_agent_topology :: "AgentTopology option"
  cl_suspicious_signals :: "SuspiciousSignal list"

text \<open>The flags for MCP, CLI and function-call tools after the loop over the names.\<close>

definition surface_step :: "ClassifierConfig \<Rightarrow> string \<Rightarrow> bool \<times> bool \<times> bool \<Rightarrow> bool \<times> bool \<times> bool" where
  "surface_step cfg name flags =
     (let (mcp, cli, fc) = flags in
      if list_ex (\<lambda>p. prefix p name) (mcp_tool_prefixes cfg) then (True, cli, fc)
      else if name \<in> set (cli_tool_allowlist cfg) then (mcp, True, fc)
      else (mcp, cli, True))"

definition surface_of :: "bool \<times> bool \<times> bool \<Rightarrow> ToolSurface" where
  "surface_of flags =
     (let (mcp, cli, fc) = flags; active = length (filter id [mcp, cli, fc]) in
      if active = 0 then Unknown
      else if active = 1 \<and> mcp then Mcp
      else if active = 1 \<and> cli then Cli
      else if active = 1 then FunctionCall
      else Mixed)"

definition classify :: "AgentPrimitives \<Rightarrow> ClassifierConfig \<Rightarrow> ClassifiedAgent" where
  "classify p cfg =
     (let has_tool_calls = ap_tool_call_count p > 0;
          has_agent_markers =
            (ap_system_prompt_markers p AND (AGENT_LOOP OR REACT_SKELETON OR TOOL_USE_INSTRUCTION)) \<noteq> 0;
          is_agent = (has_tool_calls \<or> ap_subagent_marker p \<noteq> None \<or> has_agent_markers);
          mcp0 = (ap_system_prompt_markers p AND MCP_SERVER = MCP_SERVER)
      in \<lparr>cl_is_agent_request = is_agent,
          cl_tool_surface = (if \<not> has_tool_calls then None
             else Some (surface_of (fold (surface_step cfg) (ap_tool_names p) (mcp0, False, False)))),
          cl_agent_topology = (if \<not> is_agent then None
             else if ap_subagent_marker p \<noteq> None then Some SubAgent
             else if ap_dispatches_to_subagent p then Some Orchestrator
             else Some SingleAgent),
          cl_suspicious_signals = []\<rparr>)"

section \<open>Profiles\<close>

record CallCtx =
  cx_call :: LlmCall
  cx_req :: "Value option"
  cx_resp :: "Value option"

record SessionIdExtraction =
  si_session_id :: string
  si_tool_id_canonicalized :: bool

record AgentProfile =
  pr_name :: string
  pr_matches :: "CallCtx \<Rightarrow> bool"
  pr_extract_session_id :: "CallCtx \<Rightarrow> SessionIdExtraction option"
  pr_is_user_turn_start :: "CallCtx \<Rightarrow> bool option"
  pr_subagent :: "CallCtx \<Rightarrow> string option"
  pr_is_auxiliary :: "CallCtx \<Rightarrow> bool"
  pr_extract_user_input :: "CallCtx \<Rightarrow> string option"
  pr_extract_assistant_text :: "CallCtx \<Rightarrow> string option"
  pr_extract_primitives :: "CallCtx \<Rightarrow> AgentPrimitives"
  pr_is_turn_terminal :: "CallCtx \<Rightarrow> WireApiRegistry \<Rightarrow> bool"

text \<open>The default method of the trait.\<close>

definition default_is_turn_terminal :: "CallCtx \<Rightarrow> WireApiRegistry \<Rightarrow> bool" where
  "default_is_turn_terminal ctx reg =
     (case lc_finish_reason (cx_call ctx) of
        None \<Rightarrow> False
      | Some reason \<Rightarrow>
          (case find_by_name reg (lc_wire_api (cx_call ctx)) of
             None \<Rightarrow> False
           | Some api \<Rightarrow> wa_is_terminal api reason \<and> \<not> wa_is_tool_use api reason))"

type_synonym AgentProfileRegistry = "AgentProfile list"

definition find_profile :: "AgentProfileRegistry \<Rightarrow> CallCtx \<Rightarrow> AgentProfile option" where
  "find_profile reg ctx = find (\<lambda>p. pr_matches p ctx) reg"

definition find_profile_by_name :: "AgentProfileRegistry \<Rightarrow> string \<Rightarrow> AgentProfile option" where
  "find_profile_by_name reg name = find (\<lambda>p. pr_name p = name) reg"

definition parse_bodies :: "json_lib \<Rightarrow> LlmCall \<Rightarrow> Value option \<times> Value option" where
  "parse_bodies js call = (Option.bind (lc_request_body call) (json_from_str js),
     Option.bind (lc_response_body call) (json_from_str js))"

section \<open>The processor\<close>

text \<open>The metrics a worker of this stage registers (\<open>LLM_WORKER_METRICS\<close>).\<close>

datatype LlmWorkerMetric =
    WireDetected | WireIgnored | LlmCallsWithAgent | LlmCallsWithoutAgent | LlmGenericToolIdCanonicalized
  | LlmGenericSessionIdSynthFailed | LlmHeartbeatsReceived | LlmTokensEstimated | MetricsHeartbeatsDropped
  | TurnHeartbeatsDropped | AgentClassifierUnknownCount | AgentClassifierMixedCount

record LlmProcessor =
  lp_wire_apis :: WireApiRegistry
  lp_registry :: AgentProfileRegistry
  lp_metrics :: "LlmWorkerMetric MetricsWorker"
  lp_estimator :: "string \<Rightarrow> u32"
  lp_classifier_cfg :: ClassifierConfig
  lp_body_cap :: BodyCapConfig

definition LlmProcessor_with_estimator :: "WireApiRegistry \<Rightarrow> AgentProfileRegistry \<Rightarrow> LlmWorkerMetric MetricsWorker \<Rightarrow>
    (string \<Rightarrow> u32) \<Rightarrow> LlmProcessor" where
  "LlmProcessor_with_estimator was reg m est = \<lparr>lp_wire_apis = was, lp_registry = reg, lp_metrics = m, lp_estimator = est,
     lp_classifier_cfg = ClassifierConfig_default, lp_body_cap = BodyCapConfig_default\<rparr>"

definition LlmProcessor_new :: "(string \<Rightarrow> nat) \<Rightarrow> WireApiRegistry \<Rightarrow> AgentProfileRegistry \<Rightarrow>
    LlmWorkerMetric MetricsWorker \<Rightarrow> LlmProcessor" where
  "LlmProcessor_new bpe was reg m = LlmProcessor_with_estimator was reg m (count_text bpe)"

definition with_classifier_cfg :: "ClassifierConfig \<Rightarrow> LlmProcessor \<Rightarrow> LlmProcessor" where
  "with_classifier_cfg cfg lp = lp\<lparr>lp_classifier_cfg := cfg\<rparr>"

definition with_body_cap :: "BodyCapConfig \<Rightarrow> LlmProcessor \<Rightarrow> LlmProcessor" where
  "with_body_cap cfg lp = lp\<lparr>lp_body_cap := cfg\<rparr>"

definition lp_inc :: "LlmWorkerMetric \<Rightarrow> LlmProcessor \<Rightarrow> LlmProcessor" where
  "lp_inc m lp = lp\<lparr>lp_metrics := metric_inc m (lp_metrics lp)\<rparr>"

definition build_agent_call_info_with_parsed :: "LlmCall \<Rightarrow> Value option \<Rightarrow> Value option \<Rightarrow> LlmProcessor \<Rightarrow>
    AgentCallInfo option \<times> LlmProcessor" where
  "build_agent_call_info_with_parsed call req resp lp =
     (let ctx = \<lparr>cx_call = call, cx_req = req, cx_resp = resp\<rparr> in
      case find_profile (lp_registry lp) ctx of
        None \<Rightarrow> (None, lp)
      | Some profile \<Rightarrow>
          (let is_generic = pr_name profile = ''generic'' in
           case pr_extract_session_id profile ctx of
             None \<Rightarrow> (None, if is_generic then lp_inc LlmGenericSessionIdSynthFailed lp else lp)
           | Some ids \<Rightarrow>
               (let lp1 = (if is_generic \<and> si_tool_id_canonicalized ids then lp_inc LlmGenericToolIdCanonicalized lp else lp);
                    primitives = pr_extract_primitives profile ctx;
                    classified = classify primitives (lp_classifier_cfg lp);
                    lp2 = (if cl_tool_surface classified = Some Unknown then lp_inc AgentClassifierUnknownCount lp1 else lp1);
                    lp3 = (if cl_tool_surface classified = Some Mixed then lp_inc AgentClassifierMixedCount lp2 else lp2)
                in (Some \<lparr>ai_agent_kind = pr_name profile, ai_session_id = si_session_id ids,
                       ai_subagent_name = pr_subagent profile ctx,
                       ai_is_user_turn_start = pr_is_user_turn_start profile ctx,
                       ai_is_turn_terminal = pr_is_turn_terminal profile ctx (lp_wire_apis lp),
                       ai_is_auxiliary = pr_is_auxiliary profile ctx,
                       ai_user_input = pr_extract_user_input profile ctx,
                       ai_assistant_text = pr_extract_assistant_text profile ctx,
                       ai_is_agent_request = cl_is_agent_request classified,
                       ai_tool_surface = cl_tool_surface classified,
                       ai_agent_topology = cl_agent_topology classified,
                       ai_tool_names = ap_tool_names primitives,
                       ai_tool_call_count = ap_tool_call_count primitives,
                       ai_suspicious_signals = cl_suspicious_signals classified\<rparr>, lp3))))"

definition build_agent_call_info :: "json_lib \<Rightarrow> LlmCall \<Rightarrow> LlmProcessor \<Rightarrow> AgentCallInfo option \<times> LlmProcessor" where
  "build_agent_call_info js call lp =
     (let (req, resp) = parse_bodies js call in build_agent_call_info_with_parsed call req resp lp)"

definition llm_on_request :: "json_lib \<Rightarrow> HttpRequestData \<Rightarrow> LlmProcessor \<Rightarrow> LlmProcessor \<times> LlmEvent list" where
  "llm_on_request js req lp =
     (case detect js (lp_wire_apis lp) req (from_bytes (req_body req)) of
        None \<Rightarrow> (lp_inc WireIgnored lp, [])
      | Some (api, info) \<Rightarrow>
          (lp_inc WireDetected lp,
           [LlmStart \<lparr>st_source_id = source_id (req_flow_key req), st_wire_api = wa_name api, st_model = rq_model info,
              st_is_stream = rq_is_stream info, st_client_ip = fst (req_client_addr req), st_client_port = snd (req_client_addr req),
              st_server_ip = fst (req_server_addr req), st_server_port = snd (req_server_addr req),
              st_timestamp_us = req_timestamp_us req\<rparr>]))"

text \<open>The estimates for a wire API by name.\<close>

definition estimates :: "json_lib \<Rightarrow> (string \<Rightarrow> u32) \<Rightarrow> string \<Rightarrow> Value \<Rightarrow> Value \<Rightarrow> u32 \<times> u32" where
  "estimates js est name req_json resp_json =
     (if name = OPENAI_CHAT then (chat_estimate_input_tokens js est req_json, chat_estimate_output_tokens js est resp_json)
      else if name = OPENAI_RESPONSES then
        (responses_estimate_input_tokens js est req_json, responses_estimate_output_tokens js est resp_json)
      else if name = ANTHROPIC then
        (anthropic_estimate_input_tokens js est req_json, anthropic_estimate_output_tokens js est resp_json)
      else (0, 0))"

definition estimate_tokens :: "json_lib \<Rightarrow> string \<Rightarrow> HttpRequestData \<Rightarrow> HttpResponseData \<Rightarrow> ResponseInfo \<times> LlmProcessor \<Rightarrow>
    ResponseInfo \<times> LlmProcessor" where
  "estimate_tokens js name request response st =
     (let (info, lp) = st in
      if 200 \<le> resp_status response \<and> resp_status response < 300
         \<and> unwrap_or 0 (ri_input_tokens info) = 0 \<and> unwrap_or 0 (ri_output_tokens info) = 0
      then (case Option.bind (ri_response_body info) (json_from_str js) of
              None \<Rightarrow> st
            | Some resp_json \<Rightarrow>
                (let req_json = unwrap_or VNull (Option.bind (from_utf8 (req_body request)) (json_from_str js));
                     (est_in, est_out) = estimates js (lp_estimator lp) name req_json resp_json
                 in if est_in > 0 \<or> est_out > 0
                    then (info\<lparr>ri_input_tokens := Some est_in, ri_output_tokens := Some est_out,
                               ri_total_tokens := Some (sat_add est_in est_out)\<rparr>, lp_inc LlmTokensEstimated lp)
                    else st))
      else st)"

definition elapsed_ms :: "int \<Rightarrow> int \<Rightarrow> f64 option" where
  "elapsed_ms from_t to_t = (if to_t > from_t then Some (f64_div (f64_of_int (to_t - from_t)) (f64_of_int 1000)) else None)"

definition llm_on_exchange :: "json_lib \<Rightarrow> string \<Rightarrow> HttpRequestData \<Rightarrow> HttpResponseData \<Rightarrow> SseEventData list \<Rightarrow>
    LlmProcessor \<Rightarrow> (LlmProcessor \<times> LlmEvent list) option" where
  "llm_on_exchange js uid request response sse_events lp =
     (let req_cache = from_bytes (req_body request) in
      case detect js (lp_wire_apis lp) request req_cache of
        None \<Rightarrow> Some (lp, [])
      | Some (extractor, req_info) \<Rightarrow>
          (let (info0, resp_cache) =
                 (if sse_events \<noteq> [] then wa_extract_sse extractor sse_events
                  else (let cache = from_bytes (resp_body response) in (wa_extract_response extractor response cache, cache)));
               (info, lp1) = estimate_tokens js (wa_name extractor) request response (info0, lp)
           in case (cap_body (from_utf8 (req_body request)) (lp_body_cap lp), cap_body (ri_response_body info) (lp_body_cap lp)) of
                (Some (request_body, req_dropped), Some (response_body, resp_dropped)) \<Rightarrow>
                  (let call = \<lparr>lc_source_id = source_id (req_flow_key request), lc_id = uid, lc_wire_api = wa_name extractor,
                         lc_model = unwrap_or (rq_model req_info) (ri_model info), lc_api_type = Chat,
                         lc_request_time = req_timestamp_us request,
                         lc_response_time = Some (first_byte_timestamp_us response),
                         lc_complete_time = Some (complete_timestamp_us response),
                         lc_request_path = req_uri request, lc_is_stream = rq_is_stream req_info,
                         lc_request_body = request_body, lc_status_code = Some (resp_status response),
                         lc_finish_reason = ri_finish_reason info, lc_response_body = response_body,
                         lc_input_tokens = ri_input_tokens info, lc_output_tokens = ri_output_tokens info,
                         lc_total_tokens = (case ri_total_tokens info of
                            Some t \<Rightarrow> Some t
                          | None \<Rightarrow> (case (ri_input_tokens info, ri_output_tokens info) of
                                       (Some i, Some t) \<Rightarrow> Some (i + t) | _ \<Rightarrow> None)),
                         lc_cache_read_input_tokens = ri_cache_read_input_tokens info,
                         lc_cache_creation_input_tokens = ri_cache_creation_input_tokens info,
                         lc_ttft_ms = elapsed_ms (req_timestamp_us request) (first_byte_timestamp_us response),
                         lc_e2e_latency_ms = elapsed_ms (req_timestamp_us request) (complete_timestamp_us response),
                         lc_client_ip = fst (req_client_addr request), lc_client_port = snd (req_client_addr request),
                         lc_server_ip = fst (req_server_addr request), lc_server_port = snd (req_server_addr request),
                         lc_response_id = ri_response_id info, lc_request_headers = req_headers request,
                         lc_response_headers = resp_headers response, lc_is_agent_request = False, lc_tool_surface = None,
                         lc_agent_topology = None, lc_tool_call_count = 0, lc_tool_names = [],
                         lc_body_bytes_dropped = sat_add req_dropped resp_dropped,
                         lc_process = or_keep (req_process request) (resp_process response)\<rparr>;
                       (agent, lp2) = build_agent_call_info_with_parsed call (pj_get js req_cache) (pj_get js resp_cache) lp1
                   in Some (lp2, [LlmComplete call agent]))
              | _ \<Rightarrow> None))"

definition llm_process :: "json_lib \<Rightarrow> string \<Rightarrow> HttpJoinerEvent \<Rightarrow> LlmProcessor \<Rightarrow> (LlmProcessor \<times> LlmEvent list) option" where
  "llm_process js uid ev lp =
     (case ev of
        JRequest req \<Rightarrow> Some (llm_on_request js req lp)
      | JExchange _ request response sse_events \<Rightarrow> llm_on_exchange js uid request response sse_events lp
      | JHeartbeat ts sid \<Rightarrow> Some (lp_inc LlmHeartbeatsReceived lp, [LlmHeartbeat ts sid]))"

section \<open>Specifications\<close>

definition tiny_cap :: BodyCapConfig where
  "tiny_cap = \<lparr>cap_enabled = True, head_bytes = 2, tail_bytes = 1\<rparr>"

text \<open>The two passes of detection as one specification.\<close>

definition accepts :: "HttpRequestData \<Rightarrow> WireApi \<Rightarrow> bool" where
  "accepts req p \<longleftrightarrow> wa_classify_route p req = Accept"

definition shaped :: "HttpRequestData \<Rightarrow> ParsedJson \<Rightarrow> WireApi \<Rightarrow> bool" where
  "shaped req c p \<longleftrightarrow> wa_classify_route p req = UnknownRoute \<and> wa_matches_shape p req c"

section \<open>Lemmas\<close>

text \<open>Cutting UTF-8 text at the start of a character leaves UTF-8 text on both sides.\<close>

lemma byte_at_take: "byte_at (take p bs) i = (if i < p then byte_at bs i else 0)"
  by (simp add: byte_at_def)

lemma byte_at_drop: "byte_at (drop n bs) i = byte_at bs (n + i)"
  by (cases "n + i < length bs") (auto simp: byte_at_def)

lemma utf8_step_cont:
  assumes "fst (utf8_step bs)" and "0 < p" and "p < snd (utf8_step bs)"
  shows "is_cont (byte_at bs p)"
proof -
  have "p = 1 \<or> p = 2 \<or> p = 3"
    using assms(2,3) by (auto simp: utf8_step_def Let_def split: if_splits)
  then show ?thesis
    by (elim disjE) (use assms in \<open>auto simp: utf8_step_def Let_def second_ok_def is_cont_def split: if_splits\<close>)
qed

lemma utf8_step_pos: "1 \<le> snd (utf8_step bs)"
  by (auto simp: utf8_step_def Let_def)

lemma utf8_step_take:
  assumes "fst (utf8_step bs)" and "snd (utf8_step bs) \<le> p"
  shows "utf8_step (take p bs) = utf8_step bs"
proof -
  let ?a = "byte_at bs 0"
  have b: "byte_at (take p bs) j = byte_at bs j" if "j < snd (utf8_step bs)" for j
    using that assms(2) by (simp add: byte_at_take)
  have a: "byte_at (take p bs) 0 = ?a" using b utf8_step_pos[of bs] by simp
  consider "?a < 128" | "194 \<le> ?a" "?a < 224" | "224 \<le> ?a" "?a < 240" | "240 \<le> ?a" "?a < 245"
    using assms(1) by (fastforce simp: utf8_step_def Let_def split: if_splits)
  then show ?thesis
  proof cases
    case 1
    then show ?thesis by (simp add: utf8_step_def Let_def a)
  next
    case 2
    then have "is_cont (byte_at bs 1)" "snd (utf8_step bs) = 2" using assms(1) by (auto simp: utf8_step_def Let_def split: if_splits)
    with 2 b[of 1] show ?thesis by (simp add: utf8_step_def Let_def a)
  next
    case 3
    then have "second_ok ?a (byte_at bs 1)" "is_cont (byte_at bs 2)" "snd (utf8_step bs) = 3"
      using assms(1) by (auto simp: utf8_step_def Let_def split: if_splits)
    with 3 b[of 1] b[of 2] show ?thesis by (simp add: utf8_step_def Let_def a)
  next
    case 4
    then have "second_ok ?a (byte_at bs 1)" "is_cont (byte_at bs 2)" "is_cont (byte_at bs 3)" "snd (utf8_step bs) = 4"
      using assms(1) by (auto simp: utf8_step_def Let_def split: if_splits)
    with 4 b[of 1] b[of 2] b[of 3] show ?thesis by (simp add: utf8_step_def Let_def a)
  qed
qed

lemma utf8_split:
  assumes "utf8_valid bs" and "\<not> is_cont (byte_at bs p)"
  shows "utf8_valid (take p bs) \<and> utf8_valid (drop p bs)"
  using assms
proof (induction bs arbitrary: p rule: utf8_valid.induct)
  case (1 bs)
  show ?case
  proof (cases "bs = [] \<or> p = 0")
    case True
    then show ?thesis using 1(2) by (auto simp: utf8_valid.simps[of "[]"])
  next
    case False
    let ?n = "snd (utf8_step bs)"
    have ok: "fst (utf8_step bs)" and rest: "utf8_valid (drop ?n bs)"
      using 1(2) False utf8_step_pos[of bs] by (subst (asm) utf8_valid.simps, simp add: max_def split: if_splits)+
    have le: "?n \<le> p" using utf8_step_cont[OF ok] 1(3) False by (meson linorder_not_le neq0_conv)
    have "\<not> is_cont (byte_at (drop ?n bs) (p - ?n))" using 1(3) le by (simp add: byte_at_drop)
    then have ih: "utf8_valid (take (p - ?n) (drop ?n bs)) \<and> utf8_valid (drop (p - ?n) (drop ?n bs))"
      using 1(1)[of "p - ?n"] False ok rest utf8_step_pos[of bs] by (simp add: max_def)
    have st: "utf8_step (take p bs) = utf8_step bs" by (rule utf8_step_take[OF ok le])
    have "utf8_valid (take p bs)"
      using False ih ok le utf8_step_pos[of bs]
      by (subst utf8_valid.simps) (simp add: st max_def drop_take)
    moreover have "utf8_valid (drop p bs)" using ih le by simp
    ultimately show ?thesis ..
  qed
qed

lemma boundary_split:
  assumes "utf8_valid (as_bytes s)" and "is_char_boundary s i"
  shows "utf8_valid (as_bytes (take i s)) \<and> utf8_valid (as_bytes (drop i s))"
proof (cases "i = 0")
  case True
  then show ?thesis using assms(1) by (simp add: as_bytes_def utf8_valid.simps[of "[]"])
next
  case False
  have "unat (byte_of c) = of_char c" for c
    by (simp add: byte_of_def unat_of_nat take_bit_eq_mod)
  then have "\<not> is_cont (byte_at (as_bytes s) i)"
    using assms(2) False by (auto simp: is_char_boundary_def byte_at_def as_bytes_def cont_char_def is_cont_def)
  from utf8_split[OF assms(1) this] show ?thesis by (simp add: as_bytes_def take_map drop_map)
qed

lemma snap_down_spec:
  "i \<le> length s \<Longrightarrow> snap_down s i \<le> i \<and> is_char_boundary s (snap_down s i)
    \<and> (\<forall>q. snap_down s i < q \<and> q \<le> i \<longrightarrow> \<not> is_char_boundary s q)"
  by (induction i) (auto simp: is_char_boundary_def le_Suc_eq)

lemma snap_up_spec:
  "i \<le> length s \<Longrightarrow> i \<le> snap_up s i \<and> snap_up s i \<le> length s \<and> is_char_boundary s (snap_up s i)
    \<and> (\<forall>q. i \<le> q \<and> q < snap_up s i \<longrightarrow> \<not> is_char_boundary s q)"
proof (induction s i rule: snap_up.induct)
  case (1 s i)
  show ?case
  proof (cases "i < length s \<and> \<not> is_char_boundary s i")
    case True
    have u: "snap_up s i = snap_up s (Suc i)" using True by (simp add: snap_up.simps[of s i])
    have "Suc i \<le> length s" using True by simp
    from 1(1)[OF True this] show ?thesis
      unfolding u using True by (metis Suc_leD Suc_leI le_neq_implies_less)
  next
    case False
    then have u: "snap_up s i = i" by (subst snap_up.simps) auto
    show ?thesis unfolding u using False 1(2) by (auto simp: is_char_boundary_def)
  qed
qed

lemma budget_le:
  assumes "n < 2 ^ 64"
  shows "n \<le> unat (budget cap) \<longleftrightarrow> n \<le> unat (head_bytes cap) + unat (tail_bytes cap)"
proof (cases "unat (head_bytes cap) + unat (tail_bytes cap) < 2 ^ 64")
  case True
  then have "unat (budget cap) = unat (head_bytes cap) + unat (tail_bytes cap)"
    by (simp add: budget_def sat_add_def unat_word_ariths)
  then show ?thesis by simp
next
  case False
  then have "unat (budget cap) = 2 ^ 64 - 1"
    by (simp add: budget_def sat_add_def unsigned_minus_1_eq_mask mask_eq_exp_minus_1)
  then show ?thesis using assms False by auto
qed

lemma route_pass_find:
  "route_pass req reg = (case find (accepts req) reg of Some p \<Rightarrow> Inl p
     | None \<Rightarrow> Inr (filter (\<lambda>p. wa_classify_route p req = UnknownRoute) reg))"
  by (induction reg) (auto simp: accepts_def split: RouteVerdict.split option.split)

lemma find_filter: "find P (filter Q xs) = find (\<lambda>x. Q x \<and> P x) xs"
  by (induction xs) auto

text \<open>A request and its exchange give a start and a completion of the same call.\<close>

lemma build_agent_shape:
  "\<exists>lp'. snd (build_agent_call_info_with_parsed call req resp lp) = lp' \<and> lp_wire_apis lp' = lp_wire_apis lp"
  by (auto simp: build_agent_call_info_with_parsed_def Let_def lp_inc_def split: option.split)

lemma estimate_tokens_shape: "lp_body_cap (snd (estimate_tokens js name req resp st)) = lp_body_cap (snd st)"
  by (cases st) (auto simp: estimate_tokens_def Let_def lp_inc_def split: option.split prod.split)

lemma cap_body_None: "cap_body None cap = Some (None, 0)"
  by (simp add: cap_body_def)

lemma cap_body_returns: "\<exists>r. cap_body b cap = Some r"
proof (cases b)
  case (Some body)
  have h: "is_char_boundary body (snap_down body (min (unat (head_bytes cap)) (length body)))"
    using snap_down_spec[of "min (unat (head_bytes cap)) (length body)" body] by simp
  have t: "is_char_boundary body (snap_up body (length body - unat (tail_bytes cap)))"
    using snap_up_spec[of "length body - unat (tail_bytes cap)" body] by simp
  show ?thesis by (simp add: Some cap_body_def Let_def slice_to_def slice_from_def h t)
qed (simp add: cap_body_None)

lemma on_exchange_shape:
  assumes d: "detect js (lp_wire_apis lp) req (from_bytes (req_body req)) = Some (api, info)"
  shows "\<exists>lp2 c agent. llm_on_exchange js uid req resp sse lp = Some (lp2, [LlmComplete c agent])
    \<and> call_key c = \<lparr>ck_source_id = source_id (req_flow_key req), ck_client = req_client_addr req,
        ck_server = req_server_addr req, ck_request_time_us = req_timestamp_us req\<rparr>
    \<and> lc_wire_api c = wa_name api \<and> lc_is_stream c = rq_is_stream info \<and> lc_id c = uid
    \<and> lc_status_code c = Some (resp_status resp)"
proof -
  obtain i0 rc where x: "(if sse \<noteq> [] then wa_extract_sse api sse
     else (wa_extract_response api resp (from_bytes (resp_body resp)), from_bytes (resp_body resp))) = (i0, rc)"
    by fastforce
  obtain i1 lp1 where y: "estimate_tokens js (wa_name api) req resp (i0, lp) = (i1, lp1)" by fastforce
  obtain rb rd where r: "cap_body (from_utf8 (req_body req)) (lp_body_cap lp) = Some (rb, rd)"
    using cap_body_returns[of "from_utf8 (req_body req)" "lp_body_cap lp"] by auto
  obtain sb sd where s: "cap_body (ri_response_body i1) (lp_body_cap lp) = Some (sb, sd)"
    using cap_body_returns[of "ri_response_body i1" "lp_body_cap lp"] by auto
  show ?thesis
    unfolding llm_on_exchange_def Let_def d option.case prod.case x y r s
    by (auto simp: call_key_def split: prod.split)
qed

section \<open>Properties\<close>

text \<open>C33: For a UTF-8 body, cap_body keeps the body when the cap is off or the body fits the
  budget; otherwise it returns the longest prefix and suffix of whole characters within
  head_bytes and tail_bytes around the marker, both UTF-8, and counts exactly the elided
  middle, which is not empty. It never slices inside a character.\<close>

theorem cap_body_exact:
  assumes valid: "utf8_valid (as_bytes body)" and len: "length body < 2 ^ 64"
  shows "(if \<not> cap_enabled cap \<or> length body \<le> unat (head_bytes cap) + unat (tail_bytes cap)
      then cap_body (Some body) cap = Some (Some body, 0)
      else \<exists>h m t. cap_body (Some body) cap = Some (Some (h @ cap_marker (of_nat (length m)) @ t), of_nat (length m))
        \<and> body = h @ m @ t \<and> m \<noteq> [] \<and> unat (of_nat (length m) :: u64) = length m
        \<and> utf8_valid (as_bytes h) \<and> utf8_valid (as_bytes t)
        \<and> length h \<le> unat (head_bytes cap) \<and> length t \<le> unat (tail_bytes cap)
        \<and> (\<forall>q. length h < q \<and> q \<le> unat (head_bytes cap) \<longrightarrow> \<not> is_char_boundary body q)
        \<and> (\<forall>q. length body - unat (tail_bytes cap) \<le> q \<and> q < length (h @ m) \<longrightarrow> \<not> is_char_boundary body q))"
proof (cases "\<not> cap_enabled cap \<or> length body \<le> unat (head_bytes cap) + unat (tail_bytes cap)")
  case True
  then show ?thesis by (auto simp: cap_body_def budget_le[OF len])
next
  case False
  let ?H = "unat (head_bytes cap)" and ?T = "unat (tail_bytes cap)"
  define p q where "p = snap_down body ?H" and "q = snap_up body (length body - ?T)"
  have H: "?H \<le> length body" "min ?H (length body) = ?H" using False by auto
  note p = snap_down_spec[OF H(1), folded p_def]
  have q: "length body - ?T \<le> q \<and> q \<le> length body \<and> is_char_boundary body q
      \<and> (\<forall>r. length body - ?T \<le> r \<and> r < q \<longrightarrow> \<not> is_char_boundary body r)"
    unfolding q_def by (rule snap_up_spec) simp
  have pq: "p < q" using p q False by linarith
  define h m t where "h = take p body" and "m = take (q - p) (drop p body)" and "t = drop q body"
  have split: "body = h @ m @ t"
    using pq unfolding h_def m_def t_def by (metis append_take_drop_id drop_drop le_add_diff_inverse2 less_imp_le)
  have l: "length h = p" "length m = q - p" "length t = length body - q"
    using p q pq H by (auto simp: h_def m_def t_def)
  have "utf8_valid (as_bytes h)" "utf8_valid (as_bytes t)"
    using boundary_split[OF valid] p q unfolding h_def t_def by blast+
  moreover have "cap_body (Some body) cap = Some (Some (h @ cap_marker (of_nat (length m)) @ t), of_nat (length m))"
    using False pq p q
    by (simp add: cap_body_def budget_le[OF len] H Let_def p_def[symmetric] q_def[symmetric] slice_to_def slice_from_def l h_def t_def)
  moreover have "unat (of_nat (length m) :: u64) = length m"
  proof -
    have "length m < 2 ^ 64" using len l q by linarith
    then show ?thesis by (simp add: unat_of_nat)
  qed
  moreover have "m \<noteq> []" using l pq by auto
  moreover have "length h \<le> ?H" "length t \<le> ?T" using l p q by auto
  moreover have "\<forall>q. length h < q \<and> q \<le> ?H \<longrightarrow> \<not> is_char_boundary body q" using p l by simp
  moreover have "\<forall>r. length body - ?T \<le> r \<and> r < length (h @ m) \<longrightarrow> \<not> is_char_boundary body r"
    using q l pq by simp
  ultimately show ?thesis unfolding if_not_P[OF False] using split by blast
qed

theorem cap_body_exact_witness:
  "\<exists>h m t. cap_body (Some ''abcdef'') tiny_cap = Some (Some (h @ cap_marker (of_nat (length m)) @ t), of_nat (length m))
     \<and> ''abcdef'' = h @ m @ t \<and> m \<noteq> []"
proof -
  have v: "utf8_valid (as_bytes ''abcdef'')" by (intro utf8_valid_ascii) code_simp
  have "\<not> (\<not> cap_enabled tiny_cap \<or> length ''abcdef'' \<le> unat (head_bytes tiny_cap) + unat (tail_bytes tiny_cap))"
    by (simp add: tiny_cap_def)
  with cap_body_exact[OF v, of tiny_cap] show ?thesis by (simp only: if_False) force
qed

text \<open>C34: The two-pass detection picks the first wire API that accepts the route; when none does,
  a POST with a JSON content type and a body that parses goes to the first one whose route is
  unknown and whose shape matches; nothing else is detected.\<close>

theorem detect_two_pass:
  "detect js reg req c =
     map_option (\<lambda>p. (p, wa_extract_request p req c))
       (case find (accepts req) reg of
          Some p \<Rightarrow> Some p
        | None \<Rightarrow> if req_method req = ''POST'' \<and> is_json_content_type req \<and> pj_get js c \<noteq> None
                  then find (shaped req c) reg else None)"
proof -
  have s: "find (\<lambda>p. wa_matches_shape p req c) (filter (\<lambda>p. wa_classify_route p req = UnknownRoute) reg) = find (shaped req c) reg"
    unfolding find_filter shaped_def by simp
  have e: "find (shaped req c) reg = None" if "filter (\<lambda>p. wa_classify_route p req = UnknownRoute) reg = []"
    using s that by simp
  show ?thesis unfolding detect_def route_pass_find s[symmetric]
    by (auto simp: e[unfolded s[symmetric]] split: option.split)
qed

text \<open>For every request, the start event of the request and the completion of its exchange
  come together or not at all, whatever the metrics did in between, and when they come they
  carry the same call key, wire API and stream flag, so the in-flight table closes with the
  completion the call it opened with the start.\<close>

theorem start_matches_complete:
  "(case detect js (lp_wire_apis lp) req (from_bytes (req_body req)) of
      None \<Rightarrow> snd (llm_on_request js req lp) = []
        \<and> llm_on_exchange js uid req resp sse (lp\<lparr>lp_metrics := m\<rparr>) = Some (lp\<lparr>lp_metrics := m\<rparr>, [])
    | Some (api, info) \<Rightarrow>
        \<exists>s lp2 c agent. snd (llm_on_request js req lp) = [LlmStart s]
          \<and> llm_on_exchange js uid req resp sse (lp\<lparr>lp_metrics := m\<rparr>) = Some (lp2, [LlmComplete c agent])
          \<and> start_call_key s = call_key c \<and> st_wire_api s = lc_wire_api c \<and> st_is_stream s = lc_is_stream c
          \<and> st_wire_api s = wa_name api \<and> lc_id c = uid)"
proof (cases "detect js (lp_wire_apis lp) req (from_bytes (req_body req))")
  case None
  then show ?thesis by (simp add: llm_on_request_def llm_on_exchange_def)
next
  case (Some d)
  obtain api info where d: "d = (api, info)" by fastforce
  have "detect js (lp_wire_apis (lp\<lparr>lp_metrics := m\<rparr>)) req (from_bytes (req_body req)) = Some (api, info)"
    using Some d by simp
  from on_exchange_shape[OF this, of uid resp sse] show ?thesis
    by (auto simp: Some d llm_on_request_def start_call_key_def)
qed

end
