(* ===== verification/Llm_Stage.thy ===== *)
theory Llm_Stage
  imports Processor Flow
begin

text \<open>
  \<^verbatim>\<open>server/h-llm/src/stage.rs\<close>: one worker of the LLM stage takes joiner events, runs the processor
  and fans its events out: starts and completions to a metrics shard, every call to the storage,
  every agent call to a turn shard, heartbeats to all shards. Channels are those of \<open>Flow\<close>; the
  hashers of the shards are parameters. A worker stops when a channel it must not skip is closed.
\<close>

section \<open>The worker\<close>

record llm_worker =
  lw_processor :: LlmProcessor
  lw_metrics_txs :: "LlmEvent channel list"
  lw_turn_txs :: "TurnShardInput channel list"
  lw_calls_tx :: "LlmCall channel"

record stage_hashers =
  hash_metrics :: "string \<times> string \<times> IpAddr \<Rightarrow> u64"
  hash_turn :: "string \<times> string \<Rightarrow> u64"

definition turn_shard_index :: "stage_hashers \<Rightarrow> string \<Rightarrow> string \<Rightarrow> nat \<Rightarrow> nat" where
  "turn_shard_index h sid session n = unat (hash_turn h (sid, session)) mod n"

fun metrics_shard_index :: "stage_hashers \<Rightarrow> LlmEvent \<Rightarrow> nat \<Rightarrow> nat option" where
  "metrics_shard_index h (LlmStart s) n = Some (unat (hash_metrics h (st_wire_api s, st_model s, st_server_ip s)) mod n)"
| "metrics_shard_index h (LlmComplete c _) n = Some (unat (hash_metrics h (lc_wire_api c, lc_model c, lc_server_ip c)) mod n)"
| "metrics_shard_index h (LlmHeartbeat _ _) n = None"

definition lw_inc :: "LlmWorkerMetric \<Rightarrow> llm_worker \<Rightarrow> llm_worker" where
  "lw_inc m w = w\<lparr>lw_processor := lp_inc m (lw_processor w)\<rparr>"

definition lw_add :: "LlmWorkerMetric \<Rightarrow> nat \<Rightarrow> llm_worker \<Rightarrow> llm_worker" where
  "lw_add m n w = w\<lparr>lw_processor := (lw_processor w)\<lparr>lp_metrics := metric_add m (of_nat n) (lp_metrics (lw_processor w))\<rparr>\<rparr>"

definition send_metrics :: "stage_hashers \<Rightarrow> LlmEvent \<Rightarrow> llm_worker \<Rightarrow> bool \<times> llm_worker" where
  "send_metrics h ev w =
     (case metrics_shard_index h ev (length (lw_metrics_txs w)) of
        None \<Rightarrow> (True, w)
      | Some i \<Rightarrow>
          (let (ok, c) = ch_send ev (lw_metrics_txs w ! i)
           in (ok, w\<lparr>lw_metrics_txs := (lw_metrics_txs w)[i := c]\<rparr>)))"

text \<open>The agent fields of a call, as the storage and the turn shard get them.\<close>

definition stamp_agent :: "LlmCall \<Rightarrow> AgentCallInfo option \<Rightarrow> LlmCall" where
  "stamp_agent call agent =
     (case agent of
        None \<Rightarrow> call
      | Some i \<Rightarrow> call\<lparr>lc_is_agent_request := ai_is_agent_request i, lc_tool_surface := ai_tool_surface i,
          lc_agent_topology := ai_agent_topology i, lc_tool_call_count := ai_tool_call_count i,
          lc_tool_names := ai_tool_names i\<rparr>)"

definition forward_complete :: "stage_hashers \<Rightarrow> LlmCall \<Rightarrow> AgentCallInfo option \<Rightarrow> llm_worker \<Rightarrow> bool \<times> llm_worker" where
  "forward_complete h call0 agent w =
     (let w1 = lw_inc (case agent of Some _ \<Rightarrow> LlmCallsWithAgent | None \<Rightarrow> LlmCallsWithoutAgent) w;
          call = stamp_agent call0 agent;
          (ok, c) = ch_send call (lw_calls_tx w1);
          w2 = w1\<lparr>lw_calls_tx := c\<rparr>
      in if \<not> ok then (False, w2)
         else case agent of
           None \<Rightarrow> (True, w2)
         | Some i \<Rightarrow>
             (let idx = turn_shard_index h (lc_source_id call) (ai_session_id i) (length (lw_turn_txs w2));
                  (ok2, c2) = ch_send (TurnCall \<lparr>ac_call = call, ac_agent = i\<rparr>) (lw_turn_txs w2 ! idx)
              in (ok2, w2\<lparr>lw_turn_txs := (lw_turn_txs w2)[idx := c2]\<rparr>)))"

definition forward :: "stage_hashers \<Rightarrow> LlmEvent \<Rightarrow> llm_worker \<Rightarrow> bool \<times> llm_worker" where
  "forward h ev w =
     (case ev of
        LlmHeartbeat ts sid \<Rightarrow>
          (let (dm, ms) = broadcast (LlmHeartbeat ts sid) (lw_metrics_txs w);
               (dt, ts') = broadcast (TurnHeartbeat ts sid) (lw_turn_txs w)
           in (True, lw_add TurnHeartbeatsDropped dt (lw_add MetricsHeartbeatsDropped dm
                 (w\<lparr>lw_metrics_txs := ms, lw_turn_txs := ts'\<rparr>))))
      | LlmStart s \<Rightarrow> send_metrics h ev w
      | LlmComplete call agent \<Rightarrow>
          (let (ok, w1) = send_metrics h ev w in if \<not> ok then (False, w1) else forward_complete h call agent w1))"

fun forward_all :: "stage_hashers \<Rightarrow> LlmEvent list \<Rightarrow> llm_worker \<Rightarrow> bool \<times> llm_worker" where
  "forward_all h [] w = (True, w)"
| "forward_all h (ev # evs) w = (let (ok, w1) = forward h ev w in if ok then forward_all h evs w1 else (False, w1))"

definition stage_step :: "json_lib \<Rightarrow> stage_hashers \<Rightarrow> string \<times> HttpJoinerEvent \<Rightarrow> llm_worker \<Rightarrow> (bool \<times> llm_worker) option" where
  "stage_step js h ev w =
     (case llm_process js (fst ev) (snd ev) (lw_processor w) of
        None \<Rightarrow> None
      | Some (lp, evs) \<Rightarrow> Some (forward_all h evs (w\<lparr>lw_processor := lp\<rparr>)))"

text \<open>The loop of a worker over the events it receives, each with the identifier it mints.\<close>

fun stage_run :: "json_lib \<Rightarrow> stage_hashers \<Rightarrow> (string \<times> HttpJoinerEvent) list \<Rightarrow> llm_worker \<Rightarrow> (bool \<times> llm_worker) option" where
  "stage_run js h [] w = Some (True, w)"
| "stage_run js h (ev # evs) w =
     (case stage_step js h ev w of
        None \<Rightarrow> None
      | Some (ok, w1) \<Rightarrow> if ok then stage_run js h evs w1 else Some (False, w1))"

section \<open>Specification of the fan-out\<close>

text \<open>The events a processor makes depend on its configuration, not on its counters.\<close>

definition same_config :: "LlmProcessor \<Rightarrow> LlmProcessor \<Rightarrow> bool" where
  "same_config lp lp' \<longleftrightarrow> lp' = lp\<lparr>lp_metrics := lp_metrics lp'\<rparr>"

definition llm_events :: "json_lib \<Rightarrow> LlmProcessor \<Rightarrow> string \<times> HttpJoinerEvent \<Rightarrow> LlmEvent list" where
  "llm_events js lp ev = (case llm_process js (fst ev) (snd ev) lp of Some (_, evs) \<Rightarrow> evs | None \<Rightarrow> [])"

text \<open>What one event adds to each queue.\<close>

fun is_llm_heartbeat :: "LlmEvent \<Rightarrow> bool" where
  "is_llm_heartbeat (LlmHeartbeat _ _) = True"
| "is_llm_heartbeat _ = False"

definition queued_events :: "LlmEvent channel \<Rightarrow> LlmEvent list" where
  "queued_events c = filter (\<lambda>e. \<not> is_llm_heartbeat e) (ch_queue c)"

definition queued_calls :: "TurnShardInput channel \<Rightarrow> AgentCall list" where
  "queued_calls c = List.map_filter (\<lambda>i. case i of TurnCall ac \<Rightarrow> Some ac | TurnHeartbeat _ _ \<Rightarrow> None) (ch_queue c)"

fun stored_call :: "LlmEvent \<Rightarrow> LlmCall option" where
  "stored_call (LlmComplete c a) = Some (stamp_agent c a)"
| "stored_call _ = None"

fun agent_call :: "LlmEvent \<Rightarrow> AgentCall option" where
  "agent_call (LlmComplete c (Some a)) = Some \<lparr>ac_call = stamp_agent c (Some a), ac_agent = a\<rparr>"
| "agent_call _ = None"

definition turn_shard_of :: "stage_hashers \<Rightarrow> nat \<Rightarrow> AgentCall \<Rightarrow> nat" where
  "turn_shard_of h n ac = turn_shard_index h (lc_source_id (ac_call ac)) (ai_session_id (ac_agent ac)) n"

definition stage_open :: "llm_worker \<Rightarrow> bool" where
  "stage_open w \<longleftrightarrow> lw_metrics_txs w \<noteq> [] \<and> lw_turn_txs w \<noteq> [] \<and> \<not> ch_closed (lw_calls_tx w)
     \<and> list_all (\<lambda>c. \<not> ch_closed c) (lw_metrics_txs w) \<and> list_all (\<lambda>c. \<not> ch_closed c) (lw_turn_txs w)"

definition fanned :: "stage_hashers \<Rightarrow> LlmEvent list \<Rightarrow> llm_worker \<Rightarrow> llm_worker \<Rightarrow> bool" where
  "fanned h evs w w' \<longleftrightarrow> stage_open w' \<and> length (lw_metrics_txs w') = length (lw_metrics_txs w)
     \<and> length (lw_turn_txs w') = length (lw_turn_txs w) \<and> same_config (lw_processor w) (lw_processor w')
     \<and> (\<forall>i<length (lw_metrics_txs w). queued_events (lw_metrics_txs w' ! i) = queued_events (lw_metrics_txs w ! i)
          @ filter (\<lambda>e. metrics_shard_index h e (length (lw_metrics_txs w)) = Some i) evs)
     \<and> ch_queue (lw_calls_tx w') = ch_queue (lw_calls_tx w) @ List.map_filter stored_call evs
     \<and> (\<forall>j<length (lw_turn_txs w). queued_calls (lw_turn_txs w' ! j) = queued_calls (lw_turn_txs w ! j)
          @ filter (\<lambda>ac. turn_shard_of h (length (lw_turn_txs w)) ac = j) (List.map_filter agent_call evs))"

definition sample_worker :: llm_worker where
  "sample_worker = \<lparr>lw_processor = LlmProcessor_with_estimator [AnthropicWireApi sample_json_lib] [] (\<lambda>_. 0) (\<lambda>_. 0),
     lw_metrics_txs = [\<lparr>ch_queue = [], ch_capacity = 4, ch_closed = False\<rparr>],
     lw_turn_txs = [\<lparr>ch_queue = [], ch_capacity = 4, ch_closed = False\<rparr>],
     lw_calls_tx = \<lparr>ch_queue = [], ch_capacity = 4, ch_closed = False\<rparr>\<rparr>"

definition sample_stage_hashers :: stage_hashers where
  "sample_stage_hashers = \<lparr>hash_metrics = (\<lambda>_. 5), hash_turn = (\<lambda>_. 7)\<rparr>"

definition sample_llm_request :: HttpRequestData where
  "sample_llm_request = \<lparr>req_flow_key = FlowKey_new ''s'' (V4 1) 1000 (V4 2) 443, req_client_addr = (V4 1, 1000), req_server_addr = (V4 2, 443),
     req_method = ''POST'', req_uri = ''/v1/messages'', req_version = 1, req_headers = [(''anthropic-version'', ''2023-06-01'')],
     req_body = [], req_timestamp_us = 10, req_process = None\<rparr>"

definition sample_llm_response :: HttpResponseData where
  "sample_llm_response = \<lparr>resp_flow_key = FlowKey_new ''s'' (V4 1) 1000 (V4 2) 443, resp_client_addr = (V4 1, 1000),
     resp_server_addr = (V4 2, 443), resp_status = 200, resp_version = 1, resp_headers = [], resp_body = [],
     first_byte_timestamp_us = 20, complete_timestamp_us = 30, resp_process = None\<rparr>"

section \<open>Lemmas\<close>

lemma same_config_fields:
  "same_config lp lp' \<longleftrightarrow> lp_wire_apis lp' = lp_wire_apis lp \<and> lp_registry lp' = lp_registry lp \<and>
     lp_estimator lp' = lp_estimator lp \<and> lp_classifier_cfg lp' = lp_classifier_cfg lp \<and> lp_body_cap lp' = lp_body_cap lp"
  by (cases lp; cases lp') (auto simp: same_config_def)

lemma same_config_refl [simp]: "same_config lp lp"
  by (simp add: same_config_def)

lemma same_config_trans: "same_config a b \<Longrightarrow> same_config b c \<Longrightarrow> same_config a c"
  by (simp add: same_config_fields)

lemma same_config_inc [simp]: "same_config lp (lp_inc m lp') = same_config lp lp'"
  by (simp add: same_config_fields lp_inc_def)

lemma estimate_config:
  assumes "same_config lp lp'"
  shows "fst (estimate_tokens js n rq rs (i, lp')) = fst (estimate_tokens js n rq rs (i, lp))"
    "same_config lp (snd (estimate_tokens js n rq rs (i, lp')))"
  using assms unfolding estimate_tokens_def
  by (auto simp: Let_def split_beta same_config_fields lp_inc_def split: option.split)

lemma build_agent_config:
  assumes "same_config lp lp'"
  shows "fst (build_agent_call_info_with_parsed c rq rs lp') = fst (build_agent_call_info_with_parsed c rq rs lp)"
    "same_config lp (snd (build_agent_call_info_with_parsed c rq rs lp'))"
  using assms unfolding build_agent_call_info_with_parsed_def
  by (auto simp: Let_def same_config_fields lp_inc_def split: option.split)

lemma on_exchange_config:
  assumes "same_config lp lp'"
  shows "\<exists>lp2 lp3 evs. llm_on_exchange js uid rq rs sse lp = Some (lp2, evs)
    \<and> llm_on_exchange js uid rq rs sse lp' = Some (lp3, evs) \<and> same_config lp lp3"
proof -
  have cfg: "lp_wire_apis lp' = lp_wire_apis lp" "lp_body_cap lp' = lp_body_cap lp"
    using assms by (simp_all add: same_config_fields)
  show ?thesis
  proof (cases "detect js (lp_wire_apis lp) rq (from_bytes (req_body rq))")
    case None
    then show ?thesis using assms cfg by (simp add: llm_on_exchange_def)
  next
    case (Some d)
    obtain api info where d: "detect js (lp_wire_apis lp) rq (from_bytes (req_body rq)) = Some (api, info)"
      using Some by (cases d) auto
    obtain i0 rc where x: "(if sse \<noteq> [] then wa_extract_sse api sse
       else (wa_extract_response api rs (from_bytes (resp_body rs)), from_bytes (resp_body rs))) = (i0, rc)"
      by fastforce
    obtain i1 lp1 where y: "estimate_tokens js (wa_name api) rq rs (i0, lp) = (i1, lp1)" by fastforce
    obtain lp1' where y': "estimate_tokens js (wa_name api) rq rs (i0, lp') = (i1, lp1')"
      using estimate_config(1)[OF assms, of js "wa_name api" rq rs i0] y by (metis fst_conv prod.collapse)
    have c1: "same_config lp lp1" "same_config lp lp1'"
      using estimate_config(2)[of lp lp js "wa_name api" rq rs i0] y
        estimate_config(2)[OF assms, of js "wa_name api" rq rs i0] y' by simp_all
    then have c: "same_config lp1 lp1'" by (simp add: same_config_fields)
    obtain rb rd where r: "cap_body (from_utf8 (req_body rq)) (lp_body_cap lp) = Some (rb, rd)"
      using cap_body_returns[of "from_utf8 (req_body rq)" "lp_body_cap lp"] by auto
    obtain sb sd where s: "cap_body (ri_response_body i1) (lp_body_cap lp) = Some (sb, sd)"
      using cap_body_returns[of "ri_response_body i1" "lp_body_cap lp"] by auto
    show ?thesis
      unfolding llm_on_exchange_def Let_def cfg d option.case prod.case x y y' r s
      using build_agent_config(1)[OF c] build_agent_config(2)[OF c] c1
      by (auto simp: split_beta intro: same_config_trans)
  qed
qed

lemma process_config:
  assumes "same_config lp lp'"
  obtains lp3 where "llm_process js (fst ev) (snd ev) lp' = Some (lp3, llm_events js lp ev)" and "same_config lp lp3"
proof (cases "snd ev")
  case (JRequest req)
  with assms show ?thesis using that
    by (force simp: llm_process_def llm_events_def llm_on_request_def same_config_fields lp_inc_def split: option.splits)
next
  case (JExchange x rq rs sse)
  obtain lp2 lp3 evs where "llm_on_exchange js (fst ev) rq rs sse lp = Some (lp2, evs)"
    "llm_on_exchange js (fst ev) rq rs sse lp' = Some (lp3, evs)" "same_config lp lp3"
    using on_exchange_config[OF assms] by blast
  with JExchange show ?thesis using that by (simp add: llm_process_def llm_events_def)
next
  case (JHeartbeat ts sid)
  with assms show ?thesis using that by (simp add: llm_process_def llm_events_def)
qed

lemma fanned_refl: "stage_open w \<Longrightarrow> fanned h [] w w"
  by (simp add: fanned_def List.map_filter_simps)

lemma fanned_trans:
  assumes "fanned h a w w1" and "fanned h b w1 w2"
  shows "fanned h (a @ b) w w2"
  using assms by (auto simp: fanned_def intro: same_config_trans)

lemma try_send_open: "ch_closed (snd (ch_try_send x c)) = ch_closed c"
  by (simp add: ch_try_send_def)

lemma try_send_beats:
  "is_llm_heartbeat x \<Longrightarrow> queued_events (snd (ch_try_send x c)) = queued_events c"
  "queued_calls (snd (ch_try_send (TurnHeartbeat ts sid) d)) = queued_calls d"
  by (simp_all add: ch_try_send_def queued_events_def queued_calls_def List.map_filter_simps)

lemma broadcast_open: "list_all (\<lambda>c. \<not> ch_closed c) (snd (broadcast x cs)) = list_all (\<lambda>c. \<not> ch_closed c) cs"
  by (simp add: list_all_length broadcast_length broadcast_nth try_send_open)

lemma shard_less: "n > 0 \<Longrightarrow> metrics_shard_index h ev n = Some i \<Longrightarrow> i < n"
  by (cases ev) auto

lemma send_metrics_fanned:
  assumes "stage_open w" and "\<not> is_llm_heartbeat ev"
  shows "fst (send_metrics h ev w)
    \<and> (\<exists>i. metrics_shard_index h ev (length (lw_metrics_txs w)) = Some i \<and> i < length (lw_metrics_txs w)
        \<and> snd (send_metrics h ev w) = w\<lparr>lw_metrics_txs := (lw_metrics_txs w)[i := (lw_metrics_txs w ! i)\<lparr>ch_queue := ch_queue (lw_metrics_txs w ! i) @ [ev]\<rparr>]\<rparr>)"
proof -
  obtain i where i: "metrics_shard_index h ev (length (lw_metrics_txs w)) = Some i" using assms(2) by (cases ev) auto
  moreover have "i < length (lw_metrics_txs w)" using assms(1) i shard_less by (auto simp: stage_open_def)
  moreover have "\<not> ch_closed (lw_metrics_txs w ! i)" using assms(1) calculation by (simp add: stage_open_def list_all_length)
  ultimately show ?thesis by (simp add: send_metrics_def ch_send_def)
qed

lemma forward_complete_fanned:
  assumes "stage_open w"
  shows "fst (forward_complete h c a w) \<and> stage_open (snd (forward_complete h c a w))
    \<and> lw_metrics_txs (snd (forward_complete h c a w)) = lw_metrics_txs w
    \<and> length (lw_turn_txs (snd (forward_complete h c a w))) = length (lw_turn_txs w)
    \<and> same_config (lw_processor w) (lw_processor (snd (forward_complete h c a w)))
    \<and> ch_queue (lw_calls_tx (snd (forward_complete h c a w))) = ch_queue (lw_calls_tx w) @ [stamp_agent c a]
    \<and> (\<forall>j<length (lw_turn_txs w). queued_calls (lw_turn_txs (snd (forward_complete h c a w)) ! j) =
          queued_calls (lw_turn_txs w ! j)
          @ filter (\<lambda>ac. turn_shard_of h (length (lw_turn_txs w)) ac = j) (List.map_filter agent_call [LlmComplete c a]))"
proof (cases a)
  case None
  then show ?thesis using assms
    by (simp add: forward_complete_def lw_inc_def ch_send_def stage_open_def Let_def List.map_filter_simps)
next
  case (Some i)
  define idx where "idx = turn_shard_index h (lc_source_id c) (ai_session_id i) (length (lw_turn_txs w))"
  have idx: "idx < length (lw_turn_txs w)" using assms by (simp add: idx_def turn_shard_index_def stage_open_def)
  have src: "lc_source_id (stamp_agent c (Some i)) = lc_source_id c" by (simp add: stamp_agent_def)
  have open_idx: "\<not> ch_closed (lw_turn_txs w ! idx)" using assms idx by (simp add: stage_open_def list_all_length)
  have shard: "turn_shard_of h (length (lw_turn_txs w)) \<lparr>ac_call = stamp_agent c (Some i), ac_agent = i\<rparr> = idx"
    by (simp add: turn_shard_of_def src idx_def)
  show ?thesis using assms idx open_idx
    by (auto simp: forward_complete_def lw_inc_def ch_send_def stage_open_def Let_def List.map_filter_simps Some src
        idx_def[symmetric] shard queued_calls_def nth_list_update list_all_length)
qed

lemma forward_fanned:
  assumes "stage_open w"
  shows "fst (forward h ev w) \<and> fanned h [ev] w (snd (forward h ev w))"
proof (cases ev)
  case (LlmHeartbeat ts sid)
  have open_m: "list_all (\<lambda>c. \<not> ch_closed c) (snd (broadcast x (lw_metrics_txs w)))" for x
    using assms by (simp add: broadcast_open stage_open_def)
  have open_t: "list_all (\<lambda>c. \<not> ch_closed c) (snd (broadcast x (lw_turn_txs w)))" for x
    using assms by (simp add: broadcast_open stage_open_def)
  have ne: "snd (broadcast x cs) \<noteq> [] \<longleftrightarrow> cs \<noteq> []" for x :: 'a and cs
    using broadcast_length[of x cs] by (metis length_0_conv)
  show ?thesis using assms open_m open_t
    by (auto simp: LlmHeartbeat forward_def fanned_def split_beta lw_add_def stage_open_def broadcast_length broadcast_nth
        try_send_beats List.map_filter_simps ne same_config_fields)
next
  case (LlmStart s)
  then have "\<not> is_llm_heartbeat ev" by simp
  from send_metrics_fanned[OF assms this, of h] obtain i where i: "fst (send_metrics h ev w)"
    "metrics_shard_index h ev (length (lw_metrics_txs w)) = Some i" "i < length (lw_metrics_txs w)"
    "snd (send_metrics h ev w) = w\<lparr>lw_metrics_txs := (lw_metrics_txs w)[i := (lw_metrics_txs w ! i)\<lparr>ch_queue := ch_queue (lw_metrics_txs w ! i) @ [ev]\<rparr>]\<rparr>"
    by blast
  have "forward h ev w = send_metrics h ev w" by (simp add: forward_def LlmStart)
  then show ?thesis using i assms LlmStart
    by (auto simp: fanned_def stage_open_def queued_events_def List.map_filter_simps nth_list_update list_all_length)
next
  case (LlmComplete c a)
  then have "\<not> is_llm_heartbeat ev" by simp
  from send_metrics_fanned[OF assms this, of h] obtain i where i: "fst (send_metrics h ev w)"
    "metrics_shard_index h ev (length (lw_metrics_txs w)) = Some i" "i < length (lw_metrics_txs w)"
    "snd (send_metrics h ev w) = w\<lparr>lw_metrics_txs := (lw_metrics_txs w)[i := (lw_metrics_txs w ! i)\<lparr>ch_queue := ch_queue (lw_metrics_txs w ! i) @ [ev]\<rparr>]\<rparr>"
    by blast
  let ?w1 = "snd (send_metrics h ev w)"
  have o1: "stage_open ?w1" using assms i by (auto simp: stage_open_def list_all_length nth_list_update)
  have f: "forward h ev w = forward_complete h c a ?w1" using i(1) by (simp add: forward_def LlmComplete split_beta)
  have t: "lw_turn_txs ?w1 = lw_turn_txs w" "lw_calls_tx ?w1 = lw_calls_tx w" "lw_processor ?w1 = lw_processor w"
    using i(4) by simp_all
  have q: "queued_events (lw_metrics_txs ?w1 ! k) = queued_events (lw_metrics_txs w ! k)
      @ filter (\<lambda>e. metrics_shard_index h e (length (lw_metrics_txs w)) = Some k) [ev]" if "k < length (lw_metrics_txs w)" for k
    using i that LlmComplete by (auto simp: queued_events_def nth_list_update)
  have l: "length (lw_metrics_txs ?w1) = length (lw_metrics_txs w)" using i(4) by simp
  note fc = forward_complete_fanned[OF o1, of h c a]
  show ?thesis unfolding f fanned_def using fc q l t by (simp add: LlmComplete List.map_filter_simps)
qed

lemma forward_all_fanned:
  "stage_open w \<Longrightarrow> \<exists>w'. forward_all h evs w = (True, w') \<and> fanned h evs w w'"
proof (induction evs arbitrary: w)
  case (Cons ev evs)
  obtain w1 where w1: "forward h ev w = (True, w1)" "fanned h [ev] w w1"
    using forward_fanned[OF Cons.prems, of h ev] by (cases "forward h ev w") auto
  then obtain w' where "forward_all h evs w1 = (True, w')" "fanned h evs w1 w'"
    using Cons.IH[of w1] by (auto simp: fanned_def)
  with w1 fanned_trans[of h "[ev]" w w1 evs w'] show ?case by simp
qed (simp add: fanned_refl)

lemma stage_run_fanned:
  assumes "stage_open w" and "same_config lp (lw_processor w)"
  shows "\<exists>w'. stage_run js h evs w = Some (True, w') \<and> fanned h (concat (map (llm_events js lp) evs)) w w'"
  using assms
proof (induction evs arbitrary: w)
  case (Cons ev evs)
  obtain lp3 where lp3: "llm_process js (fst ev) (snd ev) (lw_processor w) = Some (lp3, llm_events js lp ev)" "same_config lp lp3"
    using process_config[OF Cons.prems(2)] by blast
  let ?w0 = "w\<lparr>lw_processor := lp3\<rparr>"
  have "stage_open ?w0" using Cons.prems(1) by (simp add: stage_open_def)
  then obtain w1 where w1: "forward_all h (llm_events js lp ev) ?w0 = (True, w1)" "fanned h (llm_events js lp ev) ?w0 w1"
    using forward_all_fanned by blast
  have s: "same_config lp (lw_processor w1)" "stage_open w1"
    using w1(2) lp3(2) by (auto simp: fanned_def intro: same_config_trans)
  have f: "fanned h (llm_events js lp ev) w w1"
    using w1(2) s Cons.prems(2) by (simp add: fanned_def same_config_fields)
  obtain w' where w': "stage_run js h evs w1 = Some (True, w')" "fanned h (concat (map (llm_events js lp) evs)) w1 w'"
    using Cons.IH[OF s(2,1)] by blast
  then show ?case using fanned_trans[OF f w'(2)] by (simp add: stage_step_def lp3(1) w1(1))
qed (simp add: fanned_refl)

lemma sample_detected:
  "detect sample_json_lib (lp_wire_apis (lw_processor sample_worker)) sample_llm_request (from_bytes (req_body sample_llm_request)) =
     Some (AnthropicWireApi sample_json_lib,
       extract_from_request sample_json_lib sample_llm_request (from_bytes (req_body sample_llm_request)))"
proof -
  have "anthropic_classify_route sample_llm_request = Accept" by code_simp
  then show ?thesis
    by (simp add: detect_def sample_worker_def LlmProcessor_with_estimator_def AnthropicWireApi_def)
qed

section \<open>Properties\<close>

text \<open>C16: With open channels, a worker of the LLM stage runs over any sequence of joiner events
  without panicking, and what it adds to the queues is exactly what the processor made of the
  events: each metrics shard gets, in order, the starts and completions that hash to it, the
  storage gets every completed call with its agent fields stamped on, and each turn shard
  gets, in order, the agent calls whose source and session hash to it.\<close>

theorem stage_fans_out:
  assumes "stage_open w"
  shows "\<exists>w'. stage_run js h evs w = Some (True, w')
    \<and> (let es = concat (map (llm_events js (lw_processor w)) evs) in
       (\<forall>i<length (lw_metrics_txs w). queued_events (lw_metrics_txs w' ! i) = queued_events (lw_metrics_txs w ! i)
          @ filter (\<lambda>e. metrics_shard_index h e (length (lw_metrics_txs w)) = Some i) es)
       \<and> ch_queue (lw_calls_tx w') = ch_queue (lw_calls_tx w) @ List.map_filter stored_call es
       \<and> (\<forall>j<length (lw_turn_txs w). queued_calls (lw_turn_txs w' ! j) = queued_calls (lw_turn_txs w ! j)
            @ filter (\<lambda>ac. turn_shard_of h (length (lw_turn_txs w)) ac = j) (List.map_filter agent_call es)))"
  using stage_run_fanned[OF assms same_config_refl, of js h evs] unfolding fanned_def Let_def by blast

theorem stage_fans_out_witness:
  "\<exists>w'. stage_run sample_json_lib sample_stage_hashers
      [([], JRequest sample_llm_request), (''u'', JExchange [] sample_llm_request sample_llm_response sample_stream)] sample_worker
      = Some (True, w')
    \<and> length (ch_queue (lw_calls_tx w')) = 1"
proof -
  let ?evs = "[([], JRequest sample_llm_request), (''u'', JExchange [] sample_llm_request sample_llm_response sample_stream)]"
  let ?lp = "lw_processor sample_worker"
  have o: "stage_open sample_worker" by (simp add: stage_open_def sample_worker_def)
  obtain lp2 c a where x: "llm_on_exchange sample_json_lib ''u'' sample_llm_request sample_llm_response sample_stream ?lp
      = Some (lp2, [LlmComplete c a])"
    using on_exchange_shape[OF sample_detected] by blast
  have "List.map_filter stored_call (concat (map (llm_events sample_json_lib ?lp) ?evs)) = [stamp_agent c a]"
    by (simp add: llm_events_def llm_process_def llm_on_request_def sample_detected x List.map_filter_simps)
  with stage_fans_out[OF o, of sample_json_lib sample_stage_hashers ?evs] show ?thesis
    by (auto simp: Let_def sample_worker_def)
qed

end
