(* ===== verification/Openai_Chat.thy ===== *)
theory Openai_Chat
  imports Anthropic
begin

text \<open>
  \<^verbatim>\<open>server/h-llm/src/wire_apis/openai/chat.rs\<close> and \<^verbatim>\<open>openai/shared.rs\<close>: the Chat Completions wire
  API. Detection, extraction from a body and from a stream of untyped chunks, the synthetic body
  that is composed from the deltas, and the body readers of the agent profiles. (The estimators
  of the file are in \<open>Token_Estimator\<close>.)
\<close>

section \<open>Detection\<close>

definition has_bearer_auth :: "HttpRequestData \<Rightarrow> bool" where
  "has_bearer_auth req =
     (case header (req_headers req) ''authorization'' of Some v \<Rightarrow> prefix ''Bearer '' v | None \<Rightarrow> False)"

definition is_anthropic_request :: "HttpRequestData \<Rightarrow> bool" where
  "is_anthropic_request req =
     (if header (req_headers req) ''anthropic-version'' \<noteq> None then True
      else case Option.bind (header (req_headers req) ''authorization'') (strip_prefix ''Bearer '') of
             Some t \<Rightarrow> prefix ''sk-ant-'' t
           | None \<Rightarrow> False)"

definition chat_classify_route :: "HttpRequestData \<Rightarrow> RouteVerdict" where
  "chat_classify_route req =
     (if req_method req \<noteq> ''POST'' then Reject
      else if is_anthropic_request req then Reject
      else if suffix ''/v1/chat/completions'' (uri_path (req_uri req)) \<and> has_bearer_auth req then Accept
      else UnknownRoute)"

definition chat_matches_shape :: "json_lib \<Rightarrow> HttpRequestData \<Rightarrow> ParsedJson \<Rightarrow> bool" where
  "chat_matches_shape js req req_cache =
     (case pj_get js req_cache of
        None \<Rightarrow> False
      | Some b \<Rightarrow> get_str b ''model'' \<noteq> None \<and> get b ''input'' = None
                  \<and> (case get_array b ''messages'' of Some a \<Rightarrow> a \<noteq> [] | None \<Rightarrow> False))"

definition chat_is_terminal :: "string \<Rightarrow> bool" where
  "chat_is_terminal r \<longleftrightarrow> r \<in> {''stop'', ''length'', ''tool_calls'', ''function_call'', ''content_filter''}"

definition chat_is_tool_use :: "string \<Rightarrow> bool" where
  "chat_is_tool_use r \<longleftrightarrow> r \<in> {''tool_calls'', ''function_call''}"

section \<open>Extraction\<close>

definition chat_extract_request :: "json_lib \<Rightarrow> HttpRequestData \<Rightarrow> ParsedJson \<Rightarrow> RequestInfo" where
  "chat_extract_request js req req_cache =
     (let body = pj_get js req_cache
      in \<lparr>rq_model = unwrap_or ''unknown'' (Option.bind body (\<lambda>b. get_str b ''model'')),
          rq_is_stream = unwrap_or False (Option.bind body (\<lambda>b. get_bool b ''stream''))\<rparr>)"

text \<open>The four counts of a usage object, with the names of the Anthropic API as fallback.\<close>

definition chat_input_count :: "Value \<Rightarrow> u32 option" where
  "chat_input_count u = or_keep (get_u32 u ''prompt_tokens'') (get_u32 u ''input_tokens'')"

definition chat_output_count :: "Value \<Rightarrow> u32 option" where
  "chat_output_count u = or_keep (get_u32 u ''completion_tokens'') (get_u32 u ''output_tokens'')"

definition chat_total_count :: "Value \<Rightarrow> u32 option" where
  "chat_total_count u = get_u32 u ''total_tokens''"

definition chat_cache_count :: "Value \<Rightarrow> u32 option" where
  "chat_cache_count u = or_keep (Option.bind (get u ''prompt_tokens_details'') (\<lambda>d. get_u32 d ''cached_tokens''))
     (get_u32 u ''cache_read_input_tokens'')"

definition first_choice :: "Value \<Rightarrow> Value option" where
  "first_choice b = Option.bind (get b ''choices'') (\<lambda>c. get_index c 0)"

definition chat_extract_response :: "json_lib \<Rightarrow> HttpResponseData \<Rightarrow> ParsedJson \<Rightarrow> ResponseInfo" where
  "chat_extract_response js resp resp_cache =
     (let parsed = pj_get js resp_cache;
          str = (\<lambda>k. Option.bind parsed (\<lambda>b. get_str b k));
          usage = Option.bind parsed (\<lambda>b. get b ''usage'')
      in \<lparr>ri_model = str ''model'',
          ri_finish_reason = Option.bind (Option.bind parsed first_choice) (\<lambda>c. get_str c ''finish_reason''),
          ri_input_tokens = Option.bind usage chat_input_count,
          ri_output_tokens = Option.bind usage chat_output_count,
          ri_total_tokens = Option.bind usage chat_total_count,
          ri_cache_read_input_tokens = Option.bind usage chat_cache_count,
          ri_cache_creation_input_tokens = None,
          ri_response_body = from_utf8 (resp_body resp), ri_response_id = str ''id''\<rparr>)"

text \<open>The local variables of \<open>extract_sse\<close>.\<close>

type_synonym tool_entry = "string \<times> string \<times> string"

record chat_acc =
  ca_response_id :: "string option"
  ca_model :: "string option"
  ca_finish_reason :: "string option"
  ca_content :: string
  ca_reasoning_content :: string
  ca_reasoning :: string
  ca_tool_calls :: "(u64 \<times> tool_entry) list"
  ca_input_tokens :: "u32 option"
  ca_output_tokens :: "u32 option"
  ca_total_tokens :: "u32 option"
  ca_cache_read :: "u32 option"
  ca_saw_chunk :: bool

definition chat_acc_new :: chat_acc where
  "chat_acc_new = \<lparr>ca_response_id = None, ca_model = None, ca_finish_reason = None, ca_content = [],
     ca_reasoning_content = [], ca_reasoning = [], ca_tool_calls = [], ca_input_tokens = None,
     ca_output_tokens = None, ca_total_tokens = None, ca_cache_read = None, ca_saw_chunk = False\<rparr>"

definition chunk_value :: "json_lib \<Rightarrow> SseEventData \<Rightarrow> Value option" where
  "chunk_value js ev =
     (if event_type ev \<noteq> [] then None
      else case json_from_str js (sse_data ev) of
             Some v \<Rightarrow> if is_object v then Some v else None
           | None \<Rightarrow> None)"

definition tool_index :: "Value \<Rightarrow> u64" where
  "tool_index tc = unwrap_or 0 (get_u64 tc ''index'')"

definition tool_merge :: "Value \<Rightarrow> tool_entry \<Rightarrow> tool_entry" where
  "tool_merge tc e =
     (let (i, n, a) = e; f = get tc ''function''
      in (unwrap_or i (get_str tc ''id''),
          unwrap_or n (Option.bind f (\<lambda>f. get_str f ''name'')),
          a @ unwrap_or [] (Option.bind f (\<lambda>f. get_str f ''arguments''))))"

definition tool_step :: "Value \<Rightarrow> (u64 \<times> tool_entry) list \<Rightarrow> (u64 \<times> tool_entry) list" where
  "tool_step tc m =
     bt_insert (tool_index tc) (tool_merge tc (unwrap_or ([], [], []) (map_of m (tool_index tc)))) m"

definition delta_step :: "Value \<Rightarrow> chat_acc \<Rightarrow> chat_acc" where
  "delta_step delta a = a
     \<lparr>ca_content := ca_content a @ unwrap_or [] (get_str delta ''content''),
      ca_reasoning_content := ca_reasoning_content a @ unwrap_or [] (get_str delta ''reasoning_content''),
      ca_reasoning := ca_reasoning a @ unwrap_or [] (get_str delta ''reasoning''),
      ca_tool_calls := fold tool_step (unwrap_or [] (get_array delta ''tool_calls'')) (ca_tool_calls a)\<rparr>"

definition choice_step :: "Value \<Rightarrow> chat_acc \<Rightarrow> chat_acc" where
  "choice_step choice a =
     (let a1 = a\<lparr>ca_finish_reason := or_keep (get_str choice ''finish_reason'') (ca_finish_reason a)\<rparr>
      in case get choice ''delta'' of Some delta \<Rightarrow> delta_step delta a1 | None \<Rightarrow> a1)"

definition usage_step :: "Value \<Rightarrow> chat_acc \<Rightarrow> chat_acc" where
  "usage_step u a =
     (if ca_input_tokens a = None \<and> is_object u
      then a\<lparr>ca_input_tokens := chat_input_count u, ca_output_tokens := chat_output_count u,
             ca_total_tokens := chat_total_count u, ca_cache_read := chat_cache_count u\<rparr>
      else a)"

definition chunk_step :: "Value \<Rightarrow> chat_acc \<Rightarrow> chat_acc" where
  "chunk_step data a =
     (let a1 = a\<lparr>ca_saw_chunk := True,
                 ca_response_id := or_keep (ca_response_id a) (get_str data ''id''),
                 ca_model := or_keep (ca_model a) (get_str data ''model'')\<rparr>;
          a2 = (case first_choice data of Some c \<Rightarrow> choice_step c a1 | None \<Rightarrow> a1)
      in case get data ''usage'' of Some u \<Rightarrow> usage_step u a2 | None \<Rightarrow> a2)"

definition chat_event_step :: "json_lib \<Rightarrow> SseEventData \<Rightarrow> chat_acc \<Rightarrow> chat_acc" where
  "chat_event_step js ev a = (case chunk_value js ev of Some data \<Rightarrow> chunk_step data a | None \<Rightarrow> a)"

definition tool_call_json :: "tool_entry \<Rightarrow> Value" where
  "tool_call_json e =
     (let (i, n, a) = e
      in VObject [(''function'', VObject [(''arguments'', VString a), (''name'', VString n)]),
                  (''id'', VString i), (''type'', VString ''function'')])"

definition from_u32 :: "u32 \<Rightarrow> Value" where
  "from_u32 n = VNumber (PosInt (ucast n))"

text \<open>\<open>if !text.is_empty() { message[k] = text }\<close>.\<close>

definition insert_text :: "string \<Rightarrow> string \<Rightarrow> Value \<Rightarrow> Value" where
  "insert_text k s v = (if s = [] then v else obj_insert k (VString s) v)"

definition synthetic_message :: "string \<Rightarrow> string \<Rightarrow> string \<Rightarrow> tool_entry list \<Rightarrow> Value" where
  "synthetic_message content reasoning_content reasoning tools =
     (let m = insert_text ''reasoning'' reasoning (insert_text ''reasoning_content'' reasoning_content
                (insert_text ''content'' content (VObject [(''role'', VString ''assistant'')])))
      in if tools = [] then m else obj_insert ''tool_calls'' (VArray (map tool_call_json tools)) m)"

definition synthetic_usage :: "u32 option \<Rightarrow> u32 option \<Rightarrow> u32 option \<Rightarrow> u32 option \<Rightarrow> Value option" where
  "synthetic_usage it ot tt cr =
     (if it \<noteq> None \<or> ot \<noteq> None \<or> tt \<noteq> None
      then Some (insert_some ''prompt_tokens_details'' (map_option (\<lambda>c. VObject [(''cached_tokens'', from_u32 c)]) cr)
             (insert_some ''total_tokens'' (map_option from_u32 tt)
               (insert_some ''completion_tokens'' (map_option from_u32 ot)
                 (insert_some ''prompt_tokens'' (map_option from_u32 it) (VObject [])))))
      else None)"

definition build_synthetic_body ::
    "string option \<Rightarrow> string \<Rightarrow> string \<Rightarrow> string \<Rightarrow> (u64 \<times> tool_entry) list \<Rightarrow> string option \<Rightarrow>
     u32 option \<Rightarrow> u32 option \<Rightarrow> u32 option \<Rightarrow> u32 option \<Rightarrow> Value" where
  "build_synthetic_body model content reasoning_content reasoning tool_calls finish_reason it ot tt cr =
     insert_some ''usage'' (synthetic_usage it ot tt cr)
       (VObject [(''choices'', VArray [VObject
           [(''finish_reason'', case finish_reason of Some fr \<Rightarrow> VString fr | None \<Rightarrow> VNull),
            (''index'', VNumber (PosInt 0)),
            (''message'', synthetic_message content reasoning_content reasoning (map snd tool_calls))]]),
         (''model'', VString (unwrap_or [] model))])"

definition chat_extract_sse :: "json_lib \<Rightarrow> SseEventData list \<Rightarrow> ResponseInfo \<times> ParsedJson" where
  "chat_extract_sse js evs =
     (let a = fold (chat_event_step js) evs chat_acc_new;
          synthetic = (if ca_saw_chunk a
            then Some (build_synthetic_body (ca_model a) (ca_content a) (ca_reasoning_content a) (ca_reasoning a)
                   (ca_tool_calls a) (ca_finish_reason a) (ca_input_tokens a) (ca_output_tokens a)
                   (ca_total_tokens a) (ca_cache_read a))
            else None)
      in (\<lparr>ri_model = ca_model a, ri_finish_reason = ca_finish_reason a, ri_input_tokens = ca_input_tokens a,
           ri_output_tokens = ca_output_tokens a, ri_total_tokens = ca_total_tokens a,
           ri_cache_read_input_tokens = ca_cache_read a, ri_cache_creation_input_tokens = None,
           ri_response_body = map_option (json_to_string js) synthetic, ri_response_id = ca_response_id a\<rparr>,
          from_value synthetic))"

definition OpenAiChatWireApi :: "json_lib \<Rightarrow> WireApi" where
  "OpenAiChatWireApi js = \<lparr>wa_name = OPENAI_CHAT, wa_classify_route = chat_classify_route,
     wa_matches_shape = chat_matches_shape js, wa_extract_request = chat_extract_request js,
     wa_extract_response = chat_extract_response js, wa_extract_sse = chat_extract_sse js,
     wa_is_terminal = chat_is_terminal, wa_is_tool_use = chat_is_tool_use\<rparr>"

section \<open>Body readers\<close>

definition visible_parts :: "string list \<Rightarrow> Value list \<Rightarrow> string list" where
  "visible_parts kinds blocks = List.map_filter (\<lambda>b. get_str b ''text'')
     (filter (\<lambda>b. case get_str b ''type'' of Some ty \<Rightarrow> ty \<in> set kinds | None \<Rightarrow> False) blocks)"

definition content_text :: "string list \<Rightarrow> Value \<Rightarrow> string option" where
  "content_text kinds content =
     (case content of
        VString s \<Rightarrow> if trim s \<noteq> [] then Some s else None
      | VArray blocks \<Rightarrow> if visible_parts kinds blocks = [] then None else Some (join_lines (visible_parts kinds blocks))
      | _ \<Rightarrow> None)"

definition user_content_to_text :: "Value \<Rightarrow> string option" where
  "user_content_to_text content = content_text [''text'', ''input_text''] content"

definition chat_tool_names :: "Value \<Rightarrow> string list option" where
  "chat_tool_names req =
     (case get req ''tools'' of
        None \<Rightarrow> Some []
      | Some (VArray arr) \<Rightarrow> Some (List.map_filter (\<lambda>t. Option.bind (get t ''function'') (\<lambda>f. get_str f ''name'')) arr)
      | Some _ \<Rightarrow> None)"

definition chat_first_system_text :: "Value \<Rightarrow> string option" where
  "chat_first_system_text req =
     Option.bind (Option.bind (get_array req ''messages'') (find (has_role ''system'')))
       (\<lambda>m. Option.bind (get m ''content'') user_content_to_text)"

definition chat_first_user_text :: "Value \<Rightarrow> string option" where
  "chat_first_user_text req =
     Option.bind (Option.bind (get_array req ''messages'') (find (has_role ''user'')))
       (\<lambda>m. Option.bind (get m ''content'') user_content_to_text)"

definition chat_message_sig :: "Value \<Rightarrow> AssistantSig option" where
  "chat_message_sig msg =
     (case Option.bind (get_array msg ''tool_calls'') (\<lambda>arr. case arr of [] \<Rightarrow> None | tc # _ \<Rightarrow> get_str tc ''id'') of
        Some i \<Rightarrow> Some (ToolId i)
      | None \<Rightarrow> (case get_str msg ''content'' of
                   Some c \<Rightarrow> if trim c = [] then None else Some (SigText c)
                 | None \<Rightarrow> None))"

definition chat_first_assistant_sig_from_request :: "Value \<Rightarrow> AssistantSig option" where
  "chat_first_assistant_sig_from_request req =
     Option.bind (Option.bind (get_array req ''messages'') (find (has_role ''assistant''))) chat_message_sig"

definition chat_first_assistant_sig_from_response_value :: "Value \<Rightarrow> AssistantSig option" where
  "chat_first_assistant_sig_from_response_value resp =
     Option.bind (Option.bind (first_choice resp) (\<lambda>c. get c ''message'')) chat_message_sig"

definition chat_first_assistant_sig_from_response :: "json_lib \<Rightarrow> string \<Rightarrow> AssistantSig option" where
  "chat_first_assistant_sig_from_response js body =
     Option.bind (json_from_str js body) chat_first_assistant_sig_from_response_value"

definition chat_extract_user_input :: "Value \<Rightarrow> string option" where
  "chat_extract_user_input req =
     (case Option.bind (get_array req ''messages'') last_opt of
        None \<Rightarrow> None
      | Some m \<Rightarrow> if \<not> has_role ''user'' m then None else Option.bind (get m ''content'') user_content_to_text)"

definition chat_is_user_turn_start :: "Value \<Rightarrow> bool option" where
  "chat_is_user_turn_start req =
     (case Option.bind (get_array req ''messages'') last_opt of
        None \<Rightarrow> None
      | Some m \<Rightarrow> if \<not> has_role ''user'' m then Some False
                  else Some (Option.bind (get m ''content'') user_content_to_text \<noteq> None))"

definition chat_extract_assistant_text_value :: "Value \<Rightarrow> string option" where
  "chat_extract_assistant_text_value resp =
     (case Option.bind (Option.bind (first_choice resp) (\<lambda>c. get c ''message'')) (\<lambda>m. get_str m ''content'') of
        Some c \<Rightarrow> if trim c = [] then None else Some c
      | None \<Rightarrow> None)"

definition chat_extract_assistant_text :: "json_lib \<Rightarrow> string \<Rightarrow> string option" where
  "chat_extract_assistant_text js body = Option.bind (json_from_str js body) chat_extract_assistant_text_value"

section \<open>What a stream says\<close>

text \<open>Read as a whole rather than event by event: the chunks, their deltas and tool call fragments, the usage
  object that counts (the first with an input count, else the last), the fragments of one tool call.\<close>

definition stream_chunks :: "json_lib \<Rightarrow> SseEventData list \<Rightarrow> Value list" where
  "stream_chunks js evs = List.map_filter (chunk_value js) evs"

definition stream_deltas :: "Value list \<Rightarrow> Value list" where
  "stream_deltas chunks = List.map_filter (\<lambda>c. get c ''delta'') (List.map_filter first_choice chunks)"

definition stream_text :: "string \<Rightarrow> Value list \<Rightarrow> string" where
  "stream_text k deltas = concat (List.map_filter (\<lambda>d. get_str d k) deltas)"

definition stream_fragments :: "Value list \<Rightarrow> Value list" where
  "stream_fragments deltas = concat (List.map_filter (\<lambda>d. get_array d ''tool_calls'') deltas)"

definition first_some :: "('a \<Rightarrow> 'b option) \<Rightarrow> 'a list \<Rightarrow> 'b option" where
  "first_some f xs = (case List.map_filter f xs of [] \<Rightarrow> None | y # _ \<Rightarrow> Some y)"

definition last_some :: "('a \<Rightarrow> 'b option) \<Rightarrow> 'a list \<Rightarrow> 'b option" where
  "last_some f xs = last_opt (List.map_filter f xs)"

definition whole_tool :: "Value list \<Rightarrow> tool_entry" where
  "whole_tool frags =
     (unwrap_or [] (last_some (\<lambda>f. get_str f ''id'') frags),
      unwrap_or [] (last_some (\<lambda>f. Option.bind (get f ''function'') (\<lambda>g. get_str g ''name'')) frags),
      concat (List.map_filter (\<lambda>f. Option.bind (get f ''function'') (\<lambda>g. get_str g ''arguments'')) frags))"

definition whole_tools :: "Value list \<Rightarrow> (u64 \<times> tool_entry) list" where
  "whole_tools frags = group_by_key tool_index whole_tool frags"

definition stream_usage :: "Value list \<Rightarrow> Value option" where
  "stream_usage chunks =
     (let us = filter is_object (List.map_filter (\<lambda>c. get c ''usage'') chunks)
      in case find (\<lambda>u. chat_input_count u \<noteq> None) us of Some u \<Rightarrow> Some u | None \<Rightarrow> last_opt us)"

definition stream_summary :: "Value list \<Rightarrow> chat_acc" where
  "stream_summary chunks =
     (let deltas = stream_deltas chunks; u = stream_usage chunks
      in \<lparr>ca_response_id = first_some (\<lambda>c. get_str c ''id'') chunks, ca_model = first_some (\<lambda>c. get_str c ''model'') chunks,
          ca_finish_reason = last_some (\<lambda>c. get_str c ''finish_reason'') (List.map_filter first_choice chunks),
          ca_content = stream_text ''content'' deltas, ca_reasoning_content = stream_text ''reasoning_content'' deltas,
          ca_reasoning = stream_text ''reasoning'' deltas, ca_tool_calls = whole_tools (stream_fragments deltas),
          ca_input_tokens = Option.bind u chat_input_count, ca_output_tokens = Option.bind u chat_output_count,
          ca_total_tokens = Option.bind u chat_total_count, ca_cache_read = Option.bind u chat_cache_count,
          ca_saw_chunk = (chunks \<noteq> [])\<rparr>)"

text \<open>A JSON reader that is a table: the text of an entry is its number in unary.\<close>

definition table_lib :: "Value list \<Rightarrow> json_lib" where
  "table_lib vs = \<lparr>json_from_str = (\<lambda>s. if list_all (\<lambda>c. c = CHR ''1'') s \<and> length s < length vs then Some (vs ! length s) else None),
     json_to_string = (\<lambda>_. ''body'')\<rparr>"

definition table_stream :: "string list \<Rightarrow> SseEventData list" where
  "table_stream tys = map (\<lambda>n. \<lparr>sse_flow_key = FlowKey_new [] (V4 0) 0 (V4 0) 0, sse_client_addr = (V4 0, 0), sse_server_addr = (V4 0, 0),
     event_type = tys ! n, sse_data = replicate n (CHR ''1''), sse_timestamp_us = 0, sse_process = None\<rparr>) [0..<length tys]"

definition delta_chunk :: "u64 \<Rightarrow> Value \<Rightarrow> Value" where
  "delta_chunk i delta = VObject [(''choices'', VArray [VObject [(''delta'', delta), (''index'', VNumber (PosInt i))]]),
     (''model'', VString ''m'')]"

text \<open>A text in two fragments, then the usage.\<close>

definition chat_sample :: "Value list" where
  "chat_sample = [delta_chunk 0 (VObject [(''content'', VString ''Hel'')]), delta_chunk 0 (VObject [(''content'', VString ''lo'')]),
     VObject [(''usage'', VObject [(''completion_tokens'', VNumber (PosInt 2)), (''prompt_tokens'', VNumber (PosInt 9))])]]"

definition sample_info :: ResponseInfo where
  "sample_info = \<lparr>ri_model = Some ''m'', ri_finish_reason = None, ri_input_tokens = Some 9, ri_output_tokens = Some 2, ri_total_tokens = None,
     ri_cache_read_input_tokens = None, ri_cache_creation_input_tokens = None, ri_response_body = Some ''body'', ri_response_id = None\<rparr>"

text \<open>Two choices of one request, whose chunks alternate.\<close>

definition two_choices :: "Value list" where
  "two_choices = [delta_chunk 0 (VObject [(''content'', VString ''yes'')]), delta_chunk 1 (VObject [(''content'', VString ''no'')])]"

section \<open>Lemmas\<close>

lemma first_some_snoc: "first_some f (xs @ [x]) = or_keep (first_some f xs) (f x)"
  by (simp add: first_some_def List.map_filter_simps split: list.split option.split)

lemma last_some_snoc: "last_some f (xs @ [x]) = or_keep (f x) (last_some f xs)"
  by (simp add: last_some_def last_opt_def List.map_filter_simps split: option.split)

lemma whole_tool_snoc: "whole_tool (frags @ [tc]) = tool_merge tc (whole_tool frags)"
  by (simp add: whole_tool_def tool_merge_def last_some_snoc unwrap_or_keep List.map_filter_simps split: option.split)

lemma whole_tool_Nil [simp]: "whole_tool [] = ([], [], [])"
  by (simp add: whole_tool_def last_some_def last_opt_def List.map_filter_simps)

interpretation tools: keyed_fold tool_index tool_merge whole_tool
  by unfold_locales (rule whole_tool_snoc)

lemma tool_step_keyed: "tool_step = keyed_step tool_index tool_merge (whole_tool [])"
  by (intro ext) (simp add: tool_step_def keyed_step_def)

lemma tool_steps: "fold tool_step tcs (whole_tools frags) = whole_tools (frags @ tcs)"
  unfolding whole_tools_def tool_step_keyed by (rule tools.steps)

lemma stream_text_snoc: "stream_text k (ds @ [d]) = stream_text k ds @ unwrap_or [] (get_str d k)"
  by (simp add: stream_text_def List.map_filter_simps split: option.split)

lemma stream_fragments_snoc: "stream_fragments (ds @ [d]) = stream_fragments ds @ unwrap_or [] (get_array d ''tool_calls'')"
  by (simp add: stream_fragments_def List.map_filter_simps split: option.split)

lemma stream_deltas_snoc:
  "stream_deltas (cs @ [c]) = stream_deltas cs @ (case Option.bind (first_choice c) (\<lambda>c. get c ''delta'') of Some d \<Rightarrow> [d] | None \<Rightarrow> [])"
  by (simp add: stream_deltas_def List.map_filter_simps split: option.split)

lemma find_None_last: "find P xs = None \<Longrightarrow> last_opt xs = Some x \<Longrightarrow> \<not> P x"
  by (auto simp: find_None_iff last_opt_def split: if_splits)

lemma stream_usage_snoc:
  "stream_usage (cs @ [c]) =
     (case get c ''usage'' of
        Some u \<Rightarrow> if Option.bind (stream_usage cs) chat_input_count = None \<and> is_object u then Some u else stream_usage cs
      | None \<Rightarrow> stream_usage cs)"
proof (cases "get c ''usage''")
  case (Some u)
  show ?thesis
  proof (cases "find (\<lambda>u. chat_input_count u \<noteq> None) (filter is_object (List.map_filter (\<lambda>c. get c ''usage'') cs))")
    case None
    then have "Option.bind (stream_usage cs) chat_input_count = None"
      using find_None_last[OF None] by (cases "stream_usage cs") (auto simp: stream_usage_def Let_def)
    with None Some show ?thesis
      by (auto simp: stream_usage_def find_append last_opt_def List.map_filter_simps)
  next
    case (Some v)
    then have "chat_input_count v \<noteq> None" by (auto simp: find_Some_iff)
    with Some \<open>get c ''usage'' = Some u\<close> show ?thesis
      by (auto simp: stream_usage_def find_append List.map_filter_simps)
  qed
qed (simp add: stream_usage_def List.map_filter_simps)


lemma stream_summary_new: "stream_summary [] = chat_acc_new"
  by (simp add: stream_summary_def chat_acc_new_def stream_usage_def stream_deltas_def stream_text_def
      stream_fragments_def whole_tools_def group_by_key_def first_some_def last_some_def last_opt_def List.map_filter_simps)

lemma chunk_step_fields:
  "ca_response_id (chunk_step c a) = or_keep (ca_response_id a) (get_str c ''id'')"
  "ca_model (chunk_step c a) = or_keep (ca_model a) (get_str c ''model'')"
  "ca_finish_reason (chunk_step c a) =
     or_keep (Option.bind (first_choice c) (\<lambda>x. get_str x ''finish_reason'')) (ca_finish_reason a)"
  "ca_saw_chunk (chunk_step c a) = True"
  by (simp_all add: chunk_step_def choice_step_def delta_step_def usage_step_def Let_def split: option.split)

lemma chunk_step_delta:
  fixes c :: Value
  defines "d \<equiv> Option.bind (first_choice c) (\<lambda>x. get x ''delta'')"
  shows "ca_content (chunk_step c a) = (case d of Some d \<Rightarrow> ca_content a @ unwrap_or [] (get_str d ''content'') | None \<Rightarrow> ca_content a)"
    "ca_reasoning_content (chunk_step c a) =
       (case d of Some d \<Rightarrow> ca_reasoning_content a @ unwrap_or [] (get_str d ''reasoning_content'') | None \<Rightarrow> ca_reasoning_content a)"
    "ca_reasoning (chunk_step c a) = (case d of Some d \<Rightarrow> ca_reasoning a @ unwrap_or [] (get_str d ''reasoning'') | None \<Rightarrow> ca_reasoning a)"
    "ca_tool_calls (chunk_step c a) =
       (case d of Some d \<Rightarrow> fold tool_step (unwrap_or [] (get_array d ''tool_calls'')) (ca_tool_calls a) | None \<Rightarrow> ca_tool_calls a)"
  unfolding d_def
  by (simp_all add: chunk_step_def choice_step_def delta_step_def usage_step_def Let_def split: option.split)

lemma chunk_step_usage:
  fixes c :: Value and a :: chat_acc
  defines "take_it \<equiv> \<exists>u. get c ''usage'' = Some u \<and> is_object u \<and> ca_input_tokens a = None"
  shows "ca_input_tokens (chunk_step c a) = (if take_it then Option.bind (get c ''usage'') chat_input_count else ca_input_tokens a)"
    "ca_output_tokens (chunk_step c a) = (if take_it then Option.bind (get c ''usage'') chat_output_count else ca_output_tokens a)"
    "ca_total_tokens (chunk_step c a) = (if take_it then Option.bind (get c ''usage'') chat_total_count else ca_total_tokens a)"
    "ca_cache_read (chunk_step c a) = (if take_it then Option.bind (get c ''usage'') chat_cache_count else ca_cache_read a)"
  unfolding take_it_def
  by (auto simp: chunk_step_def choice_step_def delta_step_def usage_step_def Let_def split: option.split)


lemma stream_summary_fields:
  "ca_response_id (stream_summary cs) = first_some (\<lambda>c. get_str c ''id'') cs"
  "ca_model (stream_summary cs) = first_some (\<lambda>c. get_str c ''model'') cs"
  "ca_finish_reason (stream_summary cs) = last_some (\<lambda>c. get_str c ''finish_reason'') (List.map_filter first_choice cs)"
  "ca_content (stream_summary cs) = stream_text ''content'' (stream_deltas cs)"
  "ca_reasoning_content (stream_summary cs) = stream_text ''reasoning_content'' (stream_deltas cs)"
  "ca_reasoning (stream_summary cs) = stream_text ''reasoning'' (stream_deltas cs)"
  "ca_tool_calls (stream_summary cs) = whole_tools (stream_fragments (stream_deltas cs))"
  "ca_input_tokens (stream_summary cs) = Option.bind (stream_usage cs) chat_input_count"
  "ca_output_tokens (stream_summary cs) = Option.bind (stream_usage cs) chat_output_count"
  "ca_total_tokens (stream_summary cs) = Option.bind (stream_usage cs) chat_total_count"
  "ca_cache_read (stream_summary cs) = Option.bind (stream_usage cs) chat_cache_count"
  "ca_saw_chunk (stream_summary cs) = (cs \<noteq> [])"
  by (simp_all add: stream_summary_def Let_def)

lemma stream_summary_snoc: "chunk_step c (stream_summary cs) = stream_summary (cs @ [c])"
proof (rule chat_acc.equality)
qed (auto simp: chunk_step_fields chunk_step_delta chunk_step_usage stream_summary_fields first_some_snoc stream_usage_snoc
  stream_deltas_snoc stream_text_snoc stream_fragments_snoc tool_steps List.map_filter_simps last_some_snoc
  split: option.split)

lemma chunks_summary: "fold chunk_step cs chat_acc_new = stream_summary cs"
  by (induction cs rule: rev_induct) (simp_all add: stream_summary_new stream_summary_snoc)

lemma chat_event_steps: "fold (chat_event_step js) evs a = fold chunk_step (stream_chunks js evs) a"
  by (induction evs arbitrary: a)
     (simp_all add: stream_chunks_def chat_event_step_def List.map_filter_simps split: option.split)

lemma chat_acc_final: "fold (chat_event_step js) evs chat_acc_new = stream_summary (stream_chunks js evs)"
  by (simp add: chat_event_steps chunks_summary)

text \<open>Reading the synthetic body again.\<close>

lemma is_object_insert_text [simp]: "is_object (insert_text k s v) = is_object v"
  by (simp add: insert_text_def)

lemma get_insert_text: "get (insert_text k s v) k' = (if k' = k \<and> is_object v \<and> s \<noteq> [] then Some (VString s) else get v k')"
  by (auto simp: insert_text_def get_obj_insert)

lemma get_synthetic_body:
  "get (build_synthetic_body m c rc r ts fr it ot tt cr) k =
     (if k = ''usage'' \<and> synthetic_usage it ot tt cr \<noteq> None then synthetic_usage it ot tt cr
      else if k = ''choices'' then Some (VArray [VObject
           [(''finish_reason'', case fr of Some fr \<Rightarrow> VString fr | None \<Rightarrow> VNull), (''index'', VNumber (PosInt 0)),
            (''message'', synthetic_message c rc r (map snd ts))]])
      else if k = ''model'' then Some (VString (unwrap_or [] m)) else None)"
  by (simp add: build_synthetic_body_def get_insert_some)

lemma u32_round_trip [simp]: "ucast (ucast (n :: u32) :: u64) = n"
  by (simp add: ucast_up_ucast_id is_up)

lemma get_u32_from_u32 [simp]: "map_option (ucast :: u64 \<Rightarrow> u32) (Option.bind (map_option from_u32 x) as_u64) = x"
  by (cases x) (simp_all add: from_u32_def)

lemma synthetic_usage_counts:
  assumes "synthetic_usage it ot tt cr = Some u"
  shows "chat_input_count u = it" "chat_output_count u = ot" "chat_total_count u = tt" "chat_cache_count u = cr"
  using assms by (cases it; cases ot; cases tt; cases cr;
      auto simp: synthetic_usage_def chat_input_count_def chat_output_count_def chat_total_count_def chat_cache_count_def
        get_u32_def get_u64_def get_insert_some from_u32_def split: if_splits)+

lemma synthetic_message_text:
  "get_str (synthetic_message c rc r ts) ''content'' = (if c = [] then None else Some c)"
  by (simp add: synthetic_message_def get_str_def get_obj_insert get_insert_text Let_def)

lemma synthetic_message_tools:
  "get_array (synthetic_message c rc r ts) ''tool_calls'' = (if ts = [] then None else Some (map tool_call_json ts))"
  by (simp add: synthetic_message_def get_array_def get_obj_insert get_insert_text Let_def)

lemma json_wf_insert_text: "json_wf v \<Longrightarrow> json_wf (insert_text k s v)"
  by (auto simp: insert_text_def)

lemma synthetic_message_wf: "json_wf (synthetic_message c rc r ts)"
proof -
  have "json_wf (VArray (map tool_call_json ts))" by (auto simp: tool_call_json_def bt_valid_def)
  then show ?thesis unfolding synthetic_message_def Let_def
    by (auto intro!: json_wf_insert json_wf_insert_text simp: bt_valid_def simp del: json_wf.simps(1))
qed

lemma synthetic_usage_wf: "synthetic_usage it ot tt cr = Some u \<Longrightarrow> json_wf u"
  unfolding synthetic_usage_def
  by (auto intro!: json_wf_insert_some simp: from_u32_def bt_valid_def split: if_splits)

lemma synthetic_body_wf: "json_wf (build_synthetic_body m c rc r ts fr it ot tt cr)"
  unfolding build_synthetic_body_def
  by (rule json_wf_insert_some) (auto simp: synthetic_usage_wf synthetic_message_wf bt_valid_def split: option.split)

lemma chat_wire_api: "wire_api js (OpenAiChatWireApi js)"
  by unfold_locales (auto simp: OpenAiChatWireApi_def chat_classify_route_def chat_matches_shape_def chat_extract_request_def
    chat_extract_response_def chat_is_tool_use_def chat_is_terminal_def chat_extract_sse_def from_value_def Let_def
    synthetic_body_wf split: option.splits if_splits)

interpretation chat: wire_api js "OpenAiChatWireApi js" for js
  by (rule chat_wire_api)

lemma map_filter_as_id: "List.map_filter f xs = List.map_filter id (map f xs)"
  by (induction xs) (simp_all add: List.map_filter_simps split: option.split)

lemma table_chunks: "list_all is_object vs \<Longrightarrow> stream_chunks (table_lib vs) (table_stream (replicate (length vs) [])) = vs"
proof -
  assume o: "list_all is_object vs"
  have "map (chunk_value (table_lib vs)) (table_stream (replicate (length vs) [])) = map Some vs"
    using o by (intro nth_equalityI) (auto simp: table_stream_def chunk_value_def table_lib_def list_all_length)
  then have "stream_chunks (table_lib vs) (table_stream (replicate (length vs) [])) = List.map_filter id (map Some vs)"
    unfolding stream_chunks_def by (subst map_filter_as_id) simp
  also have "\<dots> = vs" by (induction vs) (simp_all add: List.map_filter_simps)
  finally show ?thesis .
qed

section \<open>Properties\<close>

text \<open>C28: Reading a Chat Completions stream event by event gives what the chunks say as a whole: the
  events that are untyped JSON objects are the chunks; identifier and model are the first given,
  the finish reason the last; the text and the two reasoning texts are the fragments in order; a
  tool call has the last identifier and name and all arguments of the fragments with its index,
  and the calls come in index order; the counts are those of the first usage object with an input
  count, else of the last one. Without a chunk there is no body.\<close>

theorem chat_stream_read: "chat_extract_sse js evs =
   (let s = stream_summary (stream_chunks js evs);
        body = (if stream_chunks js evs = [] then None
          else Some (build_synthetic_body (ca_model s) (ca_content s) (ca_reasoning_content s) (ca_reasoning s)
                 (ca_tool_calls s) (ca_finish_reason s) (ca_input_tokens s) (ca_output_tokens s) (ca_total_tokens s) (ca_cache_read s)))
    in (\<lparr>ri_model = ca_model s, ri_finish_reason = ca_finish_reason s, ri_input_tokens = ca_input_tokens s,
         ri_output_tokens = ca_output_tokens s, ri_total_tokens = ca_total_tokens s,
         ri_cache_read_input_tokens = ca_cache_read s, ri_cache_creation_input_tokens = None,
         ri_response_body = map_option (json_to_string js) body, ri_response_id = ca_response_id s\<rparr>,
        Eager body))"
  by (simp add: chat_extract_sse_def chat_acc_final stream_summary_fields from_value_def Let_def)

text \<open>C32: The body composed from a stream, read again as an unstreamed response, gives the info of the
  stream: finish reason and all four counts, and the model (empty when the stream named none). It
  has no identifier. A cache count that comes without any other count is the one thing lost.\<close>

theorem chat_stream_reread:
  assumes "chat_extract_sse js evs = (info, cache)" and "ri_response_body info \<noteq> None"
    and "ri_input_tokens info \<noteq> None \<or> ri_output_tokens info \<noteq> None \<or> ri_total_tokens info \<noteq> None
         \<or> ri_cache_read_input_tokens info = None"
  shows "chat_extract_response js resp cache = info
     \<lparr>ri_model := Some (unwrap_or [] (ri_model info)), ri_response_id := None, ri_response_body := from_utf8 (resp_body resp)\<rparr>"
proof -
  define a where "a = fold (chat_event_step js) evs chat_acc_new"
  let ?b = "build_synthetic_body (ca_model a) (ca_content a) (ca_reasoning_content a) (ca_reasoning a)
     (ca_tool_calls a) (ca_finish_reason a) (ca_input_tokens a) (ca_output_tokens a) (ca_total_tokens a) (ca_cache_read a)"
  let ?u = "synthetic_usage (ca_input_tokens a) (ca_output_tokens a) (ca_total_tokens a) (ca_cache_read a)"
  have info: "ri_model info = ca_model a" "ri_finish_reason info = ca_finish_reason a" "ri_input_tokens info = ca_input_tokens a"
      "ri_output_tokens info = ca_output_tokens a" "ri_total_tokens info = ca_total_tokens a"
      "ri_cache_read_input_tokens info = ca_cache_read a" "ri_cache_creation_input_tokens info = None"
    and cache: "cache = Eager (Some ?b)"
    using assms(1,2) unfolding chat_extract_sse_def a_def[symmetric] Let_def by (auto simp: from_value_def split: if_splits)
  have usage: "get ?b ''usage'' = ?u" by (simp add: get_synthetic_body)
  have counts: "Option.bind ?u chat_input_count = ca_input_tokens a" "Option.bind ?u chat_output_count = ca_output_tokens a"
    "Option.bind ?u chat_total_count = ca_total_tokens a" "Option.bind ?u chat_cache_count = ca_cache_read a"
    using assms(3) synthetic_usage_counts[of "ca_input_tokens a" "ca_output_tokens a" "ca_total_tokens a" "ca_cache_read a"]
    by (cases ?u; simp add: info synthetic_usage_def split: if_splits)+
  have reason: "Option.bind (first_choice ?b) (\<lambda>c. get_str c ''finish_reason'') = ca_finish_reason a"
    by (simp add: first_choice_def get_synthetic_body get_str_def split: option.split)
  show ?thesis
    unfolding chat_extract_response_def cache pj_get.simps Let_def Option.bind.bind_lunit usage counts reason
    by (rule ResponseInfo.equality) (simp_all add: info get_str_def get_synthetic_body)
qed

theorem chat_stream_reread_witness:
  "\<exists>cache. chat_extract_sse (table_lib chat_sample) (table_stream (replicate 3 [])) = (sample_info, cache)
    \<and> (\<forall>resp. chat_extract_response (table_lib chat_sample) resp cache = sample_info\<lparr>ri_response_body := from_utf8 (resp_body resp)\<rparr>)"
proof -
  have c: "stream_chunks (table_lib chat_sample) (table_stream (replicate 3 [])) = chat_sample"
    using table_chunks[of chat_sample] by (simp add: chat_sample_def delta_chunk_def numeral_3_eq_3)
  have s: "stream_summary chat_sample = \<lparr>ca_response_id = None, ca_model = Some ''m'', ca_finish_reason = None, ca_content = ''Hello'',
      ca_reasoning_content = [], ca_reasoning = [], ca_tool_calls = [], ca_input_tokens = Some 9, ca_output_tokens = Some 2,
      ca_total_tokens = None, ca_cache_read = None, ca_saw_chunk = True\<rparr>"
    unfolding chunks_summary[symmetric] by code_simp
  have e: "chat_extract_sse (table_lib chat_sample) (table_stream (replicate 3 [])) = (sample_info,
      Eager (Some (build_synthetic_body (Some ''m'') ''Hello'' [] [] [] None (Some 9) (Some 2) None None)))"
    unfolding chat_extract_sse_def chat_acc_final c s Let_def by (simp add: sample_info_def table_lib_def from_value_def)
  from chat_stream_reread[OF e] show ?thesis by (auto simp: e sample_info_def)
qed

text \<open>The chunks of a request with two choices name their choice by index, but the reader takes the first entry of every
  chunk: the texts of the two answers are merged into one message.\<close>

theorem two_choices_merged:
  "chat_extract_assistant_text_value (the (pj_get (table_lib two_choices) (snd (chat_extract_sse (table_lib two_choices)
     (table_stream (replicate 2 [])))))) = Some ''yesno''"
  by code_simp

end
