(* ===== verification/Openai_Responses.thy ===== *)
theory Openai_Responses
  imports Openai_Chat
begin

text \<open>
  \<^verbatim>\<open>server/h-llm/src/wire_apis/openai/responses.rs\<close>: the Responses wire API. Detection, extraction
  from a body and from a stream of typed events (with the output items grafted into the body of
  the last event when it carries none), the terminal test on the output items, and the body
  readers of the agent profiles. (The estimators of the file are in \<open>Token_Estimator\<close>.)
\<close>

section \<open>Detection\<close>

definition responses_classify_route :: "HttpRequestData \<Rightarrow> RouteVerdict" where
  "responses_classify_route req =
     (if req_method req \<noteq> ''POST'' then Reject
      else if is_anthropic_request req then Reject
      else if suffix ''/v1/responses'' (uri_path (req_uri req)) \<and> has_bearer_auth req then Accept
      else UnknownRoute)"

definition responses_matches_shape :: "json_lib \<Rightarrow> HttpRequestData \<Rightarrow> ParsedJson \<Rightarrow> bool" where
  "responses_matches_shape js req req_cache =
     (case pj_get js req_cache of
        None \<Rightarrow> False
      | Some b \<Rightarrow> get_str b ''model'' \<noteq> None \<and> get b ''input'' \<noteq> None \<and> get b ''messages'' = None)"

definition responses_is_terminal :: "string \<Rightarrow> bool" where
  "responses_is_terminal r \<longleftrightarrow> r \<in> {''completed'', ''incomplete'', ''failed'', ''cancelled''}"

definition responses_is_tool_use :: "string \<Rightarrow> bool" where
  "responses_is_tool_use r = False"

section \<open>Extraction\<close>

definition responses_extract_request :: "json_lib \<Rightarrow> HttpRequestData \<Rightarrow> ParsedJson \<Rightarrow> RequestInfo" where
  "responses_extract_request js req req_cache =
     (let body = pj_get js req_cache
      in \<lparr>rq_model = unwrap_or ''unknown'' (Option.bind body (\<lambda>b. get_str b ''model'')),
          rq_is_stream = unwrap_or False (Option.bind body (\<lambda>b. get_bool b ''stream''))\<rparr>)"

definition cached_count :: "Value \<Rightarrow> u32 option" where
  "cached_count u = Option.bind (get u ''input_tokens_details'') (\<lambda>d. get_u32 d ''cached_tokens'')"

definition responses_extract_response :: "json_lib \<Rightarrow> HttpResponseData \<Rightarrow> ParsedJson \<Rightarrow> ResponseInfo" where
  "responses_extract_response js resp resp_cache =
     (let parsed = pj_get js resp_cache;
          str = (\<lambda>k. Option.bind parsed (\<lambda>b. get_str b k));
          usage = Option.bind parsed (\<lambda>b. get b ''usage'');
          count = (\<lambda>k. Option.bind usage (\<lambda>u. get_u32 u k))
      in \<lparr>ri_model = str ''model'', ri_finish_reason = str ''status'',
          ri_input_tokens = count ''input_tokens'', ri_output_tokens = count ''output_tokens'',
          ri_total_tokens = count ''total_tokens'', ri_cache_read_input_tokens = Option.bind usage cached_count,
          ri_cache_creation_input_tokens = None,
          ri_response_body = from_utf8 (resp_body resp), ri_response_id = str ''id''\<rparr>)"

text \<open>The local variables of \<open>extract_sse\<close>: the info so far (its body is set at the end), the assembled
  response and the output items.\<close>

record responses_acc =
  ra_info :: ResponseInfo
  ra_value :: "Value option"
  ra_items :: "Value list"

definition responses_acc_new :: responses_acc where
  "responses_acc_new = \<lparr>ra_info = empty_info, ra_value = None, ra_items = []\<rparr>"

definition graft_output :: "Value list \<Rightarrow> Value \<Rightarrow> Value" where
  "graft_output items response =
     (let needs_graft = (case get_array response ''output'' of Some a \<Rightarrow> a = [] | None \<Rightarrow> True)
      in if needs_graft \<and> items \<noteq> [] then obj_insert ''output'' (VArray items) response else response)"

definition created_step :: "Value \<Rightarrow> responses_acc \<Rightarrow> responses_acc" where
  "created_step response a = a\<lparr>ra_info := (ra_info a)
     \<lparr>ri_response_id := or_keep (ri_response_id (ra_info a)) (get_str response ''id''),
      ri_model := or_keep (ri_model (ra_info a)) (get_str response ''model'')\<rparr>\<rparr>"

definition completed_step :: "Value \<Rightarrow> responses_acc \<Rightarrow> responses_acc" where
  "completed_step response a =
     (let info = ra_info a; usage = get response ''usage'';
          count = (\<lambda>k. Option.bind usage (\<lambda>u. get_u32 u k))
      in a\<lparr>ra_info := info
             \<lparr>ri_response_id := or_keep (get_str response ''id'') (ri_response_id info),
              ri_model := or_keep (get_str response ''model'') (ri_model info),
              ri_finish_reason := or_keep (get_str response ''status'') (ri_finish_reason info),
              ri_input_tokens := or_keep (count ''input_tokens'') (ri_input_tokens info),
              ri_output_tokens := or_keep (count ''output_tokens'') (ri_output_tokens info),
              ri_total_tokens := or_keep (count ''total_tokens'') (ri_total_tokens info),
              ri_cache_read_input_tokens := or_keep (Option.bind usage cached_count) (ri_cache_read_input_tokens info)\<rparr>,
           ra_value := Some (graft_output (ra_items a) response)\<rparr>)"

definition responses_event_step :: "json_lib \<Rightarrow> SseEventData \<Rightarrow> responses_acc \<Rightarrow> responses_acc" where
  "responses_event_step js ev a =
     (let data = json_from_str js (sse_data ev); response = Option.bind data (\<lambda>d. get d ''response'')
      in if event_type ev = ''response.created'' then
           (case response of Some r \<Rightarrow> created_step r a | None \<Rightarrow> a)
         else if event_type ev = ''response.output_item.done'' then
           (case Option.bind data (\<lambda>d. get d ''item'') of Some item \<Rightarrow> a\<lparr>ra_items := ra_items a @ [item]\<rparr> | None \<Rightarrow> a)
         else if event_type ev = ''response.completed'' then
           (case response of Some r \<Rightarrow> completed_step r a | None \<Rightarrow> a)
         else a)"

definition responses_extract_sse :: "json_lib \<Rightarrow> SseEventData list \<Rightarrow> ResponseInfo \<times> ParsedJson" where
  "responses_extract_sse js evs =
     (let a = fold (responses_event_step js) evs responses_acc_new
      in ((ra_info a)\<lparr>ri_response_body := map_option (json_to_string js) (ra_value a)\<rparr>, from_value (ra_value a)))"

definition OpenAiResponsesWireApi :: "json_lib \<Rightarrow> WireApi" where
  "OpenAiResponsesWireApi js = \<lparr>wa_name = OPENAI_RESPONSES, wa_classify_route = responses_classify_route,
     wa_matches_shape = responses_matches_shape js, wa_extract_request = responses_extract_request js,
     wa_extract_response = responses_extract_response js, wa_extract_sse = responses_extract_sse js,
     wa_is_terminal = responses_is_terminal, wa_is_tool_use = responses_is_tool_use\<rparr>"

section \<open>Terminal bodies\<close>

text \<open>The loop over the output items: a tool call returns at once.\<close>

fun terminal_scan :: "bool \<Rightarrow> Value list \<Rightarrow> bool" where
  "terminal_scan has_message [] = has_message"
| "terminal_scan has_message (item # items) =
     (case get_str item ''type'' of
        Some ty \<Rightarrow>
          if ty = ''message'' then terminal_scan True items
          else if ty = ''reasoning'' then terminal_scan has_message items
          else if suffix ''_call'' ty then False
          else terminal_scan has_message items
      | None \<Rightarrow> terminal_scan has_message items)"

definition body_has_terminal_message_only_value :: "Value \<Rightarrow> bool" where
  "body_has_terminal_message_only_value resp =
     (case get_array resp ''output'' of None \<Rightarrow> False | Some items \<Rightarrow> terminal_scan False items)"

definition body_has_terminal_message_only :: "json_lib \<Rightarrow> string option \<Rightarrow> bool" where
  "body_has_terminal_message_only js response_body =
     (case Option.bind response_body (json_from_str js) of
        None \<Rightarrow> False
      | Some resp \<Rightarrow> body_has_terminal_message_only_value resp)"

section \<open>Body readers\<close>

definition responses_tool_names :: "Value \<Rightarrow> string list option" where
  "responses_tool_names req =
     (case get req ''tools'' of
        None \<Rightarrow> Some []
      | Some (VArray arr) \<Rightarrow> Some (List.map_filter (\<lambda>t. get_str t ''name'') arr)
      | Some _ \<Rightarrow> None)"

definition message_text :: "Value \<Rightarrow> string option" where
  "message_text item = Option.bind (get item ''content'') (content_text [''text'', ''input_text'', ''output_text''])"

definition system_item :: "Value \<Rightarrow> bool" where
  "system_item it \<longleftrightarrow> has_type ''message'' it \<and> (has_role ''system'' it \<or> has_role ''developer'' it)"

definition responses_first_system_text :: "Value \<Rightarrow> string option" where
  "responses_first_system_text req =
     (case get_str req ''instructions'' of
        Some s \<Rightarrow> if trim s \<noteq> [] then Some s
                  else Option.bind (get_array req ''input'') (\<lambda>items. first_some message_text (filter system_item items))
      | None \<Rightarrow> Option.bind (get_array req ''input'') (\<lambda>items. first_some message_text (filter system_item items)))"

definition is_user_message :: "Value \<Rightarrow> bool" where
  "is_user_message it \<longleftrightarrow> has_type ''message'' it \<and> has_role ''user'' it"

definition responses_first_user_text :: "Value list \<Rightarrow> string option" where
  "responses_first_user_text items = Option.bind (find is_user_message items) message_text"

text \<open>The loop of \<open>scan_generation_for_sig\<close> over its two local variables.\<close>

fun sig_scan :: "string option \<Rightarrow> string option \<Rightarrow> Value list \<Rightarrow> string option \<times> string option" where
  "sig_scan tool_id text [] = (tool_id, text)"
| "sig_scan tool_id text (it # items) =
     (let tool_id' = (if tool_id = None \<and> has_type ''function_call'' it then get_str it ''call_id'' else tool_id);
          text' = (if text = None \<and> has_type ''message'' it \<and> has_role ''assistant'' it then message_text it else text)
      in if tool_id' \<noteq> None \<and> text' \<noteq> None then (tool_id', text') else sig_scan tool_id' text' items)"

definition scan_generation_for_sig :: "Value list \<Rightarrow> AssistantSig option" where
  "scan_generation_for_sig items =
     (let (tool_id, text) = sig_scan None None items
      in case tool_id of Some i \<Rightarrow> Some (ToolId i) | None \<Rightarrow> map_option SigText text)"

definition position :: "('a \<Rightarrow> bool) \<Rightarrow> 'a list \<Rightarrow> nat option" where
  "position P xs = (if list_ex P xs then Some (length (takeWhile (\<lambda>x. \<not> P x) xs)) else None)"

definition first_assistant_sig_from_input :: "Value list \<Rightarrow> AssistantSig option" where
  "first_assistant_sig_from_input items =
     (let start = (case position is_user_message items of
                     None \<Rightarrow> 0
                   | Some idx \<Rightarrow> idx + length (takeWhile is_user_message (drop idx items)));
          turn_end = (case position is_user_message (drop start items) of Some i \<Rightarrow> start + i | None \<Rightarrow> length items);
          generation_end = (case position (has_type ''function_call_output'') (drop start (take turn_end items)) of
                              Some i \<Rightarrow> start + i | None \<Rightarrow> turn_end)
      in scan_generation_for_sig (drop start (take generation_end items)))"

definition responses_first_assistant_sig_from_response_value :: "Value \<Rightarrow> AssistantSig option" where
  "responses_first_assistant_sig_from_response_value resp =
     Option.bind (get_array resp ''output'') scan_generation_for_sig"

definition responses_first_assistant_sig_from_response :: "json_lib \<Rightarrow> string \<Rightarrow> AssistantSig option" where
  "responses_first_assistant_sig_from_response js body =
     Option.bind (json_from_str js body) responses_first_assistant_sig_from_response_value"

definition responses_extract_user_input :: "Value \<Rightarrow> string option" where
  "responses_extract_user_input req =
     (case get req ''input'' of
        Some (VArray items) \<Rightarrow> first_some message_text (filter is_user_message (rev items))
      | Some (VString s) \<Rightarrow> if trim s \<noteq> [] then Some s else None
      | _ \<Rightarrow> None)"

definition responses_is_user_turn_start :: "Value \<Rightarrow> bool option" where
  "responses_is_user_turn_start req =
     (case get req ''input'' of
        Some (VArray items) \<Rightarrow>
          (case last_opt items of
             None \<Rightarrow> None
           | Some it \<Rightarrow> if \<not> is_user_message it then Some False else Some (message_text it \<noteq> None))
      | Some (VString s) \<Rightarrow> Some (trim s \<noteq> [])
      | _ \<Rightarrow> None)"

definition responses_extract_assistant_text_value :: "Value \<Rightarrow> string option" where
  "responses_extract_assistant_text_value resp =
     Option.bind (get_array resp ''output'') (\<lambda>items. first_some message_text (filter (has_type ''message'') items))"

definition responses_extract_assistant_text :: "json_lib \<Rightarrow> string \<Rightarrow> string option" where
  "responses_extract_assistant_text js body = Option.bind (json_from_str js body) responses_extract_assistant_text_value"

section \<open>Streams and histories\<close>

definition event_response :: "json_lib \<Rightarrow> SseEventData \<Rightarrow> Value option" where
  "event_response js ev = Option.bind (json_from_str js (sse_data ev)) (\<lambda>d. get d ''response'')"

definition done_items :: "json_lib \<Rightarrow> SseEventData list \<Rightarrow> Value list" where
  "done_items js evs = List.map_filter (\<lambda>ev. if event_type ev = ''response.output_item.done''
     then Option.bind (json_from_str js (sse_data ev)) (\<lambda>d. get d ''item'') else None) evs"

definition created_responses :: "json_lib \<Rightarrow> SseEventData list \<Rightarrow> Value list" where
  "created_responses js evs = List.map_filter (event_response js) (filter (\<lambda>ev. event_type ev = ''response.created'') evs)"

definition not_completed :: "SseEventData list \<Rightarrow> bool" where
  "not_completed evs = list_all (\<lambda>ev. event_type ev \<noteq> ''response.completed'') evs"

text \<open>What a client sends after the first answer: nothing, the next prompt, or the result of a tool.\<close>

definition generation_over :: "Value list \<Rightarrow> bool" where
  "generation_over rest = (case rest of [] \<Rightarrow> True | it # _ \<Rightarrow> is_user_message it \<or> has_type ''function_call_output'' it)"

definition acc_wf :: "responses_acc \<Rightarrow> bool" where
  "acc_wf a \<longleftrightarrow> (\<forall>v. ra_value a = Some v \<longrightarrow> json_wf v) \<and> (\<forall>it\<in>set (ra_items a). json_wf it)"

text \<open>A stream whose last event has an empty output, as Codex gets it.\<close>

definition codex_sample :: "Value list" where
  "codex_sample = [VObject [(''response'', VObject [(''id'', VString ''r1''), (''model'', VString ''m'')])],
     VObject [(''item'', VObject [(''call_id'', VString ''fc_1''), (''type'', VString ''function_call'')])],
     VObject [(''response'', VObject [(''output'', VArray []), (''status'', VString ''completed''),
       (''usage'', VObject [(''input_tokens'', VNumber (PosInt 5))])])]]"

definition codex_types :: "string list" where
  "codex_types = [''response.created'', ''response.output_item.done'', ''response.completed'']"

section \<open>Lemmas\<close>

lemma terminal_scan_iff:
  "terminal_scan h items \<longleftrightarrow> (h \<or> list_ex (has_type ''message'') items) \<and>
     \<not> list_ex (\<lambda>it. \<exists>ty. get_str it ''type'' = Some ty \<and> suffix ''_call'' ty) items"
proof -
  have "\<not> suffix ''_call'' ''message''" "\<not> suffix ''_call'' ''reasoning''" by (simp_all add: suffix_to_prefix)
  then show ?thesis
    by (induction h items rule: terminal_scan.induct) (auto simp: has_type_def split: option.splits)
qed

lemma first_some_Nil [simp]: "first_some f [] = None"
  by (simp add: first_some_def List.map_filter_simps)

lemma first_some_Cons [simp]: "first_some f (x # xs) = or_keep (f x) (first_some f xs)"
  by (simp add: first_some_def List.map_filter_simps split: option.split)

lemma or_keep_assoc: "or_keep (or_keep x y) z = or_keep x (or_keep y z)"
  by (cases x) simp_all

lemma sig_scan_first:
  "sig_scan t x items =
     (or_keep t (first_some (\<lambda>it. get_str it ''call_id'') (filter (has_type ''function_call'') items)),
      or_keep x (first_some message_text (filter (\<lambda>it. has_type ''message'' it \<and> has_role ''assistant'' it) items)))"
proof (induction items arbitrary: t x)
  case (Cons it items)
  show ?case
    by (cases t; cases x; simp add: Cons.IH Let_def or_keep_assoc[symmetric]; auto simp: or_keep_def split: option.split)
qed simp

lemma event_step_other:
  assumes "event_type ev \<noteq> ''response.completed''"
  shows "ra_value (responses_event_step js ev a) = ra_value a"
    "ra_items (responses_event_step js ev a) = ra_items a @ done_items js [ev]"
    "ra_info (responses_event_step js ev a) = (ra_info a)
       \<lparr>ri_response_id := or_keep (ri_response_id (ra_info a)) (first_some (\<lambda>r. get_str r ''id'') (created_responses js [ev])),
        ri_model := or_keep (ri_model (ra_info a)) (first_some (\<lambda>r. get_str r ''model'') (created_responses js [ev]))\<rparr>"
  using assms
  by (auto simp: responses_event_step_def created_step_def done_items_def created_responses_def event_response_def
      List.map_filter_simps Let_def split: option.splits)

lemma first_some_append: "first_some f (xs @ ys) = or_keep (first_some f xs) (first_some f ys)"
  by (induction xs) (simp_all add: or_keep_assoc)

lemma done_items_Cons: "done_items js (ev # evs) = done_items js [ev] @ done_items js evs"
  by (simp add: done_items_def List.map_filter_simps split: option.split)

lemma created_Cons: "created_responses js (ev # evs) = created_responses js [ev] @ created_responses js evs"
  by (simp add: created_responses_def List.map_filter_simps split: option.split)

lemma events_before_completed:
  assumes "not_completed evs"
  shows "ra_value (fold (responses_event_step js) evs a) = ra_value a
    \<and> ra_items (fold (responses_event_step js) evs a) = ra_items a @ done_items js evs
    \<and> ra_info (fold (responses_event_step js) evs a) = (ra_info a)
       \<lparr>ri_response_id := or_keep (ri_response_id (ra_info a)) (first_some (\<lambda>r. get_str r ''id'') (created_responses js evs)),
        ri_model := or_keep (ri_model (ra_info a)) (first_some (\<lambda>r. get_str r ''model'') (created_responses js evs))\<rparr>"
  using assms
proof (induction evs arbitrary: a)
  case Nil
  show ?case by (simp add: done_items_def created_responses_def List.map_filter_simps)
next
  case (Cons ev evs)
  then have ev: "event_type ev \<noteq> ''response.completed''" and evs: "not_completed evs" by (simp_all add: not_completed_def)
  show ?case unfolding fold_Cons comp_apply using Cons.IH[OF evs, of "responses_event_step js ev a"]
    by (simp add: event_step_other[OF ev] done_items_Cons[of js ev evs] created_Cons[of js ev evs] first_some_append or_keep_assoc)
qed

lemma graft_wf: "json_wf r \<Longrightarrow> (\<And>it. it \<in> set items \<Longrightarrow> json_wf it) \<Longrightarrow> json_wf (graft_output items r)"
  by (auto simp: graft_output_def Let_def)

lemma position_first: "list_all (\<lambda>x. \<not> P x) xs \<Longrightarrow> P y \<Longrightarrow> position P (xs @ y # ys) = Some (length xs)"
  by (induction xs) (simp_all add: position_def)

lemma position_None: "list_all (\<lambda>x. \<not> P x) xs \<Longrightarrow> position P xs = None"
  by (induction xs) (auto simp: position_def)

lemma position_cases:
  "(case position P xs of None \<Rightarrow> list_all (\<lambda>x. \<not> P x) xs
    | Some i \<Rightarrow> i < length xs \<and> P (xs ! i) \<and> list_all (\<lambda>x. \<not> P x) (take i xs))"
proof (induction xs)
  case (Cons x xs)
  then show ?case by (cases "P x") (auto simp: position_def split: option.splits if_splits)
qed (simp add: position_def)

lemma position_append_ge: "list_all (\<lambda>x. \<not> P x) xs \<Longrightarrow> position P (xs @ ys) = map_option ((+) (length xs)) (position P ys)"
  by (induction xs) (auto simp: position_def)

lemma first_generation:
  assumes pre: "list_all (\<lambda>it. \<not> is_user_message it) pre" and us: "us \<noteq> []" "list_all is_user_message us"
    and gen: "gen \<noteq> []" "list_all (\<lambda>it. \<not> is_user_message it) gen" "list_all (\<lambda>it. \<not> has_type ''function_call_output'' it) gen"
    and over: "generation_over rest"
  shows "first_assistant_sig_from_input (pre @ us @ gen @ rest) = scan_generation_for_sig gen"
proof -
  let ?fco = "has_type ''function_call_output''" and ?n = "length pre + length us"
  have p0: "position is_user_message (pre @ us @ gen @ rest) = Some (length pre)"
    using us position_first[OF pre] by (cases us) simp_all
  have dp: "drop (length pre) (pre @ us @ gen @ rest) = us @ gen @ rest" by simp
  have run: "takeWhile is_user_message (us @ gen @ rest) = us"
    using us(2) gen(1,2) by (cases gen) (simp_all add: takeWhile_append list_all_iff)
  define k where "k = (case position is_user_message rest of Some i \<Rightarrow> i | None \<Rightarrow> length rest)"
  have k: "k \<le> length rest" using position_cases[of is_user_message rest] by (auto simp: k_def split: option.splits)
  have turn: "(case position is_user_message (gen @ rest) of Some i \<Rightarrow> ?n + i | None \<Rightarrow> length (pre @ us @ gen @ rest))
      = ?n + length gen + k"
    by (simp add: position_append_ge[OF gen(2)] k_def split: option.split)
  have fco: "(case position ?fco (gen @ take k rest) of Some i \<Rightarrow> ?n + i | None \<Rightarrow> ?n + length gen + k) = ?n + length gen"
  proof (cases rest)
    case Nil
    then show ?thesis using k by (simp add: position_None[OF gen(3)])
  next
    case (Cons it rest')
    show ?thesis
    proof (cases "is_user_message it")
      case True
      then have "k = 0" using Cons by (simp add: k_def position_def)
      then show ?thesis by (simp add: position_None[OF gen(3)])
    next
      case False
      then have "k \<noteq> 0" using Cons by (auto simp: k_def position_def split: if_splits)
      then obtain k' where "k = Suc k'" by (cases k) auto
      moreover have "?fco it" using over False Cons by (simp add: generation_over_def)
      ultimately show ?thesis using Cons position_first[OF gen(3), of it] by simp
    qed
  qed
  have d: "drop ?n (pre @ us @ gen @ rest) = gen @ rest" by simp
  have t: "drop ?n (take (?n + length gen + k) (pre @ us @ gen @ rest)) = gen @ take k rest" by simp
  have "first_assistant_sig_from_input (pre @ us @ gen @ rest)
      = scan_generation_for_sig (drop ?n (take (?n + length gen) (pre @ us @ gen @ rest)))"
    unfolding first_assistant_sig_from_input_def p0 option.case dp run Let_def d turn t fco ..
  then show ?thesis by simp
qed

lemma completed_info:
  "ra_info (completed_step r a) = (let info = ra_info a; usage = get r ''usage'' in info
     \<lparr>ri_response_id := or_keep (get_str r ''id'') (ri_response_id info), ri_model := or_keep (get_str r ''model'') (ri_model info),
      ri_finish_reason := or_keep (get_str r ''status'') (ri_finish_reason info),
      ri_input_tokens := or_keep (Option.bind usage (\<lambda>u. get_u32 u ''input_tokens'')) (ri_input_tokens info),
      ri_output_tokens := or_keep (Option.bind usage (\<lambda>u. get_u32 u ''output_tokens'')) (ri_output_tokens info),
      ri_total_tokens := or_keep (Option.bind usage (\<lambda>u. get_u32 u ''total_tokens'')) (ri_total_tokens info),
      ri_cache_read_input_tokens := or_keep (Option.bind usage cached_count) (ri_cache_read_input_tokens info)\<rparr>)"
  by (simp add: completed_step_def Let_def)

lemma event_step_wf:
  assumes lib: "\<And>s v. json_from_str js s = Some v \<Longrightarrow> json_wf v" and a: "acc_wf a"
  shows "acc_wf (responses_event_step js ev a)"
proof -
  have sub: "json_wf w" if "Option.bind (json_from_str js (sse_data ev)) (\<lambda>d. get d k) = Some w" for k w
    using that lib by (cases "json_from_str js (sse_data ev)") (auto dest: json_wf_get)
  show ?thesis using a sub
    by (auto simp: responses_event_step_def acc_wf_def created_step_def completed_step_def Let_def
        intro!: graft_wf split: option.split)
qed

lemma events_wf:
  "(\<And>s v. json_from_str js s = Some v \<Longrightarrow> json_wf v) \<Longrightarrow> acc_wf a \<Longrightarrow> acc_wf (fold (responses_event_step js) evs a)"
  by (induction evs arbitrary: a) (simp_all add: event_step_wf)

lemma responses_wire_api: "wire_api js (OpenAiResponsesWireApi js)"
proof
  fix evs b
  assume lib: "\<And>s v. json_from_str js s = Some v \<Longrightarrow> json_wf v"
    and b: "pj_get js (snd (wa_extract_sse (OpenAiResponsesWireApi js) evs)) = Some b"
  have "acc_wf (fold (responses_event_step js) evs responses_acc_new)"
    by (rule events_wf, rule lib, assumption) (simp add: acc_wf_def responses_acc_new_def)
  then show "json_wf b"
    using b by (simp add: OpenAiResponsesWireApi_def responses_extract_sse_def from_value_def Let_def acc_wf_def)
qed (auto simp: OpenAiResponsesWireApi_def responses_classify_route_def responses_matches_shape_def responses_extract_request_def
  responses_extract_response_def responses_is_tool_use_def responses_is_terminal_def responses_extract_sse_def from_value_def Let_def
  split: option.splits)

interpretation responses: wire_api js "OpenAiResponsesWireApi js" for js
  by (rule responses_wire_api)

section \<open>Properties\<close>

text \<open>C30: A Responses stream with one completed event: the body is the response of that event with the
  output items announced before it put in exactly when its own output is missing or empty, stored
  and cached are the same value, finish reason and counts are those of that response, and model
  and identifier fall back to the first created event that has them.\<close>

theorem responses_stream_assembled:
  assumes "evs = before @ completed # after" and "not_completed before" and "not_completed after"
    and "event_type completed = ''response.completed''" and "event_response js completed = Some r"
    and "body = (if done_items js before \<noteq> [] \<and> (get_array r ''output'' = None \<or> get_array r ''output'' = Some [])
                 then obj_insert ''output'' (VArray (done_items js before)) r else r)"
  shows "responses_extract_sse js evs =
     (\<lparr>ri_model = or_keep (get_str r ''model'') (first_some (\<lambda>c. get_str c ''model'') (created_responses js (before @ after))),
       ri_finish_reason = get_str r ''status'',
       ri_input_tokens = Option.bind (get r ''usage'') (\<lambda>u. get_u32 u ''input_tokens''),
       ri_output_tokens = Option.bind (get r ''usage'') (\<lambda>u. get_u32 u ''output_tokens''),
       ri_total_tokens = Option.bind (get r ''usage'') (\<lambda>u. get_u32 u ''total_tokens''),
       ri_cache_read_input_tokens = Option.bind (get r ''usage'') cached_count, ri_cache_creation_input_tokens = None,
       ri_response_body = Some (json_to_string js body),
       ri_response_id = or_keep (get_str r ''id'') (first_some (\<lambda>c. get_str c ''id'') (created_responses js (before @ after)))\<rparr>,
      Eager (Some body))"
proof -
  have body: "body = graft_output (done_items js before) r"
    unfolding assms(6) by (simp add: graft_output_def Let_def split: option.split)
  let ?f = "responses_event_step js"
  have mid: "?f completed a = completed_step r a" for a
    using assms(4,5) by (simp add: responses_event_step_def event_response_def)
  have app: "created_responses js (before @ after) = created_responses js before @ created_responses js after"
    by (simp add: created_responses_def)
  note b = events_before_completed[OF assms(2), of js responses_acc_new]
  note a = events_before_completed[OF assms(3), of js "completed_step r (fold ?f before responses_acc_new)"]
  have v: "ra_value (completed_step r x) = Some (graft_output (ra_items x) r)" for x by (simp add: completed_step_def Let_def)
  show ?thesis unfolding body responses_extract_sse_def assms(1) fold_append fold_Cons comp_apply mid Let_def
    using b a by (simp add: v completed_info Let_def responses_acc_new_def empty_info_def from_value_def app first_some_append
        or_keep_assoc)
qed

theorem responses_stream_assembled_witness:
  "\<exists>info. responses_extract_sse (table_lib codex_sample) (table_stream codex_types) = (info,
     Eager (Some (VObject [(''output'', VArray [VObject [(''call_id'', VString ''fc_1''), (''type'', VString ''function_call'')]]),
       (''status'', VString ''completed''), (''usage'', VObject [(''input_tokens'', VNumber (PosInt 5))])])))
   \<and> ri_model info = Some ''m'' \<and> ri_input_tokens info = Some 5"
proof -
  let ?js = "table_lib codex_sample" and ?evs = "table_stream codex_types"
  have split: "?evs = take 2 ?evs @ ?evs ! 2 # []" by (simp add: table_stream_def codex_types_def numeral_2_eq_2 upt_rec)
  have 1: "not_completed (take 2 ?evs)" "not_completed []" "event_type (?evs ! 2) = ''response.completed''" by code_simp+
  have 2: "event_response ?js (?evs ! 2) = get (codex_sample ! 2) ''response''" by code_simp
  have r: "get (codex_sample ! 2) ''response'' = Some (VObject [(''output'', VArray []), (''status'', VString ''completed''),
       (''usage'', VObject [(''input_tokens'', VNumber (PosInt 5))])])" by (simp add: codex_sample_def)
  have 3: "done_items ?js (take 2 ?evs) = [VObject [(''call_id'', VString ''fc_1''), (''type'', VString ''function_call'')]]"
    "first_some (\<lambda>c. get_str c ''model'') (created_responses ?js (take 2 ?evs @ [])) = Some ''m''" by code_simp+
  from responses_stream_assembled[OF split 1(1,2,3) 2[unfolded r] refl] show ?thesis
    unfolding 3 by (simp add: get_array_def get_str_def get_u32_def get_u64_def)
qed

text \<open>A stream that ends with another event than the completed one (response.incomplete, response.failed, a cut): nothing but the
  identifier and the model of the created event is kept, so neither the body nor the counts nor a finish reason.\<close>

theorem unfinished_stream_lost:
  assumes "not_completed evs"
  shows "responses_extract_sse js evs = (empty_info
     \<lparr>ri_response_id := first_some (\<lambda>r. get_str r ''id'') (created_responses js evs),
      ri_model := first_some (\<lambda>r. get_str r ''model'') (created_responses js evs)\<rparr>, Eager None)"
  using events_before_completed[OF assms, of js responses_acc_new]
  by (simp add: responses_extract_sse_def responses_acc_new_def empty_info_def from_value_def Let_def)

text \<open>The estimate of the input tokens does not count a prompt given as a plain string, which the other readers of a request
  accept.\<close>

theorem string_input_not_counted:
  "responses_estimate_input_tokens js est (VObject [(''input'', VString s), (''model'', VString m)]) = 0"
  by (simp add: responses_estimate_input_tokens_def get_str_def get_array_def serialized_def opt_frag_def sum_counts_def)

end
