(* ===== verification/Gemini.thy ===== *)
theory Gemini
  imports Openai_Responses
begin

text \<open>
  \<^verbatim>\<open>server/h-llm/src/wire_apis/gemini_aistudio.rs\<close>: the Gemini AI Studio wire API. Detection,
  extraction from the path, from a body and from a stream of chunks (with the body that is
  assembled per candidate), the finish reason that is synthesized for function calls, and the body
  readers and signatures of the agent profiles.
\<close>

section \<open>Detection\<close>

definition SYNTHETIC_TOOL_USE :: string where "SYNTHETIC_TOOL_USE = ''TOOL_USE''"

definition gemini_classify_route :: "HttpRequestData \<Rightarrow> RouteVerdict" where
  "gemini_classify_route req =
     (if req_method req \<noteq> ''POST'' then Reject
      else
        (let path = uri_path (req_uri req);
             has_aistudio_prefix = str_contains path ''/v1beta/models/'';
             has_generate_verb = (suffix '':generateContent'' path \<or> suffix '':streamGenerateContent'' path)
         in if has_aistudio_prefix \<and> has_generate_verb then Accept else UnknownRoute))"

definition gemini_matches_shape :: "json_lib \<Rightarrow> HttpRequestData \<Rightarrow> ParsedJson \<Rightarrow> bool" where
  "gemini_matches_shape js req req_cache =
     (case pj_get js req_cache of
        None \<Rightarrow> False
      | Some b \<Rightarrow>
          if get b ''messages'' \<noteq> None \<or> get b ''input'' \<noteq> None \<or> get b ''request'' \<noteq> None then False
          else case get_array b ''contents'' of Some a \<Rightarrow> a \<noteq> [] | None \<Rightarrow> False)"

definition gemini_is_terminal :: "string \<Rightarrow> bool" where
  "gemini_is_terminal r \<longleftrightarrow> r \<in> {''STOP'', ''MAX_TOKENS'', ''SAFETY'', ''RECITATION'', ''LANGUAGE'', ''BLOCKLIST'',
     ''PROHIBITED_CONTENT'', ''SPII'', ''MALFORMED_FUNCTION_CALL'', ''IMAGE_SAFETY'', ''OTHER'', SYNTHETIC_TOOL_USE}"

definition gemini_is_tool_use :: "string \<Rightarrow> bool" where
  "gemini_is_tool_use r \<longleftrightarrow> r = SYNTHETIC_TOOL_USE"

section \<open>Extraction\<close>

definition parse_path_model_action :: "string \<Rightarrow> string option \<times> string" where
  "parse_path_model_action uri =
     (let path = uri_path uri;
          last_seg = rev (takeWhile (\<lambda>c. c \<noteq> CHR ''/'') (rev path));
          model = takeWhile (\<lambda>c. c \<noteq> CHR '':'') last_seg;
          verb = drop (length model + 1) last_seg;
          action = (if CHR '':'' \<in> set last_seg \<and> (verb = ''generateContent'' \<or> verb = ''streamGenerateContent'') then verb else [])
      in (if model = [] then None else Some model, action))"

definition gemini_extract_request :: "HttpRequestData \<Rightarrow> ParsedJson \<Rightarrow> RequestInfo" where
  "gemini_extract_request req req_cache =
     (let (model, action) = parse_path_model_action (req_uri req)
      in \<lparr>rq_model = unwrap_or ''unknown'' model, rq_is_stream = (action = ''streamGenerateContent'')\<rparr>)"

definition synthesize_finish_reason :: "string option \<Rightarrow> bool \<Rightarrow> string option" where
  "synthesize_finish_reason raw has_function_call =
     (if raw = Some ''STOP'' \<and> has_function_call then Some SYNTHETIC_TOOL_USE else raw)"

definition extract_usage :: "Value option \<Rightarrow> u32 option \<times> u32 option \<times> u32 option \<times> u32 option" where
  "extract_usage usage =
     (let count = (\<lambda>k. Option.bind usage (\<lambda>u. get_u32 u k))
      in (count ''promptTokenCount'', count ''candidatesTokenCount'', count ''totalTokenCount'', count ''cachedContentTokenCount''))"

definition version_or_model :: "Value \<Rightarrow> string option" where
  "version_or_model b = Option.bind (or_keep (get b ''modelVersion'') (get b ''model'')) as_str"

definition first_candidate :: "Value \<Rightarrow> Value option" where
  "first_candidate b = Option.bind (get_array b ''candidates'') (\<lambda>cs. case cs of [] \<Rightarrow> None | c # _ \<Rightarrow> Some c)"

definition candidate_parts :: "Value \<Rightarrow> Value list option" where
  "candidate_parts c = Option.bind (get c ''content'') (\<lambda>x. get_array x ''parts'')"

definition has_function_call :: "Value \<Rightarrow> bool" where
  "has_function_call c = (case candidate_parts c of Some ps \<Rightarrow> list_ex (\<lambda>p. get p ''functionCall'' \<noteq> None) ps | None \<Rightarrow> False)"

text \<open>The fields both readers take from a body.\<close>

definition gemini_fields :: "Value option \<Rightarrow> string option \<Rightarrow> ResponseInfo" where
  "gemini_fields parsed body =
     (let cand = Option.bind parsed first_candidate;
          raw_finish = Option.bind cand (\<lambda>c. get_str c ''finishReason'');
          (it, ot, tt, cr) = extract_usage (Option.bind parsed (\<lambda>b. get b ''usageMetadata''))
      in \<lparr>ri_model = Option.bind parsed version_or_model,
          ri_finish_reason = synthesize_finish_reason raw_finish (case cand of Some c \<Rightarrow> has_function_call c | None \<Rightarrow> False),
          ri_input_tokens = it, ri_output_tokens = ot, ri_total_tokens = tt, ri_cache_read_input_tokens = cr,
          ri_cache_creation_input_tokens = None, ri_response_body = body,
          ri_response_id = Option.bind parsed (\<lambda>b. get_str b ''responseId'')\<rparr>)"

definition gemini_extract_response :: "json_lib \<Rightarrow> HttpResponseData \<Rightarrow> ParsedJson \<Rightarrow> ResponseInfo" where
  "gemini_extract_response js resp resp_cache = gemini_fields (pj_get js resp_cache) (from_utf8 (resp_body resp))"

record PartialCandidate =
  pc_role :: "string option"
  pc_text :: string
  pc_thought :: string
  pc_discrete_parts :: "Value list"
  pc_finish_reason :: "string option"
  pc_index :: "u64 option"

definition PartialCandidate_default :: PartialCandidate where
  "PartialCandidate_default = \<lparr>pc_role = None, pc_text = [], pc_thought = [], pc_discrete_parts = [],
     pc_finish_reason = None, pc_index = None\<rparr>"

definition accumulate_part :: "Value \<Rightarrow> PartialCandidate \<Rightarrow> PartialCandidate" where
  "accumulate_part part e =
     (if get part ''functionCall'' \<noteq> None \<or> get part ''inlineData'' \<noteq> None
      then e\<lparr>pc_discrete_parts := pc_discrete_parts e @ [part]\<rparr>
      else case get_str part ''text'' of
             Some t \<Rightarrow> if unwrap_or False (get_bool part ''thought'') then e\<lparr>pc_thought := pc_thought e @ t\<rparr>
                       else e\<lparr>pc_text := pc_text e @ t\<rparr>
           | None \<Rightarrow> e\<lparr>pc_discrete_parts := pc_discrete_parts e @ [part]\<rparr>)"

definition candidate_index :: "Value \<Rightarrow> u64" where
  "candidate_index cand = unwrap_or 0 (get_u64 cand ''index'')"

definition candidate_merge :: "Value \<Rightarrow> PartialCandidate \<Rightarrow> PartialCandidate" where
  "candidate_merge cand e =
     fold accumulate_part (unwrap_or [] (candidate_parts cand))
       (e\<lparr>pc_index := Some (candidate_index cand),
          pc_role := or_keep (Option.bind (get cand ''content'') (\<lambda>c. get_str c ''role'')) (pc_role e),
          pc_finish_reason := or_keep (get_str cand ''finishReason'') (pc_finish_reason e)\<rparr>)"

definition candidate_step :: "Value \<Rightarrow> (u64 \<times> PartialCandidate) list \<Rightarrow> (u64 \<times> PartialCandidate) list" where
  "candidate_step cand m = bt_insert (candidate_index cand)
     (candidate_merge cand (unwrap_or PartialCandidate_default (map_of m (candidate_index cand)))) m"

record gemini_acc =
  ga_candidates :: "(u64 \<times> PartialCandidate) list"
  ga_response_id :: "string option"
  ga_model_version :: "string option"
  ga_usage_metadata :: "Value option"
  ga_any_data :: bool

definition gemini_acc_new :: gemini_acc where
  "gemini_acc_new = \<lparr>ga_candidates = [], ga_response_id = None, ga_model_version = None, ga_usage_metadata = None, ga_any_data = False\<rparr>"

definition non_null :: "Value \<Rightarrow> Value option" where
  "non_null v = (if v = VNull then None else Some v)"

definition gemini_chunk_step :: "Value \<Rightarrow> gemini_acc \<Rightarrow> gemini_acc" where
  "gemini_chunk_step chunk a =
     (if \<not> is_object chunk then a
      else a\<lparr>ga_any_data := True,
             ga_response_id := or_keep (get_str chunk ''responseId'') (ga_response_id a),
             ga_model_version := or_keep (version_or_model chunk) (ga_model_version a),
             ga_usage_metadata := or_keep (Option.bind (get chunk ''usageMetadata'') non_null) (ga_usage_metadata a),
             ga_candidates := fold candidate_step (unwrap_or [] (get_array chunk ''candidates'')) (ga_candidates a)\<rparr>)"

definition finalize_candidate :: "PartialCandidate \<Rightarrow> Value" where
  "finalize_candidate p =
     (let parts = (if pc_thought p = [] then [] else [VObject [(''text'', VString (pc_thought p)), (''thought'', VBool True)]])
                  @ (if pc_text p = [] then [] else [VObject [(''text'', VString (pc_text p))]])
                  @ pc_discrete_parts p;
          content = insert_some ''role'' (map_option VString (pc_role p)) (VObject [(''parts'', VArray parts)])
      in insert_some ''finishReason'' (map_option VString (pc_finish_reason p))
           (insert_some ''index'' (map_option (\<lambda>i. VNumber (PosInt i)) (pc_index p)) (VObject [(''content'', content)])))"

definition gemini_build_response_body :: "Value list \<Rightarrow> Value option" where
  "gemini_build_response_body parsed =
     (let a = fold gemini_chunk_step parsed gemini_acc_new
      in if \<not> ga_any_data a \<and> ga_candidates a = [] then None
         else Some (insert_some ''usageMetadata'' (ga_usage_metadata a)
                (insert_some ''modelVersion'' (map_option VString (ga_model_version a))
                  (insert_some ''responseId'' (map_option VString (ga_response_id a))
                    (obj_insert ''candidates'' (VArray (map (\<lambda>(_, p). finalize_candidate p) (ga_candidates a))) (VObject []))))))"

definition gemini_extract_sse :: "json_lib \<Rightarrow> SseEventData list \<Rightarrow> ResponseInfo \<times> ParsedJson" where
  "gemini_extract_sse js evs =
     (let parsed = map (\<lambda>e. unwrap_or VNull (json_from_str js (sse_data e))) evs;
          synthetic = gemini_build_response_body parsed
      in (gemini_fields synthetic (map_option (json_to_string js) synthetic), from_value synthetic))"

definition GeminiAiStudioWireApi :: "json_lib \<Rightarrow> WireApi" where
  "GeminiAiStudioWireApi js = \<lparr>wa_name = GEMINI_AISTUDIO, wa_classify_route = gemini_classify_route,
     wa_matches_shape = gemini_matches_shape js, wa_extract_request = gemini_extract_request,
     wa_extract_response = gemini_extract_response js, wa_extract_sse = gemini_extract_sse js,
     wa_is_terminal = gemini_is_terminal, wa_is_tool_use = gemini_is_tool_use\<rparr>"

section \<open>Signatures\<close>

definition is_thought :: "Value \<Rightarrow> bool" where
  "is_thought p \<longleftrightarrow> get_bool p ''thought'' = Some True"

definition visible_text_of_parts :: "Value list \<Rightarrow> string" where
  "visible_text_of_parts parts = concat (List.map_filter (\<lambda>p. get_str p ''text'') (filter (\<lambda>p. \<not> is_thought p) parts))"

fun join_with :: "string \<Rightarrow> string list \<Rightarrow> string" where
  "join_with sep [] = []"
| "join_with sep [p] = p"
| "join_with sep (p # ps) = p @ sep @ join_with sep ps"

fun canonical_json :: "json_lib \<Rightarrow> Value \<Rightarrow> string" where
  "canonical_json js VNull = ''null''"
| "canonical_json js (VBool b) = (if b then ''true'' else ''false'')"
| "canonical_json js (VNumber n) = json_to_string js (VNumber n)"
| "canonical_json js (VString s) = json_to_string js (VString s)"
| "canonical_json js (VArray arr) = ''['' @ join_with '','' (map (canonical_json js) arr) @ '']''"
| "canonical_json js (VObject m) =
     ''{'' @ join_with '','' (map (\<lambda>(k, t). json_to_string js (VString k) @ '':'' @ t)
        (sort_key fst (map (\<lambda>e. (fst e, canonical_json js (snd e))) m))) @ ''}''"

text \<open>One part as its segment and whether it is text; thoughts have none. The length of inline data is in bytes.\<close>

definition part_segment :: "json_lib \<Rightarrow> Value \<Rightarrow> (string \<times> bool) option" where
  "part_segment js p =
     (if is_thought p then None
      else case get_str p ''text'' of
        Some t \<Rightarrow> Some (''t:'' @ t, True)
      | None \<Rightarrow>
          (case get p ''functionCall'' of
             Some fc \<Rightarrow>
               (case get_str fc ''id'' of
                  Some i \<Rightarrow> Some (''f:'' @ i, False)
                | None \<Rightarrow> Some (''f:'' @ unwrap_or [] (get_str fc ''name'') @ ''/''
                                @ canonical_json js (unwrap_or VNull (get fc ''args'')), False))
           | None \<Rightarrow>
               (case get p ''inlineData'' of
                  Some inl \<Rightarrow> Some (''d:'' @ unwrap_or [] (get_str inl ''mimeType'') @ '':''
                     @ to_radix 20 10 (case get_str inl ''data'' of Some d \<Rightarrow> length d | None \<Rightarrow> 0), False)
                | None \<Rightarrow> Some (''?:'' @ canonical_json js p, False))))"

definition parts_sig :: "json_lib \<Rightarrow> Value list \<Rightarrow> (string \<times> bool) option" where
  "parts_sig js parts =
     (let segs = List.map_filter (part_segment js) parts
      in if segs = [] then None else Some (join_with ''|'' (map fst segs), list_all snd segs))"

definition fnv_step :: "u8 \<Rightarrow> u64 \<Rightarrow> u64" where
  "fnv_step b h = (h XOR ucast b) * 0x100000001b3"

definition fnv_offset :: u64 where "fnv_offset = 0xcbf29ce484222325"

definition fnv1a_64 :: "string \<Rightarrow> u64" where
  "fnv1a_64 s = fold fnv_step (as_bytes s) fnv_offset"

text \<open>\<open>{:016x}\<close>.\<close>

definition hex16 :: "u64 \<Rightarrow> string" where
  "hex16 h = map (\<lambda>i. digit_char (unat (drop_bit (4 * i) h AND 15))) (rev [0..<16])"

definition wrap_sig :: "string \<times> bool \<Rightarrow> AssistantSig" where
  "wrap_sig x = (let (sg, is_pure_text) = x in if is_pure_text then SigText sg else ToolId (''tu-'' @ hex16 (fnv1a_64 sg)))"

section \<open>Body readers\<close>

definition joined_texts :: "Value list \<Rightarrow> string option" where
  "joined_texts parts = non_blank (join_lines (List.map_filter (\<lambda>p. get_str p ''text'') parts))"

definition gemini_first_user_text :: "Value \<Rightarrow> string option" where
  "gemini_first_user_text req =
     Option.bind (Option.bind (get_array req ''contents'') (find (has_role ''user'')))
       (\<lambda>c. Option.bind (get_array c ''parts'') joined_texts)"

definition gemini_first_system_text :: "Value \<Rightarrow> string option" where
  "gemini_first_system_text req =
     Option.bind (Option.bind (get req ''systemInstruction'') (\<lambda>si. get_array si ''parts'')) joined_texts"

definition gemini_first_assistant_sig_from_request :: "json_lib \<Rightarrow> Value \<Rightarrow> AssistantSig option" where
  "gemini_first_assistant_sig_from_request js req =
     Option.bind (Option.bind (get_array req ''contents'') (find (has_role ''model'')))
       (\<lambda>c. Option.bind (get_array c ''parts'') (\<lambda>ps. map_option wrap_sig (parts_sig js ps)))"

definition gemini_first_assistant_sig_from_response_value :: "json_lib \<Rightarrow> Value \<Rightarrow> AssistantSig option" where
  "gemini_first_assistant_sig_from_response_value js resp =
     Option.bind (Option.bind (first_candidate resp) candidate_parts) (\<lambda>ps. map_option wrap_sig (parts_sig js ps))"

definition only_function_responses :: "Value list \<Rightarrow> bool" where
  "only_function_responses parts \<longleftrightarrow> parts \<noteq> [] \<and> list_all (\<lambda>p. get p ''functionResponse'' \<noteq> None) parts"

definition gemini_extract_user_input :: "Value \<Rightarrow> string option" where
  "gemini_extract_user_input req =
     Option.bind (get_array req ''contents'') (\<lambda>cs. first_some
       (\<lambda>c. case get_array c ''parts'' of
              None \<Rightarrow> None
            | Some ps \<Rightarrow> if only_function_responses ps then None else joined_texts ps)
       (filter (has_role ''user'') (rev cs)))"

definition user_part :: "Value \<Rightarrow> bool" where
  "user_part p =
     (if get p ''functionResponse'' \<noteq> None then False
      else case get_str p ''text'' of Some t \<Rightarrow> trim t \<noteq> [] | None \<Rightarrow> get p ''inlineData'' \<noteq> None)"

definition gemini_is_user_turn_start :: "Value \<Rightarrow> bool option" where
  "gemini_is_user_turn_start req =
     (case Option.bind (get_array req ''contents'') last_opt of
        None \<Rightarrow> None
      | Some c \<Rightarrow> if \<not> has_role ''user'' c then Some False
                  else map_option (list_ex user_part) (get_array c ''parts''))"

definition gemini_extract_assistant_text_value :: "Value \<Rightarrow> string option" where
  "gemini_extract_assistant_text_value resp =
     Option.bind (Option.bind (first_candidate resp) candidate_parts) (\<lambda>ps. non_blank (visible_text_of_parts ps))"

section \<open>What a stream says\<close>

text \<open>Per candidate: the entries with its index, and what their parts give as a whole.\<close>

definition stream_candidates :: "Value list \<Rightarrow> Value list" where
  "stream_candidates chunks = concat (List.map_filter (\<lambda>c. get_array c ''candidates'') chunks)"

definition discrete_part :: "Value \<Rightarrow> bool" where
  "discrete_part p \<longleftrightarrow> get p ''functionCall'' \<noteq> None \<or> get p ''inlineData'' \<noteq> None \<or> get_str p ''text'' = None"

definition whole_candidate :: "Value list \<Rightarrow> PartialCandidate" where
  "whole_candidate cands =
     (let parts = concat (List.map_filter candidate_parts cands);
          text_of = (\<lambda>th. concat (List.map_filter (\<lambda>p. get_str p ''text'')
                       (filter (\<lambda>p. \<not> discrete_part p \<and> is_thought p = th) parts)))
      in \<lparr>pc_role = last_some (\<lambda>c. Option.bind (get c ''content'') (\<lambda>x. get_str x ''role'')) cands,
          pc_text = text_of False, pc_thought = text_of True, pc_discrete_parts = filter discrete_part parts,
          pc_finish_reason = last_some (\<lambda>c. get_str c ''finishReason'') cands,
          pc_index = (case last_opt cands of Some c \<Rightarrow> Some (candidate_index c) | None \<Rightarrow> None)\<rparr>)"

definition whole_candidates :: "Value list \<Rightarrow> (u64 \<times> PartialCandidate) list" where
  "whole_candidates cands = group_by_key candidate_index whole_candidate cands"

definition gemini_summary :: "Value list \<Rightarrow> gemini_acc" where
  "gemini_summary chunks =
     \<lparr>ga_candidates = whole_candidates (stream_candidates chunks),
      ga_response_id = last_some (\<lambda>c. get_str c ''responseId'') chunks,
      ga_model_version = last_some version_or_model chunks,
      ga_usage_metadata = last_some (\<lambda>c. Option.bind (get c ''usageMetadata'') non_null) chunks,
      ga_any_data = (chunks \<noteq> [])\<rparr>"

text \<open>A model turn that calls a function and then says why: as the server sends it, and as the client repeats it.\<close>

definition call_part :: Value where
  "call_part = VObject [(''functionCall'', VObject [(''id'', VString ''c1''), (''name'', VString ''ls'')])]"

definition call_then_text :: "Value list" where
  "call_then_text = [VObject [(''candidates'', VArray [VObject [(''content'', VObject [(''parts'', VArray [call_part]), (''role'', VString ''model'')])]])],
     VObject [(''candidates'', VArray [VObject [(''content'', VObject [(''parts'', VArray [VObject [(''text'', VString ''why'')]])]), (''finishReason'', VString ''STOP'')]])]]"

definition call_then_text_echo :: Value where
  "call_then_text_echo = VObject [(''contents'', VArray [
     VObject [(''parts'', VArray [VObject [(''text'', VString ''hi'')]]), (''role'', VString ''user'')],
     VObject [(''parts'', VArray [call_part, VObject [(''text'', VString ''why'')]]), (''role'', VString ''model'')]])]"

section \<open>Lemmas\<close>

lemma whole_candidate_Nil [simp]: "whole_candidate [] = PartialCandidate_default"
  by (simp add: whole_candidate_def PartialCandidate_default_def last_some_def last_opt_def List.map_filter_simps)

lemma accumulate_part_fields:
  "pc_text (accumulate_part p e) = pc_text e @ (if \<not> discrete_part p \<and> \<not> is_thought p then unwrap_or [] (get_str p ''text'') else [])"
  "pc_thought (accumulate_part p e) = pc_thought e @ (if \<not> discrete_part p \<and> is_thought p then unwrap_or [] (get_str p ''text'') else [])"
  "pc_discrete_parts (accumulate_part p e) = pc_discrete_parts e @ (if discrete_part p then [p] else [])"
  "pc_role (accumulate_part p e) = pc_role e" "pc_finish_reason (accumulate_part p e) = pc_finish_reason e"
  "pc_index (accumulate_part p e) = pc_index e"
  by (auto simp: accumulate_part_def discrete_part_def is_thought_def unwrap_or_def split: option.splits)

lemma accumulate_parts:
  "pc_text (fold accumulate_part ps e) = pc_text e @ concat (List.map_filter (\<lambda>p. get_str p ''text'') (filter (\<lambda>p. \<not> discrete_part p \<and> \<not> is_thought p) ps))"
  "pc_thought (fold accumulate_part ps e) = pc_thought e @ concat (List.map_filter (\<lambda>p. get_str p ''text'') (filter (\<lambda>p. \<not> discrete_part p \<and> is_thought p) ps))"
  "pc_discrete_parts (fold accumulate_part ps e) = pc_discrete_parts e @ filter discrete_part ps"
  "pc_role (fold accumulate_part ps e) = pc_role e" "pc_finish_reason (fold accumulate_part ps e) = pc_finish_reason e"
  "pc_index (fold accumulate_part ps e) = pc_index e"
  by (induction ps arbitrary: e) (auto simp: accumulate_part_fields List.map_filter_simps unwrap_or_def split: option.split)

lemma whole_candidate_snoc: "candidate_merge c (whole_candidate cs) = whole_candidate (cs @ [c])"
  by (rule PartialCandidate.equality)
     (simp_all add: candidate_merge_def whole_candidate_def accumulate_parts last_some_snoc last_opt_def Let_def
       List.map_filter_simps unwrap_or_def split: option.split)

interpretation candidates: keyed_fold candidate_index candidate_merge whole_candidate
  by unfold_locales (rule whole_candidate_snoc[symmetric])

lemma candidate_step_keyed: "candidate_step = keyed_step candidate_index candidate_merge (whole_candidate [])"
  by (intro ext) (simp add: candidate_step_def keyed_step_def)

lemma candidate_steps: "fold candidate_step cands (whole_candidates cs) = whole_candidates (cs @ cands)"
  unfolding whole_candidates_def candidate_step_keyed by (rule candidates.steps)

lemma gemini_summary_new: "gemini_summary [] = gemini_acc_new"
  by (simp add: gemini_summary_def gemini_acc_new_def whole_candidates_def group_by_key_def stream_candidates_def last_some_def last_opt_def
      List.map_filter_simps)

lemma gemini_summary_snoc: "is_object c \<Longrightarrow> gemini_chunk_step c (gemini_summary cs) = gemini_summary (cs @ [c])"
  by (rule gemini_acc.equality)
     (simp_all add: gemini_chunk_step_def gemini_summary_def candidate_steps last_some_snoc stream_candidates_def
       List.map_filter_simps unwrap_or_def split: option.split)

lemma gemini_chunk_skip: "\<not> is_object c \<Longrightarrow> gemini_chunk_step c a = a"
  by (simp add: gemini_chunk_step_def)

lemma gemini_chunks: "fold gemini_chunk_step chunks gemini_acc_new = gemini_summary (filter is_object chunks)"
proof (induction chunks rule: rev_induct)
  case (snoc c cs)
  then show ?case by (cases "is_object c") (simp_all add: gemini_summary_snoc gemini_chunk_skip)
qed (simp add: gemini_summary_new)

lemma gemini_body_read:
  "gemini_build_response_body chunks =
     (let s = gemini_summary (filter is_object chunks)
      in if filter is_object chunks = [] then None
         else Some (insert_some ''usageMetadata'' (ga_usage_metadata s)
                (insert_some ''modelVersion'' (map_option VString (ga_model_version s))
                  (insert_some ''responseId'' (map_option VString (ga_response_id s))
                    (VObject [(''candidates'', VArray (map (\<lambda>(_, p). finalize_candidate p) (ga_candidates s)))])))))"
proof -
  have "ga_candidates (gemini_summary []) = []" by (simp add: gemini_summary_new gemini_acc_new_def)
  then show ?thesis unfolding gemini_build_response_body_def gemini_chunks Let_def
    by (auto simp: gemini_summary_def)
qed

lemma finalize_candidate_wf: "(\<And>v. v \<in> set (pc_discrete_parts p) \<Longrightarrow> json_wf v) \<Longrightarrow> json_wf (finalize_candidate p)"
  unfolding finalize_candidate_def Let_def by (auto intro!: json_wf_insert_some simp: bt_valid_def)

lemma whole_candidate_parts_wf:
  assumes "\<And>c. c \<in> set cs \<Longrightarrow> json_wf c" "v \<in> set (pc_discrete_parts (whole_candidate cs))"
  shows "json_wf v"
proof -
  from assms(2) obtain c ps where "c \<in> set cs" "candidate_parts c = Some ps" "v \<in> set ps"
    by (auto simp: whole_candidate_def Let_def List.map_filter_def)
  with assms(1) show ?thesis
    by (cases "get c ''content''") (auto simp: candidate_parts_def dest: json_wf_get json_wf_array)
qed

lemma gemini_body_wf:
  assumes wf: "\<And>c. c \<in> set chunks \<Longrightarrow> json_wf c" and b: "gemini_build_response_body chunks = Some body"
  shows "json_wf body"
proof -
  let ?s = "gemini_summary (filter is_object chunks)"
  have cand: "json_wf c" if "c \<in> set (stream_candidates (filter is_object chunks))" for c
  proof -
    from that obtain x ys where "x \<in> set chunks" "get_array x ''candidates'' = Some ys" "c \<in> set ys"
      by (auto simp: stream_candidates_def List.map_filter_def)
    with wf show ?thesis by (blast intro: json_wf_array)
  qed
  have "json_wf (finalize_candidate p)" if "(i, p) \<in> set (ga_candidates ?s)" for i p
    using that cand by (auto simp: gemini_summary_def whole_candidates_def group_by_key_def
        intro!: finalize_candidate_wf elim!: whole_candidate_parts_wf[rotated])
  then have "json_wf (VArray (map (\<lambda>(_, p). finalize_candidate p) (ga_candidates ?s)))" by auto
  moreover have "json_wf u" if "ga_usage_metadata ?s = Some u" for u
  proof -
    from that have "u \<in> set (List.map_filter (\<lambda>c. Option.bind (get c ''usageMetadata'') non_null) (filter is_object chunks))"
      by (auto simp: gemini_summary_def last_some_def last_opt_def split: if_splits)
    then obtain c where "c \<in> set chunks" "get c ''usageMetadata'' = Some u"
      by (auto simp: List.map_filter_def non_null_def Option.bind_eq_Some_conv split: if_splits)
    with wf show ?thesis by (blast intro: json_wf_get)
  qed
  ultimately show ?thesis using b unfolding gemini_body_read Let_def
    by (auto intro!: json_wf_insert_some simp: bt_valid_def split: if_splits simp del: json_wf.simps(1))
qed

lemma gemini_wire_api: "wire_api js (GeminiAiStudioWireApi js)"
proof
  fix evs b
  assume lib: "\<And>s v. json_from_str js s = Some v \<Longrightarrow> json_wf v"
    and b: "pj_get js (snd (wa_extract_sse (GeminiAiStudioWireApi js) evs)) = Some b"
  have wf: "json_wf c" if "c \<in> set (map (\<lambda>e. unwrap_or VNull (json_from_str js (sse_data e))) evs)" for c
    using that lib by (auto simp: unwrap_or_def split: option.splits)
  have "gemini_build_response_body (map (\<lambda>e. unwrap_or VNull (json_from_str js (sse_data e))) evs) = Some b"
    using b by (simp add: GeminiAiStudioWireApi_def gemini_extract_sse_def from_value_def Let_def)
  from gemini_body_wf[OF wf this] show "json_wf b" .
qed (auto simp: GeminiAiStudioWireApi_def gemini_classify_route_def gemini_matches_shape_def gemini_extract_request_def
  gemini_extract_response_def gemini_is_tool_use_def gemini_is_terminal_def gemini_extract_sse_def gemini_fields_def from_value_def
  Let_def split: option.splits prod.splits)

interpretation gemini: wire_api js "GeminiAiStudioWireApi js" for js
  by (rule gemini_wire_api)

section \<open>Properties\<close>

text \<open>C29: Reading a Gemini stream chunk by chunk gives what the chunks say as a whole: per candidate index the
  thought texts and the visible texts are concatenated and the other parts kept in order, role and
  finish reason are the last given, candidates come in index order, and model, identifier and
  usage are the last given. A stop with a function call among the parts of the first candidate is
  reported as the synthetic tool-use reason.\<close>

theorem gemini_stream_read:
  "gemini_extract_sse js evs =
     (let chunks = filter is_object (map (\<lambda>e. unwrap_or VNull (json_from_str js (sse_data e))) evs);
          s = gemini_summary chunks;
          body = (if chunks = [] then None
            else Some (insert_some ''usageMetadata'' (ga_usage_metadata s)
              (insert_some ''modelVersion'' (map_option VString (ga_model_version s))
                (insert_some ''responseId'' (map_option VString (ga_response_id s))
                  (VObject [(''candidates'', VArray (map (\<lambda>(_, p). finalize_candidate p) (ga_candidates s)))])))))
      in (\<lparr>ri_model = ga_model_version s,
           ri_finish_reason = (case ga_candidates s of
               [] \<Rightarrow> None
             | (_, p) # _ \<Rightarrow>
                 if pc_finish_reason p = Some ''STOP'' \<and> list_ex (\<lambda>v. get v ''functionCall'' \<noteq> None) (pc_discrete_parts p)
                 then Some ''TOOL_USE'' else pc_finish_reason p),
           ri_input_tokens = Option.bind (ga_usage_metadata s) (\<lambda>u. get_u32 u ''promptTokenCount''),
           ri_output_tokens = Option.bind (ga_usage_metadata s) (\<lambda>u. get_u32 u ''candidatesTokenCount''),
           ri_total_tokens = Option.bind (ga_usage_metadata s) (\<lambda>u. get_u32 u ''totalTokenCount''),
           ri_cache_read_input_tokens = Option.bind (ga_usage_metadata s) (\<lambda>u. get_u32 u ''cachedContentTokenCount''),
           ri_cache_creation_input_tokens = None,
           ri_response_body = map_option (json_to_string js) body, ri_response_id = ga_response_id s\<rparr>,
          Eager body))"
proof -
  define chunks where "chunks = filter is_object (map (\<lambda>e. unwrap_or VNull (json_from_str js (sse_data e))) evs)"
  define s where "s = gemini_summary chunks"
  define b where "b = insert_some ''usageMetadata'' (ga_usage_metadata s)
              (insert_some ''modelVersion'' (map_option VString (ga_model_version s))
                (insert_some ''responseId'' (map_option VString (ga_response_id s))
                  (VObject [(''candidates'', VArray (map (\<lambda>(_, p). finalize_candidate p) (ga_candidates s)))])))"
  have g: "get b k = (if k = ''usageMetadata'' \<and> ga_usage_metadata s \<noteq> None then ga_usage_metadata s
      else if k = ''modelVersion'' \<and> ga_model_version s \<noteq> None then map_option VString (ga_model_version s)
      else if k = ''responseId'' \<and> ga_response_id s \<noteq> None then map_option VString (ga_response_id s)
      else if k = ''candidates'' then Some (VArray (map (\<lambda>(_, p). finalize_candidate p) (ga_candidates s))) else None)" for k
    by (simp add: b_def get_insert_some)
  have fields: "get b ''usageMetadata'' = ga_usage_metadata s" "version_or_model b = ga_model_version s"
    "get_str b ''responseId'' = ga_response_id s"
    unfolding version_or_model_def get_str_def g by (cases "ga_usage_metadata s"; cases "ga_model_version s"; cases "ga_response_id s"; simp)+
  have parts: "get_str (finalize_candidate p) ''finishReason'' = pc_finish_reason p"
    "has_function_call (finalize_candidate p) = list_ex (\<lambda>v. get v ''functionCall'' \<noteq> None) (pc_discrete_parts p)" for p
    unfolding finalize_candidate_def Let_def has_function_call_def candidate_parts_def get_array_def get_str_def
    by (cases "pc_finish_reason p"; simp add: get_insert_some)+
  have empty: "s = gemini_acc_new" if "chunks = []" using that by (simp add: s_def gemini_summary_new)
  show ?thesis
    unfolding gemini_extract_sse_def gemini_body_read Let_def chunks_def[symmetric] s_def[symmetric] b_def[symmetric]
    using empty
    by (cases "chunks = []"; cases "ga_candidates s")
       (auto simp: gemini_fields_def extract_usage_def fields from_value_def gemini_acc_new_def synthesize_finish_reason_def SYNTHETIC_TOOL_USE_def
         first_candidate_def get_array_def g parts Let_def split: prod.splits)
qed

text \<open>A streamed turn with text after a function call: the assembled body has the text first, so its signature is not that of the
  turn the client repeats, and the calls of one conversation get two session identifiers.\<close>

theorem text_after_call_reordered:
  "gemini_first_assistant_sig_from_response_value js (the (gemini_build_response_body call_then_text))
     = Some (ToolId (''tu-'' @ hex16 (fnv1a_64 ''t:why|f:c1'')))
   \<and> gemini_first_assistant_sig_from_request js call_then_text_echo = Some (ToolId (''tu-'' @ hex16 (fnv1a_64 ''f:c1|t:why'')))
   \<and> hex16 (fnv1a_64 ''t:why|f:c1'') \<noteq> hex16 (fnv1a_64 ''f:c1|t:why'')"
  by code_simp

end
