(* ===== verification/Wire_Registry.thy ===== *)
theory Wire_Registry
  imports Gemini
begin

text \<open>
  The default registry of \<^verbatim>\<open>server/h-llm/src/wire_apis/mod.rs\<close>: the four wire APIs in their order,
  what detection over them decides, and what they promise together through the contract
  \<open>wire_api\<close>.
\<close>

definition build_default_wire_api_registry :: "json_lib \<Rightarrow> WireApiRegistry" where
  "build_default_wire_api_registry js =
     [AnthropicWireApi js, OpenAiResponsesWireApi js, GeminiAiStudioWireApi js, OpenAiChatWireApi js]"

section \<open>Samples\<close>

definition post_to :: "string \<Rightarrow> HttpRequestData" where
  "post_to uri = \<lparr>req_flow_key = FlowKey_new [] (V4 0) 0 (V4 0) 0, req_client_addr = (V4 0, 0), req_server_addr = (V4 0, 0),
     req_method = ''POST'', req_uri = uri, req_version = 1, req_headers = [(''Authorization'', ''Bearer k'')], req_body = [],
     req_timestamp_us = 0, req_process = None\<rparr>"

section \<open>Lemmas\<close>

lemma default_wire_apis: "p \<in> set (build_default_wire_api_registry js) \<Longrightarrow> wire_api js p"
  by (auto simp: build_default_wire_api_registry_def anthropic_wire_api responses_wire_api gemini_wire_api chat_wire_api)

lemma route_suffixes_apart:
  "\<not> (suffix ''/v1/messages'' s \<and> suffix ''/v1/responses'' s)"
  "\<not> (suffix ''/v1/messages'' s \<and> suffix ''/v1/chat/completions'' s)"
  "\<not> (suffix ''/v1/responses'' s \<and> suffix ''/v1/chat/completions'' s)"
  "suffix '':generateContent'' s \<or> suffix '':streamGenerateContent'' s \<Longrightarrow>
     \<not> suffix ''/v1/messages'' s \<and> \<not> suffix ''/v1/responses'' s \<and> \<not> suffix ''/v1/chat/completions'' s"
  by (auto simp: suffix_to_prefix prefix_def)

lemma accept_paths:
  "wa_classify_route (AnthropicWireApi js) req = Accept \<Longrightarrow> suffix ''/v1/messages'' (uri_path (req_uri req))"
  "wa_classify_route (OpenAiResponsesWireApi js) req = Accept \<Longrightarrow> suffix ''/v1/responses'' (uri_path (req_uri req))"
  "wa_classify_route (OpenAiChatWireApi js) req = Accept \<Longrightarrow> suffix ''/v1/chat/completions'' (uri_path (req_uri req))"
  "wa_classify_route (GeminiAiStudioWireApi js) req = Accept \<Longrightarrow>
     suffix '':generateContent'' (uri_path (req_uri req)) \<or> suffix '':streamGenerateContent'' (uri_path (req_uri req))"
  by (auto simp: AnthropicWireApi_def anthropic_classify_route_def OpenAiResponsesWireApi_def responses_classify_route_def
      OpenAiChatWireApi_def chat_classify_route_def GeminiAiStudioWireApi_def gemini_classify_route_def Let_def split: if_splits)

lemma accept_unique:
  assumes "p \<in> set (build_default_wire_api_registry js)" "q \<in> set (build_default_wire_api_registry js)"
    and "wa_classify_route p req = Accept" "wa_classify_route q req = Accept"
  shows "p = q"
  using assms(1,2) accept_paths[of js req] route_suffixes_apart[of "uri_path (req_uri req)"] assms(3,4)
  unfolding build_default_wire_api_registry_def by (simp; elim disjE; simp; blast)

lemma route_pass_accept:
  assumes "p \<in> set reg" "wa_classify_route p req = Accept" "\<And>q. q \<in> set reg \<Longrightarrow> wa_classify_route q req = Accept \<Longrightarrow> q = p"
  shows "route_pass req reg = Inl p"
  using assms
proof (induction reg)
  case (Cons r reg)
  show ?case
  proof (cases "wa_classify_route r req = Accept")
    case True
    then show ?thesis using Cons.prems(3)[of r] by simp
  next
    case False
    then have "route_pass req reg = Inl p" using Cons by (metis list.set_intros(2) set_ConsD)
    then show ?thesis using False by (cases "wa_classify_route r req") simp_all
  qed
qed simp

lemma default_non_post: "req_method req \<noteq> ''POST'' \<Longrightarrow> detect js (build_default_wire_api_registry js) req cache = None"
  by (rule detect_non_post[OF default_wire_apis])

text \<open>A cache over bytes and one over the value they parse to are the same for detection.\<close>

lemma default_lazy_eager:
  "detect js (build_default_wire_api_registry js) req (from_bytes bs)
     = detect js (build_default_wire_api_registry js) req (from_value (json_from_slice js bs))"
  by (rule detect_by_value[OF default_wire_apis]) (simp_all add: from_bytes_def from_value_def)

section \<open>Properties\<close>

text \<open>A request whose route one wire API of the default registry accepts is detected as that wire API, in
  whatever order the four are registered: no two of them accept the same route.\<close>

theorem route_detection_order_free:
  assumes "p \<in> set (build_default_wire_api_registry js)" and "wa_classify_route p req = Accept"
    and "mset reg = mset (build_default_wire_api_registry js)"
  shows "detect js reg req cache = Some (p, wa_extract_request p req cache)"
proof -
  have s: "set reg = set (build_default_wire_api_registry js)" using assms(3) by (metis set_mset_mset)
  have "route_pass req reg = Inl p"
  proof (rule route_pass_accept)
    show "p \<in> set reg" "wa_classify_route p req = Accept" using assms(1,2) s by simp_all
    show "q = p" if "q \<in> set reg" "wa_classify_route q req = Accept" for q
      using accept_unique[of q js p req] that s assms(1,2) by simp
  qed
  then show ?thesis by (simp add: detect_def)
qed

theorem route_detection_order_free_witness:
  "\<forall>js cache. detect js (rev (build_default_wire_api_registry js)) (post_to ''/v1beta/models/gemini-pro:streamGenerateContent?alt=sse'') cache
     = Some (GeminiAiStudioWireApi js, \<lparr>rq_model = ''gemini-pro'', rq_is_stream = True\<rparr>)"
proof (intro allI)
  fix js cache
  let ?req = "post_to ''/v1beta/models/gemini-pro:streamGenerateContent?alt=sse''"
  have 1: "GeminiAiStudioWireApi js \<in> set (build_default_wire_api_registry js)" by (simp add: build_default_wire_api_registry_def)
  have "gemini_classify_route ?req = Accept" by code_simp
  then have 2: "wa_classify_route (GeminiAiStudioWireApi js) ?req = Accept" by (simp add: GeminiAiStudioWireApi_def)
  have 3: "parse_path_model_action (req_uri ?req) = (Some ''gemini-pro'', ''streamGenerateContent'')" by code_simp
  from route_detection_order_free[OF 1 2, of "rev (build_default_wire_api_registry js)" cache]
  show "detect js (rev (build_default_wire_api_registry js)) ?req cache
     = Some (GeminiAiStudioWireApi js, \<lparr>rq_model = ''gemini-pro'', rq_is_stream = True\<rparr>)"
    by (simp add: GeminiAiStudioWireApi_def gemini_extract_request_def 3)
qed

end
