(* ===== verification/Session_Id.thy ===== *)
theory Session_Id
  imports Wire_Registry
begin

text \<open>
  \<^verbatim>\<open>server/h-llm/src/agents/session_id.rs\<close>: how a session identifier is made from the first
  assistant signature of a conversation.
\<close>

section \<open>Definitions\<close>

definition TOOL_ID_PREFIXES :: "string list" where
  "TOOL_ID_PREFIXES = [''call'', ''toolu'', ''fc'', ''chatcmpl'']"

fun canonicalize_loop :: "string list \<Rightarrow> string \<Rightarrow> string" where
  "canonicalize_loop [] i = i"
| "canonicalize_loop (p # ps) i =
     (case strip_prefix p i of
        None \<Rightarrow> canonicalize_loop ps i
      | Some after \<Rightarrow> if after \<noteq> [] \<and> \<not> prefix ''_'' after then p @ ''_'' @ after else canonicalize_loop ps i)"

definition canonicalize_tool_id :: "string \<Rightarrow> string" where
  "canonicalize_tool_id i = canonicalize_loop TOOL_ID_PREFIXES i"

definition canonicalize_tool_id_tracked :: "string \<Rightarrow> string \<times> bool" where
  "canonicalize_tool_id_tracked i = (let canon = canonicalize_tool_id i in (canon, canon \<noteq> i))"

definition synth_text_hash :: "string \<Rightarrow> string \<Rightarrow> string" where
  "synth_text_hash user_text assistant_text =
     hex16 (fold fnv_step (as_bytes user_text @ [10] @ as_bytes assistant_text) fnv_offset)"

definition HELPER_SESSION_BUCKET_US :: int where "HELPER_SESSION_BUCKET_US = 60000000"

text \<open>Division of \<open>i64\<close> truncates; \<open>to_le_bytes\<close>.\<close>

definition i64_div :: "int \<Rightarrow> int \<Rightarrow> int" where
  "i64_div a b = sgn a * sgn b * (\<bar>a\<bar> div \<bar>b\<bar>)"

definition le_bytes :: "u64 \<Rightarrow> u8 list" where
  "le_bytes w = map (\<lambda>i. ucast (drop_bit (8 * i) w)) [0..<8]"

definition synth_helper_session_id :: "string \<Rightarrow> int \<Rightarrow> string" where
  "synth_helper_session_id system_text request_time_us =
     (let bucket = i64_div request_time_us HELPER_SESSION_BUCKET_US
      in hex16 (fold fnv_step (as_bytes system_text @ le_bytes (word_of_int bucket)) fnv_offset))"

definition compose_session_id_tracked :: "string \<Rightarrow> AssistantSig \<Rightarrow> string \<times> bool" where
  "compose_session_id_tracked user_text sg =
     (case sg of
        ToolId i \<Rightarrow> canonicalize_tool_id_tracked i
      | SigText t \<Rightarrow> (''gen-'' @ synth_text_hash user_text t, False))"

definition compose_session_id :: "string \<Rightarrow> AssistantSig \<Rightarrow> string" where
  "compose_session_id user_text sg = fst (compose_session_id_tracked user_text sg)"

section \<open>Lemmas\<close>

lemma strip_prefix_iff: "strip_prefix p s = Some r \<longleftrightarrow> s = p @ r"
  by (auto simp: strip_prefix_def prefix_def)

text \<open>At most one of the prefixes fits.\<close>

lemma prefix_apart:
  "p \<in> set TOOL_ID_PREFIXES \<Longrightarrow> q \<in> set TOOL_ID_PREFIXES \<Longrightarrow> p \<noteq> q \<Longrightarrow> strip_prefix q (p @ r) = None"
  by (auto simp: TOOL_ID_PREFIXES_def strip_prefix_def)

lemma canonicalize_plain:
  "(\<And>p. p \<in> set ps \<Longrightarrow> strip_prefix p i = None) \<Longrightarrow> canonicalize_loop ps i = i"
  by (induction ps) simp_all

lemma canonicalize_prefixed:
  assumes "p \<in> set ps" "distinct ps" "\<And>q. q \<in> set ps \<Longrightarrow> q \<noteq> p \<Longrightarrow> strip_prefix q (p @ r) = None"
  shows "canonicalize_loop ps (p @ r) = (if r \<noteq> [] \<and> \<not> prefix ''_'' r then p @ ''_'' @ r else p @ r)"
  using assms
proof (induction ps)
  case (Cons q ps)
  show ?case
  proof (cases "q = p")
    case True
    have "canonicalize_loop ps (p @ r) = p @ r"
      using Cons.prems True by (intro canonicalize_plain) (metis distinct.simps(2) list.set_intros(2))
    then show ?thesis using True by (cases "r = []") (simp_all add: strip_prefix_def)
  next
    case False
    then show ?thesis using Cons by (auto simp: Cons.prems(3)[of q])
  qed
qed simp

lemma canonicalize_prefix:
  "p \<in> set TOOL_ID_PREFIXES \<Longrightarrow>
   canonicalize_tool_id (p @ r) = (if r \<noteq> [] \<and> \<not> prefix ''_'' r then p @ ''_'' @ r else p @ r)"
  unfolding canonicalize_tool_id_def
  by (rule canonicalize_prefixed) (simp_all add: prefix_apart, simp add: TOOL_ID_PREFIXES_def)

lemma canonicalize_other:
  "(\<And>p. p \<in> set TOOL_ID_PREFIXES \<Longrightarrow> \<not> prefix p i) \<Longrightarrow> canonicalize_tool_id i = i"
  unfolding canonicalize_tool_id_def by (rule canonicalize_plain) (simp add: strip_prefix_def)

lemma canonicalize_idem: "canonicalize_tool_id (canonicalize_tool_id i) = canonicalize_tool_id i"
proof (cases "\<exists>p\<in>set TOOL_ID_PREFIXES. prefix p i")
  case True
  then obtain p r where p: "p \<in> set TOOL_ID_PREFIXES" and i: "i = p @ r" by (auto simp: prefix_def)
  show ?thesis unfolding i canonicalize_prefix[OF p]
    using canonicalize_prefix[OF p, of r] canonicalize_prefix[OF p, of "''_'' @ r"] by auto
next
  case False
  then show ?thesis by (simp add: canonicalize_other)
qed

end
