(* ===== verification/Agents.thy ===== *)
theory Agents
  imports Processor Session_Id
begin

text \<open>
  The agent profiles of \<^verbatim>\<open>server/h-llm/src/agents/\<close>: \<^verbatim>\<open>claude_cli.rs\<close>, \<^verbatim>\<open>codex_cli.rs\<close>,
  \<^verbatim>\<open>opencode.rs\<close>, \<^verbatim>\<open>openclaw.rs\<close>, \<^verbatim>\<open>hermes.rs\<close>, \<^verbatim>\<open>generic.rs\<close>, and the default registry of
  \<^verbatim>\<open>mod.rs\<close>. A profile is a record of the methods of the trait; methods a profile does not
  override are the defaults of the trait.
\<close>

section \<open>Shared readers\<close>

definition call_header :: "LlmCall \<Rightarrow> string \<Rightarrow> string option" where
  "call_header call key = header (lc_request_headers call) key"

definition header_starts :: "LlmCall \<Rightarrow> string \<Rightarrow> string \<Rightarrow> bool" where
  "header_starts call key p = (case call_header call key of Some v \<Rightarrow> prefix p v | None \<Rightarrow> False)"

definition is_tool_sig :: "AssistantSig \<Rightarrow> bool" where
  "is_tool_sig sg = (case sg of ToolId _ \<Rightarrow> True | SigText _ \<Rightarrow> False)"

definition session_of :: "string \<times> AssistantSig \<Rightarrow> SessionIdExtraction" where
  "session_of a =
     (let (user_text, sg) = a; (session_id, changed) = compose_session_id_tracked user_text sg
      in \<lparr>si_session_id = session_id, si_tool_id_canonicalized = changed\<rparr>)"

text \<open>Steps of \<open>extract_primitives\<close>: a tool name, a tool call, a system prompt. The count wraps at 32 bits.\<close>

definition note_tool_name :: "string \<Rightarrow> AgentPrimitives \<Rightarrow> AgentPrimitives" where
  "note_tool_name name p = (if name \<in> set (ap_tool_names p) then p else p\<lparr>ap_tool_names := ap_tool_names p @ [name]\<rparr>)"

definition note_name :: "string option \<Rightarrow> AgentPrimitives \<Rightarrow> AgentPrimitives" where
  "note_name name p = (case name of Some n \<Rightarrow> note_tool_name n p | None \<Rightarrow> p)"

definition note_tool_call :: "string option \<Rightarrow> AgentPrimitives \<Rightarrow> AgentPrimitives" where
  "note_tool_call name p = note_name name (p\<lparr>ap_tool_call_count := ap_tool_call_count p + 1\<rparr>)"

definition note_markers :: "string \<Rightarrow> AgentPrimitives \<Rightarrow> AgentPrimitives" where
  "note_markers text p =
     (let lower = to_lowercase text;
          m1 = (if str_contains lower ''you are an agent'' \<or> str_contains lower ''you are claude code''
                then ap_system_prompt_markers p OR AGENT_LOOP else ap_system_prompt_markers p);
          m2 = (if str_contains lower ''mcp server'' \<or> str_contains lower ''mcp tool'' then m1 OR MCP_SERVER else m1)
      in p\<lparr>ap_system_prompt_markers := m2\<rparr>)"

definition note_system :: "string \<Rightarrow> AgentPrimitives \<Rightarrow> AgentPrimitives" where
  "note_system text p = (if text = [] then p else note_markers text (p\<lparr>ap_has_system_prompt := True\<rparr>))"

definition function_name :: "Value \<Rightarrow> string option" where
  "function_name tc = Option.bind (get tc ''function'') (\<lambda>f. get_str f ''name'')"

definition tool_use_blocks :: "Value \<Rightarrow> Value list" where
  "tool_use_blocks msg = filter (has_type ''tool_use'') (unwrap_or [] (get_array msg ''content''))"

definition note_tool_use :: "Value \<Rightarrow> AgentPrimitives \<Rightarrow> AgentPrimitives" where
  "note_tool_use msg p = fold (\<lambda>b. note_tool_call (get_str b ''name'')) (tool_use_blocks msg) p"

definition note_tool_calls :: "Value \<Rightarrow> AgentPrimitives \<Rightarrow> AgentPrimitives" where
  "note_tool_calls msg p = fold (\<lambda>tc. note_tool_call (function_name tc)) (unwrap_or [] (get_array msg ''tool_calls'')) p"

definition note_function_calls :: "Value \<Rightarrow> AgentPrimitives \<Rightarrow> AgentPrimitives" where
  "note_function_calls req p =
     fold (\<lambda>it. note_tool_call (get_str it ''name'')) (filter (has_type ''function_call'') (unwrap_or [] (get_array req ''input''))) p"

definition note_system_message :: "Value \<Rightarrow> AgentPrimitives \<Rightarrow> AgentPrimitives" where
  "note_system_message msg p =
     (if has_role ''system'' msg then (case get_str msg ''content'' of Some c \<Rightarrow> note_system c p | None \<Rightarrow> p) else p)"

definition request_messages :: "Value \<Rightarrow> Value list" where
  "request_messages req = unwrap_or [] (get_array req ''messages'')"

text \<open>\<open>terminal\<close> as the profiles for several wire APIs decide it.\<close>

definition responses_or_default_terminal :: "CallCtx \<Rightarrow> WireApiRegistry \<Rightarrow> bool" where
  "responses_or_default_terminal ctx reg =
     (if lc_wire_api (cx_call ctx) = OPENAI_RESPONSES
      then (case cx_resp ctx of Some resp \<Rightarrow> body_has_terminal_message_only_value resp | None \<Rightarrow> False)
      else default_is_turn_terminal ctx reg)"

section \<open>Claude Code\<close>

definition SECURITY_MONITOR_SYSTEM_SIG :: string where
  "SECURITY_MONITOR_SYSTEM_SIG = ''You are a security monitor for autonomous AI coding agents''"

definition anthropic_tool_anchor :: "CallCtx \<Rightarrow> (string \<times> AssistantSig) option" where
  "anthropic_tool_anchor ctx =
     (case cx_req ctx of
        None \<Rightarrow> None
      | Some req \<Rightarrow>
          (case anthropic_first_user_text req of
             None \<Rightarrow> None
           | Some user_text \<Rightarrow>
               (case (case anthropic_first_assistant_sig_from_request req of
                        Some s \<Rightarrow> Some s
                      | None \<Rightarrow> Option.bind (cx_resp ctx) anthropic_first_assistant_sig_from_response_value) of
                  None \<Rightarrow> None
                | Some sg \<Rightarrow> if is_tool_sig sg then Some (user_text, sg) else None)))"

definition parse_tools :: "Value \<Rightarrow> string list option" where
  "parse_tools req = map_option (List.map_filter (\<lambda>t. get_str t ''name'')) (get_array req ''tools'')"

definition looks_like_subagent :: "Value \<Rightarrow> bool" where
  "looks_like_subagent req = (case parse_tools req of Some tools \<Rightarrow> tools \<noteq> [] \<and> ''Agent'' \<notin> set tools | None \<Rightarrow> False)"

definition is_security_monitor :: "Value \<Rightarrow> bool" where
  "is_security_monitor req =
     (case get req ''system'' of
        Some (VString s) \<Rightarrow> str_contains s SECURITY_MONITOR_SYSTEM_SIG
      | Some (VArray blocks) \<Rightarrow>
          list_ex (\<lambda>b. case get_str b ''text'' of Some t \<Rightarrow> str_contains t SECURITY_MONITOR_SYSTEM_SIG | None \<Rightarrow> False) blocks
      | _ \<Rightarrow> False)"

function strip_system_reminders :: "string \<Rightarrow> string" where
  "strip_system_reminders rest =
     (case find_sub ''<system-reminder>'' rest of
        None \<Rightarrow> rest
      | Some start \<Rightarrow>
          take start rest
          @ (case find_sub ''</system-reminder>'' (drop start rest) of
               Some e \<Rightarrow> strip_system_reminders (drop (start + e + 18) rest)
             | None \<Rightarrow> []))"
  by pat_completeness auto
termination
proof (relation "measure length")
  fix rest :: string and start e
  assume "find_sub ''<system-reminder>'' rest = Some start"
  then have "rest \<noteq> []" by (cases rest) auto
  then show "(drop (start + e + 18) rest, rest) \<in> measure length" by simp
qed simp

declare strip_system_reminders.simps [simp del]

definition operative_message :: "Value \<Rightarrow> Value option" where
  "operative_message req = Option.bind (get_array req ''messages'') (\<lambda>ms. find (\<lambda>m. \<not> has_role ''system'' m) (rev ms))"

definition claude_matches :: "CallCtx \<Rightarrow> bool" where
  "claude_matches ctx \<longleftrightarrow>
     (if lc_wire_api (cx_call ctx) \<noteq> ANTHROPIC then False
      else if \<not> header_starts (cx_call ctx) ''user-agent'' ''claude-cli/'' then False
      else call_header (cx_call ctx) ''x-claude-code-session-id'' \<noteq> None \<or> anthropic_tool_anchor ctx \<noteq> None)"

definition claude_extract_session_id :: "CallCtx \<Rightarrow> SessionIdExtraction option" where
  "claude_extract_session_id ctx =
     (case call_header (cx_call ctx) ''x-claude-code-session-id'' of
        Some h \<Rightarrow> Some \<lparr>si_session_id = h, si_tool_id_canonicalized = False\<rparr>
      | None \<Rightarrow> map_option session_of (anthropic_tool_anchor ctx))"

definition claude_extract_user_input :: "CallCtx \<Rightarrow> string option" where
  "claude_extract_user_input ctx =
     (case Option.bind (cx_req ctx) operative_message of
        None \<Rightarrow> None
      | Some m \<Rightarrow>
          if get_str m ''role'' \<noteq> Some ''user'' then None
          else case get m ''content'' of
            Some (VString s) \<Rightarrow> non_blank (strip_system_reminders s)
          | Some (VArray blocks) \<Rightarrow> non_blank (strip_system_reminders (join_lines (text_parts blocks)))
          | _ \<Rightarrow> None)"

definition claude_extract_assistant_text :: "CallCtx \<Rightarrow> string option" where
  "claude_extract_assistant_text ctx =
     (case Option.bind (cx_resp ctx) (\<lambda>r. get_array r ''content'') of
        None \<Rightarrow> None
      | Some content \<Rightarrow> (let t = join_lines (text_parts content) in if trim t = [] then None else Some t))"

definition claude_subagent :: "CallCtx \<Rightarrow> string option" where
  "claude_subagent ctx = (case cx_req ctx of Some req \<Rightarrow> if looks_like_subagent req then Some ''task'' else None | None \<Rightarrow> None)"

definition claude_visible_block :: "Value \<Rightarrow> bool" where
  "claude_visible_block b =
     (case get_str b ''type'' of
        None \<Rightarrow> False
      | Some ty \<Rightarrow>
          if ty = ''tool_result'' then False
          else if ty = ''text'' then trim (strip_system_reminders (unwrap_or [] (get_str b ''text''))) \<noteq> []
          else True)"

definition claude_is_user_turn_start :: "CallCtx \<Rightarrow> bool option" where
  "claude_is_user_turn_start ctx =
     (case Option.bind (cx_req ctx) operative_message of
        None \<Rightarrow> None
      | Some m \<Rightarrow>
          if \<not> has_role ''user'' m then Some False
          else case get m ''content'' of
            Some (VString s) \<Rightarrow> Some (trim (strip_system_reminders s) \<noteq> [])
          | Some (VArray blocks) \<Rightarrow> Some (list_ex claude_visible_block blocks)
          | _ \<Rightarrow> None)"

definition claude_is_auxiliary :: "CallCtx \<Rightarrow> bool" where
  "claude_is_auxiliary ctx =
     (case cx_req ctx of
        None \<Rightarrow> False
      | Some req \<Rightarrow> if is_security_monitor req then True
                    else (case parse_tools req of Some tools \<Rightarrow> tools = [] | None \<Rightarrow> False))"

definition claude_note_block :: "Value \<Rightarrow> AgentPrimitives \<Rightarrow> AgentPrimitives" where
  "claude_note_block b p =
     (let p1 = note_tool_call (get_str b ''name'') p
      in if get_str b ''name'' = Some ''Task'' then p1\<lparr>ap_dispatches_to_subagent := True\<rparr> else p1)"

definition claude_extract_primitives :: "CallCtx \<Rightarrow> AgentPrimitives" where
  "claude_extract_primitives ctx =
     (let p = (case cx_req ctx of
                 None \<Rightarrow> AgentPrimitives_default
               | Some req \<Rightarrow>
                   (let p1 = fold claude_note_block (concat (map tool_use_blocks (request_messages req))) AgentPrimitives_default
                    in case get_str req ''system'' of
                         Some s \<Rightarrow> note_markers s (p1\<lparr>ap_has_system_prompt := (s \<noteq> [])\<rparr>)
                       | None \<Rightarrow> p1))
      in p\<lparr>ap_subagent_marker := claude_subagent ctx\<rparr>)"

definition ClaudeCliProfile :: AgentProfile where
  "ClaudeCliProfile = \<lparr>pr_name = ''claude-cli'', pr_matches = claude_matches, pr_extract_session_id = claude_extract_session_id,
     pr_is_user_turn_start = claude_is_user_turn_start, pr_subagent = claude_subagent, pr_is_auxiliary = claude_is_auxiliary,
     pr_extract_user_input = claude_extract_user_input, pr_extract_assistant_text = claude_extract_assistant_text,
     pr_extract_primitives = claude_extract_primitives, pr_is_turn_terminal = default_is_turn_terminal\<rparr>"

section \<open>Codex\<close>

definition UA_PREFIXES :: "string list" where
  "UA_PREFIXES = [''codex_cli_rs/'', ''codex-tui/'', ''codex_exec/'']"

definition ORIGINATOR_VALUES :: "string list" where
  "ORIGINATOR_VALUES = [''codex_cli_rs'', ''codex-tui'', ''codex_exec'']"

definition parse_turn_metadata :: "json_lib \<Rightarrow> string \<Rightarrow> Value option" where
  "parse_turn_metadata js raw = json_from_str js raw"

definition codex_matches :: "CallCtx \<Rightarrow> bool" where
  "codex_matches ctx \<longleftrightarrow>
     (if lc_wire_api (cx_call ctx) \<noteq> OPENAI_RESPONSES then False
      else
        (let ua = list_ex (header_starts (cx_call ctx) ''user-agent'') UA_PREFIXES;
             id_ok = (case call_header (cx_call ctx) ''originator'' of
                        Some orig \<Rightarrow> if orig \<in> set ORIGINATOR_VALUES then True else ua
                      | None \<Rightarrow> ua)
         in if \<not> id_ok then False else call_header (cx_call ctx) ''x-codex-turn-metadata'' \<noteq> None))"

definition codex_extract_session_id :: "json_lib \<Rightarrow> CallCtx \<Rightarrow> SessionIdExtraction option" where
  "codex_extract_session_id js ctx =
     map_option (\<lambda>s. \<lparr>si_session_id = s, si_tool_id_canonicalized = False\<rparr>)
       (Option.bind (Option.bind (call_header (cx_call ctx) ''x-codex-turn-metadata'') (parse_turn_metadata js))
         (\<lambda>v. get_str v ''session_id''))"

definition last_input :: "CallCtx \<Rightarrow> Value option" where
  "last_input ctx = Option.bind (Option.bind (cx_req ctx) (\<lambda>req. get_array req ''input'')) last_opt"

definition codex_is_user_turn_start :: "CallCtx \<Rightarrow> bool option" where
  "codex_is_user_turn_start ctx =
     (case Option.bind (last_input ctx) (\<lambda>it. map_option (Pair it) (get_str it ''type'')) of
        None \<Rightarrow> None
      | Some (it, ty) \<Rightarrow>
          if ty = ''message'' then Some (has_role ''user'' it)
          else if ty = ''function_call_output'' \<or> ty = ''reasoning'' \<or> ty = ''function_call'' then Some False
          else None)"

definition codex_subagent :: "CallCtx \<Rightarrow> string option" where
  "codex_subagent ctx = call_header (cx_call ctx) ''x-openai-subagent''"

definition codex_extract_user_input :: "CallCtx \<Rightarrow> string option" where
  "codex_extract_user_input ctx =
     (case last_input ctx of
        None \<Rightarrow> None
      | Some it \<Rightarrow>
          if \<not> is_user_message it then None
          else case get it ''content'' of
            Some (VString s) \<Rightarrow> non_blank s
          | Some (VArray blocks) \<Rightarrow> non_blank (join_lines (visible_parts [''input_text'', ''text''] blocks))
          | _ \<Rightarrow> None)"

definition codex_is_turn_terminal :: "CallCtx \<Rightarrow> WireApiRegistry \<Rightarrow> bool" where
  "codex_is_turn_terminal ctx reg =
     (case cx_resp ctx of Some resp \<Rightarrow> body_has_terminal_message_only_value resp | None \<Rightarrow> False)"

definition codex_extract_assistant_text :: "CallCtx \<Rightarrow> string option" where
  "codex_extract_assistant_text ctx =
     (case cx_resp ctx of
        None \<Rightarrow> None
      | Some resp \<Rightarrow>
          (let parts = concat (map (\<lambda>it. visible_parts [''output_text'', ''text''] (unwrap_or [] (get_array it ''content'')))
                         (filter (has_type ''message'') (unwrap_or [] (get_array resp ''output''))));
               parts' = (if parts = [] then
                   (case Option.bind (Option.bind (first_choice resp) (\<lambda>c. get c ''message'')) (\<lambda>m. get_str m ''content'') of
                      Some c \<Rightarrow> [c] | None \<Rightarrow> [])
                 else parts)
           in if parts' = [] then None
              else if trim (join_lines parts') = [] then None else Some (join_lines parts')))"

definition join_spaces :: "string list \<Rightarrow> string" where
  "join_spaces ps = join_with '' '' ps"

definition codex_note_item :: "Value \<Rightarrow> AgentPrimitives \<Rightarrow> AgentPrimitives" where
  "codex_note_item it p =
     (if has_role ''developer'' it \<or> has_role ''system'' it then
        (case get it ''content'' of
           Some (VString s) \<Rightarrow> note_system s p
         | Some (VArray blocks) \<Rightarrow> note_system (join_spaces (List.map_filter (\<lambda>b. get_str b ''text'') blocks)) p
         | _ \<Rightarrow> p)
      else p)"

definition codex_extract_primitives :: "CallCtx \<Rightarrow> AgentPrimitives" where
  "codex_extract_primitives ctx =
     (let p = (case cx_req ctx of
                 None \<Rightarrow> AgentPrimitives_default
               | Some req \<Rightarrow> fold codex_note_item (unwrap_or [] (get_array req ''input''))
                               (note_function_calls req AgentPrimitives_default))
      in p\<lparr>ap_subagent_marker := codex_subagent ctx\<rparr>)"

definition CodexCliProfile :: "json_lib \<Rightarrow> AgentProfile" where
  "CodexCliProfile js = \<lparr>pr_name = ''codex-cli'', pr_matches = codex_matches, pr_extract_session_id = codex_extract_session_id js,
     pr_is_user_turn_start = codex_is_user_turn_start, pr_subagent = codex_subagent, pr_is_auxiliary = (\<lambda>_. False),
     pr_extract_user_input = codex_extract_user_input, pr_extract_assistant_text = codex_extract_assistant_text,
     pr_extract_primitives = codex_extract_primitives, pr_is_turn_terminal = codex_is_turn_terminal\<rparr>"

section \<open>Opencode\<close>

definition opencode_matches :: "CallCtx \<Rightarrow> bool" where
  "opencode_matches ctx \<longleftrightarrow>
     (if lc_wire_api (cx_call ctx) \<noteq> OPENAI_CHAT then False
      else if \<not> header_starts (cx_call ctx) ''user-agent'' ''opencode/'' then False
      else call_header (cx_call ctx) ''x-session-affinity'' \<noteq> None)"

definition opencode_extract_session_id :: "CallCtx \<Rightarrow> SessionIdExtraction option" where
  "opencode_extract_session_id ctx =
     map_option (\<lambda>s. \<lparr>si_session_id = s, si_tool_id_canonicalized = False\<rparr>) (call_header (cx_call ctx) ''x-session-affinity'')"

definition opencode_note_message :: "Value \<Rightarrow> AgentPrimitives \<Rightarrow> AgentPrimitives" where
  "opencode_note_message msg p = note_system_message msg (note_tool_calls msg p)"

definition opencode_extract_primitives :: "CallCtx \<Rightarrow> AgentPrimitives" where
  "opencode_extract_primitives ctx =
     (let p = (case cx_req ctx of
                 None \<Rightarrow> AgentPrimitives_default
               | Some req \<Rightarrow> fold opencode_note_message (request_messages req)
                               (fold (\<lambda>t. note_name (function_name t)) (unwrap_or [] (get_array req ''tools'')) AgentPrimitives_default))
      in p\<lparr>ap_subagent_marker := None\<rparr>)"

definition OpencodeProfile :: AgentProfile where
  "OpencodeProfile = \<lparr>pr_name = ''opencode'', pr_matches = opencode_matches, pr_extract_session_id = opencode_extract_session_id,
     pr_is_user_turn_start = (\<lambda>ctx. Option.bind (cx_req ctx) chat_is_user_turn_start), pr_subagent = (\<lambda>_. None),
     pr_is_auxiliary = (\<lambda>_. False), pr_extract_user_input = (\<lambda>ctx. Option.bind (cx_req ctx) chat_extract_user_input),
     pr_extract_assistant_text = (\<lambda>ctx. Option.bind (cx_resp ctx) chat_extract_assistant_text_value),
     pr_extract_primitives = opencode_extract_primitives, pr_is_turn_terminal = default_is_turn_terminal\<rparr>"

section \<open>OpenClaw\<close>

definition OPENCLAW_MARKER_TOOLS :: "string list" where
  "OPENCLAW_MARKER_TOOLS = [''sessions_spawn'', ''sessions_yield'', ''subagents'', ''sessions_list'', ''sessions_history'',
     ''sessions_send'', ''session_status'']"

definition MARKER_HITS_REQUIRED :: nat where "MARKER_HITS_REQUIRED = 2"

definition SUMMARIZER_PREFIX :: string where
  "SUMMARIZER_PREFIX = ''You are a context summarization assistant.''"

definition marker_hits :: "string list \<Rightarrow> string list \<Rightarrow> nat" where
  "marker_hits markers names = length (filter (\<lambda>m. m \<in> set names) markers)"

definition parse_tool_names :: "string \<Rightarrow> Value \<Rightarrow> string list option" where
  "parse_tool_names api req =
     (if api = ANTHROPIC then anthropic_tool_names req
      else if api = OPENAI_CHAT then chat_tool_names req
      else if api = OPENAI_RESPONSES then responses_tool_names req
      else None)"

definition parse_first_system_text :: "string \<Rightarrow> Value \<Rightarrow> string option" where
  "parse_first_system_text api req =
     (if api = ANTHROPIC then anthropic_first_system_text req
      else if api = OPENAI_CHAT then chat_first_system_text req
      else if api = OPENAI_RESPONSES then responses_first_system_text req
      else None)"

definition openclaw_matches :: "CallCtx \<Rightarrow> bool" where
  "openclaw_matches ctx \<longleftrightarrow>
     (let api = lc_wire_api (cx_call ctx) in
      if api \<notin> {ANTHROPIC, OPENAI_CHAT, OPENAI_RESPONSES} then False
      else case cx_req ctx of
        None \<Rightarrow> False
      | Some req \<Rightarrow>
          if (case parse_tool_names api req of
                Some names \<Rightarrow> marker_hits OPENCLAW_MARKER_TOOLS names \<ge> MARKER_HITS_REQUIRED | None \<Rightarrow> False) then True
          else if \<not> (case parse_tool_names api req of Some t \<Rightarrow> t = [] | None \<Rightarrow> False) then False
          else case parse_first_system_text api req of
                 None \<Rightarrow> False
               | Some sys \<Rightarrow> prefix SUMMARIZER_PREFIX sys)"

text \<open>First user text and first assistant signature, from the request or else the response.\<close>

definition anchor_from :: "CallCtx \<Rightarrow> string option \<Rightarrow> AssistantSig option \<Rightarrow> (Value \<Rightarrow> AssistantSig option) \<Rightarrow>
    (string \<times> AssistantSig) option" where
  "anchor_from ctx user_text in_req in_resp =
     Option.bind user_text (\<lambda>u. map_option (Pair u) (or_keep in_req (Option.bind (cx_resp ctx) in_resp)))"

definition conversation_anchor :: "CallCtx \<Rightarrow> (string \<times> AssistantSig) option" where
  "conversation_anchor ctx =
     (let api = lc_wire_api (cx_call ctx)
      in case cx_req ctx of
           None \<Rightarrow> None
         | Some req \<Rightarrow>
             if api = ANTHROPIC then
               anchor_from ctx (anthropic_first_user_text req) (anthropic_first_assistant_sig_from_request req)
                 anthropic_first_assistant_sig_from_response_value
             else if api = OPENAI_CHAT then
               anchor_from ctx (chat_first_user_text req) (chat_first_assistant_sig_from_request req)
                 chat_first_assistant_sig_from_response_value
             else if api = OPENAI_RESPONSES then
               (case get_array req ''input'' of
                  None \<Rightarrow> None
                | Some items \<Rightarrow> anchor_from ctx (responses_first_user_text items) (first_assistant_sig_from_input items)
                                  responses_first_assistant_sig_from_response_value)
             else None)"

definition openclaw_extract_session_id :: "CallCtx \<Rightarrow> SessionIdExtraction option" where
  "openclaw_extract_session_id ctx = map_option session_of (conversation_anchor ctx)"

definition openclaw_is_user_turn_start :: "CallCtx \<Rightarrow> bool option" where
  "openclaw_is_user_turn_start ctx =
     (let api = lc_wire_api (cx_call ctx) in
      if api = ANTHROPIC then Option.bind (cx_req ctx) anthropic_is_user_turn_start
      else if api = OPENAI_CHAT then Option.bind (cx_req ctx) chat_is_user_turn_start
      else if api = OPENAI_RESPONSES then Option.bind (cx_req ctx) responses_is_user_turn_start
      else None)"

definition openclaw_is_auxiliary :: "CallCtx \<Rightarrow> bool" where
  "openclaw_is_auxiliary ctx =
     (case cx_req ctx of
        None \<Rightarrow> False
      | Some req \<Rightarrow> (case parse_tool_names (lc_wire_api (cx_call ctx)) req of Some t \<Rightarrow> t = [] | None \<Rightarrow> False))"

definition openclaw_extract_user_input :: "CallCtx \<Rightarrow> string option" where
  "openclaw_extract_user_input ctx =
     (let api = lc_wire_api (cx_call ctx) in
      if api = ANTHROPIC then Option.bind (cx_req ctx) anthropic_extract_user_input
      else if api = OPENAI_CHAT then Option.bind (cx_req ctx) chat_extract_user_input
      else if api = OPENAI_RESPONSES then Option.bind (cx_req ctx) responses_extract_user_input
      else None)"

definition openclaw_extract_assistant_text :: "CallCtx \<Rightarrow> string option" where
  "openclaw_extract_assistant_text ctx =
     (let api = lc_wire_api (cx_call ctx) in
      if api = ANTHROPIC then Option.bind (cx_resp ctx) anthropic_extract_assistant_text_value
      else if api = OPENAI_CHAT then Option.bind (cx_resp ctx) chat_extract_assistant_text_value
      else if api = OPENAI_RESPONSES then Option.bind (cx_resp ctx) responses_extract_assistant_text_value
      else None)"

definition tool_def_name :: "Value \<Rightarrow> string option" where
  "tool_def_name tool = or_keep (function_name tool) (get_str tool ''name'')"

definition note_tool_defs :: "Value \<Rightarrow> AgentPrimitives \<Rightarrow> AgentPrimitives" where
  "note_tool_defs req p = fold (\<lambda>t. note_name (tool_def_name t)) (unwrap_or [] (get_array req ''tools'')) p"

definition openclaw_extract_primitives :: "CallCtx \<Rightarrow> AgentPrimitives" where
  "openclaw_extract_primitives ctx =
     (let p = (case cx_req ctx of
                 None \<Rightarrow> AgentPrimitives_default
               | Some req \<Rightarrow>
                   (let p1 = note_tool_defs req AgentPrimitives_default;
                        p2 = fold (\<lambda>m p. note_tool_calls m (note_tool_use m p)) (request_messages req) p1;
                        p3 = note_function_calls req p2
                    in case get req ''system'' of
                         Some (VString s) \<Rightarrow> note_system s p3
                       | Some (VArray blocks) \<Rightarrow> note_system (join_spaces (List.map_filter (\<lambda>b. get_str b ''text'') blocks)) p3
                       | _ \<Rightarrow> p3))
      in p\<lparr>ap_subagent_marker := None\<rparr>)"

definition OpenClawProfile :: AgentProfile where
  "OpenClawProfile = \<lparr>pr_name = ''openclaw'', pr_matches = openclaw_matches, pr_extract_session_id = openclaw_extract_session_id,
     pr_is_user_turn_start = openclaw_is_user_turn_start, pr_subagent = (\<lambda>_. None), pr_is_auxiliary = openclaw_is_auxiliary,
     pr_extract_user_input = openclaw_extract_user_input, pr_extract_assistant_text = openclaw_extract_assistant_text,
     pr_extract_primitives = openclaw_extract_primitives, pr_is_turn_terminal = responses_or_default_terminal\<rparr>"

section \<open>Hermes\<close>

definition HERMES_MARKER_TOOLS :: "string list" where
  "HERMES_MARKER_TOOLS = [''skill_view'', ''skill_manage'', ''skills_list'', ''delegate_task'', ''session_search'', ''cronjob'']"

definition hermes_matches :: "CallCtx \<Rightarrow> bool" where
  "hermes_matches ctx \<longleftrightarrow>
     (let api = lc_wire_api (cx_call ctx) in
      if api \<notin> {ANTHROPIC, OPENAI_CHAT, OPENAI_RESPONSES} then False
      else case Option.bind (cx_req ctx) (parse_tool_names api) of
             None \<Rightarrow> False
           | Some names \<Rightarrow> marker_hits HERMES_MARKER_TOOLS names \<ge> MARKER_HITS_REQUIRED)"

text \<open>The system prompt of Hermes is searched for the agent marker only.\<close>

definition hermes_note_message :: "Value \<Rightarrow> AgentPrimitives \<Rightarrow> AgentPrimitives" where
  "hermes_note_message msg p =
     (let p1 = note_tool_calls msg p in
      if has_role ''system'' msg then
        (case get_str msg ''content'' of
           Some c \<Rightarrow>
             if c = [] then p1
             else
               (let lower = to_lowercase c; p2 = p1\<lparr>ap_has_system_prompt := True\<rparr>
                in if str_contains lower ''you are an agent'' \<or> str_contains lower ''you are claude code''
                   then p2\<lparr>ap_system_prompt_markers := ap_system_prompt_markers p2 OR AGENT_LOOP\<rparr> else p2)
         | None \<Rightarrow> p1)
      else p1)"

definition hermes_extract_primitives :: "CallCtx \<Rightarrow> AgentPrimitives" where
  "hermes_extract_primitives ctx =
     (let p = (case cx_req ctx of
                 None \<Rightarrow> AgentPrimitives_default
               | Some req \<Rightarrow> fold hermes_note_message (request_messages req) (note_tool_defs req AgentPrimitives_default))
      in p\<lparr>ap_subagent_marker := None\<rparr>)"

text \<open>The other methods repeat those of OpenClaw line by line.\<close>

definition HermesProfile :: AgentProfile where
  "HermesProfile = \<lparr>pr_name = ''hermes'', pr_matches = hermes_matches, pr_extract_session_id = openclaw_extract_session_id,
     pr_is_user_turn_start = openclaw_is_user_turn_start, pr_subagent = (\<lambda>_. None), pr_is_auxiliary = (\<lambda>_. False),
     pr_extract_user_input = openclaw_extract_user_input, pr_extract_assistant_text = openclaw_extract_assistant_text,
     pr_extract_primitives = hermes_extract_primitives, pr_is_turn_terminal = responses_or_default_terminal\<rparr>"

section \<open>Generic\<close>

text \<open>The triple of pieces a wire API gives, and what is made of it.\<close>

definition sig_pieces :: "CallCtx \<Rightarrow> string option \<Rightarrow> AssistantSig option \<Rightarrow> (Value \<Rightarrow> AssistantSig option) \<Rightarrow>
    (string \<times> AssistantSig option \<times> AssistantSig option) option" where
  "sig_pieces ctx user_text in_req in_resp =
     map_option (\<lambda>u. (u, in_req, if in_req = None then Option.bind (cx_resp ctx) in_resp else None)) user_text"

definition tool_sig_only :: "string \<times> AssistantSig \<Rightarrow> (string \<times> AssistantSig) option" where
  "tool_sig_only a = (if \<not> is_tool_sig (snd a) then None else Some a)"

definition tool_anchored :: "string \<times> AssistantSig option \<times> AssistantSig option \<Rightarrow> (string \<times> AssistantSig) option" where
  "tool_anchored x =
     (let (user_text, sig_in_req, sig_in_resp) = x
      in Option.bind (or_keep sig_in_req sig_in_resp) (\<lambda>sg. tool_sig_only (user_text, sg)))"

definition extract_tool_anchored_sig :: "json_lib \<Rightarrow> CallCtx \<Rightarrow> (string \<times> AssistantSig) option" where
  "extract_tool_anchored_sig js ctx =
     (let api = lc_wire_api (cx_call ctx)
      in case cx_req ctx of
           None \<Rightarrow> None
         | Some req \<Rightarrow> Option.bind
             (if api = ANTHROPIC then
                sig_pieces ctx (anthropic_first_user_text req) (anthropic_first_assistant_sig_from_request req)
                  anthropic_first_assistant_sig_from_response_value
              else if api = OPENAI_CHAT then
                sig_pieces ctx (chat_first_user_text req) (chat_first_assistant_sig_from_request req)
                  chat_first_assistant_sig_from_response_value
              else if api = OPENAI_RESPONSES then
                (case get req ''input'' of
                   Some (VArray items) \<Rightarrow> sig_pieces ctx (responses_first_user_text items) (first_assistant_sig_from_input items)
                      responses_first_assistant_sig_from_response_value
                 | Some (VString s) \<Rightarrow> sig_pieces ctx (if trim s \<noteq> [] then Some s else None) None
                      responses_first_assistant_sig_from_response_value
                 | _ \<Rightarrow> None)
              else if api = GEMINI_AISTUDIO then
                sig_pieces ctx (gemini_first_user_text req) (gemini_first_assistant_sig_from_request js req)
                  (gemini_first_assistant_sig_from_response_value js)
              else None)
             tool_anchored)"

definition generic_matches :: "json_lib \<Rightarrow> CallCtx \<Rightarrow> bool" where
  "generic_matches js ctx \<longleftrightarrow>
     lc_wire_api (cx_call ctx) \<in> {ANTHROPIC, OPENAI_CHAT, OPENAI_RESPONSES, GEMINI_AISTUDIO}
     \<and> extract_tool_anchored_sig js ctx \<noteq> None"

definition generic_extract_session_id :: "json_lib \<Rightarrow> CallCtx \<Rightarrow> SessionIdExtraction option" where
  "generic_extract_session_id js ctx = map_option session_of (extract_tool_anchored_sig js ctx)"

definition generic_is_user_turn_start :: "CallCtx \<Rightarrow> bool option" where
  "generic_is_user_turn_start ctx =
     (if lc_wire_api (cx_call ctx) = GEMINI_AISTUDIO then Option.bind (cx_req ctx) gemini_is_user_turn_start
      else openclaw_is_user_turn_start ctx)"

definition generic_extract_user_input :: "CallCtx \<Rightarrow> string option" where
  "generic_extract_user_input ctx =
     (if lc_wire_api (cx_call ctx) = GEMINI_AISTUDIO then Option.bind (cx_req ctx) gemini_extract_user_input
      else openclaw_extract_user_input ctx)"

definition generic_extract_assistant_text :: "CallCtx \<Rightarrow> string option" where
  "generic_extract_assistant_text ctx =
     (if lc_wire_api (cx_call ctx) = GEMINI_AISTUDIO then Option.bind (cx_resp ctx) gemini_extract_assistant_text_value
      else openclaw_extract_assistant_text ctx)"

definition generic_extract_primitives :: "CallCtx \<Rightarrow> AgentPrimitives" where
  "generic_extract_primitives ctx =
     (let p = (case cx_req ctx of
                 None \<Rightarrow> AgentPrimitives_default
               | Some req \<Rightarrow>
                   (let p1 = fold (\<lambda>m p. note_tool_calls m (note_tool_use m p)) (request_messages req) AgentPrimitives_default;
                        p2 = note_function_calls req p1;
                        p3 = (case get_str req ''system'' of Some s \<Rightarrow> note_system s p2 | None \<Rightarrow> p2)
                    in fold note_system_message (request_messages req) p3))
      in p\<lparr>ap_subagent_marker := None\<rparr>)"

definition GenericProfile :: "json_lib \<Rightarrow> AgentProfile" where
  "GenericProfile js = \<lparr>pr_name = ''generic'', pr_matches = generic_matches js, pr_extract_session_id = generic_extract_session_id js,
     pr_is_user_turn_start = generic_is_user_turn_start, pr_subagent = (\<lambda>_. None), pr_is_auxiliary = (\<lambda>_. False),
     pr_extract_user_input = generic_extract_user_input, pr_extract_assistant_text = generic_extract_assistant_text,
     pr_extract_primitives = generic_extract_primitives, pr_is_turn_terminal = responses_or_default_terminal\<rparr>"

definition build_default_registry :: "json_lib \<Rightarrow> AgentProfileRegistry" where
  "build_default_registry js =
     [ClaudeCliProfile, CodexCliProfile js, OpencodeProfile, OpenClawProfile, HermesProfile, GenericProfile js]"

section \<open>Conversations\<close>

text \<open>The second request of a conversation repeats the first one, then the answer to it, then anything more.\<close>

definition anthropic_echoed :: "Value \<Rightarrow> Value \<Rightarrow> Value \<Rightarrow> bool" where
  "anthropic_echoed req1 resp req2 \<longleftrightarrow>
     (\<exists>ms m rest. get_array req1 ''messages'' = Some ms \<and> list_all (\<lambda>m. \<not> has_role ''assistant'' m) ms
        \<and> has_role ''assistant'' m \<and> get_array m ''content'' = get_array resp ''content''
        \<and> get_array req2 ''messages'' = Some (ms @ m # rest))"

definition chat_echoed :: "Value \<Rightarrow> Value \<Rightarrow> Value \<Rightarrow> bool" where
  "chat_echoed req1 resp req2 \<longleftrightarrow>
     (\<exists>ms m rest. get_array req1 ''messages'' = Some ms \<and> list_all (\<lambda>m. \<not> has_role ''assistant'' m) ms
        \<and> has_role ''assistant'' m \<and> Option.bind (first_choice resp) (\<lambda>c. get c ''message'') = Some m
        \<and> get_array req2 ''messages'' = Some (ms @ m # rest))"

definition responses_echoed :: "Value \<Rightarrow> Value \<Rightarrow> Value \<Rightarrow> bool" where
  "responses_echoed req1 resp req2 \<longleftrightarrow>
     (\<exists>pre us gen rest. get_array req1 ''input'' = Some (pre @ us) \<and> list_all (\<lambda>it. \<not> is_user_message it) pre
        \<and> us \<noteq> [] \<and> list_all is_user_message us
        \<and> get_array resp ''output'' = Some gen \<and> gen \<noteq> [] \<and> list_all (\<lambda>it. \<not> is_user_message it) gen
        \<and> list_all (\<lambda>it. \<not> has_type ''function_call_output'' it) gen \<and> generation_over rest
        \<and> get_array req2 ''input'' = Some (pre @ us @ gen @ rest))"

definition gemini_echoed :: "Value \<Rightarrow> Value \<Rightarrow> Value \<Rightarrow> bool" where
  "gemini_echoed req1 resp req2 \<longleftrightarrow>
     (\<exists>cs c rest. get_array req1 ''contents'' = Some cs \<and> list_all (\<lambda>c. \<not> has_role ''model'' c) cs
        \<and> has_role ''model'' c \<and> get_array c ''parts'' = Option.bind (first_candidate resp) candidate_parts
        \<and> get_array req2 ''contents'' = Some (cs @ c # rest))"

definition echoed :: "string \<Rightarrow> Value \<Rightarrow> Value \<Rightarrow> Value \<Rightarrow> bool" where
  "echoed api req1 resp req2 \<longleftrightarrow>
     (if api = ANTHROPIC then anthropic_echoed req1 resp req2
      else if api = OPENAI_CHAT then chat_echoed req1 resp req2
      else if api = OPENAI_RESPONSES then responses_echoed req1 resp req2
      else if api = GEMINI_AISTUDIO then gemini_echoed req1 resp req2
      else False)"

text \<open>What session identifiers rest on: the anchor a call takes from its response is the one the next call finds in its request.\<close>

locale session_anchor =
  fixes user_text :: "Value \<Rightarrow> string option" and sig_in_req sig_in_resp :: "Value \<Rightarrow> AssistantSig option"
    and echoes :: "Value \<Rightarrow> Value \<Rightarrow> Value \<Rightarrow> bool"
  assumes user_kept: "echoes req1 resp req2 \<Longrightarrow> user_text req1 = Some u \<Longrightarrow> user_text req2 = Some u"
    and fresh: "echoes req1 resp req2 \<Longrightarrow> sig_in_req req1 = None"
    and sig_kept: "echoes req1 resp req2 \<Longrightarrow> sig_in_req req2 = sig_in_resp resp"
begin

lemma anchor_kept:
  assumes "echoes req1 resp req2" "cx_resp ctx1 = Some resp"
    and "anchor_from ctx1 (user_text req1) (sig_in_req req1) sig_in_resp = Some a"
  shows "anchor_from ctx2 (user_text req2) (sig_in_req req2) sig_in_resp = Some a"
  using assms user_kept fresh[OF assms(1)] sig_kept[OF assms(1)]
  by (auto simp: anchor_from_def Option.bind_eq_Some_conv)

end

text \<open>The two readers of an anchor in one form.\<close>

definition api_anchor :: "json_lib \<Rightarrow> CallCtx \<Rightarrow> Value \<Rightarrow> (string \<times> AssistantSig) option" where
  "api_anchor js ctx req =
     (let api = lc_wire_api (cx_call ctx) in
      if api = ANTHROPIC then anchor_from ctx (anthropic_first_user_text req)
        (anthropic_first_assistant_sig_from_request req) anthropic_first_assistant_sig_from_response_value
      else if api = OPENAI_CHAT then anchor_from ctx (chat_first_user_text req)
        (chat_first_assistant_sig_from_request req) chat_first_assistant_sig_from_response_value
      else if api = OPENAI_RESPONSES then anchor_from ctx (Option.bind (get_array req ''input'') responses_first_user_text)
        (Option.bind (get_array req ''input'') first_assistant_sig_from_input) responses_first_assistant_sig_from_response_value
      else if api = GEMINI_AISTUDIO then anchor_from ctx (gemini_first_user_text req)
        (gemini_first_assistant_sig_from_request js req) (gemini_first_assistant_sig_from_response_value js)
      else None)"

text \<open>Sample calls: two of a chat conversation, a history whose first answer is plain text, and tools of two agents.\<close>

definition call_on :: "string \<Rightarrow> Value option \<Rightarrow> Value option \<Rightarrow> CallCtx" where
  "call_on api req resp = \<lparr>cx_call = \<lparr>lc_source_id = [], lc_id = [], lc_wire_api = api, lc_model = [], lc_api_type = Chat, lc_request_time = 0,
     lc_response_time = None, lc_complete_time = None, lc_request_path = [], lc_is_stream = False, lc_request_body = None,
     lc_status_code = None, lc_finish_reason = None, lc_response_body = None, lc_input_tokens = None, lc_output_tokens = None,
     lc_total_tokens = None, lc_cache_read_input_tokens = None, lc_cache_creation_input_tokens = None, lc_ttft_ms = None,
     lc_e2e_latency_ms = None, lc_client_ip = V4 0, lc_client_port = 0, lc_server_ip = V4 0, lc_server_port = 0,
     lc_response_id = None, lc_request_headers = [], lc_response_headers = [], lc_is_agent_request = False, lc_tool_surface = None,
     lc_agent_topology = None, lc_tool_call_count = 0, lc_tool_names = [], lc_body_bytes_dropped = 0, lc_process = None\<rparr>,
     cx_req = req, cx_resp = resp\<rparr>"

definition user_says :: "string \<Rightarrow> Value" where
  "user_says t = VObject [(''content'', VString t), (''role'', VString ''user'')]"

definition chat_answer :: Value where
  "chat_answer = VObject [(''role'', VString ''assistant''),
     (''tool_calls'', VArray [VObject [(''function'', VObject [(''name'', VString ''ls'')]), (''id'', VString ''call_7'')]])]"

definition messages_of :: "Value list \<Rightarrow> Value" where
  "messages_of ms = VObject [(''messages'', VArray ms)]"

definition chat_reply :: "Value \<Rightarrow> Value" where
  "chat_reply m = VObject [(''choices'', VArray [VObject [(''message'', m)]])]"

definition plain_history :: Value where
  "plain_history = messages_of [user_says ''hi'', VObject [(''content'', VString ''hello''), (''role'', VString ''assistant'')], user_says ''list'']"

definition input_of :: "Value list \<Rightarrow> Value" where
  "input_of its = VObject [(''input'', VArray its)]"

definition message_item :: "string \<Rightarrow> string \<Rightarrow> Value" where
  "message_item r t = VObject [(''content'', VString t), (''role'', VString r), (''type'', VString ''message'')]"

definition tool_item :: "string \<Rightarrow> Value" where
  "tool_item i = VObject [(''call_id'', VString i), (''name'', VString ''ls''), (''type'', VString ''function_call'')]"

definition output_item :: "string \<Rightarrow> Value" where
  "output_item i = VObject [(''call_id'', VString i), (''output'', VString ''x''), (''type'', VString ''function_call_output'')]"

definition call_output :: "string \<Rightarrow> Value" where
  "call_output i = VObject [(''output'', VArray [tool_item i])]"

definition split_prompt :: "Value list" where
  "split_prompt = [message_item ''user'' ''hi'', message_item ''developer'' ''be brief'', message_item ''user'' ''go'']"

definition tool_reply :: "string \<Rightarrow> Value" where
  "tool_reply i = VObject [(''content'', VArray [VObject [(''id'', VString i), (''name'', VString ''ls''), (''type'', VString ''tool_use'')]])]"

definition two_agents_tools :: Value where
  "two_agents_tools = VObject [(''tools'', VArray (map (\<lambda>n. VObject [(''name'', VString n)])
     [''sessions_spawn'', ''subagents'', ''skill_view'', ''cronjob'']))]"

section \<open>Lemmas\<close>

lemma find_none_all: "list_all (\<lambda>x. \<not> P x) xs \<Longrightarrow> find P xs = None"
  by (induction xs) simp_all

lemma find_past: "list_all (\<lambda>x. \<not> P x) xs \<Longrightarrow> P y \<Longrightarrow> find P (xs @ y # ys) = Some y"
  by (simp add: find_append find_none_all)

interpretation anthropic_anchor: session_anchor anthropic_first_user_text anthropic_first_assistant_sig_from_request
  anthropic_first_assistant_sig_from_response_value anthropic_echoed
  by unfold_locales
     (auto simp: anthropic_echoed_def anthropic_first_user_text_def anthropic_first_assistant_sig_from_request_def
       anthropic_first_assistant_sig_from_response_value_def find_append find_none_all find_past split: option.splits)

interpretation chat_anchor: session_anchor chat_first_user_text chat_first_assistant_sig_from_request
  chat_first_assistant_sig_from_response_value chat_echoed
  by unfold_locales
     (auto simp: chat_echoed_def chat_first_user_text_def chat_first_assistant_sig_from_request_def
       chat_first_assistant_sig_from_response_value_def find_append find_none_all find_past Option.bind_eq_Some_conv split: option.splits)

interpretation responses_anchor: session_anchor "\<lambda>req. Option.bind (get_array req ''input'') responses_first_user_text"
  "\<lambda>req. Option.bind (get_array req ''input'') first_assistant_sig_from_input"
  responses_first_assistant_sig_from_response_value responses_echoed
proof
  fix req1 resp req2
  assume "responses_echoed req1 resp req2"
  then obtain pre us gen rest where i1: "get_array req1 ''input'' = Some (pre @ us)"
    and pre: "list_all (\<lambda>it. \<not> is_user_message it) pre" and us: "us \<noteq> []" "list_all is_user_message us"
    and gen: "get_array resp ''output'' = Some gen" "gen \<noteq> []" "list_all (\<lambda>it. \<not> is_user_message it) gen"
      "list_all (\<lambda>it. \<not> has_type ''function_call_output'' it) gen" "generation_over rest"
    and i2: "get_array req2 ''input'' = Some (pre @ us @ gen @ rest)"
    by (auto simp: responses_echoed_def)
  show "Option.bind (get_array req2 ''input'') responses_first_user_text = Some u"
    if "Option.bind (get_array req1 ''input'') responses_first_user_text = Some u" for u
    using that us by (cases us) (simp_all add: i1 i2 responses_first_user_text_def find_past[OF pre])
  have "first_assistant_sig_from_input (pre @ us) = None"
  proof -
    have run: "takeWhile is_user_message us = us" using us by (simp add: takeWhile_eq_all_conv list_all_iff)
    have p: "position is_user_message (pre @ us) = Some (length pre)"
      using us position_first[OF pre] by (cases us) simp_all
    have dp: "drop (length pre) (pre @ us) = us" by simp
    have e: "drop (length pre + length us) (pre @ us) = []" "position P [] = None"
      "drop (length pre + length us) (take n (pre @ us)) = []" for P :: "Value \<Rightarrow> bool" and n
      by (simp_all add: position_def)
    show ?thesis
      unfolding first_assistant_sig_from_input_def p option.case dp run Let_def e
      by (simp add: scan_generation_for_sig_def)
  qed
  then show "Option.bind (get_array req1 ''input'') first_assistant_sig_from_input = None" by (simp add: i1)
  show "Option.bind (get_array req2 ''input'') first_assistant_sig_from_input = responses_first_assistant_sig_from_response_value resp"
    using first_generation[OF pre us gen(2-5)] by (simp add: i2 gen(1) responses_first_assistant_sig_from_response_value_def)
qed

interpretation gemini_anchor: session_anchor gemini_first_user_text "gemini_first_assistant_sig_from_request js"
  "gemini_first_assistant_sig_from_response_value js" gemini_echoed for js
  by unfold_locales
     (auto simp: gemini_echoed_def gemini_first_user_text_def gemini_first_assistant_sig_from_request_def
       gemini_first_assistant_sig_from_response_value_def find_append find_none_all find_past split: option.splits)

lemma api_names_apart:
  "OPENAI_CHAT \<noteq> ANTHROPIC" "OPENAI_RESPONSES \<noteq> ANTHROPIC" "OPENAI_RESPONSES \<noteq> OPENAI_CHAT"
  "GEMINI_AISTUDIO \<noteq> ANTHROPIC" "GEMINI_AISTUDIO \<noteq> OPENAI_CHAT" "GEMINI_AISTUDIO \<noteq> OPENAI_RESPONSES"
  by (simp_all add: ANTHROPIC_def OPENAI_CHAT_def OPENAI_RESPONSES_def GEMINI_AISTUDIO_def)

lemma anchor_from_None [simp]: "anchor_from ctx None x f = None"
  by (simp add: anchor_from_def)

lemma api_anchor_kept:
  assumes "echoed (lc_wire_api (cx_call ctx1)) req1 resp req2" "lc_wire_api (cx_call ctx2) = lc_wire_api (cx_call ctx1)"
    and "cx_resp ctx1 = Some resp" and "api_anchor js ctx1 req1 = Some a"
  shows "api_anchor js ctx2 req2 = Some a"
proof -
  consider (a) "lc_wire_api (cx_call ctx1) = ANTHROPIC" | (c) "lc_wire_api (cx_call ctx1) = OPENAI_CHAT"
    | (r) "lc_wire_api (cx_call ctx1) = OPENAI_RESPONSES" | (g) "lc_wire_api (cx_call ctx1) = GEMINI_AISTUDIO"
    using assms(1) by (auto simp: echoed_def split: if_splits)
  then show ?thesis
  proof cases
    case a
    then show ?thesis using assms anthropic_anchor.anchor_kept[of req1 resp req2 ctx1 a ctx2]
      by (simp add: api_anchor_def echoed_def api_names_apart)
  next
    case c
    then show ?thesis using assms chat_anchor.anchor_kept[of req1 resp req2 ctx1 a ctx2]
      by (simp add: api_anchor_def echoed_def api_names_apart)
  next
    case r
    then show ?thesis using assms responses_anchor.anchor_kept[of req1 resp req2 ctx1 a ctx2]
      by (simp add: api_anchor_def echoed_def api_names_apart)
  next
    case g
    then show ?thesis using assms gemini_anchor.anchor_kept[of req1 resp req2 ctx1 js a ctx2]
      by (simp add: api_anchor_def echoed_def api_names_apart)
  qed
qed

lemma conversation_anchor_api:
  "conversation_anchor ctx = (if lc_wire_api (cx_call ctx) = GEMINI_AISTUDIO then None else Option.bind (cx_req ctx) (api_anchor js ctx))"
  by (auto simp: conversation_anchor_def api_anchor_def Let_def api_names_apart split: option.split)

lemma pieces_anchor: "Option.bind (sig_pieces ctx t x f) tool_anchored = Option.bind (anchor_from ctx t x f) tool_sig_only"
  by (cases t; cases x; cases "Option.bind (cx_resp ctx) f")
     (simp_all add: sig_pieces_def tool_anchored_def anchor_from_def)

lemma tool_anchored_api:
  assumes "lc_wire_api (cx_call ctx) = OPENAI_RESPONSES \<longrightarrow> (\<exists>req. cx_req ctx = Some req \<and> get_array req ''input'' \<noteq> None)"
  shows "extract_tool_anchored_sig js ctx = Option.bind (Option.bind (cx_req ctx) (api_anchor js ctx)) tool_sig_only"
proof -
  have arr: "get req ''input'' = Some (VArray items)" if "get_array req ''input'' = Some items" for req items
    using that by (cases "get req ''input''"; cases "the (get req ''input'')") (auto simp: get_array_def)
  show ?thesis
  proof (cases "lc_wire_api (cx_call ctx) = OPENAI_RESPONSES")
    case True
    with assms obtain req items where "cx_req ctx = Some req" "get_array req ''input'' = Some items" by auto
    with True arr[of req items] show ?thesis
      by (simp add: extract_tool_anchored_sig_def api_anchor_def api_names_apart pieces_anchor)
  next
    case False
    then show ?thesis
      by (cases "cx_req ctx") (simp_all add: extract_tool_anchored_sig_def api_anchor_def pieces_anchor Let_def)
  qed
qed

section \<open>Properties\<close>

text \<open>C18: A conversation keeps its session. Let a call of one of the four wire APIs carry no earlier
  answer, and let a later request repeat its messages, then its answer, then anything. For the
  Responses API the prompts stand together at the end, behind any other items such as those of
  the developer or the system, the answer holds no tool result, and what follows it, if anything,
  starts with a prompt or a tool result (a developer item between two prompts does split the
  session, \<open>developer_between_prompts_splits_session\<close>). If the generic, OpenClaw or Hermes profile takes
  a session identifier from the first call, it takes the same one from the later call, whatever
  that is answered.\<close>

theorem session_id_stable:
  assumes "profile \<in> {GenericProfile js, OpenClawProfile, HermesProfile}"
    and "echoed (lc_wire_api (cx_call ctx1)) req1 resp req2" and "lc_wire_api (cx_call ctx2) = lc_wire_api (cx_call ctx1)"
    and "cx_req ctx1 = Some req1" and "cx_resp ctx1 = Some resp" and "cx_req ctx2 = Some req2"
    and "pr_extract_session_id profile ctx1 = Some s"
  shows "pr_extract_session_id profile ctx2 = Some s"
proof -
  note kept = api_anchor_kept[OF assms(2,3,5)]
  have "extract_tool_anchored_sig js ctx2 = Some a" if "extract_tool_anchored_sig js ctx1 = Some a" for a
  proof -
    have arr: "lc_wire_api (cx_call ctx1) = OPENAI_RESPONSES \<longrightarrow> get_array req1 ''input'' \<noteq> None \<and> get_array req2 ''input'' \<noteq> None"
      using assms(2) by (auto simp: echoed_def responses_echoed_def api_names_apart)
    have "Option.bind (Option.bind (cx_req ctx1) (api_anchor js ctx1)) tool_sig_only = Some a"
      using that tool_anchored_api[of ctx1 js] arr assms(4) by simp
    then show ?thesis
      using tool_anchored_api[of ctx2 js] arr kept assms(3,4,6) by (auto simp: Option.bind_eq_Some_conv)
  qed
  moreover have "conversation_anchor ctx2 = Some a" if "conversation_anchor ctx1 = Some a" for a
    using that kept[of js a] unfolding conversation_anchor_api[where js = js] by (simp add: assms(3,4,6) split: if_splits)
  ultimately show ?thesis
    using assms(1,7) by (auto simp: GenericProfile_def OpenClawProfile_def HermesProfile_def generic_extract_session_id_def
        openclaw_extract_session_id_def)
qed

theorem session_id_stable_witness:
  "map_option si_session_id (pr_extract_session_id (GenericProfile (table_lib []))
     (call_on OPENAI_CHAT (Some (messages_of [user_says ''hi'', chat_answer, user_says ''go on''])) None)) = Some ''call_7''"
proof -
  let ?ctx1 = "call_on OPENAI_CHAT (Some (messages_of [user_says ''hi''])) (Some (chat_reply chat_answer))"
  let ?ctx2 = "call_on OPENAI_CHAT (Some (messages_of [user_says ''hi'', chat_answer, user_says ''go on''])) None"
  have e: "echoed (lc_wire_api (cx_call ?ctx1)) (messages_of [user_says ''hi'']) (chat_reply chat_answer)
      (messages_of [user_says ''hi'', chat_answer, user_says ''go on''])"
    by (auto simp: call_on_def echoed_def api_names_apart chat_echoed_def messages_of_def user_says_def chat_reply_def chat_answer_def
        get_array_def has_role_def get_str_def first_choice_def intro!: exI[of _ "[user_says ''hi'']"])
  have s: "pr_extract_session_id (GenericProfile (table_lib [])) ?ctx1 = Some \<lparr>si_session_id = ''call_7'', si_tool_id_canonicalized = False\<rparr>"
    by code_simp
  show ?thesis
    by (subst session_id_stable[where js = "table_lib []", OF _ e _ _ _ _ s]) (simp_all add: call_on_def)
qed

text \<open>The profiles that say so never claim a call they cannot give a session.\<close>

theorem claimed_calls_have_session:
  assumes "profile \<in> {ClaudeCliProfile, OpencodeProfile, GenericProfile js}" and "pr_matches profile ctx"
  shows "pr_extract_session_id profile ctx \<noteq> None"
  using assms
  by (auto simp: ClaudeCliProfile_def OpencodeProfile_def GenericProfile_def claude_matches_def claude_extract_session_id_def
      opencode_matches_def opencode_extract_session_id_def generic_matches_def generic_extract_session_id_def split: if_splits option.split)

theorem claimed_calls_have_session_witness:
  "pr_extract_session_id (GenericProfile (table_lib []))
     (call_on OPENAI_CHAT (Some (messages_of [user_says ''hi''])) (Some (chat_reply chat_answer))) \<noteq> None"
proof -
  have "pr_matches (GenericProfile (table_lib []))
      (call_on OPENAI_CHAT (Some (messages_of [user_says ''hi''])) (Some (chat_reply chat_answer)))" by code_simp
  from claimed_calls_have_session[OF _ this] show ?thesis by blast
qed

text \<open>An Anthropic history whose first answer is a plain string has no signature, so every later call takes the tool of its own
  response as anchor: two calls of one conversation get different sessions.\<close>

theorem plain_history_splits_session:
  "map_option si_session_id (generic_extract_session_id js (call_on ANTHROPIC (Some plain_history) (Some (tool_reply ''toolu_1'')))) = Some ''toolu_1''
   \<and> map_option si_session_id (generic_extract_session_id js (call_on ANTHROPIC (Some plain_history) (Some (tool_reply ''toolu_2'')))) = Some ''toolu_2''"
  by code_simp

text \<open>Over the Responses API the echo may start with developer items, but one between two prompts
  hides the first answer from the reader of the history, so that again every later call is
  anchored at its own response.\<close>

theorem developer_between_prompts_splits_session:
  "map_option si_session_id (generic_extract_session_id js
     (call_on OPENAI_RESPONSES (Some (input_of split_prompt)) (Some (call_output ''c1'')))) = Some ''c1''
   \<and> map_option si_session_id (generic_extract_session_id js
     (call_on OPENAI_RESPONSES (Some (input_of (split_prompt @ [tool_item ''c1'', output_item ''c1'']))) (Some (call_output ''c2'')))) = Some ''c2''"
  by code_simp

text \<open>The marker tools of OpenClaw and Hermes are different, but a request may have two of each: then both profiles match, and the
  order of the registry decides.\<close>

theorem two_profiles_match:
  "openclaw_matches (call_on ANTHROPIC (Some two_agents_tools) None) \<and> hermes_matches (call_on ANTHROPIC (Some two_agents_tools) None)"
  by code_simp

end
