(* ===== verification/Capture.thy ===== *)
theory Capture
  imports Flow
begin

text \<open>
  What the capture sources share: the counters of \<^verbatim>\<open>h-common/src/internal_metrics.rs\<close> they
  bump, and sending a list of packets through the \<open>RoutingSender\<close> of
  \<^verbatim>\<open>server/h-capture/src/routing.rs\<close>.
\<close>

datatype CaptureMetric =
    EbpfEventsDropped | EbpfEventsReceived | EbpfBytesCaptured | EbpfFramesSynthesized
  | EbpfConnectionsActive | EbpfProcessCacheSize
  | CaptureHeartbeatsEmitted | CapturePacketsReceived | CaptureTruncatedPackets
  | CaptureBatchesReceived | CaptureZmqBatchesDropped | CaptureReadErrors
  | CaptureDumpErrors | CaptureDumpLateMinutePackets

text \<open>The channels after the packets were sent one by one, each to the channel of its source.\<close>

definition sends :: "(string \<Rightarrow> u64) \<Rightarrow> RawPacket list \<Rightarrow> RawPacket channel list \<Rightarrow> RawPacket channel list" where
  "sends hash pkts txs = fold (\<lambda>pkt txs. snd (routing_send hash txs pkt)) pkts txs"

lemma sends_simps [simp]:
  "sends hash [] txs = txs"
  "sends hash (p # ps) txs = sends hash ps (snd (routing_send hash txs p))"
  "sends hash (ps @ qs) txs = sends hash qs (sends hash ps txs)"
  by (simp_all add: sends_def)

definition routes_open :: "RawPacket channel list \<Rightarrow> bool" where
  "routes_open txs \<longleftrightarrow> txs \<noteq> [] \<and> list_all (\<lambda>c. \<not> ch_closed c) txs"

lemma routing_index_less: "txs \<noteq> [] \<Longrightarrow> routing_index h (length txs) sid < length txs"
  by (auto simp: routing_index_def)

lemma routing_send_open:
  assumes "routes_open txs"
  shows "fst (routing_send hash txs pkt)" "routes_open (snd (routing_send hash txs pkt))"
proof -
  let ?i = "routing_index hash (length txs) (raw_source_id pkt)"
  have "?i < length txs" using assms by (simp add: routes_open_def routing_index_less)
  then have "\<not> ch_closed (txs ! ?i)" using assms by (simp add: routes_open_def list_all_length)
  then show "fst (routing_send hash txs pkt)" "routes_open (snd (routing_send hash txs pkt))"
    using assms
    by (auto simp: routing_send_def ch_send_def Let_def routes_open_def list_all_iff
        dest!: set_update_subset_insert [THEN subsetD])
qed

text \<open>A queue gains exactly the packets that are routed to it, in order.\<close>

lemma sends_queue:
  assumes "routes_open txs" "i < length txs"
  shows "ch_queue (sends hash pkts txs ! i) =
    ch_queue (txs ! i) @ filter (\<lambda>p. routing_index hash (length txs) (raw_source_id p) = i) pkts"
  using assms
proof (induction pkts arbitrary: txs)
  case (Cons p ps)
  let ?txs = "snd (routing_send hash txs p)"
  have len: "length ?txs = length txs" by (simp add: routing_send_def Let_def split_beta)
  have "routes_open ?txs" using routing_send_open(2)[OF Cons.prems(1)] .
  then have IH: "ch_queue (sends hash ps ?txs ! i) =
      ch_queue (?txs ! i) @ filter (\<lambda>p. routing_index hash (length txs) (raw_source_id p) = i) ps"
    using Cons.IH[of ?txs] Cons.prems(2) by (simp add: len)
  have "\<not> ch_closed (txs ! i)" using Cons.prems by (simp add: routes_open_def list_all_length)
  then show ?case
    using IH Cons.prems(2) by (simp add: routing_send_def ch_send_def Let_def nth_list_update)
qed simp

end
