(* ===== verification/Synth.thy ===== *)
theory Synth
  imports Flow
begin

text \<open>
  \<^verbatim>\<open>server/h-capture/src/synth.rs\<close>: plaintext chunks of a TLS connection, dressed as Ethernet,
  IP and TCP frames for the decoder. The wire constants the file mirrors from the decoder are
  those of the theory \<open>Decode\<close>. A \<open>SocketAddr\<close> is a pair of address and port, a fixed array
  filled with \<open>copy_from_slice\<close> is a list updated in place; \<open>generations\<close> and the high-water
  offsets wrap at their width, as in a release build.
\<close>

section \<open>Configuration and connections\<close>

definition ETH_HDR_LEN :: nat where "ETH_HDR_LEN = 14"
definition IPV4_HDR_LEN :: nat where "IPV4_HDR_LEN = 20"
definition IPV6_HDR_LEN :: nat where "IPV6_HDR_LEN = 40"
definition TCP_HDR_LEN :: nat where "TCP_HDR_LEN = 20"
definition TCP_PSH :: u8 where "TCP_PSH = 0x08"
definition MAX_SEGMENT_PAYLOAD :: nat where "MAX_SEGMENT_PAYLOAD = 60000"
definition DEFAULT_SEGMENT_SIZE :: nat where "DEFAULT_SEGMENT_SIZE = 16 * 1024"
definition SYNTH_ISN :: u32 where "SYNTH_ISN = 1"

datatype StreamDir = ClientToServer | ServerToClient

record ConnTuple =
  ct_client :: sock_addr
  ct_server :: sock_addr

record SynthConfig =
  sy_source_id :: string
  segment_size :: nat
  emit_handshake :: bool

definition SynthConfig_default :: SynthConfig where
  "SynthConfig_default =
     \<lparr>sy_source_id = ''ebpf'', segment_size = DEFAULT_SEGMENT_SIZE, emit_handshake = True\<rparr>"

definition effective_segment :: "SynthConfig \<Rightarrow> nat" where
  "effective_segment cfg =
     (case segment_size cfg of 0 \<Rightarrow> DEFAULT_SEGMENT_SIZE | n \<Rightarrow> min n MAX_SEGMENT_PAYLOAD)"

record ConnState =
  cs_tuple :: ConnTuple
  hi_off_c2s :: u64
  hi_off_s2c :: u64

definition ConnState_new :: "ConnTuple \<Rightarrow> ConnState" where
  "ConnState_new t = \<lparr>cs_tuple = t, hi_off_c2s = 0, hi_off_s2c = 0\<rparr>"

definition hi_off :: "ConnState \<Rightarrow> StreamDir \<Rightarrow> u64" where
  "hi_off c dir = (case dir of ClientToServer \<Rightarrow> hi_off_c2s c | ServerToClient \<Rightarrow> hi_off_s2c c)"

definition observe :: "StreamDir \<Rightarrow> u64 \<Rightarrow> ConnState \<Rightarrow> ConnState" where
  "observe dir e c =
     (if e > hi_off c dir
      then (case dir of ClientToServer \<Rightarrow> c\<lparr>hi_off_c2s := e\<rparr> | ServerToClient \<Rightarrow> c\<lparr>hi_off_s2c := e\<rparr>)
      else c)"

definition endpoints :: "ConnState \<Rightarrow> StreamDir \<Rightarrow> sock_addr \<times> sock_addr" where
  "endpoints c dir =
     (case dir of
        ClientToServer \<Rightarrow> (ct_client (cs_tuple c), ct_server (cs_tuple c))
      | ServerToClient \<Rightarrow> (ct_server (cs_tuple c), ct_client (cs_tuple c)))"

section \<open>Frames\<close>

text \<open>\<open>to_be_bytes\<close> of a word of \<open>n\<close> bytes, and \<open>h[off..off + n].copy_from_slice(s)\<close>.\<close>

primrec to_be_bytes :: "nat \<Rightarrow> 'a::len word \<Rightarrow> bytes" where
  "to_be_bytes 0 w = []"
| "to_be_bytes (Suc n) w = to_be_bytes n (drop_bit 8 w) @ [ucast w]"

definition copy_at :: "nat \<Rightarrow> bytes \<Rightarrow> bytes \<Rightarrow> bytes" where
  "copy_at off s h = take off h @ s @ drop (off + length s) h"

definition to_ipv6_mapped :: "u32 \<Rightarrow> bytes" where
  "to_ipv6_mapped a = replicate 10 0 @ [0xFF, 0xFF] @ to_be_bytes 4 a"

fun to_ipv6 :: "IpAddr \<Rightarrow> bytes" where
  "to_ipv6 (V6 a) = to_be_bytes 16 a"
| "to_ipv6 (V4 a) = to_ipv6_mapped a"

definition push_ipv4 :: "bytes \<Rightarrow> bytes \<Rightarrow> bytes \<Rightarrow> nat \<Rightarrow> bytes" where
  "push_ipv4 buf src dst l4_len =
     (let total_length = (of_nat (IPV4_HDR_LEN + l4_len) :: u16);
          h0 = replicate IPV4_HDR_LEN 0;
          h1 = h0[0 := 0x45];
          h2 = copy_at 2 (to_be_bytes 2 total_length) h1;
          h3 = h2[8 := 64];
          h4 = h3[9 := IP_PROTO_TCP];
          h5 = copy_at 12 src h4;
          h6 = copy_at 16 dst h5
      in buf @ h6)"

definition push_ipv6 :: "bytes \<Rightarrow> bytes \<Rightarrow> bytes \<Rightarrow> nat \<Rightarrow> bytes" where
  "push_ipv6 buf src dst l4_len =
     (let payload_length = (of_nat l4_len :: u16);
          h0 = replicate IPV6_HDR_LEN 0;
          h1 = h0[0 := 0x60];
          h2 = copy_at 4 (to_be_bytes 2 payload_length) h1;
          h3 = h2[6 := IP_PROTO_TCP];
          h4 = h3[7 := 64];
          h5 = copy_at 8 src h4;
          h6 = copy_at 24 dst h5
      in buf @ h6)"

definition push_tcp :: "bytes \<Rightarrow> u16 \<Rightarrow> u16 \<Rightarrow> u32 \<Rightarrow> u32 \<Rightarrow> u8 \<Rightarrow> bytes" where
  "push_tcp buf sport dport seq ack flags =
     (let h0 = replicate TCP_HDR_LEN 0;
          h1 = copy_at 0 (to_be_bytes 2 sport) h0;
          h2 = copy_at 2 (to_be_bytes 2 dport) h1;
          h3 = copy_at 4 (to_be_bytes 4 seq) h2;
          h4 = copy_at 8 (to_be_bytes 4 ack) h3;
          h5 = h4[12 := 0x50];
          h6 = h5[13 := flags];
          h7 = copy_at 14 (to_be_bytes 2 (0xFFFF :: u16)) h6
      in buf @ h7)"

definition synth_frame ::
  "SynthConfig \<Rightarrow> sock_addr \<Rightarrow> sock_addr \<Rightarrow> u32 \<Rightarrow> u32 \<Rightarrow> u8 \<Rightarrow> bytes \<Rightarrow> int \<Rightarrow> RawPacket" where
  "synth_frame cfg src dst seq ack flags pl ts =
     (let d0 = replicate 12 0;
          d1 = (case (fst src, fst dst) of
                  (V4 s, V4 d) \<Rightarrow>
                    push_ipv4 (d0 @ to_be_bytes 2 ETHERTYPE_IPV4) (to_be_bytes 4 s) (to_be_bytes 4 d)
                      (TCP_HDR_LEN + length pl)
                | (s, d) \<Rightarrow>
                    push_ipv6 (d0 @ to_be_bytes 2 ETHERTYPE_IPV6) (to_ipv6 s) (to_ipv6 d)
                      (TCP_HDR_LEN + length pl));
          d2 = push_tcp d1 (snd src) (snd dst) seq ack flags;
          d3 = d2 @ pl;
          len = of_nat (length d3)
      in \<lparr>raw_timestamp_us = ts, raw_caplen = len, raw_wirelen = len,
          raw_link_type = LINKTYPE_ETHERNET, raw_data = d3, raw_source_id = sy_source_id cfg,
          raw_process = None\<rparr>)"

section \<open>The synthesizer\<close>

record FlowSynthesizer =
  fs_cfg :: SynthConfig
  conns :: "(u64 \<times> ConnState) list"
  generations :: "(u64 \<times> u32) list"

definition FlowSynthesizer_new :: "SynthConfig \<Rightarrow> FlowSynthesizer" where
  "FlowSynthesizer_new cfg = \<lparr>fs_cfg = cfg, conns = [], generations = []\<rparr>"

definition generation :: "FlowSynthesizer \<Rightarrow> u64 \<Rightarrow> u32" where
  "generation fs conn_id = (case map_of (generations fs) conn_id of Some g \<Rightarrow> g | None \<Rightarrow> 0)"

definition is_open :: "FlowSynthesizer \<Rightarrow> u64 \<Rightarrow> bool" where
  "is_open fs conn_id \<longleftrightarrow> map_of (conns fs) conn_id \<noteq> None"

definition conn_count :: "FlowSynthesizer \<Rightarrow> nat" where
  "conn_count fs = length (conns fs)"

text \<open>The shifts and casts of \<open>synthetic_tuple_gen\<close>; an address from four octets.\<close>

definition ipv4_of :: "u8 \<Rightarrow> u8 \<Rightarrow> u8 \<Rightarrow> u8 \<Rightarrow> IpAddr" where
  "ipv4_of a b c d = V4 (be_word [a, b, c, d])"

definition synthetic_tuple_gen :: "u64 \<Rightarrow> u32 \<Rightarrow> ConnTuple" where
  "synthetic_tuple_gen conn_id gen =
     (let lo = (ucast conn_id :: u32);
          hi = (ucast (drop_bit 32 conn_id) :: u32);
          client_ip = ipv4_of 127 64 (ucast (drop_bit 8 lo)) (ucast lo);
          client_port = 1024 + ucast (drop_bit 16 lo) + ucast gen * 40503;
          server_ip = ipv4_of 192 0 2 (ucast (hi AND 0xFF))
      in \<lparr>ct_client = (client_ip, max client_port 1024), ct_server = (server_ip, 443)\<rparr>)"

definition synthetic_tuple :: "u64 \<Rightarrow> ConnTuple" where
  "synthetic_tuple conn_id = synthetic_tuple_gen conn_id 0"

definition synth_open ::
  "FlowSynthesizer \<Rightarrow> u64 \<Rightarrow> ConnTuple \<Rightarrow> int \<Rightarrow> RawPacket list \<times> FlowSynthesizer" where
  "synth_open fs conn_id tuple ts =
     (let state = ConnState_new tuple;
          out = (if emit_handshake (fs_cfg fs)
                 then let (csrc, cdst) = endpoints state ClientToServer;
                          (ssrc, sdst) = endpoints state ServerToClient
                      in [synth_frame (fs_cfg fs) csrc cdst 0 0 TCP_SYN [] ts,
                          synth_frame (fs_cfg fs) ssrc sdst 0 1 (TCP_SYN OR TCP_ACK) [] ts]
                 else [])
      in (out, fs\<lparr>conns := AList.update conn_id state (conns fs)\<rparr>))"

text \<open>The segment loop of \<open>data\<close>, from a byte offset of the chunk.\<close>

lemma effective_segment_pos: "0 < effective_segment cfg"
  by (cases "segment_size cfg")
    (simp_all add: effective_segment_def DEFAULT_SEGMENT_SIZE_def MAX_SEGMENT_PAYLOAD_def)

function segments_from ::
  "SynthConfig \<Rightarrow> sock_addr \<Rightarrow> sock_addr \<Rightarrow> u32 \<Rightarrow> bytes \<Rightarrow> int \<Rightarrow> nat \<Rightarrow> RawPacket list" where
  "segments_from cfg src dst seq0 bs ts offset =
     (if offset < length bs then
        let e = min (offset + effective_segment cfg) (length bs);
            chunk = take (e - offset) (drop offset bs);
            seq = seq0 + of_nat offset
        in synth_frame cfg src dst seq 1 (TCP_PSH OR TCP_ACK) chunk ts
           # segments_from cfg src dst seq0 bs ts e
      else [])"
  by pat_completeness auto
termination
  by (relation "measure (\<lambda>(cfg, src, dst, seq0, bs, ts, offset). length bs - offset)")
    (auto simp: min_def effective_segment_pos intro: diff_less_mono2)

declare segments_from.simps [simp del]

definition synth_data ::
  "FlowSynthesizer \<Rightarrow> u64 \<Rightarrow> StreamDir \<Rightarrow> bytes \<Rightarrow> u64 \<Rightarrow> int \<Rightarrow> RawPacket list \<times> FlowSynthesizer" where
  "synth_data fs conn_id dir bs seq_off ts =
     (if bs = [] then ([], fs)
      else
        (let gen = generation fs conn_id;
             state = (case map_of (conns fs) conn_id of
                        Some c \<Rightarrow> c
                      | None \<Rightarrow> ConnState_new (synthetic_tuple_gen conn_id gen));
             (src, dst) = endpoints state dir;
             seq0 = SYNTH_ISN + ucast seq_off;
             out = segments_from (fs_cfg fs) src dst seq0 bs ts 0;
             state' = observe dir (seq_off + of_nat (length bs)) state
         in (out, fs\<lparr>conns := AList.update conn_id state' (conns fs)\<rparr>)))"

definition synth_close :: "FlowSynthesizer \<Rightarrow> u64 \<Rightarrow> int \<Rightarrow> RawPacket list \<times> FlowSynthesizer" where
  "synth_close fs conn_id ts =
     (let fs1 = fs\<lparr>generations := AList.update conn_id (generation fs conn_id + 1) (generations fs)\<rparr> in
      case map_of (conns fs1) conn_id of
        None \<Rightarrow> ([], fs1)
      | Some state \<Rightarrow>
          (let fs2 = fs1\<lparr>conns := AList.delete conn_id (conns fs1)\<rparr>;
               c_seq = SYNTH_ISN + ucast (hi_off state ClientToServer);
               s_seq = SYNTH_ISN + ucast (hi_off state ServerToClient);
               (csrc, cdst) = endpoints state ClientToServer;
               (ssrc, sdst) = endpoints state ServerToClient
           in ([synth_frame (fs_cfg fs2) csrc cdst c_seq 1 (TCP_FIN OR TCP_ACK) [] ts,
                synth_frame (fs_cfg fs2) ssrc sdst s_seq 1 (TCP_FIN OR TCP_ACK) [] ts], fs2)))"

section \<open>Headers read back\<close>

lemma length_to_be_bytes [simp]: "length (to_be_bytes n w) = n"
  by (induction n arbitrary: w) auto

lemma be_word_snoc: "be_word (bs @ [b]) = push_bit 8 (be_word bs) + ucast b"
  by (simp add: be_word_def)

lemma be_word_to_be_bytes: "be_word (to_be_bytes n w) = take_bit (8 * n) (w :: 'a::len word)"
proof (induction n arbitrary: w)
  case 0
  then show ?case by (simp add: be_word_def)
next
  case (Suc n)
  let ?hi = "push_bit 8 (take_bit (8 * n) (drop_bit 8 w)) :: 'a word"
  let ?lo = "ucast (ucast w :: u8) :: 'a word"
  have "?hi AND ?lo = 0" by (rule bit_eqI) (auto simp: bit_simps)
  then have "?hi + ?lo = ?hi OR ?lo" by (rule disjunctive_add_eq_or)
  also have "\<dots> = take_bit (8 * Suc n) w"
    by (rule bit_eqI) (auto simp: bit_simps dest: bit_imp_le_length)
  finally show ?case by (simp add: be_word_snoc Suc.IH)
qed

lemma be_word_ports [simp]: "be_word (to_be_bytes 2 (w :: u16)) = w"
  "be_word (to_be_bytes 4 (v :: u32)) = v" "be_word (to_be_bytes 16 (u :: 128 word)) = u"
  by (simp_all add: be_word_to_be_bytes take_bit_word_eq_self)

definition ipv4_header :: "bytes \<Rightarrow> bytes \<Rightarrow> nat \<Rightarrow> bytes" where
  "ipv4_header src dst l4_len =
     [0x45, 0] @ to_be_bytes 2 (of_nat (20 + l4_len) :: u16) @ [0, 0, 0, 0, 64, 6, 0, 0] @ src @ dst"

definition ipv6_header :: "bytes \<Rightarrow> bytes \<Rightarrow> nat \<Rightarrow> bytes" where
  "ipv6_header src dst l4_len =
     [0x60, 0, 0, 0] @ to_be_bytes 2 (of_nat l4_len :: u16) @ [6, 64] @ src @ dst"

definition tcp_header :: "u16 \<Rightarrow> u16 \<Rightarrow> u32 \<Rightarrow> u32 \<Rightarrow> u8 \<Rightarrow> bytes" where
  "tcp_header sp dp seq ack flags =
     to_be_bytes 2 sp @ to_be_bytes 2 dp @ to_be_bytes 4 seq @ to_be_bytes 4 ack
     @ [0x50, flags, 0xFF, 0xFF, 0, 0, 0, 0]"

lemma to_be_bytes_2: "to_be_bytes 2 w = [ucast (drop_bit 8 w), ucast w]"
  by (simp add: numeral_2_eq_2)

lemma push_ipv4_header:
  "length src = 4 \<Longrightarrow> length dst = 4 \<Longrightarrow> push_ipv4 buf src dst n = buf @ ipv4_header src dst n"
  by (simp add: push_ipv4_def ipv4_header_def copy_at_def to_be_bytes_2 IPV4_HDR_LEN_def
      IP_PROTO_TCP_def Let_def numeral_eq_Suc)

lemma push_ipv6_header:
  "length src = 16 \<Longrightarrow> length dst = 16 \<Longrightarrow> push_ipv6 buf src dst n = buf @ ipv6_header src dst n"
  by (simp add: push_ipv6_def ipv6_header_def copy_at_def to_be_bytes_2 IPV6_HDR_LEN_def
      IP_PROTO_TCP_def Let_def numeral_eq_Suc)

lemma to_be_bytes_4:
  "to_be_bytes 4 w = [ucast (drop_bit 24 w), ucast (drop_bit 16 w), ucast (drop_bit 8 w), ucast w]"
  by (simp add: numeral_eq_Suc)

lemma push_tcp_header: "push_tcp buf sp dp seq ack flags = buf @ tcp_header sp dp seq ack flags"
proof -
  have fill: "copy_at 14 [y0, y1] ((copy_at 8 [d0, d1, d2, d3] (copy_at 4 [c0, c1, c2, c3]
      (copy_at 2 [b0, b1] (copy_at 0 [a0, a1] (replicate 20 0)))))[12 := p, 13 := q]) =
    [a0, a1, b0, b1, c0, c1, c2, c3, d0, d1, d2, d3, p, q, y0, y1, 0, 0, 0, 0]"
    for a0 a1 b0 b1 c0 c1 c2 c3 d0 d1 d2 d3 p q y0 y1 :: u8
    by (simp add: copy_at_def numeral_eq_Suc)
  have window: "to_be_bytes 2 (0xFFFF :: u16) = [0xFF, 0xFF]" by (simp add: to_be_bytes_2)
  show ?thesis
    unfolding push_tcp_def tcp_header_def Let_def TCP_HDR_LEN_def window
    unfolding to_be_bytes_2 to_be_bytes_4 fill by simp
qed

lemma ipv4_header_reads:
  assumes "length src = 4" "length dst = 4"
  shows "length (ipv4_header src dst n) = 20" "ipv4_ihl (ipv4_header src dst n) = 20"
    "ipv4_total_length (ipv4_header src dst n) = of_nat (20 + n)"
    "ipv4_protocol (ipv4_header src dst n) = IP_PROTO_TCP"
    "ipv4_src_ip (ipv4_header src dst n) = V4 (be_word src)"
    "ipv4_dst_ip (ipv4_header src dst n) = V4 (be_word dst)"
  using assms by (simp_all add: ipv4_header_def ipv4_ihl_def ipv4_total_length_def
      ipv4_protocol_def ipv4_src_ip_def ipv4_dst_ip_def field_def IP_PROTO_TCP_def nth_append)

lemma ipv6_header_reads:
  assumes "length src = 16" "length dst = 16"
  shows "length (ipv6_header src dst n) = 40"
    "ipv6_payload_length (ipv6_header src dst n) = of_nat n"
    "ipv6_next_header (ipv6_header src dst n) = IP_PROTO_TCP"
    "ipv6_src_ip (ipv6_header src dst n) = V6 (be_word src)"
    "ipv6_dst_ip (ipv6_header src dst n) = V6 (be_word dst)"
  using assms by (simp_all add: ipv6_header_def ipv6_payload_length_def ipv6_next_header_def
      ipv6_src_ip_def ipv6_dst_ip_def field_def IP_PROTO_TCP_def nth_append)

lemma tcp_header_reads:
  "length (tcp_header sp dp seq ack flags) = 20"
  "tcp_src_port (tcp_header sp dp seq ack flags) = sp"
  "tcp_dst_port (tcp_header sp dp seq ack flags) = dp"
  "tcp_hdr_seq (tcp_header sp dp seq ack flags) = seq"
  "tcp_hdr_ack (tcp_header sp dp seq ack flags) = ack"
  "tcp_data_offset (tcp_header sp dp seq ack flags) = 20"
  "tcp_hdr_flags (tcp_header sp dp seq ack flags) = flags"
  by (simp_all add: tcp_header_def tcp_src_port_def tcp_dst_port_def tcp_hdr_seq_def
      tcp_hdr_ack_def tcp_data_offset_def tcp_hdr_flags_def field_def nth_append)

section \<open>A frame is decoded to what it was made of\<close>

text \<open>The addresses a frame carries: IPv4 when both ends are, else both as IPv6, an IPv4 end mapped.\<close>

fun wire_ips :: "IpAddr \<Rightarrow> IpAddr \<Rightarrow> IpAddr \<times> IpAddr" where
  "wire_ips (V4 s) (V4 d) = (V4 s, V4 d)"
| "wire_ips s d = (V6 (be_word (to_ipv6 s)), V6 (be_word (to_ipv6 d)))"

definition segment_packet ::
  "string \<Rightarrow> IpAddr \<times> IpAddr \<Rightarrow> u16 \<Rightarrow> u16 \<Rightarrow> u32 \<Rightarrow> u32 \<Rightarrow> u8 \<Rightarrow> bytes \<Rightarrow> int \<Rightarrow> ParsedPacket" where
  "segment_packet sid ips sp dp seq ack flags pl ts =
     \<lparr>flow_key = FlowKey_new sid (fst ips) sp (snd ips) dp,
      direction = (if (fst ips, sp) \<le> (snd ips, dp) then AtoB else BtoA),
      src_ip = fst ips, src_port = sp, dst_ip = snd ips, dst_port = dp,
      tcp_flags = flags, tcp_seq = seq, tcp_ack = ack, payload = pl,
      wire_payload_len = of_nat (length pl), timestamp_us = ts, process = None\<rparr>"

lemma length_to_ipv6 [simp]: "length (to_ipv6 a) = 16"
  by (cases a) (simp_all add: to_ipv6_mapped_def)

lemma u16_of_nat: "n < 2 ^ 16 \<Longrightarrow> unat (of_nat n :: u16) = n"
  by (simp add: unsigned_of_nat take_bit_nat_eq_self)

definition eth_header :: "u16 \<Rightarrow> bytes" where
  "eth_header t = replicate 12 0 @ to_be_bytes 2 t"

lemma eth_header_reads: "length (eth_header t) = 14" "ethernet_ether_type (eth_header t) = t"
  by (simp_all add: eth_header_def ethernet_ether_type_def field_def)

lemma decode_l2_plain:
  assumes "t = ETHERTYPE_IPV4 \<or> t = ETHERTYPE_IPV6"
  shows "decode_l2 (PacketBuf_new (eth_header t @ rest)) LINKTYPE_ETHERNET =
    Inr (t, (PacketBuf_new (eth_header t @ rest))\<lparr>pb_offset := 14\<rparr>)"
proof -
  have "try_consume 14 (PacketBuf_new (eth_header t @ rest)) =
      Inr (eth_header t, (PacketBuf_new (eth_header t @ rest))\<lparr>pb_offset := 14\<rparr>)"
    using try_consume_at[of "PacketBuf_new (eth_header t @ rest)" "[]" "eth_header t" rest 14]
    by (simp add: PacketBuf_new_def eth_header_reads)
  moreover have "resolve_next b t = Inr (t, b)" for b
    using assms by (subst resolve_next.simps) (auto simp: ETHERTYPE_IPV4_def ETHERTYPE_IPV6_def
        ETHERTYPE_VLAN_def ETHERTYPE_QINQ_def ETHERTYPE_MPLS_def)
  ultimately show ?thesis by (simp add: decode_l2_def decode_ethernet_def eth_header_reads)
qed

lemma decode_ipv4_segment:
  assumes "length pl \<le> MAX_SEGMENT_PAYLOAD"
  shows "decode (eth_header ETHERTYPE_IPV4 @ ipv4_header (to_be_bytes 4 s) (to_be_bytes 4 d) (20 + length pl)
      @ tcp_header sp dp seq ack flags @ pl) LINKTYPE_ETHERNET ts sid =
    Inr (segment_packet sid (V4 s, V4 d) sp dp seq ack flags pl ts)"
proof -
  let ?ip = "ipv4_header (to_be_bytes 4 s) (to_be_bytes 4 d) (20 + length pl)"
  let ?tcp = "tcp_header sp dp seq ack flags"
  have hdrs: "ipv4_frame_headers (eth_header ETHERTYPE_IPV4) [] ?ip ?tcp"
    by (simp add: ipv4_frame_headers_def eth_header_reads ipv4_header_reads tcp_header_reads)
  have tot: "unat (ipv4_total_length ?ip) = 40 + length pl"
    using assms by (simp add: ipv4_header_reads MAX_SEGMENT_PAYLOAD_def u16_of_nat del: of_nat_add)
  from decode_ipv4_frame_eq[OF hdrs, of pl ts sid] tot show ?thesis
    by (simp add: ipv4_header_reads tcp_header_reads tcp_packet_def segment_packet_def)
qed

lemma decode_ipv6_segment:
  assumes "length pl \<le> MAX_SEGMENT_PAYLOAD" and src: "length src = 16" and dst: "length dst = 16"
  shows "decode (eth_header ETHERTYPE_IPV6 @ ipv6_header src dst (20 + length pl)
      @ tcp_header sp dp seq ack flags @ pl) LINKTYPE_ETHERNET ts sid =
    Inr (segment_packet sid (V6 (be_word src), V6 (be_word dst)) sp dp seq ack flags pl ts)"
proof -
  let ?eth = "eth_header ETHERTYPE_IPV6"
  let ?ip = "ipv6_header src dst (20 + length pl)"
  let ?tcp = "tcp_header sp dp seq ack flags"
  let ?b0 = "PacketBuf_new (?eth @ ?ip @ ?tcp @ pl)"
  let ?b1 = "?b0\<lparr>pb_offset := 14\<rparr>"
  let ?b2 = "?b0\<lparr>pb_offset := 54\<rparr>"
  note reads = ipv6_header_reads[OF src dst] tcp_header_reads eth_header_reads
  have pl: "unat (ipv6_payload_length ?ip) = 20 + length pl"
    using assms(1) by (simp add: reads MAX_SEGMENT_PAYLOAD_def u16_of_nat del: of_nat_add)
  have uc: "(ucast (ipv6_payload_length ?ip) :: u32) = of_nat (20 + length pl)"
    using arg_cong[OF pl, of "of_nat :: nat \<Rightarrow> u32"] by simp
  have c: "try_consume 40 ?b1 = Inr (?ip, ?b2)"
    using try_consume_at[of ?b1 ?eth ?ip "?tcp @ pl" 40] by (simp add: PacketBuf_new_def reads)
  have len: "set_len (14 + 40 + (20 + length pl)) ?b2 = ?b2"
    by (simp add: set_len_def PacketBuf_new_def reads)
  have l3: "dispatch_l3 ?b1 ETHERTYPE_IPV6 = Inr (\<lparr>l3_src_ip = V6 (be_word src),
      l3_dst_ip = V6 (be_word dst), l3_protocol = IP_PROTO_TCP,
      l3_payload_length = of_nat (20 + length pl)\<rparr>, ?b2)"
    unfolding dispatch_l3_def decode_ipv6_def c and_then_Inr prod.case Let_def uc pl reads(3-5)
    using len by (simp add: ETHERTYPE_IPV4_def ETHERTYPE_IPV6_def)
  have l4: "dispatch_l4 ?b2 IP_PROTO_TCP = Inr (\<lparr>l4_src_port = sp, l4_dst_port = dp, l4_seq = seq,
      l4_ack = ack, l4_flags = flags, l4_header_length = of_nat 20\<rparr>, ?b0\<lparr>pb_offset := 74\<rparr>)"
    using decode_tcp_at[of ?b2 "?eth @ ?ip" ?tcp pl]
    by (simp add: dispatch_l4_def PacketBuf_new_def reads)
  have sl: "remaining_slice (?b0\<lparr>pb_offset := 74\<rparr>) = pl"
    by (simp add: remaining_slice_def PacketBuf_new_def reads)
  have wl: "sat_sub (of_nat (20 + length pl)) (of_nat 20) = (of_nat (length pl) :: u32)"
    using assms(1) by (subst sat_sub_of_nat) (simp_all add: MAX_SEGMENT_PAYLOAD_def)
  show ?thesis
    unfolding decode_def decode_l2_plain[OF disjI2[OF refl]] and_then_Inr prod.case l3 L3Info.simps
      l4 L4Info.simps sl wl segment_packet_def fst_conv snd_conv
    by (simp only: L3Info.simps L4Info.simps)
qed

definition frame_packet ::
  "SynthConfig \<Rightarrow> sock_addr \<Rightarrow> sock_addr \<Rightarrow> u32 \<Rightarrow> u32 \<Rightarrow> u8 \<Rightarrow> bytes \<Rightarrow> int \<Rightarrow> ParsedPacket" where
  "frame_packet cfg src dst seq ack flags pl ts =
     segment_packet (sy_source_id cfg) (wire_ips (fst src) (fst dst)) (snd src) (snd dst)
       seq ack flags pl ts"

lemma not_heartbeat:
  assumes "raw_data p = eth_header t @ rest" "t \<noteq> HEARTBEAT_ETHER_TYPE"
  shows "\<not> is_heartbeat p"
proof -
  have "[raw_data p ! 12, raw_data p ! 13] = to_be_bytes 2 t"
    by (simp add: assms(1) eth_header_def nth_append to_be_bytes_2)
  then show ?thesis using assms(2) by (simp add: is_heartbeat_def)
qed

lemma decoded_frame:
  assumes "raw_data p = eth_header t @ rest" "t = ETHERTYPE_IPV4 \<or> t = ETHERTYPE_IPV6"
    and "decode (eth_header t @ rest) LINKTYPE_ETHERNET (raw_timestamp_us p) (raw_source_id p) = Inr q"
    and "raw_link_type p = LINKTYPE_ETHERNET"
  shows "decoded p = Some (q\<lparr>process := raw_process p\<rparr>)"
proof -
  have "\<not> is_heartbeat p"
    using assms(1,2)
    by (intro not_heartbeat) (auto simp: ETHERTYPE_IPV4_def ETHERTYPE_IPV6_def HEARTBEAT_ETHER_TYPE_def)
  then show ?thesis using assms(1,3,4) by (simp add: decoded_def)
qed

lemma synth_frame_fields [simp]:
  "raw_link_type (synth_frame cfg src dst seq ack flags pl ts) = LINKTYPE_ETHERNET"
  "raw_timestamp_us (synth_frame cfg src dst seq ack flags pl ts) = ts"
  "raw_source_id (synth_frame cfg src dst seq ack flags pl ts) = sy_source_id cfg"
  "raw_process (synth_frame cfg src dst seq ack flags pl ts) = None"
  by (simp_all add: synth_frame_def Let_def)

lemma wire_ips_v6:
  assumes "\<nexists>s d. a = V4 s \<and> b = V4 d"
  shows "wire_ips a b = (V6 (be_word (to_ipv6 a)), V6 (be_word (to_ipv6 b)))"
  using assms by (cases a; cases b) simp_all

lemma synth_frame_data_v4:
  assumes "fst src = V4 s" "fst dst = V4 d"
  shows "raw_data (synth_frame cfg src dst seq ack flags pl ts) = eth_header ETHERTYPE_IPV4 @
    ipv4_header (to_be_bytes 4 s) (to_be_bytes 4 d) (20 + length pl)
    @ tcp_header (snd src) (snd dst) seq ack flags @ pl"
  by (simp add: synth_frame_def assms push_ipv4_header push_tcp_header eth_header_def
      TCP_HDR_LEN_def Let_def)

lemma synth_frame_data_v6:
  assumes "\<nexists>s d. fst src = V4 s \<and> fst dst = V4 d"
  shows "raw_data (synth_frame cfg src dst seq ack flags pl ts) = eth_header ETHERTYPE_IPV6 @
    ipv6_header (to_ipv6 (fst src)) (to_ipv6 (fst dst)) (20 + length pl)
    @ tcp_header (snd src) (snd dst) seq ack flags @ pl"
  using assms
  by (cases "fst src"; cases "fst dst")
    (simp_all add: synth_frame_def push_ipv6_header push_tcp_header eth_header_def
      TCP_HDR_LEN_def Let_def del: to_ipv6.simps)

lemma segment_packet_process [simp]:
  "(segment_packet sid ips sp dp seq ack flags pl ts)\<lparr>process := None\<rparr> =
    segment_packet sid ips sp dp seq ack flags pl ts"
  by (simp add: segment_packet_def)

lemma synth_frame_decoded:
  assumes "length pl \<le> MAX_SEGMENT_PAYLOAD"
  shows "decoded (synth_frame cfg src dst seq ack flags pl ts) =
    Some (frame_packet cfg src dst seq ack flags pl ts)"
proof (cases "\<exists>s d. fst src = V4 s \<and> fst dst = V4 d")
  case True
  then obtain s d where ips: "fst src = V4 s" "fst dst = V4 d" by auto
  show ?thesis
    using decoded_frame[OF synth_frame_data_v4[OF ips] disjI1[OF refl]
        decode_ipv4_segment[OF assms]]
    by (simp add: frame_packet_def ips)
next
  case False
  show ?thesis
    using decoded_frame[OF synth_frame_data_v6[OF False] disjI2[OF refl]
        decode_ipv6_segment[OF assms length_to_ipv6 length_to_ipv6]]
    by (simp add: frame_packet_def wire_ips_v6[OF False])
qed

section \<open>Segments of a chunk\<close>

definition wire_direction :: "sock_addr \<times> sock_addr \<Rightarrow> Direction" where
  "wire_direction sd =
     (let ips = wire_ips (fst (fst sd)) (fst (snd sd))
      in if (fst ips, snd (fst sd)) \<le> (snd ips, snd (snd sd)) then AtoB else BtoA)"

definition wire_key :: "string \<Rightarrow> sock_addr \<times> sock_addr \<Rightarrow> FlowKey" where
  "wire_key sid sd =
     (let ips = wire_ips (fst (fst sd)) (fst (snd sd))
      in FlowKey_new sid (fst ips) (snd (fst sd)) (snd ips) (snd (snd sd)))"

lemma frame_packet_sel [simp]:
  "direction (frame_packet cfg src dst seq ack flags pl ts) = wire_direction (src, dst)"
  "flow_key (frame_packet cfg src dst seq ack flags pl ts) = wire_key (sy_source_id cfg) (src, dst)"
  "tcp_seq (frame_packet cfg src dst seq ack flags pl ts) = seq"
  "tcp_flags (frame_packet cfg src dst seq ack flags pl ts) = flags"
  "payload (frame_packet cfg src dst seq ack flags pl ts) = pl"
  "wire_payload_len (frame_packet cfg src dst seq ack flags pl ts) = of_nat (length pl)"
  by (simp_all add: frame_packet_def segment_packet_def wire_direction_def wire_key_def Let_def)

lemma wire_ips_swap: "wire_ips b a = prod.swap (wire_ips a b)"
  by (cases a; cases b) simp_all

text \<open>Both directions of a connection have one flow key, and opposite directions in it unless the
  two ends are the same.\<close>

lemma wire_key_swap: "wire_key sid (d, s) = wire_key sid (s, d)"
  by (simp add: wire_key_def Let_def wire_ips_swap[of "fst d"] FlowKey_new_sym)

text \<open>Packets that carry a byte string in order, from a sequence number on.\<close>

fun in_order :: "Direction \<Rightarrow> u32 \<Rightarrow> ParsedPacket list \<Rightarrow> bytes \<Rightarrow> bool" where
  "in_order d seq [] bs = (bs = [])"
| "in_order d seq (p # ps) bs =
     (direction p = d \<and> tcp_seq p = seq \<and> wire_payload_len p = of_nat (length (payload p))
      \<and> prefix (payload p) bs
      \<and> in_order d (seq + wire_payload_len p) ps (drop (length (payload p)) bs))"

lemma in_order_append:
  "in_order d seq ps bs \<Longrightarrow> in_order d (seq + of_nat (length bs)) qs cs \<Longrightarrow>
    in_order d seq (ps @ qs) (bs @ cs)"
proof (induction d seq ps bs rule: in_order.induct)
  case (2 d seq p ps bs)
  then obtain zs where bs: "bs = payload p @ zs" by (auto elim: prefixE)
  have "in_order d (seq + wire_payload_len p) (ps @ qs) (zs @ cs)"
    using 2 bs by (auto simp: add.assoc)
  then show ?case using 2(2) bs by simp
qed simp

lemma in_order_process:
  "in_order d seq (map (\<lambda>p. p\<lparr>process := pr\<rparr>) ps) bs = in_order d seq ps bs"
  by (induction d seq ps bs rule: in_order.induct) auto

text \<open>In-order packets are appended whole, whatever the sequence number they start at.\<close>

lemma append_in_order:
  assumes "in_order d seq ps bs" "next_seq (dir_of d f) = Some seq" "ooo (dir_of d f) = None"
  shows "\<exists>f'. run_steps append_payload f ps = Some f'
    \<and> dir_buf (dir_of d f') = dir_buf (dir_of d f) @ bs
    \<and> next_seq (dir_of d f') = Some (seq + of_nat (length bs)) \<and> ooo (dir_of d f') = None"
  using assms
proof (induction d seq ps bs arbitrary: f rule: in_order.induct)
  case (2 d seq p ps bs)
  then obtain zs where bs: "bs = payload p @ zs" by (auto elim: prefixE)
  let ?dir = "(dir_of d f)\<lparr>last_data_ts := timestamp_us p, dir_buf := dir_buf (dir_of d f) @ payload p,
    next_seq := Some (seq + wire_payload_len p)\<rparr>"
  have step: "append_payload f p = Some (set_dir d ?dir f)"
    using 2 by (simp add: append_payload_def seq_diff_def drain_if_any_def Let_def)
  show ?case using 2 bs step 2(1)[of "set_dir d ?dir f"] by (auto simp: add.assoc)
qed simp

lemma in_order_cut:
  "in_order d seq ps bs \<Longrightarrow> p \<in> set ps \<Longrightarrow>
    direction p = d \<and> wire_payload_len p = of_nat (length (payload p))
    \<and> (\<exists>off. tcp_seq p = seq + of_nat off \<and> cut_from bs off (payload p))"
proof (induction d seq ps bs rule: in_order.induct)
  case (2 d seq q ps bs)
  then obtain zs where bs: "bs = payload q @ zs" by (auto elim: prefixE)
  show ?case
  proof (cases "p = q")
    case True
    then show ?thesis using 2(2) bs by (auto simp: cut_from_def intro!: exI[of _ 0])
  next
    case False
    then obtain off where off: "direction p = d" "wire_payload_len p = of_nat (length (payload p))"
      "tcp_seq p = seq + wire_payload_len q + of_nat off" "cut_from zs off (payload p)"
      using 2 bs by auto
    then show ?thesis
      using 2(2) bs by (auto simp: cut_from_def intro!: exI[of _ "length (payload q) + off"])
  qed
qed simp

definition frame_packets :: "RawPacket list \<Rightarrow> ParsedPacket list" where
  "frame_packets frames = List.map_filter decoded frames"

lemma frame_packets_simps [simp]:
  "frame_packets [] = []" "frame_packets (xs @ ys) = frame_packets xs @ frame_packets ys"
  "frame_packets (x # xs) = (case decoded x of None \<Rightarrow> [] | Some p \<Rightarrow> [p]) @ frame_packets xs"
  by (auto simp: frame_packets_def map_filter_append map_filter_simps split: option.splits)

lemma segment_chunk_bound:
  "min (offset + effective_segment cfg) n - offset \<le> MAX_SEGMENT_PAYLOAD"
  by (cases "segment_size cfg")
    (auto simp: effective_segment_def DEFAULT_SEGMENT_SIZE_def MAX_SEGMENT_PAYLOAD_def)

lemma segments_in_order:
  "offset \<le> length bs \<Longrightarrow>
    in_order (wire_direction (src, dst)) (seq0 + of_nat offset)
      (frame_packets (segments_from cfg src dst seq0 bs ts offset)) (drop offset bs)
    \<and> (\<forall>p\<in>set (frame_packets (segments_from cfg src dst seq0 bs ts offset)).
         flow_key p = wire_key (sy_source_id cfg) (src, dst) \<and> payload p \<noteq> [])"
proof (induction cfg src dst seq0 bs ts offset rule: segments_from.induct)
  case (1 cfg src dst seq0 bs ts offset)
  show ?case
  proof (cases "offset < length bs")
    case True
    let ?e = "min (offset + effective_segment cfg) (length bs)"
    let ?chunk = "take (?e - offset) (drop offset bs)"
    have e: "offset < ?e" "?e \<le> length bs" using True effective_segment_pos by auto
    have len: "length ?chunk = ?e - offset" using e by simp
    have bound: "length ?chunk \<le> MAX_SEGMENT_PAYLOAD" unfolding len by (rule segment_chunk_bound)
    have seq: "seq0 + of_nat offset + of_nat (length ?chunk) = seq0 + of_nat ?e"
      unfolding len using e by (simp add: of_nat_diff)
    have rest: "drop (length ?chunk) (drop offset bs) = drop ?e bs"
      unfolding len using e by simp
    have nonempty: "?chunk \<noteq> []" using True e by auto
    note step = synth_frame_decoded[OF bound]
    note IH = "1.IH"[OF True refl refl refl e(2)]
    show ?thesis
      using conjunct1[OF IH] conjunct2[OF IH] nonempty
      by (subst (1 2) segments_from.simps)
        (simp only: True if_True Let_def frame_packets_simps step option.case append_Cons append_Nil
          in_order.simps frame_packet_sel seq rest take_is_prefix list.set ball_simps simp_thms)
  qed (simp_all add: segments_from.simps)
qed

section \<open>Properties\<close>

text \<open>C21: A synthesized frame is decoded to exactly what it was made of, and is no heartbeat:
  for any payload a segment may carry, over IPv4, IPv6 and mixed end points (an IPv4 end of a
  mixed pair appears as its mapped IPv6 address), the decoder finds the ports, sequence numbers,
  flags and payload, and an on-wire length equal to the payload, so that the truncation guard of
  the reassembler never fires.\<close>

theorem synth_frame_round_trip:
  assumes "length pl \<le> MAX_SEGMENT_PAYLOAD"
  shows "\<not> is_heartbeat (synth_frame cfg src dst seq ack flags pl ts)
    \<and> decode (raw_data (synth_frame cfg src dst seq ack flags pl ts)) LINKTYPE_ETHERNET ts
        (sy_source_id cfg) =
      Inr (segment_packet (sy_source_id cfg) (wire_ips (fst src) (fst dst)) (snd src) (snd dst)
             seq ack flags pl ts)"
proof -
  let ?p = "synth_frame cfg src dst seq ack flags pl ts"
  have d: "decoded ?p = Some (frame_packet cfg src dst seq ack flags pl ts)"
    using assms by (rule synth_frame_decoded)
  then obtain q where q: "decode (raw_data ?p) LINKTYPE_ETHERNET ts (sy_source_id cfg) = Inr q"
    and "q\<lparr>process := None\<rparr> = frame_packet cfg src dst seq ack flags pl ts" and hb: "\<not> is_heartbeat ?p"
    by (auto simp: decoded_def split: if_splits sum.splits)
  moreover have "q\<lparr>process := None\<rparr> = q" using q by (auto simp: decode_def and_then_eq_Inr)
  ultimately show ?thesis by (simp add: frame_packet_def)
qed

theorem synth_frame_round_trip_witness:
  "\<not> is_heartbeat (synth_frame SynthConfig_default (V4 1, 40000) (V6 2, 443) 7 1 0x18 [1, 2, 3] 5)
   \<and> decode (raw_data (synth_frame SynthConfig_default (V4 1, 40000) (V6 2, 443) 7 1 0x18 [1, 2, 3] 5))
      LINKTYPE_ETHERNET 5 ''ebpf'' =
    Inr (segment_packet ''ebpf'' (V6 0xFFFF00000001, V6 2) 40000 443 7 1 0x18 [1, 2, 3] 5)"
proof -
  have "wire_ips (V4 1) (V6 2) = (V6 0xFFFF00000001, V6 2)" by code_simp
  then show ?thesis
    using synth_frame_round_trip[of "[1, 2, 3]" SynthConfig_default "(V4 1, 40000)" "(V6 2, 443)" 7 1 "0x18" 5]
    by (simp add: SynthConfig_default_def MAX_SEGMENT_PAYLOAD_def del: wire_ips.simps)
qed

text \<open>Two connections that follow each other on one \<open>SSL\<close> pointer never share a synthetic tuple.\<close>

theorem successive_generations_distinct:
  "synthetic_tuple_gen c (g + 1) \<noteq> synthetic_tuple_gen c g"
proof -
  have far: "max (p + 40503) 1024 \<noteq> max p (1024 :: u16)" for p :: u16
  proof (cases "p \<le> 1024")
    case True
    then have "unat p \<le> 1024" by (simp add: word_le_nat_alt)
    then have "unat (p + 40503) = unat p + 40503" by (subst unat_plus_if_size) (simp add: word_size)
    then have lt: "1024 < p + 40503" by (simp add: word_less_nat_alt)
    have "max (p + 40503) 1024 = p + 40503" using lt by (simp add: max_absorb1)
    moreover have "max p 1024 = 1024" using True by (simp add: max_absorb2)
    ultimately show ?thesis using lt by (metis less_irrefl)
  next
    case False
    then have "max p 1024 = p" "p \<noteq> 1024" by (auto simp: max_def)
    moreover have "p + 40503 \<noteq> p" by simp
    ultimately show ?thesis by (auto simp: max_def)
  qed
  have "(x mod 4294967296 + 1) mod 65536 = (x + 1) mod 65536" for x :: int
    by (subst (1 2) mod_add_left_eq [symmetric]) (simp add: mod_mod_cancel)
  then have "ucast (g + 1) = (ucast g + 1 :: u16)"
    by transfer (simp add: take_bit_eq_mod mod_simps mod_mod_cancel)
  then show ?thesis
    using far[of "1024 + ucast (drop_bit 16 (ucast c :: u32)) + ucast g * 40503"]
    by (auto simp: synthetic_tuple_gen_def Let_def algebra_simps)
qed

text \<open>But the tuple repeats: a port below 1024 is raised to 1024, the port of generation 0, and the
  upper 24 bits of the pointer are not used at all, so two live connections may share a flow.\<close>

theorem synthetic_tuples_collide:
  "synthetic_tuple_gen 0 55 = synthetic_tuple_gen 0 0"
  "synthetic_tuple_gen (0x00007F0000001000 + 0x0000010000000000) 0 = synthetic_tuple_gen 0x00007F0000001000 0"
  by (code_simp)+

end
