(* ===== verification/Ebpf.thy ===== *)
theory Ebpf
  imports Capture Synth
begin

text \<open>
  The path of TLS plaintext from the kernel probes to packets:
  \<^verbatim>\<open>server/h-ebpf-common/src/lib.rs\<close> (the ring-buffer record),
  \<^verbatim>\<open>server/h-ebpf-prog/src/main.rs\<close> (the probes on \<open>SSL_write\<close>, \<open>SSL_read\<close>,
  \<open>SSL_shutdown\<close> and \<open>SSL_free\<close>), the record decoder and the drain loop of
  \<^verbatim>\<open>server/h-capture/src/ebpf/source.rs\<close>, and the pump of \<^verbatim>\<open>server/h-capture/src/ebpf/mod.rs\<close>.

  The kernel helpers are parameters, collected in \<open>bpf_helpers\<close>: whether a record can be
  reserved, the insertion into a bounded map (which may fail), the copy of user memory, thread,
  clock and process name. A record holds the bytes the probe copied; the rest of its fixed
  array is never read. The ring is the list of all submitted records. \<open>read_link\<close> on
  \<open>/proc/<pid>/exe\<close> is a parameter.
\<close>

section \<open>Ring-buffer records (\<^verbatim>\<open>h-ebpf-common\<close>)\<close>

definition DATA_CAP :: nat where "DATA_CAP = 32768"

definition DATA_WRITE :: u32 where "DATA_WRITE = 1"
definition DATA_READ :: u32 where "DATA_READ = 2"
definition CLOSE :: u32 where "CLOSE = 3"

record RawSslEvent =
  rs_kind :: u32
  rs_pid :: u32
  rs_conn_id :: u64
  rs_ktime_ns :: u64
  rs_seq_off :: u64
  rs_data_len :: u32
  rs_comm :: bytes
  rs_data :: bytes

section \<open>The probes (\<^verbatim>\<open>h-ebpf-prog\<close>)\<close>

record ReadArgs =
  ra_ssl :: u64
  ra_buf :: u64

record bpf_helpers =
  bh_reserve :: "RawSslEvent list \<Rightarrow> bool"
  bh_insert_off :: "u64 \<Rightarrow> u64 \<Rightarrow> (u64 \<times> u64) list \<Rightarrow> (u64 \<times> u64) list"
  bh_insert_args :: "u32 \<Rightarrow> ReadArgs \<Rightarrow> (u32 \<times> ReadArgs) list \<Rightarrow> (u32 \<times> ReadArgs) list"
  bh_read_user :: "u64 \<Rightarrow> u32 \<Rightarrow> bytes"
  bh_pid_tgid :: u64
  bh_ktime :: "u32 \<Rightarrow> u64"
  bh_comm :: bytes

record bpf_state =
  bs_events :: "RawSslEvent list"
  bs_read_args :: "(u32 \<times> ReadArgs) list"
  bs_write_off :: "(u64 \<times> u64) list"
  bs_read_off :: "(u64 \<times> u64) list"

definition stream_off :: "bpf_state \<Rightarrow> u64 \<Rightarrow> bool \<Rightarrow> u64" where
  "stream_off st conn_id is_write =
     (case map_of (if is_write then bs_write_off st else bs_read_off st) conn_id of
        Some v \<Rightarrow> v | None \<Rightarrow> 0)"

definition set_stream_off :: "bpf_helpers \<Rightarrow> u64 \<Rightarrow> bool \<Rightarrow> u64 \<Rightarrow> bpf_state \<Rightarrow> bpf_state" where
  "set_stream_off h conn_id is_write v st =
     (if is_write then st\<lparr>bs_write_off := bh_insert_off h conn_id v (bs_write_off st)\<rparr>
      else st\<lparr>bs_read_off := bh_insert_off h conn_id v (bs_read_off st)\<rparr>)"

text \<open>\<open>bpf_get_current_pid_tgid\<close>: the process identifier above the thread identifier.\<close>

definition helper_pid :: "bpf_helpers \<Rightarrow> u32" where
  "helper_pid h = ucast (drop_bit 32 (bh_pid_tgid h))"

definition helper_tid :: "bpf_helpers \<Rightarrow> u32" where
  "helper_tid h = ucast (bh_pid_tgid h)"

definition emit_chunk_at ::
  "bpf_helpers \<Rightarrow> u32 \<Rightarrow> u64 \<Rightarrow> u64 \<Rightarrow> u32 \<Rightarrow> u32 \<Rightarrow> u64 \<Rightarrow> bpf_state \<Rightarrow> bpf_state" where
  "emit_chunk_at h ev_kind ssl buf start len base_off st =
     (if start \<ge> len then st
      else
        (let rest = len - start;
             n = (if unat rest > DATA_CAP then of_nat DATA_CAP else rest)
         in if \<not> bh_reserve h (bs_events st) then st
            else st\<lparr>bs_events := bs_events st @
              [\<lparr>rs_kind = ev_kind, rs_pid = helper_pid h, rs_conn_id = ssl,
                rs_ktime_ns = bh_ktime h start, rs_seq_off = base_off + ucast start,
                rs_data_len = n, rs_comm = bh_comm h,
                rs_data = bh_read_user h (buf + ucast start) n\<rparr>]\<rparr>))"

definition emit_data :: "bpf_helpers \<Rightarrow> u32 \<Rightarrow> u64 \<Rightarrow> u64 \<Rightarrow> u32 \<Rightarrow> bpf_state \<Rightarrow> bpf_state" where
  "emit_data h ev_kind ssl buf len st =
     (let cap = (of_nat DATA_CAP :: u32);
          is_write = (ev_kind = DATA_WRITE);
          base = stream_off st ssl is_write;
          st' = fold (\<lambda>start. emit_chunk_at h ev_kind ssl buf start len base)
                  [0, cap, 2 * cap, 3 * cap, 4 * cap, 5 * cap, 6 * cap, 7 * cap] st
      in set_stream_off h ssl is_write (base + ucast len) st')"

definition emit_close :: "bpf_helpers \<Rightarrow> u64 \<Rightarrow> bpf_state \<Rightarrow> bpf_state" where
  "emit_close h ssl st =
     (let st1 = st\<lparr>bs_write_off := AList.delete ssl (bs_write_off st),
                  bs_read_off := AList.delete ssl (bs_read_off st)\<rparr>
      in if \<not> bh_reserve h (bs_events st1) then st1
         else st1\<lparr>bs_events := bs_events st1 @
           [\<lparr>rs_kind = CLOSE, rs_pid = helper_pid h, rs_conn_id = ssl, rs_ktime_ns = bh_ktime h 0,
             rs_seq_off = 0, rs_data_len = 0, rs_comm = bh_comm h, rs_data = []\<rparr>]\<rparr>)"

text \<open>The \<open>i32\<close> byte counts are compared as signed numbers.\<close>

definition ssl_write :: "bpf_helpers \<Rightarrow> u64 \<Rightarrow> u64 \<Rightarrow> u32 \<Rightarrow> bpf_state \<Rightarrow> bpf_state" where
  "ssl_write h ssl buf num st =
     (if buf \<noteq> 0 \<and> sint num > 0 then emit_data h DATA_WRITE ssl buf num st else st)"

definition ssl_read_enter :: "bpf_helpers \<Rightarrow> u64 \<Rightarrow> u64 \<Rightarrow> bpf_state \<Rightarrow> bpf_state" where
  "ssl_read_enter h ssl buf st =
     st\<lparr>bs_read_args := bh_insert_args h (helper_tid h) \<lparr>ra_ssl = ssl, ra_buf = buf\<rparr> (bs_read_args st)\<rparr>"

definition ssl_read_exit :: "bpf_helpers \<Rightarrow> u32 \<Rightarrow> bpf_state \<Rightarrow> bpf_state" where
  "ssl_read_exit h ret st =
     (case map_of (bs_read_args st) (helper_tid h) of
        None \<Rightarrow> st
      | Some args \<Rightarrow>
          (let st1 = st\<lparr>bs_read_args := AList.delete (helper_tid h) (bs_read_args st)\<rparr>
           in if ra_buf args \<noteq> 0 \<and> sint ret > 0
              then emit_data h DATA_READ (ra_ssl args) (ra_buf args) ret st1
              else if ret = 0 then emit_close h (ra_ssl args) st1
              else st1))"

definition ssl_shutdown :: "bpf_helpers \<Rightarrow> u64 \<Rightarrow> bpf_state \<Rightarrow> bpf_state" where
  "ssl_shutdown h ssl st = emit_close h ssl st"

definition ssl_free :: "bpf_helpers \<Rightarrow> u64 \<Rightarrow> bpf_state \<Rightarrow> bpf_state" where
  "ssl_free h ssl st = emit_close h ssl st"

section \<open>Decoded events (\<^verbatim>\<open>ebpf/mod.rs\<close>)\<close>

datatype SslEvent =
    Connect (ev_conn_id: u64) u32 string "string option" "ConnTuple option" (ktime_ns: u64)
  | Data (ev_conn_id: u64) u32 string "string option" StreamDir bytes u64 (ktime_ns: u64)
  | Close (ev_conn_id: u64) (ktime_ns: u64)

fun ev_pid :: "SslEvent \<Rightarrow> u32 option" where
  "ev_pid (Connect _ p _ _ _ _) = Some p"
| "ev_pid (Data _ p _ _ _ _ _ _) = Some p"
| "ev_pid (Close _ _) = None"

fun ev_process :: "SslEvent \<Rightarrow> ProcessInfo option" where
  "ev_process (Connect _ p c e _ _) = Some \<lparr>pid = p, comm = c, exe = e\<rparr>"
| "ev_process (Data _ p c e _ _ _ _) = Some \<lparr>pid = p, comm = c, exe = e\<rparr>"
| "ev_process (Close _ _) = None"

record BootClock =
  offset_us :: int

definition ktime_to_epoch_us :: "BootClock \<Rightarrow> u64 \<Rightarrow> int" where
  "ktime_to_epoch_us c k = uint (k div 1000) + offset_us c"

section \<open>The pump\<close>

record EbpfPump =
  ep_synth :: FlowSynthesizer
  ep_heartbeat :: HeartbeatTracker
  ep_clock :: BootClock
  pid_allowlist :: "u32 list"

definition EbpfPump_new :: "SynthConfig \<Rightarrow> BootClock \<Rightarrow> u32 list \<Rightarrow> EbpfPump" where
  "EbpfPump_new cfg clock pids =
     \<lparr>ep_synth = FlowSynthesizer_new cfg, ep_heartbeat = [], ep_clock = clock, pid_allowlist = pids\<rparr>"

text \<open>The guard, the \<open>match\<close> and the loop of \<open>on_event\<close>.\<close>

definition pid_dropped :: "EbpfPump \<Rightarrow> SslEvent \<Rightarrow> bool" where
  "pid_dropped p ev \<longleftrightarrow> pid_allowlist p \<noteq> [] \<and>
     (case ev_pid ev of Some q \<Rightarrow> q \<notin> set (pid_allowlist p) | None \<Rightarrow> False)"

fun event_frames :: "FlowSynthesizer \<Rightarrow> SslEvent \<Rightarrow> int \<Rightarrow> RawPacket list \<times> FlowSynthesizer" where
  "event_frames fs (Connect c _ _ _ tuple _) ts =
     synth_open fs c (case tuple of Some t \<Rightarrow> t | None \<Rightarrow> synthetic_tuple c) ts"
| "event_frames fs (Data c _ _ _ dir bs seq_off _) ts = synth_data fs c dir bs seq_off ts"
| "event_frames fs (Close c _) ts = synth_close fs c ts"

fun interleave_heartbeats ::
  "ProcessInfo option \<Rightarrow> HeartbeatTracker \<Rightarrow> RawPacket list \<Rightarrow> RawPacket list \<times> HeartbeatTracker" where
  "interleave_heartbeats pr t [] = ([], t)"
| "interleave_heartbeats pr t (frame # frames) =
     (let (hb, t1) = on_packet t frame;
          (out, t2) = interleave_heartbeats pr t1 frames
      in (case_option [] (\<lambda>x. [x]) hb @ frame\<lparr>raw_process := pr\<rparr> # out, t2))"

definition on_event :: "EbpfPump \<Rightarrow> SslEvent \<Rightarrow> RawPacket list \<times> EbpfPump" where
  "on_event p ev =
     (if pid_dropped p ev then ([], p)
      else
        (let ts = ktime_to_epoch_us (ep_clock p) (ktime_ns ev);
             (frames, synth') = event_frames (ep_synth p) ev ts;
             (out, hb') = interleave_heartbeats (ev_process ev) (ep_heartbeat p) frames
         in (out, p\<lparr>ep_synth := synth', ep_heartbeat := hb'\<rparr>)))"

section \<open>The drain loop (\<^verbatim>\<open>ebpf/source.rs\<close>)\<close>

definition EXE_CACHE_CAP :: nat where "EXE_CACHE_CAP = 4096"

type_synonym exe_cache = "(u32 \<times> string option) list"

definition resolve_exe :: "(u32 \<Rightarrow> string option) \<Rightarrow> u32 \<Rightarrow> exe_cache \<Rightarrow> string option \<times> exe_cache" where
  "resolve_exe read_link p cache =
     (case map_of cache p of
        Some v \<Rightarrow> (v, cache)
      | None \<Rightarrow>
          (let cache1 = (if length cache \<ge> EXE_CACHE_CAP then [] else cache);
               resolved = read_link p
           in (resolved, AList.update p resolved cache1)))"

definition comm_to_string :: "bytes \<Rightarrow> string" where
  "comm_to_string c = from_utf8_lossy (takeWhile (\<lambda>b. b \<noteq> 0) c)"

definition decode_event ::
  "(u32 \<Rightarrow> string option) \<Rightarrow> RawSslEvent \<Rightarrow> exe_cache \<Rightarrow> SslEvent option \<times> exe_cache" where
  "decode_event read_link raw cache =
     (if rs_kind raw = CLOSE then (Some (Close (rs_conn_id raw) (rs_ktime_ns raw)), cache)
      else if rs_kind raw = DATA_WRITE \<or> rs_kind raw = DATA_READ then
        (let len = min (unat (rs_data_len raw)) DATA_CAP;
             dir = (if rs_kind raw = DATA_WRITE then ClientToServer else ServerToClient);
             (exe', cache') = resolve_exe read_link (rs_pid raw) cache
         in (Some (Data (rs_conn_id raw) (rs_pid raw) (comm_to_string (rs_comm raw)) exe' dir
                     (take len (rs_data raw)) (rs_seq_off raw) (rs_ktime_ns raw)), cache'))
      else (None, cache))"

record EbpfSource =
  es_pump :: EbpfPump
  es_cache :: exe_cache
  es_txs :: "RawPacket channel list"
  es_metrics :: "CaptureMetric MetricsWorker"

text \<open>The two nested loops; the flag is false once a channel is closed.\<close>

fun send_frames :: "(string \<Rightarrow> u64) \<Rightarrow> RawPacket list \<Rightarrow> EbpfSource \<Rightarrow> bool \<times> EbpfSource" where
  "send_frames hash [] s = (True, s)"
| "send_frames hash (pkt # pkts) s =
     (let (ok, txs) = routing_send hash (es_txs s) pkt in
      if \<not> ok then (False, s\<lparr>es_txs := txs\<rparr>)
      else send_frames hash pkts (s\<lparr>es_txs := txs, es_metrics :=
        (if is_heartbeat pkt then metric_inc CaptureHeartbeatsEmitted (es_metrics s)
         else metric_inc EbpfFramesSynthesized (metric_inc CapturePacketsReceived (es_metrics s)))\<rparr>))"

fun drain_ring ::
  "(u32 \<Rightarrow> string option) \<Rightarrow> (string \<Rightarrow> u64) \<Rightarrow> RawSslEvent list \<Rightarrow> EbpfSource \<Rightarrow> bool \<times> EbpfSource" where
  "drain_ring read_link hash [] s =
     (True, s\<lparr>es_metrics :=
        metric_set EbpfProcessCacheSize (of_nat (length (es_cache s)))
          (metric_set EbpfConnectionsActive (of_nat (conn_count (ep_synth (es_pump s)))) (es_metrics s))\<rparr>)"
| "drain_ring read_link hash (item # items) s =
     (case decode_event read_link item (es_cache s) of
        (None, cache) \<Rightarrow>
          drain_ring read_link hash items
            (s\<lparr>es_cache := cache, es_metrics := metric_inc EbpfEventsDropped (es_metrics s)\<rparr>)
      | (Some ev, cache) \<Rightarrow>
          (let m1 = metric_inc EbpfEventsReceived (es_metrics s);
               m2 = (case ev of Data _ _ _ _ _ bs _ _ \<Rightarrow> metric_add EbpfBytesCaptured (of_nat (length bs)) m1
                     | _ \<Rightarrow> m1);
               (pkts, pump') = on_event (es_pump s) ev;
               (ok, s') = send_frames hash pkts (s\<lparr>es_pump := pump', es_cache := cache, es_metrics := m2\<rparr>)
           in if ok then drain_ring read_link hash items s' else (False, s')))"

section \<open>Runs of the probes\<close>

text \<open>What an application does with its connections: it writes or reads a buffer, or closes. A read
  is the entry probe followed by the return probe on the same thread.\<close>

datatype tls_op = Transfer bpf_helpers StreamDir u64 u64 bytes | Hangup bpf_helpers u64

fun tls_step :: "tls_op \<Rightarrow> bpf_state \<Rightarrow> bpf_state" where
  "tls_step (Transfer h ClientToServer ssl buf bs) st = ssl_write h ssl buf (of_nat (length bs)) st"
| "tls_step (Transfer h ServerToClient ssl buf bs) st =
     ssl_read_exit h (of_nat (length bs)) (ssl_read_enter h ssl buf st)"
| "tls_step (Hangup h ssl) st = ssl_shutdown h ssl st"

text \<open>What the helpers promise: an insertion into a map that is not full takes effect, and a copy of
  user memory reads the buffer.\<close>

definition maps_have_room :: "bpf_helpers \<Rightarrow> bool" where
  "maps_have_room h \<longleftrightarrow>
     (\<forall>k v m. map_of (bh_insert_off h k v m) = (map_of m)(k \<mapsto> v)) \<and>
     (\<forall>k v m. map_of (bh_insert_args h k v m) = (map_of m)(k \<mapsto> v))"

definition buffer_holds :: "bpf_helpers \<Rightarrow> u64 \<Rightarrow> bytes \<Rightarrow> bool" where
  "buffer_holds h buf bs \<longleftrightarrow>
     (\<forall>start n. start + n \<le> length bs \<longrightarrow>
        bh_read_user h (buf + of_nat start) (of_nat n) = take n (drop start bs))"

fun tls_op_ok :: "u64 \<Rightarrow> tls_op \<Rightarrow> bool" where
  "tls_op_ok c (Transfer h dir ssl buf bs) \<longleftrightarrow>
     maps_have_room h \<and> buffer_holds h buf bs \<and> buf \<noteq> 0 \<and> bs \<noteq> [] \<and> length bs < 2 ^ 31"
| "tls_op_ok c (Hangup h ssl) \<longleftrightarrow> ssl \<noteq> c"

fun op_bytes :: "u64 \<Rightarrow> StreamDir \<Rightarrow> tls_op \<Rightarrow> bytes" where
  "op_bytes c dir (Transfer h dir' ssl buf bs) = (if ssl = c \<and> dir' = dir then bs else [])"
| "op_bytes c dir (Hangup h ssl) = []"

definition plain_stream :: "u64 \<Rightarrow> StreamDir \<Rightarrow> tls_op list \<Rightarrow> bytes" where
  "plain_stream c dir ops = concat (map (op_bytes c dir) ops)"

definition dir_kind :: "StreamDir \<Rightarrow> u32" where
  "dir_kind dir = (case dir of ClientToServer \<Rightarrow> DATA_WRITE | ServerToClient \<Rightarrow> DATA_READ)"

definition raw_data_of :: "u64 \<Rightarrow> StreamDir \<Rightarrow> RawSslEvent \<Rightarrow> bool" where
  "raw_data_of c dir e \<longleftrightarrow> rs_conn_id e = c \<and> rs_kind e = dir_kind dir"

lemma kind_simps [simp]: "(dir_kind d = dir_kind d') = (d = d')" "(dir_kind d = DATA_WRITE) = (d = ClientToServer)"
  "dir_kind d \<noteq> CLOSE" "CLOSE \<noteq> dir_kind d"
  by (cases d; cases d'; simp add: dir_kind_def DATA_WRITE_def DATA_READ_def CLOSE_def)+

text \<open>One chunk of a buffer.\<close>

definition chunk_event :: "bpf_helpers \<Rightarrow> u32 \<Rightarrow> u64 \<Rightarrow> u64 \<Rightarrow> nat \<Rightarrow> bytes \<Rightarrow> RawSslEvent" where
  "chunk_event h k ssl base i d =
     \<lparr>rs_kind = k, rs_pid = helper_pid h, rs_conn_id = ssl, rs_ktime_ns = bh_ktime h (of_nat (i * DATA_CAP)),
      rs_seq_off = base + of_nat (i * DATA_CAP), rs_data_len = of_nat (length d), rs_comm = bh_comm h,
      rs_data = d\<rparr>"

definition chunk_data :: "bytes \<Rightarrow> nat \<Rightarrow> bytes" where
  "chunk_data bs i = take DATA_CAP (drop (i * DATA_CAP) bs)"

lemma emit_chunk_exact:
  assumes "buffer_holds h buf bs" "length bs < 2 ^ 31" "i < 8"
  shows "emit_chunk_at h k ssl buf (of_nat (i * DATA_CAP)) (of_nat (length bs)) base st =
    (if i * DATA_CAP < length bs \<and> bh_reserve h (bs_events st)
     then st\<lparr>bs_events := bs_events st @ [chunk_event h k ssl base i (chunk_data bs i)]\<rparr> else st)"
proof -
  let ?start = "of_nat (i * DATA_CAP) :: u32" and ?len = "of_nat (length bs) :: u32"
  have u: "unat ?start = i * DATA_CAP" "unat ?len = length bs"
    using assms(2,3) by (simp_all add: DATA_CAP_def unat_of_nat_u32 del: of_nat_mult)
  have le: "(?len \<le> ?start) = (length bs \<le> i * DATA_CAP)"
    by (simp add: word_le_nat_alt u del: of_nat_mult)
  show ?thesis
  proof (cases "i * DATA_CAP < length bs")
    case True
    have rest: "?len - ?start = of_nat (length bs - i * DATA_CAP)"
      using True by (simp add: of_nat_diff del: of_nat_mult)
    have urest: "unat (?len - ?start) = length bs - i * DATA_CAP"
      unfolding rest using assms(2) by (intro unat_of_nat_u32) simp
    let ?n = "min DATA_CAP (length bs - i * DATA_CAP)"
    have n: "(if unat (?len - ?start) > DATA_CAP then of_nat DATA_CAP else ?len - ?start) = (of_nat ?n :: u32)"
      unfolding urest unfolding rest by (simp add: min_def)
    have start: "(ucast ?start :: u64) = of_nat (i * DATA_CAP)"
      using arg_cong[OF u(1), of "of_nat :: nat \<Rightarrow> u64"] by (simp del: of_nat_mult)
    have "i * DATA_CAP + ?n \<le> length bs" using True by simp
    then have d: "bh_read_user h (buf + of_nat (i * DATA_CAP)) (of_nat ?n) = chunk_data bs i"
      using assms(1) unfolding buffer_holds_def chunk_data_def
      by (metis length_drop take_all_iff min.cobounded1 min_def nle_le take_take)
    have "length (chunk_data bs i) = ?n" by (simp add: chunk_data_def)
    then show ?thesis
      using True le unfolding emit_chunk_at_def Let_def n start d chunk_event_def
      by (simp del: of_nat_mult)
  qed (use le in \<open>simp add: emit_chunk_at_def del: of_nat_mult\<close>)
qed

lemma emit_chunks:
  assumes "buffer_holds h buf bs" "length bs < 2 ^ 31" "list_all (\<lambda>i. i < 8) is"
  shows "\<exists>es. fold (\<lambda>i. emit_chunk_at h k ssl buf (of_nat (i * DATA_CAP)) (of_nat (length bs)) base) is st =
      st\<lparr>bs_events := bs_events st @ es\<rparr>
    \<and> set es \<subseteq> (\<lambda>i. chunk_event h k ssl base i (chunk_data bs i)) ` {i \<in> set is. i * DATA_CAP < length bs}
    \<and> ((\<forall>q. bh_reserve h q) \<longrightarrow>
         es = map (\<lambda>i. chunk_event h k ssl base i (chunk_data bs i)) (filter (\<lambda>i. i * DATA_CAP < length bs) is))"
  using assms(3)
proof (induction "is" arbitrary: st)
  case (Cons i "is")
  let ?E = "\<lambda>i. chunk_event h k ssl base i (chunk_data bs i)"
  let ?step = "emit_chunk_at h k ssl buf (of_nat (i * DATA_CAP)) (of_nat (length bs)) base st"
  obtain es where es: "fold (\<lambda>i. emit_chunk_at h k ssl buf (of_nat (i * DATA_CAP)) (of_nat (length bs)) base) is ?step =
      ?step\<lparr>bs_events := bs_events ?step @ es\<rparr>"
    "set es \<subseteq> ?E ` {i \<in> set is. i * DATA_CAP < length bs}"
    "(\<forall>q. bh_reserve h q) \<longrightarrow> es = map ?E (filter (\<lambda>i. i * DATA_CAP < length bs) is)"
    using Cons.IH[of ?step] Cons.prems by auto
  have step: "?step = (if i * DATA_CAP < length bs \<and> bh_reserve h (bs_events st)
      then st\<lparr>bs_events := bs_events st @ [?E i]\<rparr> else st)"
    using emit_chunk_exact[OF assms(1,2)] Cons.prems by simp
  show ?case
    by (rule exI[of _ "(if i * DATA_CAP < length bs \<and> bh_reserve h (bs_events st) then [?E i] else []) @ es"])
      (use es step in auto)
qed auto

lemma DATA_CAP_starts: "[0, of_nat DATA_CAP, 2 * of_nat DATA_CAP, 3 * of_nat DATA_CAP, 4 * of_nat DATA_CAP,
    5 * of_nat DATA_CAP, 6 * of_nat DATA_CAP, 7 * of_nat DATA_CAP] = map (\<lambda>i. of_nat (i * DATA_CAP) :: u32) [0..<8]"
  by (simp add: upt_rec)

definition chunk_events :: "bpf_helpers \<Rightarrow> u32 \<Rightarrow> u64 \<Rightarrow> u64 \<Rightarrow> bytes \<Rightarrow> RawSslEvent list" where
  "chunk_events h k ssl base bs =
     map (\<lambda>i. chunk_event h k ssl base i (chunk_data bs i)) (filter (\<lambda>i. i * DATA_CAP < length bs) [0..<8])"

text \<open>A transfer adds some of its chunks to the ring (all of them when there is room) and moves the
  offset of its connection and direction past the whole buffer.\<close>

lemma emit_data_exact:
  assumes "buffer_holds h buf bs" "length bs < 2 ^ 31"
  shows "\<exists>es. emit_data h k ssl buf (of_nat (length bs)) st =
      set_stream_off h ssl (k = DATA_WRITE) (stream_off st ssl (k = DATA_WRITE) + of_nat (length bs))
        (st\<lparr>bs_events := bs_events st @ es\<rparr>)
    \<and> set es \<subseteq> set (chunk_events h k ssl (stream_off st ssl (k = DATA_WRITE)) bs)
    \<and> ((\<forall>q. bh_reserve h q) \<longrightarrow> es = chunk_events h k ssl (stream_off st ssl (k = DATA_WRITE)) bs)"
proof -
  have len: "(ucast (of_nat (length bs) :: u32) :: u64) = of_nat (length bs)"
    using arg_cong[OF unat_of_nat_u32[of "length bs"], of "of_nat :: nat \<Rightarrow> u64"] assms(2) by simp
  obtain es where "fold (\<lambda>i. emit_chunk_at h k ssl buf (of_nat (i * DATA_CAP)) (of_nat (length bs))
        (stream_off st ssl (k = DATA_WRITE))) [0..<8] st = st\<lparr>bs_events := bs_events st @ es\<rparr>"
    "set es \<subseteq> set (chunk_events h k ssl (stream_off st ssl (k = DATA_WRITE)) bs)"
    "(\<forall>q. bh_reserve h q) \<longrightarrow> es = chunk_events h k ssl (stream_off st ssl (k = DATA_WRITE)) bs"
    using emit_chunks[OF assms, of "[0..<8]" k ssl "stream_off st ssl (k = DATA_WRITE)" st]
    by (auto simp: chunk_events_def list_all_iff)
  then show ?thesis
    unfolding emit_data_def Let_def DATA_CAP_starts fold_map comp_def len
    by (intro exI[of _ es]) (simp only: simp_thms)
qed

lemma stream_off_simps [simp]:
  "stream_off (st\<lparr>bs_events := q\<rparr>) c w = stream_off st c w"
  "stream_off (st\<lparr>bs_read_args := a\<rparr>) c w = stream_off st c w"
  by (simp_all add: stream_off_def)

lemma set_stream_off_effect:
  assumes "maps_have_room h"
  shows "stream_off (set_stream_off h ssl w v st) c w' = (if c = ssl \<and> w' = w then v else stream_off st c w')"
    "bs_events (set_stream_off h ssl w v st) = bs_events st"
  using assms by (auto simp: set_stream_off_def stream_off_def maps_have_room_def)

lemma count_positive:
  assumes "bs \<noteq> []" "length bs < 2 ^ 31"
  shows "sint (of_nat (length bs) :: u32) > 0"
  using assms sint_of_int_small[of "int (length bs)"] by simp

fun op_room :: "tls_op \<Rightarrow> bool" where
  "op_room (Transfer h dir ssl buf bs) \<longleftrightarrow> (\<forall>q. bh_reserve h q)"
| "op_room (Hangup h ssl) \<longleftrightarrow> True"

lemma transfer_effect:
  assumes "tls_op_ok c (Transfer h d ssl buf bs)"
  shows "\<exists>es. bs_events (tls_step (Transfer h d ssl buf bs) st) = bs_events st @ es
    \<and> (\<forall>c w. stream_off (tls_step (Transfer h d ssl buf bs) st) c w =
         stream_off st c w + (if c = ssl \<and> w = (d = ClientToServer) then of_nat (length bs) else 0))
    \<and> set es \<subseteq> set (chunk_events h (dir_kind d) ssl (stream_off st ssl (d = ClientToServer)) bs)
    \<and> ((\<forall>q. bh_reserve h q) \<longrightarrow>
         es = chunk_events h (dir_kind d) ssl (stream_off st ssl (d = ClientToServer)) bs)"
proof -
  from assms have ok: "maps_have_room h" "buffer_holds h buf bs" "buf \<noteq> 0" "bs \<noteq> []" "length bs < 2 ^ 31"
    by auto
  note pos = count_positive[OF ok(4,5)]
  let ?st1 = "st\<lparr>bs_read_args := AList.delete (helper_tid h)
    (bh_insert_args h (helper_tid h) \<lparr>ra_ssl = ssl, ra_buf = buf\<rparr> (bs_read_args st))\<rparr>"
  let ?st' = "case d of ClientToServer \<Rightarrow> st | ServerToClient \<Rightarrow> ?st1"
  have step: "tls_step (Transfer h d ssl buf bs) st = emit_data h (dir_kind d) ssl buf (of_nat (length bs)) ?st'"
    using ok(1,3) pos
    by (cases d) (simp_all add: ssl_write_def ssl_read_exit_def ssl_read_enter_def maps_have_room_def dir_kind_def)
  have same: "bs_events ?st' = bs_events st" "\<And>c w. stream_off ?st' c w = stream_off st c w"
    by (cases d; simp)+
  obtain es where es: "emit_data h (dir_kind d) ssl buf (of_nat (length bs)) ?st' =
      set_stream_off h ssl (d = ClientToServer) (stream_off st ssl (d = ClientToServer) + of_nat (length bs))
        (?st'\<lparr>bs_events := bs_events st @ es\<rparr>)"
    "set es \<subseteq> set (chunk_events h (dir_kind d) ssl (stream_off st ssl (d = ClientToServer)) bs)"
    "(\<forall>q. bh_reserve h q) \<longrightarrow> es = chunk_events h (dir_kind d) ssl (stream_off st ssl (d = ClientToServer)) bs"
    using emit_data_exact[OF ok(2,5), of "dir_kind d" ssl ?st'] by (auto simp: same)
  show ?thesis
    unfolding step es(1) set_stream_off_effect[OF ok(1)] using es(2,3) same(2)
    by (intro exI[of _ es]) auto
qed

lemma closing_effect:
  assumes "ssl \<noteq> c"
  shows "stream_off (tls_step (Hangup h ssl) st) c w = stream_off st c w"
    "\<exists>es. bs_events (tls_step (Hangup h ssl) st) = bs_events st @ es \<and> filter (raw_data_of c dir) es = []"
  using assms
  by (auto simp: ssl_shutdown_def emit_close_def Let_def stream_off_def delete_conv' raw_data_of_def)

text \<open>The records of one connection and direction that an operation submits.\<close>

lemma op_effect:
  assumes "tls_op_ok c op"
  shows "\<exists>es h. bs_events (tls_step op st) = bs_events st @ es
    \<and> stream_off (tls_step op st) c (dir = ClientToServer) =
        stream_off st c (dir = ClientToServer) + of_nat (length (op_bytes c dir op))
    \<and> set (filter (raw_data_of c dir) es) \<subseteq>
        set (chunk_events h (dir_kind dir) c (stream_off st c (dir = ClientToServer)) (op_bytes c dir op))
    \<and> (op_room op \<longrightarrow> filter (raw_data_of c dir) es =
        chunk_events h (dir_kind dir) c (stream_off st c (dir = ClientToServer)) (op_bytes c dir op))"
proof (cases op)
  case (Transfer h d ssl buf bs)
  obtain es where es: "bs_events (tls_step op st) = bs_events st @ es"
    "\<forall>c w. stream_off (tls_step op st) c w =
         stream_off st c w + (if c = ssl \<and> w = (d = ClientToServer) then of_nat (length bs) else 0)"
    "set es \<subseteq> set (chunk_events h (dir_kind d) ssl (stream_off st ssl (d = ClientToServer)) bs)"
    "(\<forall>q. bh_reserve h q) \<longrightarrow> es = chunk_events h (dir_kind d) ssl (stream_off st ssl (d = ClientToServer)) bs"
    using transfer_effect[of c h d ssl buf bs st] assms Transfer by auto
  have dirs: "(dir = ClientToServer) = (d = ClientToServer) \<longleftrightarrow> dir = d" by (cases dir; cases d) auto
  have mine: "raw_data_of c dir e \<longleftrightarrow> ssl = c \<and> d = dir" if "e \<in> set es" for e
    using that es(3) by (auto simp: chunk_events_def chunk_event_def raw_data_of_def)
  have none: "chunk_events h k c b [] = []" for h k c b by (simp add: chunk_events_def)
  show ?thesis
  proof (cases "ssl = c \<and> d = dir")
    case True
    then have "filter (raw_data_of c dir) es = es" using mine by (simp add: filter_id_conv)
    then show ?thesis using es True Transfer by (intro exI[of _ es] exI[of _ h]) auto
  next
    case False
    then have "filter (raw_data_of c dir) es = []" using mine by (simp add: filter_empty_conv)
    then show ?thesis using es False Transfer none dirs by (intro exI[of _ es] exI[of _ h]) auto
  qed
next
  case (Hangup h ssl)
  then have other: "ssl \<noteq> c" using assms by simp
  obtain es where "bs_events (tls_step op st) = bs_events st @ es" "filter (raw_data_of c dir) es = []"
    using closing_effect(2)[OF other, of h st dir] Hangup by auto
  then show ?thesis
    using closing_effect(1)[OF other, of h st] Hangup
    by (intro exI[of _ es] exI[of _ h]) (simp add: chunk_events_def)
qed

section \<open>The records of a stream\<close>

definition raw_ok :: "RawSslEvent \<Rightarrow> bool" where
  "raw_ok e \<longleftrightarrow> unat (rs_data_len e) = length (rs_data e) \<and> length (rs_data e) \<le> DATA_CAP"

definition raw_cut :: "bytes \<Rightarrow> RawSslEvent \<Rightarrow> bool" where
  "raw_cut S e \<longleftrightarrow> raw_ok e \<and> (\<exists>off. rs_seq_off e = of_nat off \<and> cut_from S off (rs_data e))"

fun raw_in_order :: "nat \<Rightarrow> RawSslEvent list \<Rightarrow> bytes \<Rightarrow> bool" where
  "raw_in_order off [] bs = (bs = [])"
| "raw_in_order off (e # es) bs =
     (raw_ok e \<and> rs_seq_off e = of_nat off \<and> prefix (rs_data e) bs
      \<and> raw_in_order (off + length (rs_data e)) es (drop (length (rs_data e)) bs))"

lemma raw_in_order_append:
  "raw_in_order off es bs \<Longrightarrow> raw_in_order (off + length bs) es' cs \<Longrightarrow> raw_in_order off (es @ es') (bs @ cs)"
proof (induction off es bs rule: raw_in_order.induct)
  case (2 off e es bs)
  then obtain zs where bs: "bs = rs_data e @ zs" by (auto elim: prefixE)
  have "raw_in_order (off + length (rs_data e)) (es @ es') (zs @ cs)"
    using 2 bs by (auto simp: add.assoc)
  then show ?case using 2(2) bs by simp
qed simp

lemma chunk_event_ok: "raw_ok (chunk_event h k ssl base i (chunk_data bs j))"
  by (simp add: raw_ok_def chunk_event_def chunk_data_def DATA_CAP_def unat_of_nat_u32)

lemma chunk_events_cut:
  assumes "e \<in> set (chunk_events h k c (of_nat n) bs)" "length S = n"
  shows "raw_cut (S @ bs) e"
proof -
  obtain i where i: "e = chunk_event h k c (of_nat n) i (chunk_data bs i)" "i * DATA_CAP < length bs"
    using assms(1) by (auto simp: chunk_events_def)
  have "cut_from (S @ bs) (n + i * DATA_CAP) (chunk_data bs i)"
    using i(2) assms(2) by (auto simp: cut_from_def chunk_data_def min_def)
  moreover have "rs_seq_off e = of_nat (n + i * DATA_CAP)" "rs_data e = chunk_data bs i"
    by (simp_all add: i(1) chunk_event_def)
  ultimately show ?thesis using chunk_event_ok i(1) by (metis raw_cut_def)
qed

lemma no_more_chunks:
  assumes "length bs \<le> j * DATA_CAP"
  shows "filter (\<lambda>i. i * DATA_CAP < length bs) [j..<8] = []"
proof -
  have "length bs \<le> i * DATA_CAP" if "j \<le> i" for i
    using assms mult_le_mono1[OF that, of DATA_CAP] by (rule order.trans)
  then show ?thesis by (simp add: filter_empty_conv not_less)
qed

lemma chunks_in_order_from:
  "j \<le> 8 \<Longrightarrow> length bs \<le> 8 * DATA_CAP \<Longrightarrow>
    raw_in_order (n + j * DATA_CAP)
      (map (\<lambda>i. chunk_event h k c (of_nat n) i (chunk_data bs i)) (filter (\<lambda>i. i * DATA_CAP < length bs) [j..<8]))
      (drop (j * DATA_CAP) bs)"
proof (induction "8 - j" arbitrary: j)
  case (Suc d)
  then have j: "j < 8" "[j..<8] = j # [Suc j..<8]" by (auto simp: upt_conv_Cons)
  have IH: "raw_in_order (n + Suc j * DATA_CAP)
      (map (\<lambda>i. chunk_event h k c (of_nat n) i (chunk_data bs i)) (filter (\<lambda>i. i * DATA_CAP < length bs) [Suc j..<8]))
      (drop (Suc j * DATA_CAP) bs)"
    by (rule Suc.hyps(1)) (use Suc.hyps(2) Suc.prems j(1) in auto)
  let ?e = "chunk_event h k c (of_nat n) j (chunk_data bs j)"
  show ?case
  proof (cases "j * DATA_CAP < length bs")
    case True
    have sel: "rs_seq_off ?e = of_nat (n + j * DATA_CAP)" "rs_data ?e = chunk_data bs j"
      by (simp_all add: chunk_event_def)
    have pre: "prefix (chunk_data bs j) (drop (j * DATA_CAP) bs)" by (simp add: chunk_data_def take_is_prefix)
    have rest: "raw_in_order (n + j * DATA_CAP + length (chunk_data bs j))
      (map (\<lambda>i. chunk_event h k c (of_nat n) i (chunk_data bs i)) (filter (\<lambda>i. i * DATA_CAP < length bs) [Suc j..<8]))
      (drop (length (chunk_data bs j)) (drop (j * DATA_CAP) bs))"
    proof (cases "Suc j * DATA_CAP \<le> length bs")
      case True
      then have "length (chunk_data bs j) = DATA_CAP" by (simp add: chunk_data_def)
      then show ?thesis using IH by (simp add: ac_simps)
    next
      case False
      then have "filter (\<lambda>i. i * DATA_CAP < length bs) [Suc j..<8] = []" by (intro no_more_chunks) simp
      then show ?thesis using False by (simp add: chunk_data_def)
    qed
    show ?thesis using True by (simp add: j(2) sel pre rest chunk_event_ok del: drop_drop)
  next
    case False
    then have "filter (\<lambda>i. i * DATA_CAP < length bs) [j..<8] = []" by (intro no_more_chunks) simp
    then show ?thesis using False by simp
  qed
qed simp

lemma chunk_events_in_order:
  "length bs \<le> 8 * DATA_CAP \<Longrightarrow> raw_in_order n (chunk_events h k c (of_nat n) bs) bs"
  using chunks_in_order_from[of 0 bs n h k c] by (simp add: chunk_events_def)

text \<open>Over a run of the probes.\<close>

definition tls_run :: "tls_op list \<Rightarrow> bpf_state \<Rightarrow> bpf_state" where
  "tls_run ops st = fold tls_step ops st"

lemma tls_run_simps [simp]: "tls_run [] st = st" "tls_run (op # ops) st = tls_run ops (tls_step op st)"
  by (simp_all add: tls_run_def)

lemma plain_stream_Cons [simp]: "plain_stream c dir [] = []"
  "plain_stream c dir (op # ops) = op_bytes c dir op @ plain_stream c dir ops"
  by (simp_all add: plain_stream_def)

lemma cut_from_append: "cut_from S off bs \<Longrightarrow> cut_from (S @ T) off bs"
  by (auto simp: cut_from_def)

lemma raw_cut_append: "raw_cut S e \<Longrightarrow> raw_cut (S @ T) e"
  by (auto simp: raw_cut_def dest: cut_from_append)

lemma run_cut:
  assumes "list_all (tls_op_ok c) ops"
    and "stream_off st c (dir = ClientToServer) = of_nat (length S)"
    and "\<forall>e\<in>set (bs_events st). raw_data_of c dir e \<longrightarrow> raw_cut S e"
  shows "\<forall>e\<in>set (bs_events (tls_run ops st)). raw_data_of c dir e \<longrightarrow> raw_cut (S @ plain_stream c dir ops) e"
  using assms
proof (induction ops arbitrary: st S)
  case (Cons op ops)
  let ?b = "op_bytes c dir op"
  obtain es h where es: "bs_events (tls_step op st) = bs_events st @ es"
    "stream_off (tls_step op st) c (dir = ClientToServer) = of_nat (length (S @ ?b))"
    "set (filter (raw_data_of c dir) es) \<subseteq> set (chunk_events h (dir_kind dir) c (of_nat (length S)) ?b)"
    using op_effect[of c op st dir] Cons.prems(1,2) by auto
  have cut: "\<forall>e\<in>set (bs_events (tls_step op st)). raw_data_of c dir e \<longrightarrow> raw_cut (S @ ?b) e"
    using Cons.prems(3) es(1,3) by (auto intro: raw_cut_append chunk_events_cut[OF _ refl])
  show ?case using Cons.IH[OF _ es(2) cut] Cons.prems(1) by simp
qed simp

lemma run_in_order:
  assumes "list_all (tls_op_ok c) ops" "list_all op_room ops"
    and "list_all (\<lambda>op. length (op_bytes c dir op) \<le> 8 * DATA_CAP) ops"
    and "stream_off st c (dir = ClientToServer) = of_nat n"
  shows "\<exists>es. filter (raw_data_of c dir) (bs_events (tls_run ops st)) =
      filter (raw_data_of c dir) (bs_events st) @ es \<and> raw_in_order n es (plain_stream c dir ops)"
  using assms
proof (induction ops arbitrary: st n)
  case (Cons op ops)
  let ?b = "op_bytes c dir op"
  obtain es h where es: "bs_events (tls_step op st) = bs_events st @ es"
    "stream_off (tls_step op st) c (dir = ClientToServer) = of_nat (n + length ?b)"
    "filter (raw_data_of c dir) es = chunk_events h (dir_kind dir) c (of_nat n) ?b"
    using op_effect[of c op st dir] Cons.prems by auto
  have "raw_in_order n (filter (raw_data_of c dir) es) ?b"
    using Cons.prems(3) by (simp add: es(3) chunk_events_in_order)
  moreover obtain es' where "filter (raw_data_of c dir) (bs_events (tls_run ops (tls_step op st))) =
      filter (raw_data_of c dir) (bs_events (tls_step op st)) @ es'"
    "raw_in_order (n + length ?b) es' (plain_stream c dir ops)"
    using Cons.IH[OF _ _ _ es(2)] Cons.prems by auto
  ultimately show ?case
    using es(1) raw_in_order_append by (intro exI[of _ "filter (raw_data_of c dir) es @ es'"]) simp
qed simp

definition raw_closes :: "u64 \<Rightarrow> RawSslEvent \<Rightarrow> bool" where
  "raw_closes c e \<longleftrightarrow> rs_conn_id e = c \<and> rs_kind e = CLOSE"

lemma op_no_close:
  assumes "tls_op_ok c op" "e \<in> set (bs_events (tls_step op st))" "raw_closes c e"
  shows "e \<in> set (bs_events st)"
proof (cases op)
  case (Transfer h d ssl buf bs)
  then obtain es where "bs_events (tls_step op st) = bs_events st @ es"
    "set es \<subseteq> set (chunk_events h (dir_kind d) ssl (stream_off st ssl (d = ClientToServer)) bs)"
    using transfer_effect[of c h d ssl buf bs st] assms(1) by blast
  then show ?thesis
    using assms(2,3) by (auto simp: raw_closes_def chunk_events_def chunk_event_def)
next
  case (Hangup h ssl)
  then show ?thesis
    using assms by (auto simp: ssl_shutdown_def emit_close_def Let_def raw_closes_def split: if_splits)
qed

lemma run_no_close:
  "list_all (tls_op_ok c) ops \<Longrightarrow> e \<in> set (bs_events (tls_run ops st)) \<Longrightarrow> raw_closes c e \<Longrightarrow>
    e \<in> set (bs_events st)"
  by (induction ops arbitrary: st) (auto dest: op_no_close)

section \<open>The packets of a record\<close>

definition conn_tuple :: "FlowSynthesizer \<Rightarrow> u64 \<Rightarrow> ConnTuple" where
  "conn_tuple fs c =
     (case map_of (conns fs) c of
        Some st \<Rightarrow> cs_tuple st | None \<Rightarrow> synthetic_tuple_gen c (generation fs c))"

definition tuple_ends :: "ConnTuple \<Rightarrow> StreamDir \<Rightarrow> sock_addr \<times> sock_addr" where
  "tuple_ends t dir = endpoints (ConnState_new t) dir"

lemma endpoints_tuple: "endpoints st dir = tuple_ends (cs_tuple st) dir"
  by (cases dir) (simp_all add: tuple_ends_def endpoints_def ConnState_new_def)

lemma observe_tuple [simp]: "cs_tuple (observe dir e st) = cs_tuple st"
  by (simp add: observe_def split: StreamDir.splits)

lemma cs_tuple_new [simp]: "cs_tuple (ConnState_new t) = t"
  by (simp add: ConnState_new_def)

lemma synth_data_packets:
  "in_order (wire_direction (tuple_ends (conn_tuple fs c) dir)) (SYNTH_ISN + ucast seq_off)
     (frame_packets (fst (synth_data fs c dir bs seq_off ts))) bs
   \<and> (\<forall>p\<in>set (frame_packets (fst (synth_data fs c dir bs seq_off ts))).
        flow_key p = wire_key (sy_source_id (fs_cfg fs)) (tuple_ends (conn_tuple fs c) dir) \<and> payload p \<noteq> [])"
proof (cases "bs = []")
  case False
  let ?st = "case map_of (conns fs) c of Some st \<Rightarrow> st
    | None \<Rightarrow> ConnState_new (synthetic_tuple_gen c (generation fs c))"
  have t: "cs_tuple ?st = conn_tuple fs c" by (simp add: conn_tuple_def split: option.splits)
  obtain src dst where sd: "tuple_ends (conn_tuple fs c) dir = (src, dst)" by (cases "tuple_ends (conn_tuple fs c) dir")
  then have "endpoints ?st dir = (src, dst)" by (simp only: endpoints_tuple t)
  then have "fst (synth_data fs c dir bs seq_off ts) =
      segments_from (fs_cfg fs) src dst (SYNTH_ISN + ucast seq_off) bs ts 0"
    using False by (simp add: synth_data_def Let_def)
  then show ?thesis using segments_in_order[of 0 bs] by (simp add: sd)
qed (simp add: synth_data_def)

lemma decoded_process: "decoded (r\<lparr>raw_process := pr\<rparr>) = map_option (\<lambda>p. p\<lparr>process := pr\<rparr>) (decoded r)"
  by (auto simp: decoded_def is_heartbeat_def split: sum.splits)

lemma on_packet_heartbeat: "on_packet t f = (hb, t') \<Longrightarrow> frame_packets (case_option [] (\<lambda>x. [x]) hb) = []"
  by (auto simp: on_packet_def Let_def decoded_def heartbeat_is_heartbeat split: if_splits)

lemma interleave_packets:
  "frame_packets (fst (interleave_heartbeats pr t frames)) = map (\<lambda>p. p\<lparr>process := pr\<rparr>) (frame_packets frames)"
proof (induction frames arbitrary: t)
  case (Cons f frames)
  obtain hb t1 where "on_packet t f = (hb, t1)" by (cases "on_packet t f")
  then show ?case
    using Cons.IH[of t1] on_packet_heartbeat[of t f hb t1]
    by (simp add: split_beta decoded_process split: option.splits)
qed simp

section \<open>Runs of the source\<close>

text \<open>The records the drain loop takes from the ring, each with the packets made of it.\<close>

fun source_run ::
  "(u32 \<Rightarrow> string option) \<Rightarrow> RawSslEvent list \<Rightarrow> exe_cache \<Rightarrow> EbpfPump \<Rightarrow> (RawSslEvent \<times> RawPacket list) list" where
  "source_run read_link [] cache p = []"
| "source_run read_link (e # es) cache p =
     (case decode_event read_link e cache of
        (None, cache') \<Rightarrow> (e, []) # source_run read_link es cache' p
      | (Some ev, cache') \<Rightarrow>
          (let (out, p') = on_event p ev in (e, out) # source_run read_link es cache' p'))"

lemma send_frames_sends:
  "send_frames hash pkts s = (True, s') \<Longrightarrow>
    es_txs s' = sends hash pkts (es_txs s) \<and> es_pump s' = es_pump s \<and> es_cache s' = es_cache s"
  by (induction pkts arbitrary: s)
    (auto simp: split_beta Let_def split: if_splits)

text \<open>The drain loop sends exactly these packets, in order, unless a channel is closed.\<close>

lemma drain_ring_sends:
  "drain_ring read_link hash items s = (True, s') \<Longrightarrow>
    es_txs s' = sends hash (concat (map snd (source_run read_link items (es_cache s) (es_pump s)))) (es_txs s)"
proof (induction items arbitrary: s)
  case (Cons item items)
  obtain r cache where d: "decode_event read_link item (es_cache s) = (r, cache)" by fastforce
  show ?case
  proof (cases r)
    case None
    then show ?thesis using Cons.prems d Cons.IH by fastforce
  next
    case (Some ev)
    obtain pkts pump' where o: "on_event (es_pump s) ev = (pkts, pump')" by fastforce
    let ?m = "case ev of Data _ _ _ _ _ bs _ _ \<Rightarrow>
        metric_add EbpfBytesCaptured (of_nat (length bs)) (metric_inc EbpfEventsReceived (es_metrics s))
      | _ \<Rightarrow> metric_inc EbpfEventsReceived (es_metrics s)"
    let ?s1 = "s\<lparr>es_pump := pump', es_cache := cache, es_metrics := ?m\<rparr>"
    obtain ok s2 where sf: "send_frames hash pkts ?s1 = (ok, s2)" by fastforce
    have ok: "ok" "drain_ring read_link hash items s2 = (True, s')"
      using Cons.prems d Some o sf by (auto simp: Let_def split: if_splits)
    have "es_txs s2 = sends hash pkts (es_txs s)" "es_pump s2 = pump'" "es_cache s2 = cache"
      using send_frames_sends[of hash pkts ?s1 s2] sf ok(1) by auto
    then show ?thesis using Cons.IH[OF ok(2)] d Some o by simp
  qed
qed auto

definition conn_packets :: "u64 \<Rightarrow> StreamDir \<Rightarrow> (RawSslEvent \<times> RawPacket list) list \<Rightarrow> ParsedPacket list" where
  "conn_packets c dir xs = frame_packets (concat (map snd (filter (\<lambda>x. raw_data_of c dir (fst x)) xs)))"

lemma synth_data_keeps:
  "conn_tuple (snd (synth_data fs c' dir bs off ts)) c = conn_tuple fs c \<and>
   fs_cfg (snd (synth_data fs c' dir bs off ts)) = fs_cfg fs"
  by (auto simp: synth_data_def conn_tuple_def generation_def Let_def split_beta update_conv'
      split: option.splits)

lemma synth_close_keeps:
  "c' \<noteq> c \<Longrightarrow> conn_tuple (snd (synth_close fs c' ts)) c = conn_tuple fs c \<and>
   fs_cfg (snd (synth_close fs c' ts)) = fs_cfg fs"
  by (auto simp: synth_close_def conn_tuple_def generation_def Let_def split_beta update_conv' delete_conv'
      split: option.splits)

text \<open>The state of the pump a connection depends on.\<close>

definition pump_keeps :: "u64 \<Rightarrow> EbpfPump \<Rightarrow> EbpfPump \<Rightarrow> bool" where
  "pump_keeps c p p' \<longleftrightarrow> conn_tuple (ep_synth p') c = conn_tuple (ep_synth p) c
     \<and> fs_cfg (ep_synth p') = fs_cfg (ep_synth p) \<and> pid_allowlist p' = pid_allowlist p"

definition raw_allowed :: "EbpfPump \<Rightarrow> RawSslEvent \<Rightarrow> bool" where
  "raw_allowed p e \<longleftrightarrow> pid_allowlist p = [] \<or> rs_pid e \<in> set (pid_allowlist p)"

lemma on_event_keeps:
  assumes "decode_event read_link e cache = (Some ev, cache')" "\<not> raw_closes c e"
  shows "pump_keeps c p (snd (on_event p ev))"
  using assms synth_data_keeps synth_close_keeps
  by (auto simp: decode_event_def on_event_def pump_keeps_def raw_closes_def Let_def split_beta
      split: if_splits)

lemma event_packets:
  assumes "raw_data_of c dir e" "raw_ok e" "raw_allowed p e"
  shows "\<exists>ev cache'. decode_event read_link e cache = (Some ev, cache') \<and>
    in_order (wire_direction (tuple_ends (conn_tuple (ep_synth p) c) dir)) (SYNTH_ISN + ucast (rs_seq_off e))
      (frame_packets (fst (on_event p ev))) (rs_data e) \<and>
    (\<forall>q\<in>set (frame_packets (fst (on_event p ev))).
       flow_key q = wire_key (sy_source_id (fs_cfg (ep_synth p))) (tuple_ends (conn_tuple (ep_synth p) c) dir))"
proof -
  obtain ex cache' where ex: "resolve_exe read_link (rs_pid e) cache = (ex, cache')" by fastforce
  let ?ev = "Data c (rs_pid e) (comm_to_string (rs_comm e)) ex dir (rs_data e) (rs_seq_off e) (rs_ktime_ns e)"
  have dec: "decode_event read_link e cache = (Some ?ev, cache')"
    using assms(1,2) ex by (cases dir)
      (auto simp: decode_event_def raw_data_of_def raw_ok_def dir_kind_def DATA_WRITE_def DATA_READ_def CLOSE_def)
  have "\<not> pid_dropped p ?ev" using assms(3) by (auto simp: pid_dropped_def raw_allowed_def)
  then have "frame_packets (fst (on_event p ?ev)) = map (\<lambda>q. q\<lparr>process := ev_process ?ev\<rparr>)
      (frame_packets (fst (synth_data (ep_synth p) c dir (rs_data e) (rs_seq_off e)
         (ktime_to_epoch_us (ep_clock p) (rs_ktime_ns e)))))"
    by (simp add: on_event_def Let_def split_beta interleave_packets)
  then show ?thesis
    using dec synth_data_packets[of "ep_synth p" c dir "rs_seq_off e" "rs_data e"
        "ktime_to_epoch_us (ep_clock p) (rs_ktime_ns e)"]
    by (intro exI[of _ ?ev] exI[of _ cache']) (auto simp: in_order_process)
qed

definition conn_direction :: "EbpfPump \<Rightarrow> u64 \<Rightarrow> StreamDir \<Rightarrow> Direction" where
  "conn_direction p c dir = wire_direction (tuple_ends (conn_tuple (ep_synth p) c) dir)"

lemma conn_direction_keeps: "pump_keeps c p p' \<Longrightarrow> conn_direction p' c dir = conn_direction p c dir"
  by (simp add: conn_direction_def pump_keeps_def)

lemma raw_allowed_keeps: "pump_keeps c p p' \<Longrightarrow> raw_allowed p' e = raw_allowed p e"
  by (simp add: raw_allowed_def pump_keeps_def)

lemma conn_packets_simps [simp]:
  "conn_packets c dir [] = []"
  "conn_packets c dir ((e, out) # xs) =
     (if raw_data_of c dir e then frame_packets out else []) @ conn_packets c dir xs"
  by (simp_all add: conn_packets_def)

lemma ucast_seq_off: "(ucast (of_nat n :: u64) :: u32) = of_nat n"
  by transfer (simp add: take_bit_take_bit)

lemma cut_from_trans:
  assumes "cut_from S off bs" "cut_from bs off' cs"
  shows "cut_from S (off + off') cs"
proof -
  have len: "off + length bs \<le> length S" "off' + length cs \<le> length bs"
    using assms by (auto simp: cut_from_def)
  define m where "m = length bs"
  have m: "length bs = m" "bs = take m (drop off S)" using assms(1) by (simp_all add: m_def cut_from_def)
  have "take (length cs) (drop off' bs) = take (length cs) (drop (off + off') S)"
    using len unfolding m(1) by (simp add: m(2) drop_take min_def add.commute)
  then show ?thesis using assms(2) len by (simp add: cut_from_def)
qed

text \<open>Whatever becomes of a record, the rest of the run starts from a pump that treats the connection alike.\<close>

lemma source_run_Cons:
  assumes "\<not> raw_closes c e"
  shows "\<exists>out cache' p'. source_run read_link (e # es) cache p = (e, out) # source_run read_link es cache' p'
    \<and> pump_keeps c p p'
    \<and> (raw_data_of c dir e \<and> raw_ok e \<and> raw_allowed p e \<longrightarrow>
         in_order (conn_direction p c dir) (SYNTH_ISN + ucast (rs_seq_off e)) (frame_packets out) (rs_data e))"
proof (cases "fst (decode_event read_link e cache)")
  case None
  then have "\<not> (raw_data_of c dir e \<and> raw_ok e \<and> raw_allowed p e)"
    using event_packets[of c dir e p read_link cache] by auto
  then show ?thesis
    using None by (cases "decode_event read_link e cache") (auto simp: pump_keeps_def)
next
  case (Some ev)
  then obtain cache' where d: "decode_event read_link e cache = (Some ev, cache')"
    by (cases "decode_event read_link e cache") auto
  show ?thesis
    using on_event_keeps[OF d assms, of p] d event_packets[of c dir e p read_link cache]
    by (intro exI[of _ "fst (on_event p ev)"] exI[of _ cache'] exI[of _ "snd (on_event p ev)"])
      (auto simp: split_beta Let_def conn_direction_def)
qed

declare source_run.simps(2) [simp del]

lemma source_packets_cut:
  assumes "\<forall>e\<in>set evs. \<not> raw_closes c e \<and> raw_allowed p e \<and> (raw_data_of c dir e \<longrightarrow> raw_cut S e)"
  shows "list_all (\<lambda>q. direction q = conn_direction p c dir \<and> packet_of S SYNTH_ISN q)
    (conn_packets c dir (source_run read_link evs cache p))"
  using assms
proof (induction evs arbitrary: cache p)
  case (Cons e evs)
  obtain out cache' p' where r: "source_run read_link (e # evs) cache p = (e, out) # source_run read_link evs cache' p'"
    "pump_keeps c p p'" "raw_data_of c dir e \<and> raw_ok e \<and> raw_allowed p e \<longrightarrow>
      in_order (conn_direction p c dir) (SYNTH_ISN + ucast (rs_seq_off e)) (frame_packets out) (rs_data e)"
    using source_run_Cons[of c e read_link evs cache p dir] Cons.prems by auto
  have rest: "list_all (\<lambda>q. direction q = conn_direction p c dir \<and> packet_of S SYNTH_ISN q)
      (conn_packets c dir (source_run read_link evs cache' p'))"
    using Cons.IH[of p' cache'] Cons.prems r(2) by (simp add: conn_direction_keeps raw_allowed_keeps)
  have "direction q = conn_direction p c dir \<and> packet_of S SYNTH_ISN q"
    if mine: "raw_data_of c dir e" and q: "q \<in> set (frame_packets out)" for q
  proof -
    obtain off where off: "raw_ok e" "rs_seq_off e = of_nat off" "cut_from S off (rs_data e)"
      using Cons.prems mine by (auto simp: raw_cut_def)
    have "in_order (conn_direction p c dir) (SYNTH_ISN + of_nat off) (frame_packets out) (rs_data e)"
      using r(3) mine off Cons.prems by (simp add: ucast_seq_off)
    from in_order_cut[OF this q] obtain o' where "direction q = conn_direction p c dir"
      "wire_payload_len q = of_nat (length (payload q))" "tcp_seq q = SYNTH_ISN + of_nat off + of_nat o'"
      "cut_from (rs_data e) o' (payload q)" by auto
    moreover from this have "cut_from S (off + o') (payload q)" by (intro cut_from_trans[OF off(3)])
    ultimately show ?thesis
      by (auto simp: packet_of_def segment_of_def add.assoc intro!: exI[of _ "off + o'"])
  qed
  then show ?case using rest by (auto simp: r(1) list_all_iff)
qed simp

lemma source_packets_in_order:
  assumes "\<forall>e\<in>set evs. \<not> raw_closes c e \<and> raw_allowed p e"
    and "raw_in_order n (filter (raw_data_of c dir) evs) S"
  shows "in_order (conn_direction p c dir) (SYNTH_ISN + of_nat n)
    (conn_packets c dir (source_run read_link evs cache p)) S"
  using assms
proof (induction evs arbitrary: cache p n S)
  case (Cons e evs)
  obtain out cache' p' where r: "source_run read_link (e # evs) cache p = (e, out) # source_run read_link evs cache' p'"
    "pump_keeps c p p'" "raw_data_of c dir e \<and> raw_ok e \<and> raw_allowed p e \<longrightarrow>
      in_order (conn_direction p c dir) (SYNTH_ISN + ucast (rs_seq_off e)) (frame_packets out) (rs_data e)"
    using source_run_Cons[of c e read_link evs cache p dir] Cons.prems by auto
  note IH = Cons.IH[of p' _ _ cache', unfolded conn_direction_keeps[OF r(2)] raw_allowed_keeps[OF r(2)]]
  show ?case
  proof (cases "raw_data_of c dir e")
    case True
    then obtain zs where S: "S = rs_data e @ zs" and e: "raw_ok e" "rs_seq_off e = of_nat n"
      "raw_in_order (n + length (rs_data e)) (filter (raw_data_of c dir) evs) zs"
      using Cons.prems(2) by (auto elim: prefixE)
    have "in_order (conn_direction p c dir) (SYNTH_ISN + of_nat n) (frame_packets out) (rs_data e)"
      using r(3) True e(1,2) Cons.prems(1) by (simp add: ucast_seq_off)
    moreover have "in_order (conn_direction p c dir) (SYNTH_ISN + of_nat (n + length (rs_data e)))
        (conn_packets c dir (source_run read_link evs cache' p')) zs"
      by (rule IH) (use Cons.prems(1) e(3) in auto)
    ultimately show ?thesis using True by (simp add: r(1) S add.assoc in_order_append)
  next
    case False
    then show ?thesis using IH[of n S] Cons.prems by (simp add: r(1))
  qed
qed simp

lemma append_in_order_start:
  assumes "in_order d seq ps bs" "next_seq (dir_of d f) = Some seq \<or> next_seq (dir_of d f) = None"
    and "ooo (dir_of d f) = None"
  shows "\<exists>f'. run_steps append_payload f ps = Some f'
    \<and> dir_buf (dir_of d f') = dir_buf (dir_of d f) @ bs \<and> ooo (dir_of d f') = None"
proof (cases "next_seq (dir_of d f) = Some seq \<or> ps = []")
  case True
  then show ?thesis using append_in_order[of d seq ps bs f] assms by (cases ps) auto
next
  case False
  then obtain p qs where ps: "ps = p # qs" and none: "next_seq (dir_of d f) = None"
    using assms(2) by (cases ps) auto
  then obtain zs where bs: "bs = payload p @ zs" using assms(1) by (auto elim: prefixE)
  let ?dir = "(dir_of d f)\<lparr>last_data_ts := timestamp_us p, dir_buf := dir_buf (dir_of d f) @ payload p,
    next_seq := Some (seq + wire_payload_len p)\<rparr>"
  have "append_payload f p = Some (set_dir d ?dir f)"
    using none assms(1) ps by (simp add: append_payload_def Let_def)
  then show ?thesis
    using append_in_order[of d "seq + wire_payload_len p" qs zs "set_dir d ?dir f"] assms(1,3) bs ps
    by auto
qed

text \<open>Helpers that hold one buffer at one address, and a short run on two connections.\<close>

definition sample_helpers :: "u64 \<Rightarrow> bytes \<Rightarrow> bpf_helpers" where
  "sample_helpers buf bs =
     \<lparr>bh_reserve = (\<lambda>q. True), bh_insert_off = AList.update, bh_insert_args = AList.update,
      bh_read_user = (\<lambda>a n. take (unat n) (drop (unat (a - buf)) bs)),
      bh_pid_tgid = 0x100000001, bh_ktime = (\<lambda>start. 5000), bh_comm = [110, 0]\<rparr>"

lemma sample_helpers_ok:
  assumes "length bs < 2 ^ 32"
  shows "maps_have_room (sample_helpers buf bs)" "buffer_holds (sample_helpers buf bs) buf bs"
proof -
  show "maps_have_room (sample_helpers buf bs)"
    by (simp add: maps_have_room_def sample_helpers_def update_conv')
  have "unat (of_nat start :: u64) = start" "unat (of_nat n :: u32) = n" if "start + n \<le> length bs" for start n
    using that assms by (simp_all add: unsigned_of_nat take_bit_nat_eq_self)
  then show "buffer_holds (sample_helpers buf bs) buf bs"
    by (simp add: buffer_holds_def sample_helpers_def)
qed

definition sample_tls :: "tls_op list" where
  "sample_tls = [Transfer (sample_helpers 16 [71, 69]) ClientToServer 7 16 [71, 69],
     Transfer (sample_helpers 32 [72]) ServerToClient 7 32 [72], Hangup (sample_helpers 16 []) 9,
     Transfer (sample_helpers 16 [84]) ClientToServer 7 16 [84]]"

definition sample_bpf :: bpf_state where
  "sample_bpf = \<lparr>bs_events = [], bs_read_args = [], bs_write_off = [], bs_read_off = []\<rparr>"

definition sample_pump :: EbpfPump where
  "sample_pump = EbpfPump_new SynthConfig_default \<lparr>offset_us = 0\<rparr> []"

lemma sample_tls_facts:
  "list_all (tls_op_ok 7) sample_tls" "plain_stream 7 ClientToServer sample_tls = [71, 69, 84]"
  "list_all op_room sample_tls"
  "list_all (\<lambda>op. length (op_bytes 7 ClientToServer op) \<le> 8 * DATA_CAP) sample_tls"
  "stream_off sample_bpf 7 w = 0" "bs_events sample_bpf = []" "raw_allowed sample_pump e"
  by (simp_all add: sample_tls_def sample_helpers_ok sample_helpers_def sample_bpf_def sample_pump_def
      stream_off_def raw_allowed_def EbpfPump_new_def DATA_CAP_def sample_helpers_ok(1)[unfolded sample_helpers_def]
      sample_helpers_ok(2)[unfolded sample_helpers_def])

lemma sample_pump_direction: "conn_direction sample_pump 7 ClientToServer = AtoB"
  by code_simp

section \<open>Properties\<close>

text \<open>C19: The plaintext of a connection crosses the whole path whole: an application writes (or
  reads) any number of buffers of at most 256 KiB on a connection, interleaved with its other
  connections and directions and with closes of the others; when the ring has room and the drain
  loop takes the records in order, the packets made of the connection's records, decoded and
  appended, leave exactly the concatenation of the buffers, both on a flow that saw the
  handshake and on one that starts at the first packet.\<close>

theorem ebpf_stream_reassembled:
  assumes "list_all (tls_op_ok c) ops" and "list_all op_room ops"
    and "list_all (\<lambda>op. length (op_bytes c dir op) \<le> 8 * DATA_CAP) ops"
    and "stream_off st c (dir = ClientToServer) = 0" and "bs_events st = []"
    and "\<forall>e\<in>set (bs_events (tls_run ops st)). raw_allowed p e"
    and "next_seq (dir_of (conn_direction p c dir) f) \<in> {None, Some SYNTH_ISN}"
    and "ooo (dir_of (conn_direction p c dir) f) = None"
  shows "\<exists>f'. run_steps append_payload f
        (conn_packets c dir (source_run read_link (bs_events (tls_run ops st)) cache p)) = Some f'
    \<and> dir_buf (dir_of (conn_direction p c dir) f') =
        dir_buf (dir_of (conn_direction p c dir) f) @ plain_stream c dir ops"
proof -
  obtain es where "filter (raw_data_of c dir) (bs_events (tls_run ops st)) = es"
    "raw_in_order 0 es (plain_stream c dir ops)"
    using run_in_order[OF assms(1,2,3), of st 0] assms(4,5) by auto
  moreover have "\<forall>e\<in>set (bs_events (tls_run ops st)). \<not> raw_closes c e \<and> raw_allowed p e"
    using run_no_close[OF assms(1)] assms(5,6) by fastforce
  ultimately have "in_order (conn_direction p c dir) (SYNTH_ISN + of_nat 0)
      (conn_packets c dir (source_run read_link (bs_events (tls_run ops st)) cache p)) (plain_stream c dir ops)"
    by (intro source_packets_in_order) simp_all
  then have "in_order (conn_direction p c dir) SYNTH_ISN
      (conn_packets c dir (source_run read_link (bs_events (tls_run ops st)) cache p)) (plain_stream c dir ops)"
    by simp
  from append_in_order_start[OF this, of f] show ?thesis using assms(7,8) by auto
qed

theorem ebpf_stream_reassembled_witness:
  "\<exists>f'. run_steps append_payload (sample_flow 1)
        (conn_packets 7 ClientToServer
          (source_run (\<lambda>q. None) (bs_events (tls_run sample_tls sample_bpf)) [] sample_pump)) = Some f'
    \<and> dir_buf (dir_of AtoB f') = dir_buf (dir_of AtoB (sample_flow 1)) @ [71, 69, 84]"
  using ebpf_stream_reassembled[OF sample_tls_facts(1,3,4), of sample_bpf sample_pump "sample_flow 1" "\<lambda>q. None" "[]"]
  by (simp add: sample_tls_facts sample_pump_direction SYNTH_ISN_def)

lemma new_flow_dir: "dir_of d (TcpFlow_new k) = DirState_new"
  by (cases d) (simp_all add: dir_of_def TcpFlow_new_def)

text \<open>C20: Loss leaves a gap and never splices: whatever records the full ring refused, however long
  the buffers, and in whatever order or how often the remaining records are taken, what the
  flow assembles is one contiguous part of the true plaintext of the connection (below
  \<^verbatim>\<open>2^31\<close> bytes). It begins at byte 0 when the flow saw the synthesized handshake; when it did not, as with
  the source that \<^verbatim>\<open>source.rs\<close> builds, which emits none, it begins at the first record that was
  taken, so that a lost first record moves the beginning.\<close>

theorem ebpf_loss_never_splices:
  assumes "list_all (tls_op_ok c) ops"
    and "stream_off st c (dir = ClientToServer) = 0" and "bs_events st = []"
    and "length (plain_stream c dir ops) < 2 ^ 31"
    and "set evs \<subseteq> set (bs_events (tls_run ops st))"
    and "\<forall>e\<in>set evs. raw_allowed p e"
    and "next_seq (dir_of (conn_direction p c dir) f) \<in> {None, Some SYNTH_ISN}"
    and "ooo (dir_of (conn_direction p c dir) f) = None"
    and "pkts = conn_packets c dir (source_run read_link evs cache p)"
    and "k = (if next_seq (dir_of (conn_direction p c dir) f) = None \<and> pkts \<noteq> []
              then key_off SYNTH_ISN (tcp_seq (hd pkts)) else 0)"
  shows "\<exists>f' n. run_steps append_payload f pkts = Some f'
    \<and> k \<le> n \<and> n \<le> length (plain_stream c dir ops)
    \<and> dir_buf (dir_of (conn_direction p c dir) f') =
        dir_buf (dir_of (conn_direction p c dir) f) @ drop k (take n (plain_stream c dir ops))"
proof -
  let ?S = "plain_stream c dir ops"
  have "\<forall>e\<in>set (bs_events (tls_run ops st)). raw_data_of c dir e \<longrightarrow> raw_cut ?S e"
    using run_cut[OF assms(1), of st dir "[]"] assms(2,3) by simp
  then have "list_all (\<lambda>q. direction q = conn_direction p c dir \<and> packet_of ?S SYNTH_ISN q) pkts"
    unfolding assms(9) using assms(3,5,6) run_no_close[OF assms(1), of _ st]
    by (intro source_packets_cut) fastforce
  then show ?thesis
    using append_payloads_start[OF assms(4) _ assms(7,8)] by (simp add: assms(10) start_off_def)
qed

text \<open>The first record of the client is lost and the others come in reverse, on a new flow.\<close>

definition sample_loss :: "ParsedPacket list" where
  "sample_loss = conn_packets 7 ClientToServer
     (source_run (\<lambda>q. None) (rev (drop 1 (bs_events (tls_run sample_tls sample_bpf)))) [] sample_pump)"

theorem ebpf_loss_never_splices_witness:
  "\<exists>f' n. run_steps append_payload (TcpFlow_new sample_key :: unit TcpFlow) sample_loss = Some f'
    \<and> start_off DirState_new SYNTH_ISN sample_loss \<le> n \<and> n \<le> length [71, 69, 84 :: u8]
    \<and> dir_buf (dir_of AtoB f') = drop (start_off DirState_new SYNTH_ISN sample_loss) (take n [71, 69, 84])"
proof -
  have k: "start_off DirState_new SYNTH_ISN sample_loss =
      (if next_seq (dir_of (conn_direction sample_pump 7 ClientToServer) (TcpFlow_new sample_key :: unit TcpFlow)) = None
         \<and> sample_loss \<noteq> [] then key_off SYNTH_ISN (tcp_seq (hd sample_loss)) else 0)"
    by (simp add: start_off_def new_flow_dir)
  show ?thesis
    using ebpf_loss_never_splices[OF sample_tls_facts(1) _ _ _ _ _ _ _ sample_loss_def k, of sample_bpf]
    by (simp add: sample_tls_facts sample_pump_direction new_flow_dir set_drop_subset) (simp add: DirState_new_def)
qed

text \<open>A call longer than 256 KiB: no chunk carries a byte past the eighth 32 KiB, while the offset of
  the next call is past the whole buffer, so that the bytes after stay behind a gap.\<close>

theorem long_write_leaves_gap:
  assumes "tls_op_ok c (Transfer h d c buf bs)" "8 * DATA_CAP < length bs"
    and "stream_off st c (d = ClientToServer) = of_nat n" "bs_events st = []"
  shows "stream_off (tls_step (Transfer h d c buf bs) st) c (d = ClientToServer) = of_nat (n + length bs)
    \<and> (\<forall>e\<in>set (bs_events (tls_step (Transfer h d c buf bs) st)).
        \<exists>off. rs_seq_off e = of_nat off \<and> off + length (rs_data e) \<le> n + 8 * DATA_CAP)"
proof -
  obtain es where es: "bs_events (tls_step (Transfer h d c buf bs) st) = bs_events st @ es"
    "\<forall>c' w. stream_off (tls_step (Transfer h d c buf bs) st) c' w =
         stream_off st c' w + (if c' = c \<and> w = (d = ClientToServer) then of_nat (length bs) else 0)"
    "set es \<subseteq> set (chunk_events h (dir_kind d) c (stream_off st c (d = ClientToServer)) bs)"
    using transfer_effect[OF assms(1), of st] by blast
  have "\<exists>off. rs_seq_off e = of_nat off \<and> off + length (rs_data e) \<le> n + 8 * DATA_CAP" if e: "e \<in> set es" for e
  proof -
    obtain i where i: "i < 8" "e = chunk_event h (dir_kind d) c (of_nat n) i (chunk_data bs i)"
      using e es(3) assms(3) by (auto simp: chunk_events_def)
    have "i * DATA_CAP + length (chunk_data bs i) \<le> i * DATA_CAP + DATA_CAP" by (simp add: chunk_data_def)
    also have "\<dots> \<le> 8 * DATA_CAP" using i(1) mult_le_mono1[of "Suc i" 8 DATA_CAP] by simp
    finally show ?thesis using i(2) by (intro exI[of _ "n + i * DATA_CAP"]) (simp add: chunk_event_def)
  qed
  then show ?thesis using es(1,2) assms(3,4) by simp
qed

text \<open>A connection announced again without a tuple after its pointer was closed gets the tuple of
  generation 0, the one of the first connection on that pointer.\<close>

theorem reconnect_reuses_tuple:
  "conn_tuple (snd (event_frames (snd (synth_close fs c t)) (Connect c q nm ex None k) t')) c =
    synthetic_tuple_gen c 0"
  by (simp add: synth_open_def synthetic_tuple_def conn_tuple_def update_conv' Let_def split_beta)

end
