(* ===== verification/Calendar.thy ===== *)
theory Calendar
  imports Llm
begin

text \<open>
  The minute labels of \<^verbatim>\<open>server/h-capture/src/pcap_dump.rs\<close>: days to civil dates and back
  (Hinnant's algorithms), \<open>minute_label\<close> and its strict inverse \<open>parse_minute_label\<close>, and the path
  sanitiser of \<^verbatim>\<open>server/h-common/src/path.rs\<close>. Integers of the algorithms are \<open>int\<close>: Rust's
  \<open>/\<close> on a non-negative dividend is \<open>div\<close>, and the two dividends that may be negative are shifted
  first, as in the code. An unsigned difference that would go below zero panics or wraps in
  Rust; \<open>year_of_day\<close> shows that none does.
\<close>

section \<open>Civil dates\<close>

text \<open>Rust's division of signed integers truncates towards zero.\<close>

definition tdiv :: "int \<Rightarrow> int \<Rightarrow> int" where
  "tdiv a b = sgn a * sgn b * (\<bar>a\<bar> div \<bar>b\<bar>)"

definition ymd_to_days :: "int \<Rightarrow> int \<Rightarrow> int \<Rightarrow> int" where
  "ymd_to_days y0 m d =
     (let y = (if m \<le> 2 then y0 - 1 else y0);
          era = tdiv (if y \<ge> 0 then y else y - 399) 400;
          yoe = y - era * 400;
          m_shift = (if m > 2 then m - 3 else m + 9);
          doy = (153 * m_shift + 2) div 5 + d - 1;
          doe = yoe * 365 + yoe div 4 - yoe div 100 + doy
      in era * 146097 + doe - 719468)"

definition days_to_ymd :: "int \<Rightarrow> int \<times> int \<times> int" where
  "days_to_ymd days =
     (let z = days + 719468;
          era = tdiv (if z \<ge> 0 then z else z - 146096) 146097;
          doe = z - era * 146097;
          yoe = (doe - doe div 1460 + doe div 36524 - doe div 146096) div 365;
          y = yoe + era * 400;
          doy = doe - (365 * yoe + yoe div 4 - yoe div 100);
          mp = (5 * doy + 2) div 153;
          d = doy - (153 * mp + 2) div 5 + 1;
          m = (if mp < 10 then mp + 3 else mp - 9)
      in (if m \<le> 2 then y + 1 else y, m, d))"

text \<open>The shifted truncating division is the floor.\<close>

lemma tdiv_floor:
  assumes "0 < b" "k = b - 1" shows "tdiv (if a \<ge> 0 then a else a - k) b = a div b"
proof (cases "a \<ge> 0")
  case True
  then show ?thesis using assms by (cases "a = 0") (simp_all add: tdiv_def)
next
  case False
  have r: "0 \<le> a mod b" "a mod b < b" using assms by simp_all
  have "b - 1 - a = b * (- (a div b)) + (b - 1 - a mod b)"
    using minus_mult_div_eq_mod[of a b] by (simp add: algebra_simps)
  then have "(b - 1 - a) div b = - (a div b)" by (rule int_div_pos_eq) (use r in linarith)+
  then show ?thesis using False assms by (simp add: tdiv_def)
qed

section \<open>The year of a day within an era of 400 years\<close>

definition era_ticks :: "int \<Rightarrow> int" where
  "era_ticks n = n - n div 1460 + n div 36524 - n div 146096"

definition year_start :: "int \<Rightarrow> int" where
  "year_start y = 365 * y + y div 4 - y div 100"

lemma div_step:
  assumes "0 < (b :: int)"
  shows "(n + 1) div b = n div b \<or> (n + 1) div b = n div b + 1" "(n + 1) div b \<le> n div b + 1"
proof -
  have "n div b \<le> (n + 1) div b" "(n + 1) div b \<le> (n + b) div b"
    using assms by (intro zdiv_mono1; simp)+
  moreover have "(n + b) div b = n div b + 1" using assms by (subst div_add_self2) simp_all
  ultimately show "(n + 1) div b = n div b \<or> (n + 1) div b = n div b + 1" "(n + 1) div b \<le> n div b + 1"
    by linarith+
qed

lemma era_ticks_step: "era_ticks n \<le> era_ticks (n + 1)"
proof -
  let ?q = "n div 36524" and ?q' = "(n + 1) div 36524"
  have four: "n div 146096 = ?q div 4" "(n + 1) div 146096 = ?q' div 4"
    using zdiv_zmult2_eq[of 4 n 36524] zdiv_zmult2_eq[of 4 "n + 1" 36524] by simp_all
  have "?q' = ?q \<or> ?q' = ?q + 1" by (rule div_step) simp
  moreover have "(?q + 1) div 4 \<le> ?q div 4 + 1" by (rule div_step) simp
  ultimately have "?q' div 4 - ?q div 4 \<le> ?q' - ?q" by (elim disjE) simp_all
  moreover have "(n + 1) div 1460 \<le> n div 1460 + 1" by (rule div_step) simp
  ultimately show ?thesis unfolding era_ticks_def four by linarith
qed

lemma era_ticks_mono: "m \<le> n \<Longrightarrow> era_ticks m \<le> era_ticks n"
  by (induction n rule: int_ge_induct) (use era_ticks_step order_trans in blast)+

definition year_ok :: "int \<Rightarrow> bool" where
  "year_ok y \<longleftrightarrow> 365 * y \<le> era_ticks (year_start y) \<and>
     era_ticks (if y = 399 then 146096 else year_start (y + 1) - 1) < 365 * (y + 1)"

fun years_ok :: "nat \<Rightarrow> int \<Rightarrow> bool" where
  "years_ok 0 y = True"
| "years_ok (Suc n) y = (year_ok y \<and> years_ok n (y + 1))"

lemma years_ok_400: "years_ok 400 0" by code_simp

lemma years_ok_all: "years_ok n y \<Longrightarrow> y \<le> x \<Longrightarrow> x < y + int n \<Longrightarrow> year_ok x"
proof (induction n arbitrary: y)
  case (Suc n)
  then show ?case by (cases "x = y") auto
qed simp

lemma year_of_day:
  assumes "0 \<le> doe" "doe \<le> 146096"
  defines "y \<equiv> era_ticks doe div 365"
  shows "0 \<le> y" "y \<le> 399" "year_start y \<le> doe" "doe \<le> year_start y + 365"
proof -
  have ok: "year_ok x" if "0 \<le> x" "x \<le> 399" for x
    using years_ok_all[OF years_ok_400, of x] that by simp
  have y: "365 * y \<le> era_ticks doe" "era_ticks doe < 365 * (y + 1)" unfolding y_def by simp_all
  have t: "0 \<le> era_ticks doe" "era_ticks doe \<le> 145999"
    using era_ticks_mono[OF assms(1)] era_ticks_mono[OF assms(2)] by (simp_all add: era_ticks_def)
  have bounds: "0 \<le> y" "y \<le> 399" using t y by simp_all
  then show "0 \<le> y" "y \<le> 399" .
  show "year_start y \<le> doe"
  proof (rule ccontr)
    assume "\<not> year_start y \<le> doe"
    then have less: "doe \<le> year_start y - 1" by simp
    have "y \<noteq> 0" using less assms(1) by (auto simp: year_start_def)
    then have "year_ok (y - 1)" using ok bounds by simp
    then show False
      using era_ticks_mono[OF less] y(1) bounds(2) by (simp add: year_ok_def)
  qed
  show "doe \<le> year_start y + 365"
  proof (cases "y = 399")
    case True
    then show ?thesis using assms(2) by (simp add: year_start_def)
  next
    case False
    have "\<not> year_start (y + 1) \<le> doe"
    proof
      assume "year_start (y + 1) \<le> doe"
      from era_ticks_mono[OF this] have "365 * (y + 1) \<le> era_ticks doe"
        using ok[of "y + 1"] bounds False by (simp add: year_ok_def)
      then show False using y(2) by simp
    qed
    moreover have "year_start (y + 1) \<le> year_start y + 366"
      using div_step(2)[of 4 y] zdiv_mono1[of y "y + 1" 100] by (simp add: year_start_def)
    ultimately show ?thesis by simp
  qed
qed

text \<open>The parts of a date, none of which leaves its range, and the way back.\<close>

lemma date_bounds:
  assumes "days_to_ymd days = (y, m, d)"
  shows "1 \<le> m \<and> m \<le> 12 \<and> 1 \<le> d \<and> d \<le> 31 \<and> ymd_to_days y m d = days"
proof -
  define z where "z = days + 719468"
  define era where "era = z div 146097"
  define doe where "doe = z mod 146097"
  have z: "z = era * 146097 + doe" and doe: "0 \<le> doe" "doe \<le> 146096"
    by (simp_all add: era_def doe_def div_mult_mod_eq)
  define yoe where "yoe = era_ticks doe div 365"
  define doy where "doy = doe - year_start yoe"
  define mp where "mp = (5 * doy + 2) div 153"
  note yb = year_of_day[OF doe, folded yoe_def]
  have doyb: "0 \<le> doy" "doy \<le> 365" using yb by (simp_all add: doy_def)
  have mpb: "0 \<le> mp" "mp \<le> 11" using doyb unfolding mp_def by linarith+
  have tera: "tdiv (if z \<ge> 0 then z else z - 146096) 146097 = era"
    using tdiv_floor[of 146097 146096 z] by (simp add: era_def)
  have parts: "z - era * 146097 = doe"
    "(doe - doe div 1460 + doe div 36524 - doe div 146096) div 365 = yoe"
    "doe - (365 * yoe + yoe div 4 - yoe div 100) = doy"
    using z by (simp_all add: yoe_def era_ticks_def doy_def year_start_def)
  have ymd: "y = (if (if mp < 10 then mp + 3 else mp - 9) \<le> 2 then yoe + era * 400 + 1 else yoe + era * 400)"
    "m = (if mp < 10 then mp + 3 else mp - 9)" "d = doy - (153 * mp + 2) div 5 + 1"
    using assms unfolding days_to_ymd_def Let_def z_def[symmetric] tera parts mp_def[symmetric]
    by (auto simp only: prod.inject)
  have y': "(if m \<le> 2 then y - 1 else y) = yoe + era * 400" using ymd(1,2) by auto
  have m': "(if m > 2 then m - 3 else m + 9) = mp" using ymd(2) mpb by auto
  have era': "tdiv (if yoe + era * 400 \<ge> 0 then yoe + era * 400 else yoe + era * 400 - 399) 400 = era"
    using tdiv_floor[of 400 399 "yoe + era * 400"] yb(1,2) by simp
  have "ymd_to_days y m d = days"
    unfolding ymd_to_days_def Let_def y' m' era' using z_def z
    by (simp add: ymd(3) doy_def year_start_def)
  moreover have "1 \<le> d" "d \<le> 31" unfolding ymd(3) mp_def using doyb by linarith+
  moreover have "1 \<le> m" "m \<le> 12" using ymd(2) mpb by auto
  ultimately show ?thesis by simp
qed

section \<open>Minute labels\<close>

text \<open>\<open>format!("{:0w}")\<close> of an integer: the sign counts.\<close>

definition dec_str :: "nat \<Rightarrow> string" where
  "dec_str n = to_radix 20 10 n"

definition zero_pad :: "nat \<Rightarrow> int \<Rightarrow> string" where
  "zero_pad w n =
     (if n < 0 then let s = dec_str (nat (- n)) in ''-'' @ replicate (w - 1 - length s) CHR ''0'' @ s
      else let s = dec_str (nat n) in replicate (w - length s) CHR ''0'' @ s)"

definition minute_label :: "int \<Rightarrow> string" where
  "minute_label minute_key =
     (let total_secs = minute_key * 60;
          days = total_secs div 86400;
          rem = total_secs mod 86400;
          h = rem div 3600;
          m = (rem mod 3600) div 60;
          (y, mo, d) = days_to_ymd days
      in zero_pad 4 y @ zero_pad 2 mo @ zero_pad 2 d @ ''T'' @ zero_pad 2 h @ zero_pad 2 m)"

definition ascii_digit :: "char \<Rightarrow> bool" where
  "ascii_digit c \<longleftrightarrow> 48 \<le> (of_char c :: nat) \<and> (of_char c :: nat) \<le> 57"

text \<open>\<open>parse\<close> of a slice; \<open>?\<close> returns on an error.\<close>

definition slice_num :: "nat \<Rightarrow> nat \<Rightarrow> string \<Rightarrow> int option" where
  "slice_num a b s = map_option int (from_str_radix 10 (take (b - a) (drop a s)))"

definition parse_minute_label :: "string \<Rightarrow> int option" where
  "parse_minute_label s =
     (if length s \<noteq> 13 \<or> s ! 8 \<noteq> CHR ''T'' then None
      else if \<not> list_all ascii_digit (take 8 s) then None
      else if \<not> list_all ascii_digit (drop 9 s) then None
      else case slice_num 0 4 s of None \<Rightarrow> None | Some y \<Rightarrow>
           (case slice_num 4 6 s of None \<Rightarrow> None | Some mo \<Rightarrow>
           (case slice_num 6 8 s of None \<Rightarrow> None | Some d \<Rightarrow>
           (case slice_num 9 11 s of None \<Rightarrow> None | Some h \<Rightarrow>
           (case slice_num 11 13 s of None \<Rightarrow> None | Some mi \<Rightarrow>
             if \<not> (1 \<le> mo \<and> mo \<le> 12) \<or> \<not> (1 \<le> d \<and> d \<le> 31) \<or> h > 23 \<or> mi > 59 then None
             else let days = ymd_to_days y mo d in
                  if days_to_ymd days \<noteq> (y, mo, d) then None
                  else Some (days * 1440 + h * 60 + mi))))))"

text \<open>A number in exactly \<open>w\<close> decimal digits.\<close>

fun fixed_digits :: "nat \<Rightarrow> nat \<Rightarrow> string" where
  "fixed_digits 0 n = []"
| "fixed_digits (Suc w) n = fixed_digits w (n div 10) @ [digit_char (n mod 10)]"

lemma length_fixed_digits [simp]: "length (fixed_digits w n) = w"
  by (induction w arbitrary: n) auto

lemma of_digit_char: "d < 10 \<Longrightarrow> (of_char (digit_char d) :: nat) = 48 + d"
  by (simp add: digit_char_def of_char_of)

lemma digit_char_digit:
  assumes "d < 10"
  shows "ascii_digit (digit_char d)" "digit_val 10 (digit_char d) = Some d" "digit_char d \<noteq> CHR ''+''"
proof -
  have "(of_char CHR ''+'' :: nat) = 43" by simp
  then show "ascii_digit (digit_char d)" "digit_val 10 (digit_char d) = Some d" "digit_char d \<noteq> CHR ''+''"
    using of_digit_char[OF assms] assms by (auto simp: ascii_digit_def digit_val_def)
qed

lemma digit_char_of_val:
  assumes "ascii_digit c" shows "\<exists>d<10. c = digit_char d \<and> digit_val 10 c = Some d"
proof -
  let ?d = "(of_char c :: nat) - 48"
  have d: "?d < 10" using assms by (auto simp: ascii_digit_def)
  have "(of_char (digit_char ?d) :: nat) = of_char c" using of_digit_char[OF d] assms by (simp add: ascii_digit_def)
  then have "digit_char ?d = c" by (simp only: of_char_eq_iff)
  then show ?thesis using digit_char_digit(2)[OF d] d by (intro exI[of _ ?d]) simp
qed

lemma fixed_digits_0: "fixed_digits w 0 = replicate w CHR ''0''"
proof (induction w)
  case (Suc w)
  have "(of_char (digit_char 0) :: nat) = of_char CHR ''0''" by (simp add: of_digit_char)
  then have "digit_char 0 = CHR ''0''" by (simp only: of_char_eq_iff)
  then show ?case using Suc by (simp add: replicate_append_same)
qed simp

lemma to_radix_fixed:
  "n < 10 ^ w \<Longrightarrow> 0 < w \<Longrightarrow> w \<le> fuel \<Longrightarrow>
    length (to_radix fuel 10 n) \<le> w \<and>
    replicate (w - length (to_radix fuel 10 n)) CHR ''0'' @ to_radix fuel 10 n = fixed_digits w n"
proof (induction w arbitrary: fuel n)
  case (Suc w)
  then obtain fuel' where fuel: "fuel = Suc fuel'" by (cases fuel) auto
  show ?case
  proof (cases "n < 10")
    case True
    then show ?thesis by (simp add: fuel fixed_digits_0)
  next
    case False
    then have w: "0 < w" using Suc.prems(1) by (cases w) auto
    have "n div 10 < 10 ^ w" using Suc.prems(1) by (simp add: less_mult_imp_div_less mult.commute)
    then have "length (to_radix fuel' 10 (n div 10)) \<le> w \<and>
        replicate (w - length (to_radix fuel' 10 (n div 10))) CHR ''0'' @ to_radix fuel' 10 (n div 10) =
          fixed_digits w (n div 10)"
      using Suc.IH[of "n div 10" fuel'] w Suc.prems(3) fuel by simp
    then show ?thesis using False by (simp add: fuel)
  qed
qed simp

lemma zero_pad_fixed:
  assumes "0 \<le> n" "n < 10 ^ w" "0 < w" "w \<le> 20"
  shows "zero_pad w n = fixed_digits w (nat n)"
proof -
  have "nat n < 10 ^ w" using assms(1,2) by (simp add: nat_less_iff)
  then show ?thesis using to_radix_fixed[of "nat n" w 20] assms by (simp add: zero_pad_def dec_str_def Let_def)
qed

lemma fixed_digits_value: "digits_value 10 0 (fixed_digits w n) = Some (n mod 10 ^ w)"
proof (induction w arbitrary: n)
  case (Suc w)
  have "n mod (10 * 10 ^ w) = 10 * (n div 10 mod 10 ^ w) + n mod 10" by (rule mod_mult2_eq)
  then show ?case
    by (simp only: fixed_digits.simps digits_value_append Suc.IH option.case digits_value.simps
        digit_char_digit(2) pos_mod_bound mod_less_divisor zero_less_numeral power_Suc option.inject)
qed simp

lemma fixed_digits_ascii: "list_all ascii_digit (fixed_digits w n)"
  by (induction w arbitrary: n) (simp_all add: digit_char_digit(1))

lemma ascii_not_plus: "ascii_digit c \<Longrightarrow> c \<noteq> CHR ''+''"
  by (auto simp: ascii_digit_def)

lemma parse_digits:
  assumes "list_all ascii_digit s" "s \<noteq> []" "digits_value 10 0 s = Some n" "n < 2 ^ 64"
  shows "from_str_radix 10 s = Some n"
  using assms ascii_not_plus by (cases s) (auto simp: from_str_radix_def Let_def)

text \<open>Every string of digits is the padded print of its value.\<close>

lemma digits_fixed:
  "list_all ascii_digit s \<Longrightarrow> \<exists>n. n < 10 ^ length s \<and> digits_value 10 0 s = Some n \<and> s = fixed_digits (length s) n"
proof (induction s rule: rev_induct)
  case (snoc c s)
  obtain n where n: "n < 10 ^ length s" "digits_value 10 0 s = Some n" "s = fixed_digits (length s) n"
    using snoc by auto
  obtain d where d: "d < 10" "c = digit_char d" "digit_val 10 c = Some d"
    using snoc.prems digit_char_of_val[of c] by auto
  have "n * 10 + d < 10 ^ length (s @ [c])" using n(1) d(1) by simp
  moreover have "digits_value 10 0 (s @ [c]) = Some (n * 10 + d)"
    using n(2) d(3) by (simp add: digits_value_append)
  moreover have "(n * 10 + d) div 10 = n" "(n * 10 + d) mod 10 = d" using d(1) by simp_all
  ultimately show ?case using n(3) d(2) by (intro exI[of _ "n * 10 + d"]) simp
qed simp

lemma slice_fixed:
  assumes "s = pre @ fixed_digits w n @ post" "length pre = a" "b = a + w" "0 < w" "w \<le> 4" "n < 10 ^ w"
  shows "slice_num a b s = Some (int n)"
proof -
  have "(10 :: nat) ^ w \<le> 10 ^ 4" using assms(5) by (intro power_increasing) auto
  then have "from_str_radix 10 (fixed_digits w n) = Some n"
    using assms(4,6) fixed_digits_value[of w n]
    by (intro parse_digits) (auto simp: fixed_digits_ascii simp flip: length_0_conv)
  then show ?thesis using assms(1-3) by (simp add: slice_num_def)
qed

lemma slice_digits:
  assumes "list_all ascii_digit (take (b - a) (drop a s))" "b - a = w" "b \<le> length s" "a < b" "w \<le> 4"
  shows "\<exists>n < 10 ^ w. slice_num a b s = Some (int n) \<and> take w (drop a s) = fixed_digits w n"
proof -
  let ?t = "take (b - a) (drop a s)"
  have len: "length ?t = w" using assms(2-4) by simp
  obtain n where n: "n < 10 ^ length ?t" "digits_value 10 0 ?t = Some n" "?t = fixed_digits (length ?t) n"
    using digits_fixed[OF assms(1)] by blast
  have "n < 10 ^ w" using n(1) len by simp
  moreover have "(10 :: nat) ^ w \<le> 10 ^ 4" using assms(5) by (intro power_increasing) auto
  moreover have "?t \<noteq> []" using len assms(2,4) by auto
  ultimately have "from_str_radix 10 ?t = Some n"
    using parse_digits[OF assms(1) _ n(2)] by simp
  then show ?thesis using n len assms(2) by (intro exI[of _ n]) (simp add: slice_num_def)
qed

text \<open>The label and its parts.\<close>

definition label_of :: "nat \<Rightarrow> nat \<Rightarrow> nat \<Rightarrow> nat \<Rightarrow> nat \<Rightarrow> string" where
  "label_of y mo d h mi = fixed_digits 4 y @ fixed_digits 2 mo @ fixed_digits 2 d @ ''T''
     @ fixed_digits 2 h @ fixed_digits 2 mi"

lemma label_slices:
  assumes "y < 10000" "mo < 100" "d < 100" "h < 100" "mi < 100"
  shows "slice_num 0 4 (label_of y mo d h mi) = Some (int y)" "slice_num 4 6 (label_of y mo d h mi) = Some (int mo)"
    "slice_num 6 8 (label_of y mo d h mi) = Some (int d)" "slice_num 9 11 (label_of y mo d h mi) = Some (int h)"
    "slice_num 11 13 (label_of y mo d h mi) = Some (int mi)"
  by (rule slice_fixed[where w = 4 and pre = "[]"];
      use assms in \<open>simp add: label_of_def\<close>)
    (rule slice_fixed[where w = 2 and pre = "fixed_digits 4 y"]
          slice_fixed[where w = 2 and pre = "fixed_digits 4 y @ fixed_digits 2 mo"]
          slice_fixed[where w = 2 and pre = "fixed_digits 4 y @ fixed_digits 2 mo @ fixed_digits 2 d @ ''T''"]
          slice_fixed[where w = 2 and pre = "fixed_digits 4 y @ fixed_digits 2 mo @ fixed_digits 2 d @ ''T'' @ fixed_digits 2 h"],
      (use assms in \<open>simp add: label_of_def; fail\<close>)+)+

definition label_year :: "int \<Rightarrow> int" where
  "label_year k = fst (days_to_ymd (k * 60 div 86400))"

lemma minute_label_parts:
  assumes "0 \<le> label_year k" "label_year k \<le> 9999"
  shows "\<exists>y mo d h mi. minute_label k = label_of y mo d h mi \<and> y < 10000 \<and> 1 \<le> mo \<and> mo \<le> 12
    \<and> 1 \<le> d \<and> d \<le> 31 \<and> h \<le> 23 \<and> mi \<le> 59
    \<and> days_to_ymd (ymd_to_days (int y) (int mo) (int d)) = (int y, int mo, int d)
    \<and> ymd_to_days (int y) (int mo) (int d) * 1440 + int h * 60 + int mi = k"
proof -
  define days where "days = k * 60 div 86400"
  define r where "r = k * 60 mod 86400"
  obtain y mo d where ymd: "days_to_ymd days = (y, mo, d)" by (cases "days_to_ymd days") auto
  note b = date_bounds[OF ymd]
  have y: "0 \<le> y" "y \<le> 9999" using assms ymd by (simp_all add: label_year_def days_def)
  have r: "0 \<le> r" "r < 86400" "k * 60 = days * 86400 + r"
    by (simp add: r_def, simp add: r_def, unfold r_def days_def, rule div_mult_mod_eq [symmetric])
  have hm: "0 \<le> r div 3600" "r div 3600 \<le> 23" "0 \<le> r mod 3600 div 60" "r mod 3600 div 60 \<le> 59"
    using r by linarith+
  define q where "q = k - days * 1440"
  have rq: "r = 60 * q" using r(3) by (simp add: q_def)
  have "r div 3600 = q div 60" "r mod 3600 div 60 = q mod 60"
    unfolding rq using div_mult_mult1[of 60 q 60] mod_mult_mult1[of 60 q 60] by simp_all
  then have k: "days * 1440 + r div 3600 * 60 + r mod 3600 div 60 = k"
    using div_mult_mod_eq[of q 60] by (simp add: q_def)
  obtain y' mo' d' h' mi' where n: "y = int y'" "mo = int mo'" "d = int d'" "r div 3600 = int h'"
    "r mod 3600 div 60 = int mi'"
    by (rule that[of "nat y" "nat mo" "nat d" "nat (r div 3600)" "nat (r mod 3600 div 60)"])
      (use y(1) b hm in simp_all)
  have bounds: "y' < 10000" "1 \<le> mo'" "mo' \<le> 12" "1 \<le> d'" "d' \<le> 31" "h' \<le> 23" "mi' \<le> 59"
    using y b hm unfolding n by simp_all
  have label: "minute_label k = label_of y' mo' d' h' mi'"
    unfolding minute_label_def Let_def days_def[symmetric] r_def[symmetric] ymd prod.case n label_of_def
    using bounds by (simp add: zero_pad_fixed)
  have "ymd_to_days (int y') (int mo') (int d') = days" using b unfolding n by simp
  then show ?thesis
    using label bounds ymd[unfolded n(1-3)] k[unfolded n(4,5)] by blast
qed

lemma parse_label_of:
  assumes "y < 10000" "mo < 100" "d < 100" "h < 100" "mi < 100"
  shows "parse_minute_label (label_of y mo d h mi) =
    (if \<not> (1 \<le> mo \<and> mo \<le> 12) \<or> \<not> (1 \<le> d \<and> d \<le> 31) \<or> h > 23 \<or> mi > 59
        \<or> days_to_ymd (ymd_to_days (int y) (int mo) (int d)) \<noteq> (int y, int mo, int d) then None
     else Some (ymd_to_days (int y) (int mo) (int d) * 1440 + int h * 60 + int mi))"
proof -
  have "length (label_of y mo d h mi) = 13" "label_of y mo d h mi ! 8 = CHR ''T''"
    "list_all ascii_digit (take 8 (label_of y mo d h mi))" "list_all ascii_digit (drop 9 (label_of y mo d h mi))"
    by (simp_all add: label_of_def nth_append fixed_digits_ascii del: fixed_digits.simps)
  then show ?thesis
    unfolding parse_minute_label_def label_slices[OF assms] by (simp add: Let_def)
qed

text \<open>\<open>parse_minute_label\<close> accepts a string as a minute if and only if it is the label of that minute.\<close>

lemma parse_minute_label_iff:
  "parse_minute_label s = Some k \<longleftrightarrow> (0 \<le> label_year k \<and> label_year k \<le> 9999 \<and> s = minute_label k)"
proof
  assume p: "parse_minute_label s = Some k"
  have shape: "length s = 13" "s ! 8 = CHR ''T''" "list_all ascii_digit (take 8 s)" "list_all ascii_digit (drop 9 s)"
    using p by (simp_all add: parse_minute_label_def split: if_splits)
  have at: "ascii_digit (s ! i)" if "i < 13" "i \<noteq> 8" for i
  proof (cases "i < 8")
    case True
    then show ?thesis using shape(1,3) by (simp add: list_all_length)
  next
    case False
    then have "i - 9 < length (drop 9 s)" "drop 9 s ! (i - 9) = s ! i" using that shape(1) by simp_all
    then show ?thesis using shape(4) by (metis list_all_length)
  qed
  have digits: "list_all ascii_digit (take w (drop a s))" if "a + w \<le> 8 \<or> 9 \<le> a" for a w
    using that at shape(1) by (auto simp: list_all_length)
  obtain y where y: "y < 10 ^ 4" "take 4 (drop 0 s) = fixed_digits 4 y"
    using slice_digits[of 4 0 s 4] digits[of 0 4] shape(1) by auto
  obtain mo where mo: "mo < 10 ^ 2" "take 2 (drop 4 s) = fixed_digits 2 mo"
    using slice_digits[of 6 4 s 2] digits[of 4 2] shape(1) by auto
  obtain d where d: "d < 10 ^ 2" "take 2 (drop 6 s) = fixed_digits 2 d"
    using slice_digits[of 8 6 s 2] digits[of 6 2] shape(1) by auto
  obtain h where h: "h < 10 ^ 2" "take 2 (drop 9 s) = fixed_digits 2 h"
    using slice_digits[of 11 9 s 2] digits[of 9 2] shape(1) by auto
  obtain mi where mi: "mi < 10 ^ 2" "take 2 (drop 11 s) = fixed_digits 2 mi"
    using slice_digits[of 13 11 s 2] digits[of 11 2] shape(1) by auto
  have "s = take 4 s @ take 2 (drop 4 s) @ take 2 (drop 6 s) @ take 1 (drop 8 s) @ take 2 (drop 9 s) @ take 2 (drop 11 s)"
    using shape(1) by (auto simp: numeral_eq_Suc length_Suc_conv)
  then have s: "s = label_of y mo d h mi"
    using shape(1,2) y(2) mo(2) d(2) h(2) mi(2) by (simp add: label_of_def take_Suc hd_drop_conv_nth)
  have ok: "days_to_ymd (ymd_to_days (int y) (int mo) (int d)) = (int y, int mo, int d)" "h \<le> 23" "mi \<le> 59"
    and k: "k = ymd_to_days (int y) (int mo) (int d) * 1440 + int h * 60 + int mi"
    using p y(1) mo(1) d(1) h(1) mi(1) unfolding s by (simp_all add: parse_label_of split: if_splits)
  let ?D = "ymd_to_days (int y) (int mo) (int d)"
  have "k * 60 = 86400 * ?D + (int h * 3600 + int mi * 60)" using k by simp
  then have days: "k * 60 div 86400 = ?D" "k * 60 mod 86400 = int h * 3600 + int mi * 60"
    using ok(2,3) by (simp_all add: int_div_pos_eq int_mod_pos_eq del: div_mult_mult1_if mult_mod_right)
  have hm: "(int h * 3600 + int mi * 60) div 3600 = int h" "(int h * 3600 + int mi * 60) mod 3600 = int mi * 60"
    using ok(3) int_div_pos_eq[of "int h * 3600 + int mi * 60" 3600 "int h" "int mi * 60"]
      int_mod_pos_eq[of "int h * 3600 + int mi * 60" 3600 "int h" "int mi * 60"] by simp_all
  have "minute_label k = label_of y mo d h mi"
    unfolding minute_label_def Let_def days hm ok(1) prod.case label_of_def
    using y(1) mo(1) d(1) h(1) mi(1) by (simp add: zero_pad_fixed)
  then show "0 \<le> label_year k \<and> label_year k \<le> 9999 \<and> s = minute_label k"
    using y(1) ok(1) unfolding label_year_def days by (simp add: s)
next
  assume "0 \<le> label_year k \<and> label_year k \<le> 9999 \<and> s = minute_label k"
  then show "parse_minute_label s = Some k"
    using minute_label_parts[of k] by (auto simp: parse_label_of)
qed

end
