(* ===== verification/Pcap_Retention.thy ===== *)
theory Pcap_Retention
  imports Calendar
begin

text \<open>
  \<^verbatim>\<open>server/h-capture/src/pcap_retention.rs\<close>: one sweep of the dump directory. The directory
  is its listing (with the errors \<open>read_dir\<close>, the entries and \<open>metadata\<close> may give); the outcome of
  \<open>remove_file\<close> is a parameter, a function of the attempts made so far and the path. A sweep
  returns its report and the paths it tried to remove, in order. File sizes are \<open>nat\<close>: the
  total of a disk stays below \<open>2 ^ 64\<close>. Log lines are left out.
\<close>

section \<open>Directory, configuration, report\<close>

type_synonym path = "string list"

datatype 'a dirent = Dirent_Err | Dirent 'a
datatype 'a listing = Read_Err bool | Listing "'a dirent list"

text \<open>\<open>Read_Err True\<close> is \<open>NotFound\<close>; a name is \<open>None\<close> when it is not UTF-8, a size when \<open>stat\<close> fails.\<close>

record dump_file =
  df_path :: path
  df_name :: "string option"
  df_size :: "nat option"

record source_dir =
  sd_is_dir :: bool
  sd_files :: "dump_file listing"

record PcapDumpRetentionConfig =
  max_age_hours :: nat
  max_size_mb :: nat

record SweepReport =
  files_deleted :: nat
  bytes_deleted :: nat
  sweep_errors :: nat

definition is_noop :: "SweepReport \<Rightarrow> bool" where
  "is_noop r \<longleftrightarrow> files_deleted r = 0 \<and> bytes_deleted r = 0 \<and> sweep_errors r = 0"

record Candidate =
  cand_path :: path
  minute_key :: int
  cand_size :: nat

datatype UnlinkOutcome = Removed | AlreadyGone | Failed

type_synonym unlink = "path list \<Rightarrow> path \<Rightarrow> UnlinkOutcome"

record sweep =
  sw_report :: SweepReport
  sw_attempts :: "path list"

definition MIB :: nat where "MIB = 1024 * 1024"

definition add_error :: "SweepReport \<Rightarrow> SweepReport" where
  "add_error r = r\<lparr>sweep_errors := sweep_errors r + 1\<rparr>"

definition add_deleted :: "nat \<Rightarrow> SweepReport \<Rightarrow> SweepReport" where
  "add_deleted n r = r\<lparr>files_deleted := files_deleted r + 1, bytes_deleted := bytes_deleted r + n\<rparr>"

section \<open>File names and time\<close>

definition strip_suffix :: "string \<Rightarrow> string \<Rightarrow> string option" where
  "strip_suffix suf s = (if suffix suf s then Some (take (length s - length suf) s) else None)"

definition parse_dump_filename :: "string \<Rightarrow> int option" where
  "parse_dump_filename name =
     (case (case strip_suffix ''.pcap.snappy'' name of Some t \<Rightarrow> Some t | None \<Rightarrow> strip_suffix ''.pcap'' name) of
        None \<Rightarrow> None
      | Some stem \<Rightarrow> parse_minute_label stem)"

text \<open>Whole seconds since the epoch; a time before it counts as the epoch.\<close>

definition system_time_to_minute_key :: "int \<Rightarrow> int" where
  "system_time_to_minute_key secs = max secs 0 div 60"

section \<open>The walk\<close>

text \<open>The inner loop over the files of a source, and the outer loop over the sources.\<close>

fun walk_files :: "int \<Rightarrow> dump_file dirent list \<Rightarrow> Candidate list \<times> SweepReport \<Rightarrow> Candidate list \<times> SweepReport" where
  "walk_files race_cutoff [] (cs, r) = (cs, r)"
| "walk_files race_cutoff (Dirent_Err # fs) (cs, r) = walk_files race_cutoff fs (cs, add_error r)"
| "walk_files race_cutoff (Dirent f # fs) (cs, r) =
     (case df_name f of
        None \<Rightarrow> walk_files race_cutoff fs (cs, r)
      | Some name \<Rightarrow>
        (case parse_dump_filename name of
           None \<Rightarrow> walk_files race_cutoff fs (cs, r)
         | Some k \<Rightarrow>
             if k \<ge> race_cutoff then walk_files race_cutoff fs (cs, r)
             else (case df_size f of
                     None \<Rightarrow> walk_files race_cutoff fs (cs, add_error r)
                   | Some n \<Rightarrow> walk_files race_cutoff fs
                       (cs @ [\<lparr>cand_path = df_path f, minute_key = k, cand_size = n\<rparr>], r))))"

fun walk_sources :: "int \<Rightarrow> source_dir dirent list \<Rightarrow> Candidate list \<times> SweepReport \<Rightarrow> Candidate list \<times> SweepReport" where
  "walk_sources race_cutoff [] (cs, r) = (cs, r)"
| "walk_sources race_cutoff (Dirent_Err # ds) (cs, r) = walk_sources race_cutoff ds (cs, add_error r)"
| "walk_sources race_cutoff (Dirent d # ds) (cs, r) =
     (if \<not> sd_is_dir d then walk_sources race_cutoff ds (cs, r)
      else case sd_files d of
             Read_Err nf \<Rightarrow> walk_sources race_cutoff ds (cs, add_error r)
           | Listing fs \<Rightarrow> walk_sources race_cutoff ds (walk_files race_cutoff fs (cs, r)))"

section \<open>The two phases\<close>

definition try_unlink :: "unlink \<Rightarrow> path \<Rightarrow> sweep \<Rightarrow> UnlinkOutcome \<times> sweep" where
  "try_unlink rm p s =
     (let o' = rm (sw_attempts s) p; s1 = s\<lparr>sw_attempts := sw_attempts s @ [p]\<rparr>
      in (o', if o' = Failed then s1\<lparr>sw_report := add_error (sw_report s1)\<rparr> else s1))"

fun age_sweep :: "unlink \<Rightarrow> int \<Rightarrow> Candidate list \<Rightarrow> sweep \<Rightarrow> Candidate list \<times> sweep" where
  "age_sweep rm cutoff [] s = ([], s)"
| "age_sweep rm cutoff (c # cs) s =
     (if minute_key c \<ge> cutoff
      then (let (kept, s') = age_sweep rm cutoff cs s in (c # kept, s'))
      else
        (let (o', s1) = try_unlink rm (cand_path c) s in
         case o' of
           Removed \<Rightarrow> age_sweep rm cutoff cs (s1\<lparr>sw_report := add_deleted (cand_size c) (sw_report s1)\<rparr>)
         | AlreadyGone \<Rightarrow> age_sweep rm cutoff cs s1
         | Failed \<Rightarrow> (let (kept, s') = age_sweep rm cutoff cs s1 in (c # kept, s'))))"

fun size_sweep :: "unlink \<Rightarrow> nat \<Rightarrow> nat \<Rightarrow> Candidate list \<Rightarrow> sweep \<Rightarrow> sweep" where
  "size_sweep rm cap current [] s = s"
| "size_sweep rm cap current (c # cs) s =
     (if current \<le> cap then s
      else
        (let (o', s1) = try_unlink rm (cand_path c) s in
         case o' of
           Removed \<Rightarrow> size_sweep rm cap (current - cand_size c) cs
                        (s1\<lparr>sw_report := add_deleted (cand_size c) (sw_report s1)\<rparr>)
         | AlreadyGone \<Rightarrow> size_sweep rm cap (current - cand_size c) cs s1
         | Failed \<Rightarrow> size_sweep rm cap current cs s1))"

definition cap_bytes :: "PcapDumpRetentionConfig \<Rightarrow> nat" where
  "cap_bytes cfg = min (max_size_mb cfg * MIB) (2 ^ 64 - 1)"

definition total_size :: "Candidate list \<Rightarrow> nat" where
  "total_size cs = sum_list (map cand_size cs)"

definition oldest_first :: "Candidate list \<Rightarrow> Candidate list" where
  "oldest_first cs = sort_key (\<lambda>c. (minute_key c, cand_path c)) cs"

definition run_sweep ::
  "source_dir listing \<Rightarrow> unlink \<Rightarrow> PcapDumpRetentionConfig \<Rightarrow> int \<Rightarrow> sweep" where
  "run_sweep dir rm cfg now =
     (let report = \<lparr>files_deleted = 0, bytes_deleted = 0, sweep_errors = 0\<rparr>;
          now_minute = system_time_to_minute_key now;
          race_cutoff = now_minute - 1
      in case dir of
           Read_Err not_found \<Rightarrow>
             \<lparr>sw_report = (if not_found then report else add_error report), sw_attempts = []\<rparr>
         | Listing entries \<Rightarrow>
             (let (candidates, r) = walk_sources race_cutoff entries ([], report);
                  s0 = \<lparr>sw_report = r, sw_attempts = []\<rparr>;
                  (candidates1, s1) =
                    (if max_age_hours cfg > 0
                     then age_sweep rm (now_minute - int (max_age_hours cfg) * 60) candidates s0
                     else (candidates, s0))
              in if max_size_mb cfg > 0 \<and> total_size candidates1 > cap_bytes cfg
                 then size_sweep rm (cap_bytes cfg) (total_size candidates1) (oldest_first candidates1) s1
                 else s1))"

section \<open>Lemmas\<close>

text \<open>A file the walk may offer for deletion.\<close>

definition sweepable :: "int \<Rightarrow> dump_file \<Rightarrow> Candidate \<Rightarrow> bool" where
  "sweepable cutoff f c \<longleftrightarrow>
     cand_path c = df_path f \<and> df_size f = Some (cand_size c) \<and> minute_key c < cutoff
     \<and> (\<exists>name. df_name f = Some name \<and> parse_dump_filename name = Some (minute_key c))"

definition listed_files :: "source_dir listing \<Rightarrow> dump_file set" where
  "listed_files dir = {f. \<exists>entries d fs. dir = Listing entries \<and> Dirent d \<in> set entries \<and> sd_is_dir d
     \<and> sd_files d = Listing fs \<and> Dirent f \<in> set fs}"

lemma walk_files_sound:
  "c \<in> set (fst (walk_files cutoff fs (cs, r))) \<Longrightarrow> c \<in> set cs \<or> (\<exists>f. Dirent f \<in> set fs \<and> sweepable cutoff f c)"
proof (induction cutoff fs "(cs, r)" arbitrary: cs r rule: walk_files.induct)
  case (3 cutoff f fs cs r)
  show ?case
    using "3.prems" "3.hyps"
    by (fastforce simp: sweepable_def split: option.splits if_splits)
qed auto

lemma walk_sources_sound:
  "c \<in> set (fst (walk_sources cutoff ds (cs, r))) \<Longrightarrow>
    c \<in> set cs \<or> (\<exists>d fs f. Dirent d \<in> set ds \<and> sd_is_dir d \<and> sd_files d = Listing fs \<and> Dirent f \<in> set fs
      \<and> sweepable cutoff f c)"
proof (induction ds arbitrary: cs r)
  case (Cons e ds)
  show ?case
  proof (cases e)
    case (Dirent d)
    show ?thesis
    proof (cases "sd_is_dir d")
      case True
      show ?thesis
      proof (cases "sd_files d")
        case (Listing fs)
        obtain cs' r' where w: "walk_files cutoff fs (cs, r) = (cs', r')" by fastforce
        have "c \<in> set cs' \<or> (\<exists>d fs f. Dirent d \<in> set ds \<and> sd_is_dir d \<and> sd_files d = Listing fs
            \<and> Dirent f \<in> set fs \<and> sweepable cutoff f c)"
          using Cons.IH[of cs' r'] Cons.prems Dirent True Listing w by auto
        then show ?thesis using walk_files_sound[of c cutoff fs cs r] w Dirent True Listing by auto
      qed (use Cons.IH[of cs "add_error r"] Cons.prems Dirent True in auto)
    qed (use Cons.IH[of cs r] Cons.prems Dirent in auto)
  qed (use Cons.IH[of cs "add_error r"] Cons.prems in auto)
qed simp

lemma try_unlink_attempts: "sw_attempts (snd (try_unlink rm p s)) = sw_attempts s @ [p]"
  by (simp add: try_unlink_def Let_def)

lemma age_sweep_sound:
  "age_sweep rm cutoff cs s = (kept, s') \<Longrightarrow>
    set kept \<subseteq> set cs \<and> set (sw_attempts s') \<subseteq> set (sw_attempts s) \<union> cand_path ` set cs"
proof (induction cs arbitrary: s kept s')
  case (Cons c cs)
  obtain o' s1 where t: "try_unlink rm (cand_path c) s = (o', s1)" by fastforce
  then have "sw_attempts s1 = sw_attempts s @ [cand_path c]" using try_unlink_attempts[of rm "cand_path c" s] by simp
  then show ?case
    using Cons t
    by (fastforce simp: Let_def split: if_splits prod.splits UnlinkOutcome.splits)
qed simp

lemma size_sweep_sound:
  "set (sw_attempts (size_sweep rm cap n cs s)) \<subseteq> set (sw_attempts s) \<union> cand_path ` set cs"
proof (induction cs arbitrary: n s)
  case (Cons c cs)
  obtain o' s1 where t: "try_unlink rm (cand_path c) s = (o', s1)" by fastforce
  then have s1: "sw_attempts s1 = sw_attempts s @ [cand_path c]" using try_unlink_attempts[of rm "cand_path c" s] by simp
  have IH: "set (sw_attempts (size_sweep rm cap n' cs s')) \<subseteq> set (sw_attempts s') \<union> cand_path ` set cs" for n' s'
    by (rule Cons.IH)
  show ?case
    using IH[of "n - cand_size c" s1] IH[of n s1]
      IH[of "n - cand_size c" "s1\<lparr>sw_report := add_deleted (cand_size c) (sw_report s1)\<rparr>"]
    by (auto simp: t s1 split: UnlinkOutcome.splits)
qed simp

text \<open>Sweeps in which no removal fails.\<close>

definition never_fails :: "unlink \<Rightarrow> bool" where
  "never_fails rm \<longleftrightarrow> (\<forall>seen p. rm seen p \<noteq> Failed)"

lemma age_sweep_exact:
  assumes "never_fails rm"
  shows "fst (age_sweep rm cutoff cs s) = filter (\<lambda>c. minute_key c \<ge> cutoff) cs \<and>
    sw_attempts (snd (age_sweep rm cutoff cs s)) =
      sw_attempts s @ map cand_path (filter (\<lambda>c. minute_key c < cutoff) cs)"
proof (induction cs arbitrary: s)
  case (Cons c cs)
  obtain o' s1 where t: "try_unlink rm (cand_path c) s = (o', s1)" by fastforce
  then have s1: "sw_attempts s1 = sw_attempts s @ [cand_path c]" "o' \<noteq> Failed"
    using try_unlink_attempts[of rm "cand_path c" s] assms by (auto simp: try_unlink_def never_fails_def Let_def)
  show ?case
    using Cons.IH[of s] Cons.IH[of s1] Cons.IH[of "s1\<lparr>sw_report := add_deleted (cand_size c) (sw_report s1)\<rparr>"] s1
    by (cases o') (auto simp: t split_beta)
qed simp

lemma size_sweep_exact:
  assumes "never_fails rm"
  shows "\<exists>evicted kept. cs = evicted @ kept \<and> (kept = [] \<or> n - total_size evicted \<le> cap)
    \<and> (evicted \<noteq> [] \<longrightarrow> n - total_size (butlast evicted) > cap)
    \<and> sw_attempts (size_sweep rm cap n cs s) = sw_attempts s @ map cand_path evicted"
proof (induction cs arbitrary: n s)
  case Nil
  then show ?case by simp
next
  case (Cons c cs)
  show ?case
  proof (cases "n \<le> cap")
    case True
    then show ?thesis by (intro exI[of _ "[]"] exI[of _ "c # cs"]) (simp add: total_size_def)
  next
    case False
    obtain o' s1 where t: "try_unlink rm (cand_path c) s = (o', s1)" by fastforce
    then have s1: "sw_attempts s1 = sw_attempts s @ [cand_path c]" "o' \<noteq> Failed"
      using try_unlink_attempts[of rm "cand_path c" s] assms by (auto simp: try_unlink_def never_fails_def Let_def)
    define s2 where "s2 = (if o' = Removed then s1\<lparr>sw_report := add_deleted (cand_size c) (sw_report s1)\<rparr> else s1)"
    have step: "size_sweep rm cap n (c # cs) s = size_sweep rm cap (n - cand_size c) cs s2"
      using False s1(2) by (cases o') (simp_all add: t s2_def)
    obtain ev kept where IH: "cs = ev @ kept" "kept = [] \<or> n - cand_size c - total_size ev \<le> cap"
      "ev \<noteq> [] \<longrightarrow> n - cand_size c - total_size (butlast ev) > cap"
      "sw_attempts (size_sweep rm cap (n - cand_size c) cs s2) = sw_attempts s2 @ map cand_path ev"
      using Cons.IH[of "n - cand_size c" s2] by blast
    have "sw_attempts s2 = sw_attempts s @ [cand_path c]" by (simp add: s2_def s1)
    then show ?thesis
      using IH False step by (intro exI[of _ "c # ev"] exI[of _ kept]) (auto simp: total_size_def)
  qed
qed

lemma total_size_append [simp]: "total_size (xs @ ys) = total_size xs + total_size ys"
  by (simp add: total_size_def)

lemma total_size_sort [simp]: "total_size (oldest_first cs) = total_size cs"
proof -
  have "mset (map cand_size (oldest_first cs)) = mset (map cand_size cs)" by (simp add: oldest_first_def)
  then show ?thesis unfolding total_size_def by (metis sum_mset_sum_list)
qed

text \<open>A source directory with an old dump file, a recent one and a file of somebody else.\<close>

definition sample_dir :: "source_dir listing" where
  "sample_dir = Listing [Dirent \<lparr>sd_is_dir = True, sd_files = Listing
     [Dirent \<lparr>df_path = [''eth0'', ''19700101T0001.pcap''], df_name = Some ''19700101T0001.pcap'', df_size = Some 10\<rparr>,
      Dirent \<lparr>df_path = [''eth0'', ''19700101T0259.pcap''], df_name = Some ''19700101T0259.pcap'', df_size = Some 10\<rparr>,
      Dirent \<lparr>df_path = [''eth0'', ''notes.txt''], df_name = Some ''notes.txt'', df_size = Some 10\<rparr>]\<rparr>]"

lemma strip_suffix_iff: "strip_suffix suf s = Some t \<longleftrightarrow> s = t @ suf"
  by (auto simp: strip_suffix_def suffix_def)

lemma strip_suffix_append: "strip_suffix suf (t @ suf) = Some t"
  by (simp only: strip_suffix_iff)

lemma parse_dump_filename_iff:
  "parse_dump_filename name = Some k \<longleftrightarrow> 0 \<le> label_year k \<and> label_year k \<le> 9999 \<and>
    (name = minute_label k @ ''.pcap'' \<or> name = minute_label k @ ''.pcap.snappy'')"
proof -
  have other: "strip_suffix ''.pcap.snappy'' (t @ ''.pcap'') = None" for t
  proof (cases "strip_suffix ''.pcap.snappy'' (t @ ''.pcap'')")
    case (Some u)
    then have "last (t @ ''.pcap'') = last (u @ ''.pcap.snappy'')" by (simp only: strip_suffix_iff)
    then show ?thesis by simp
  qed
  show ?thesis
  proof (cases "strip_suffix ''.pcap.snappy'' name")
    case None
    then show ?thesis
      by (auto simp: parse_dump_filename_def strip_suffix_iff parse_minute_label_iff other
          strip_suffix_append split: option.splits)
  next
    case (Some t)
    then have "name = t @ ''.pcap.snappy''" "name \<noteq> u @ ''.pcap''" for u
      using other[of u] by (auto simp: strip_suffix_iff)
    then show ?thesis using Some by (auto simp: parse_dump_filename_def parse_minute_label_iff)
  qed
qed

lemma sample_names:
  "parse_dump_filename ''19700101T0001.pcap'' = Some 1" "parse_dump_filename ''19700101T0003.pcap'' = Some 3"
  "parse_dump_filename ''19700101T0259.pcap'' = Some 179" "parse_dump_filename ''notes.txt'' = None"
proof -
  have "label_year 1 = 1970" "label_year 3 = 1970" "label_year 179 = 1970"
    "minute_label 1 = ''19700101T0001''" "minute_label 3 = ''19700101T0003''" "minute_label 179 = ''19700101T0259''"
    by code_simp+
  then show "parse_dump_filename ''19700101T0001.pcap'' = Some 1"
    "parse_dump_filename ''19700101T0003.pcap'' = Some 3" "parse_dump_filename ''19700101T0259.pcap'' = Some 179"
    by (simp_all add: parse_dump_filename_iff)
  show "parse_dump_filename ''notes.txt'' = None" by (simp add: parse_dump_filename_def strip_suffix_def suffix_def)
qed

definition sample_retention :: PcapDumpRetentionConfig where
  "sample_retention = \<lparr>max_age_hours = 1, max_size_mb = 1\<rparr>"

definition sample_full_dir :: "source_dir listing" where
  "sample_full_dir = Listing [Dirent \<lparr>sd_is_dir = True, sd_files = Listing
     [Dirent \<lparr>df_path = [''eth0'', ''19700101T0230.pcap''], df_name = Some ''19700101T0230.pcap'', df_size = Some 700000\<rparr>,
      Dirent \<lparr>df_path = [''eth0'', ''19700101T0231.pcap''], df_name = Some ''19700101T0231.pcap'', df_size = Some 700000\<rparr>,
      Dirent \<lparr>df_path = [''eth0'', ''19700101T0001.pcap''], df_name = Some ''19700101T0001.pcap'', df_size = Some 10\<rparr>]\<rparr>]"

lemma sample_full_names:
  "parse_dump_filename ''19700101T0230.pcap'' = Some 150" "parse_dump_filename ''19700101T0231.pcap'' = Some 151"
proof -
  have "label_year 150 = 1970" "label_year 151 = 1970"
    "minute_label 150 = ''19700101T0230''" "minute_label 151 = ''19700101T0231''"
    by code_simp+
  then show "parse_dump_filename ''19700101T0230.pcap'' = Some 150" "parse_dump_filename ''19700101T0231.pcap'' = Some 151"
    by (simp_all add: parse_dump_filename_iff)
qed

lemma set_oldest_first: "set (oldest_first cs) = set cs"
  by (simp add: oldest_first_def)

section \<open>Properties\<close>

text \<open>C27: A name is taken for the dump file of a minute if and only if it is the label of that minute,
  of the years 0 to 9999, followed by one of the two extensions; every other name, with a
  malformed label or an impossible date, is foreign.\<close>

theorem dump_filename_exact:
  "parse_dump_filename name = Some k \<longleftrightarrow> 0 \<le> label_year k \<and> label_year k \<le> 9999 \<and>
    (name = minute_label k @ ''.pcap'' \<or> name = minute_label k @ ''.pcap.snappy'')"
  by (rule parse_dump_filename_iff)

definition run_candidates :: "source_dir listing \<Rightarrow> int \<Rightarrow> Candidate list" where
  "run_candidates dir now =
     (case dir of Read_Err nf \<Rightarrow> []
      | Listing entries \<Rightarrow>
          fst (walk_sources (system_time_to_minute_key now - 1) entries
                 ([], \<lparr>files_deleted = 0, bytes_deleted = 0, sweep_errors = 0\<rparr>)))"

text \<open>C24: A sweep only ever tries to remove listed files whose name is the label of a minute before
  the previous wall-clock minute: whatever the configuration, the directory errors and the
  outcomes of the removals, no file of the current or previous minute and no file the dumper
  did not name is touched.\<close>

theorem sweep_safe:
  assumes "p \<in> set (sw_attempts (run_sweep dir rm cfg now))"
  shows "\<exists>f name k. f \<in> listed_files dir \<and> p = df_path f \<and> df_name f = Some name
    \<and> parse_dump_filename name = Some k \<and> k \<le> system_time_to_minute_key now - 2"
proof -
  let ?cut = "system_time_to_minute_key now - 1"
  let ?r0 = "\<lparr>files_deleted = 0, bytes_deleted = 0, sweep_errors = 0\<rparr>"
  obtain entries where dir: "dir = Listing entries" using assms by (cases dir) (simp_all add: run_sweep_def Let_def)
  obtain cs r where w: "walk_sources ?cut entries ([], ?r0) = (cs, r)" by fastforce
  let ?s0 = "\<lparr>sw_report = r, sw_attempts = []\<rparr>"
  define a where "a = (if max_age_hours cfg > 0
    then age_sweep rm (system_time_to_minute_key now - int (max_age_hours cfg) * 60) cs ?s0 else (cs, ?s0))"
  obtain cs1 s1 where a1: "a = (cs1, s1)" by fastforce
  have a: "set cs1 \<subseteq> set cs" "set (sw_attempts s1) \<subseteq> cand_path ` set cs"
    using a1 age_sweep_sound[of rm _ cs ?s0 cs1 s1] unfolding a_def by (auto split: if_splits)
  have sw: "run_sweep dir rm cfg now =
      (if max_size_mb cfg > 0 \<and> total_size cs1 > cap_bytes cfg
       then size_sweep rm (cap_bytes cfg) (total_size cs1) (oldest_first cs1) s1 else s1)"
    by (simp add: run_sweep_def dir w Let_def flip: a_def) (simp add: a1)
  have sized: "set (sw_attempts (size_sweep rm (cap_bytes cfg) (total_size cs1) (oldest_first cs1) s1))
      \<subseteq> cand_path ` set cs"
    using size_sweep_sound[of rm "cap_bytes cfg" "total_size cs1" "oldest_first cs1" s1] a(2)
      image_mono[OF a(1), of cand_path]
    unfolding set_oldest_first by blast
  have "set (sw_attempts (run_sweep dir rm cfg now)) \<subseteq> cand_path ` set cs"
    using a(2) sized by (simp add: sw)
  then obtain c where c: "c \<in> set cs" "p = cand_path c" using assms by auto
  then show ?thesis
    using walk_sources_sound[of c ?cut entries "[]" ?r0] w dir
    by (fastforce simp: listed_files_def sweepable_def)
qed

theorem sweep_safe_witness:
  "[''eth0'', ''19700101T0001.pcap''] \<in>
     set (sw_attempts (run_sweep sample_dir (\<lambda>seen p. Removed) sample_retention 10800))
   \<and> (\<exists>f name k. f \<in> listed_files sample_dir \<and> [''eth0'', ''19700101T0001.pcap''] = df_path f
    \<and> df_name f = Some name \<and> parse_dump_filename name = Some k \<and> k \<le> system_time_to_minute_key 10800 - 2)"
proof -
  have "sw_attempts (run_sweep sample_dir (\<lambda>seen p. Removed) sample_retention 10800) =
      [[''eth0'', ''19700101T0001.pcap'']]"
    by (simp add: run_sweep_def sample_dir_def sample_retention_def sample_names
        system_time_to_minute_key_def try_unlink_def Let_def total_size_def)
  then have "[''eth0'', ''19700101T0001.pcap''] \<in>
      set (sw_attempts (run_sweep sample_dir (\<lambda>seen p. Removed) sample_retention 10800))" by simp
  then show ?thesis using sweep_safe by blast
qed

text \<open>C23: When no removal fails, a sweep removes exactly the candidates beyond the age limit, and of
  the rest the oldest (ties by path) as far as needed: what is left of them fits the size cap,
  and without the last eviction it would not.\<close>

theorem sweep_exact:
  assumes "never_fails rm" and "max_age_hours cfg > 0" and "max_size_mb cfg > 0"
  shows "\<exists>evicted kept.
    oldest_first (filter (\<lambda>c. minute_key c \<ge> system_time_to_minute_key now - int (max_age_hours cfg) * 60)
        (run_candidates dir now)) = evicted @ kept
    \<and> total_size kept \<le> cap_bytes cfg
    \<and> (evicted \<noteq> [] \<longrightarrow> cap_bytes cfg < total_size kept + cand_size (last evicted))
    \<and> sw_attempts (run_sweep dir rm cfg now) =
        map cand_path (filter (\<lambda>c. minute_key c < system_time_to_minute_key now - int (max_age_hours cfg) * 60)
          (run_candidates dir now)) @ map cand_path evicted"
proof (cases dir)
  case (Read_Err nf)
  then show ?thesis
    by (intro exI[of _ "[]"]) (simp add: run_candidates_def run_sweep_def oldest_first_def total_size_def Let_def)
next
  case (Listing entries)
  let ?cut = "system_time_to_minute_key now - int (max_age_hours cfg) * 60"
  let ?r0 = "\<lparr>files_deleted = 0, bytes_deleted = 0, sweep_errors = 0\<rparr>"
  obtain cs r where w: "walk_sources (system_time_to_minute_key now - 1) entries ([], ?r0) = (cs, r)" by fastforce
  have rc: "run_candidates dir now = cs" by (simp add: run_candidates_def Listing w)
  let ?s0 = "\<lparr>sw_report = r, sw_attempts = []\<rparr>"
  define young where "young = filter (\<lambda>c. minute_key c \<ge> ?cut) cs"
  obtain s1 where a: "age_sweep rm ?cut cs ?s0 = (young, s1)"
    "sw_attempts s1 = map cand_path (filter (\<lambda>c. minute_key c < ?cut) cs)"
    using age_sweep_exact[OF assms(1), of ?cut cs ?s0]
    by (cases "age_sweep rm ?cut cs ?s0") (simp add: young_def)
  have sw: "run_sweep dir rm cfg now = (if total_size young > cap_bytes cfg
      then size_sweep rm (cap_bytes cfg) (total_size young) (oldest_first young) s1 else s1)"
    using assms(2,3) by (simp add: run_sweep_def Listing w a(1))
  show ?thesis
  proof (cases "total_size young > cap_bytes cfg")
    case True
    then have swt: "run_sweep dir rm cfg now =
        size_sweep rm (cap_bytes cfg) (total_size young) (oldest_first young) s1" by (simp add: sw)
    obtain ev kept where e: "oldest_first young = ev @ kept"
      "kept = [] \<or> total_size young - total_size ev \<le> cap_bytes cfg"
      "ev \<noteq> [] \<longrightarrow> total_size young - total_size (butlast ev) > cap_bytes cfg"
      "sw_attempts (run_sweep dir rm cfg now) = sw_attempts s1 @ map cand_path ev"
      using size_sweep_exact[OF assms(1), of "oldest_first young" "total_size young" "cap_bytes cfg" s1]
      unfolding swt by blast
    have tot: "total_size young = total_size ev + total_size kept"
      using arg_cong[OF e(1), of total_size] by simp
    have last: "total_size ev = total_size (butlast ev) + cand_size (last ev)" if "ev \<noteq> []"
      using that by (metis append_butlast_last_id total_size_append total_size_def list.map(1,2) sum_list.Cons sum_list.Nil add_0_right)
    have "total_size kept \<le> cap_bytes cfg" using e(2) tot by (auto simp: total_size_def)
    moreover have "ev \<noteq> [] \<longrightarrow> cap_bytes cfg < total_size kept + cand_size (last ev)"
      using e(3) tot last by auto
    ultimately show ?thesis
      using e(1,4) a(2) by (intro exI[of _ ev] exI[of _ kept]) (simp add: rc young_def)
  next
    case False
    then show ?thesis
      using a(2) by (intro exI[of _ "[]"] exI[of _ "oldest_first young"]) (simp add: sw rc flip: young_def)
  qed
qed

theorem sweep_exact_witness:
  "sw_attempts (run_sweep sample_full_dir (\<lambda>seen p. Removed) sample_retention 10800) =
     [[''eth0'', ''19700101T0001.pcap''], [''eth0'', ''19700101T0230.pcap'']]"
proof -
  let ?cut = "system_time_to_minute_key 10800 - int (max_age_hours sample_retention) * 60"
  have run: "run_candidates sample_full_dir 10800 =
      [\<lparr>cand_path = [''eth0'', ''19700101T0230.pcap''], minute_key = 150, cand_size = 700000\<rparr>,
       \<lparr>cand_path = [''eth0'', ''19700101T0231.pcap''], minute_key = 151, cand_size = 700000\<rparr>,
       \<lparr>cand_path = [''eth0'', ''19700101T0001.pcap''], minute_key = 1, cand_size = 10\<rparr>]"
    by (simp add: run_candidates_def sample_full_dir_def sample_names sample_full_names system_time_to_minute_key_def)
  have cut: "?cut = 120" by (simp add: system_time_to_minute_key_def sample_retention_def)
  have young: "oldest_first (filter (\<lambda>c. minute_key c \<ge> ?cut) (run_candidates sample_full_dir 10800)) =
      [\<lparr>cand_path = [''eth0'', ''19700101T0230.pcap''], minute_key = 150, cand_size = 700000\<rparr>,
       \<lparr>cand_path = [''eth0'', ''19700101T0231.pcap''], minute_key = 151, cand_size = 700000\<rparr>]"
    unfolding cut run by (simp add: oldest_first_def)
  have old: "filter (\<lambda>c. minute_key c < ?cut) (run_candidates sample_full_dir 10800) =
      [\<lparr>cand_path = [''eth0'', ''19700101T0001.pcap''], minute_key = 1, cand_size = 10\<rparr>]"
    unfolding cut run by simp
  have cap: "cap_bytes sample_retention = 1048576" by (simp add: cap_bytes_def sample_retention_def MIB_def)
  have "0 < max_age_hours sample_retention" "0 < max_size_mb sample_retention" "never_fails (\<lambda>seen p. Removed)"
    by (simp_all add: sample_retention_def never_fails_def)
  from sweep_exact[OF this(3,1,2), of 10800 sample_full_dir] show ?thesis
    unfolding young old cap by (auto simp: Cons_eq_append_conv total_size_def)
qed

text \<open>The size cap counts the candidates only: the files of the protected minutes may exceed it.\<close>

theorem protected_files_uncounted:
  "sw_attempts (run_sweep (Listing [Dirent \<lparr>sd_is_dir = True, sd_files = Listing
       [Dirent \<lparr>df_path = [''eth0'', ''19700101T0001.pcap''], df_name = Some ''19700101T0001.pcap'', df_size = Some 1000000\<rparr>,
        Dirent \<lparr>df_path = [''eth0'', ''19700101T0003.pcap''], df_name = Some ''19700101T0003.pcap'', df_size = Some 9000000\<rparr>]\<rparr>])
     (\<lambda>seen p. Removed) \<lparr>max_age_hours = 0, max_size_mb = 1\<rparr> 180) = []"
  by (simp add: run_sweep_def sample_names system_time_to_minute_key_def Let_def total_size_def
      cap_bytes_def MIB_def)

end
