(* ===== verification/Pcap_Dump.thy ===== *)
theory Pcap_Dump
  imports Capture Synth Pcap_Retention
begin

text \<open>
  \<^verbatim>\<open>server/h-capture/src/pcap_dump.rs\<close>: the optional dump of packets to one pcap file per
  source and minute, and \<^verbatim>\<open>server/h-common/src/path.rs\<close>. The file system is a map from paths to
  the bytes written; which calls fail is a parameter, given anew with every packet. The snappy
  encoder is third-party code: the bytes of a compressed file are those handed to the encoder.
  Buffering and the throttled log lines are left out.
\<close>

section \<open>Records\<close>

definition PCAP_MAGIC :: u32 where "PCAP_MAGIC = 0xa1b2c3d4"
definition PCAP_VERSION_MAJOR :: u16 where "PCAP_VERSION_MAJOR = 2"
definition PCAP_VERSION_MINOR :: u16 where "PCAP_VERSION_MINOR = 4"
definition PCAP_SNAPLEN :: u32 where "PCAP_SNAPLEN = 262144"
definition MICROS_PER_MINUTE :: int where "MICROS_PER_MINUTE = 60 * 1000000"

definition to_le_bytes :: "nat \<Rightarrow> 'a::len word \<Rightarrow> bytes" where
  "to_le_bytes n w = rev (to_be_bytes n w)"

definition pcap_global_header :: "u32 \<Rightarrow> bytes" where
  "pcap_global_header link_type =
     to_le_bytes 4 PCAP_MAGIC @ to_le_bytes 2 PCAP_VERSION_MAJOR @ to_le_bytes 2 PCAP_VERSION_MINOR
     @ to_le_bytes 4 (0 :: u32) @ to_le_bytes 4 (0 :: u32) @ to_le_bytes 4 PCAP_SNAPLEN
     @ to_le_bytes 4 link_type"

text \<open>\<open>/\<close> and \<open>%\<close> of an \<open>i64\<close> truncate, the cast keeps the low 32 bits.\<close>

definition pcap_record :: "RawPacket \<Rightarrow> bytes" where
  "pcap_record pkt =
     (let ts = raw_timestamp_us pkt;
          ts_sec = (word_of_int (tdiv ts 1000000) :: u32);
          ts_usec = (word_of_int (ts - tdiv ts 1000000 * 1000000) :: u32)
      in to_le_bytes 4 ts_sec @ to_le_bytes 4 ts_usec @ to_le_bytes 4 (raw_caplen pkt)
         @ to_le_bytes 4 (raw_wirelen pkt) @ raw_data pkt)"

section \<open>Paths\<close>

definition path_char_ok :: "char \<Rightarrow> bool" where
  "path_char_ok c \<longleftrightarrow>
     (let n = (of_char c :: nat) in
      48 \<le> n \<and> n \<le> 57 \<or> 65 \<le> n \<and> n \<le> 90 \<or> 97 \<le> n \<and> n \<le> 122
      \<or> c = CHR ''.'' \<or> c = CHR ''_'' \<or> c = CHR ''-'')"

text \<open>One character of the result per character of the input: continuation bytes go.\<close>

definition sanitize_path_component :: "string \<Rightarrow> string option" where
  "sanitize_path_component s =
     (if s = [] then None
      else let out = map (\<lambda>c. if path_char_ok c then c else CHR ''_'')
                       (filter (\<lambda>c. \<not> is_cont (of_char c)) s) in
           if out = ''.'' \<or> out = ''..'' then None else Some out)"

definition is_safe_path_component :: "string \<Rightarrow> bool" where
  "is_safe_path_component s \<longleftrightarrow> sanitize_path_component s \<noteq> None"

definition pcap_dump_dir_for :: "path \<Rightarrow> string \<Rightarrow> path option" where
  "pcap_dump_dir_for base pipeline = map_option (\<lambda>s. base @ [s]) (sanitize_path_component pipeline)"

section \<open>The dumper\<close>

datatype PcapCompression = Uncompressed | Snappy

datatype open_result = Opened | Open_NotFound | Open_Err

record dump_io =
  io_mkdir :: "path \<Rightarrow> bool"
  io_open :: "path \<Rightarrow> open_result"
  io_reopen :: "path \<Rightarrow> bool"
  io_metadata :: "path \<Rightarrow> bool"
  io_write :: "path \<Rightarrow> bytes \<Rightarrow> nat"

record MinuteFile =
  mf_minute_key :: int
  mf_path :: path

record SourceWriter =
  sw_src_dir :: path
  sw_link_type :: u32
  sw_current :: "MinuteFile option"

record PacketDumper =
  pd_dir :: path
  pd_compression :: PcapCompression
  pd_writers :: "(string \<times> SourceWriter) list"
  pd_disabled :: "string list"
  pd_metrics :: "CaptureMetric MetricsWorker"
  pd_files :: "(path \<times> bytes) list"

definition PacketDumper_new ::
  "path \<Rightarrow> PcapCompression \<Rightarrow> CaptureMetric MetricsWorker \<Rightarrow> (path \<times> bytes) list \<Rightarrow> PacketDumper" where
  "PacketDumper_new dir c m fs =
     \<lparr>pd_dir = dir, pd_compression = c, pd_writers = [], pd_disabled = [], pd_metrics = m, pd_files = fs\<rparr>"

definition note_error :: "PacketDumper \<Rightarrow> PacketDumper" where
  "note_error pd = pd\<lparr>pd_metrics := metric_inc CaptureDumpErrors (pd_metrics pd)\<rparr>"

definition disable_source :: "string \<Rightarrow> PacketDumper \<Rightarrow> PacketDumper" where
  "disable_source sid pd = pd\<lparr>pd_disabled := List.insert sid (pd_disabled pd)\<rparr>"

definition open_source_dir :: "dump_io \<Rightarrow> string \<Rightarrow> u32 \<Rightarrow> PacketDumper \<Rightarrow> SourceWriter option \<times> PacketDumper" where
  "open_source_dir io sid link_type pd =
     (case sanitize_path_component sid of
        None \<Rightarrow> (None, disable_source sid (note_error pd))
      | Some safe \<Rightarrow>
          (let src_dir = pd_dir pd @ [safe] in
           if \<not> prefix (pd_dir pd) src_dir then (None, disable_source sid (note_error pd))
           else if \<not> io_mkdir io src_dir then (None, disable_source sid (note_error pd))
           else (Some \<lparr>sw_src_dir = src_dir, sw_link_type = link_type, sw_current = None\<rparr>, pd)))"

definition minute_filename :: "PcapCompression \<Rightarrow> int \<Rightarrow> string" where
  "minute_filename c k =
     minute_label k @ ''.pcap'' @ (case c of Uncompressed \<Rightarrow> '''' | Snappy \<Rightarrow> ''.snappy'')"

text \<open>Writing appends what the file takes; the result tells whether it took all.\<close>

definition append_file :: "dump_io \<Rightarrow> path \<Rightarrow> bytes \<Rightarrow> (path \<times> bytes) list \<Rightarrow> bool \<times> (path \<times> bytes) list" where
  "append_file io p bs fs =
     (let n = io_write io p bs; old = (case map_of fs p of Some b \<Rightarrow> b | None \<Rightarrow> [])
      in (n \<ge> length bs, AList.update p (old @ take n bs) fs))"

definition open_minute_file ::
  "dump_io \<Rightarrow> path \<Rightarrow> int \<Rightarrow> u32 \<Rightarrow> PcapCompression \<Rightarrow> (path \<times> bytes) list \<Rightarrow>
   MinuteFile option \<times> (path \<times> bytes) list" where
  "open_minute_file io src_dir minute link_type compression fs =
     (let p = src_dir @ [minute_filename compression minute];
          opened = (case io_open io p of
                      Opened \<Rightarrow> True
                    | Open_NotFound \<Rightarrow> io_mkdir io src_dir \<and> io_reopen io p
                    | Open_Err \<Rightarrow> False)
      in if \<not> opened then (None, fs)
         else
           let old = (case map_of fs p of Some b \<Rightarrow> b | None \<Rightarrow> []);
               fs1 = AList.update p old fs
           in if \<not> io_metadata io p then (None, fs1)
              else if old = [] then
                (let (ok, fs2) = append_file io p (pcap_global_header link_type) fs1
                 in if ok then (Some \<lparr>mf_minute_key = minute, mf_path = p\<rparr>, fs2)
                    else (None, AList.delete p fs2))
              else (Some \<lparr>mf_minute_key = minute, mf_path = p\<rparr>, fs1))"

definition set_writer :: "string \<Rightarrow> SourceWriter \<Rightarrow> PacketDumper \<Rightarrow> PacketDumper" where
  "set_writer sid w pd = pd\<lparr>pd_writers := AList.update sid w (pd_writers pd)\<rparr>"

text \<open>Phase 5 of \<open>write\<close>, with the file that is open.\<close>

definition write_to :: "dump_io \<Rightarrow> RawPacket \<Rightarrow> MinuteFile \<Rightarrow> PacketDumper \<Rightarrow> PacketDumper" where
  "write_to io pkt cur pd =
     (let is_late = (raw_timestamp_us pkt div MICROS_PER_MINUTE < mf_minute_key cur);
          (ok, fs) = append_file io (mf_path cur) (pcap_record pkt) (pd_files pd);
          pd1 = pd\<lparr>pd_files := fs\<rparr>;
          pd2 = (if is_late
                 then pd1\<lparr>pd_metrics := metric_inc CaptureDumpLateMinutePackets (pd_metrics pd1)\<rparr> else pd1)
      in if ok then pd2 else note_error pd2)"

text \<open>Phases 2 to 5, with the writer of the source.\<close>

definition write_with :: "dump_io \<Rightarrow> RawPacket \<Rightarrow> SourceWriter \<Rightarrow> PacketDumper \<Rightarrow> PacketDumper" where
  "write_with io pkt source pd =
     (let sid = raw_source_id pkt; pkt_minute = raw_timestamp_us pkt div MICROS_PER_MINUTE in
      if sw_link_type source \<noteq> raw_link_type pkt then note_error pd
      else
        let need_new_file = (case sw_current source of
               None \<Rightarrow> True | Some cur \<Rightarrow> pkt_minute > mf_minute_key cur)
        in if need_new_file then
             (let pd1 = set_writer sid (source\<lparr>sw_current := None\<rparr>) pd;
                  (mf, fs) = open_minute_file io (sw_src_dir source) pkt_minute (sw_link_type source)
                    (pd_compression pd) (pd_files pd1);
                  pd2 = pd1\<lparr>pd_files := fs\<rparr>
              in case mf of
                   None \<Rightarrow> disable_source sid (note_error pd2)
                 | Some f \<Rightarrow> write_to io pkt f (set_writer sid (source\<lparr>sw_current := Some f\<rparr>) pd2))
           else
             (case sw_current source of None \<Rightarrow> pd | Some cur \<Rightarrow> write_to io pkt cur pd))"

definition dump_write :: "dump_io \<Rightarrow> RawPacket \<Rightarrow> PacketDumper \<Rightarrow> PacketDumper" where
  "dump_write io pkt pd =
     (let sid = raw_source_id pkt in
      if is_heartbeat pkt then pd
      else if sid \<in> set (pd_disabled pd) then pd
      else case map_of (pd_writers pd) sid of
             Some source \<Rightarrow> write_with io pkt source pd
           | None \<Rightarrow>
               (case open_source_dir io sid (raw_link_type pkt) pd of
                  (None, pd1) \<Rightarrow> pd1
                | (Some source, pd1) \<Rightarrow> write_with io pkt source (set_writer sid source pd1)))"

definition dump_run :: "(dump_io \<times> RawPacket) list \<Rightarrow> PacketDumper \<Rightarrow> PacketDumper" where
  "dump_run ps pd = fold (\<lambda>(io, pkt). dump_write io pkt) ps pd"

text \<open>As the sources call it, if they dump; which calls fail may depend on the state and the packet.\<close>

type_synonym dump_calls = "PacketDumper \<Rightarrow> RawPacket \<Rightarrow> dump_io"

definition dump_packet :: "dump_calls \<Rightarrow> RawPacket \<Rightarrow> PacketDumper option \<Rightarrow> PacketDumper option" where
  "dump_packet io pkt dumper = map_option (\<lambda>d. dump_write (io d pkt) pkt d) dumper"

definition dump_packets :: "dump_calls \<Rightarrow> RawPacket list \<Rightarrow> PacketDumper option \<Rightarrow> PacketDumper option" where
  "dump_packets io ps dumper = fold (dump_packet io) ps dumper"

lemma dump_packets_simps [simp]:
  "dump_packets io [] d = d"
  "dump_packets io (p # ps) d = dump_packets io ps (dump_packet io p d)"
  "dump_packets io (ps @ qs) d = dump_packets io qs (dump_packets io ps d)"
  by (simp_all add: dump_packets_def)

section \<open>What the files of a source should hold\<close>

text \<open>A packet goes to the latest minute seen so far.\<close>

definition pkt_minute :: "RawPacket \<Rightarrow> int" where
  "pkt_minute p = raw_timestamp_us p div MICROS_PER_MINUTE"

fun placed :: "int option \<Rightarrow> RawPacket list \<Rightarrow> (int \<times> RawPacket) list" where
  "placed cur [] = []"
| "placed cur (p # ps) =
     (let m = (case cur of None \<Rightarrow> pkt_minute p | Some c \<Rightarrow> max c (pkt_minute p))
      in (m, p) # placed (Some m) ps)"

definition minute_packets :: "(int \<times> RawPacket) list \<Rightarrow> int \<Rightarrow> RawPacket list" where
  "minute_packets xs m = map snd (filter (\<lambda>x. fst x = m) xs)"

text \<open>A file that is new or empty gets the header, one with content keeps it.\<close>

definition started :: "u32 \<Rightarrow> bytes option \<Rightarrow> bytes" where
  "started link_type old =
     (case old of None \<Rightarrow> pcap_global_header link_type
      | Some b \<Rightarrow> if b = [] then pcap_global_header link_type else b)"

definition file_content :: "u32 \<Rightarrow> bytes option \<Rightarrow> RawPacket list \<Rightarrow> bytes option" where
  "file_content link_type old ps =
     (if ps = [] then old else Some (started link_type old @ concat (map pcap_record ps)))"

definition io_ok :: "dump_io \<Rightarrow> bool" where
  "io_ok io \<longleftrightarrow> (\<forall>p. io_mkdir io p \<and> io_open io p = Opened \<and> io_metadata io p)
     \<and> (\<forall>p bs. io_write io p bs = length bs)"

definition of_source :: "string \<Rightarrow> u32 \<Rightarrow> RawPacket list \<Rightarrow> RawPacket list" where
  "of_source sid l ps = filter (\<lambda>p. \<not> is_heartbeat p \<and> raw_source_id p = sid \<and> raw_link_type p = l) ps"

section \<open>What a packet of another source leaves alone\<close>

definition writers_ok :: "PacketDumper \<Rightarrow> bool" where
  "writers_ok pd \<longleftrightarrow> (\<forall>sid w. map_of (pd_writers pd) sid = Some w \<longrightarrow>
     (\<exists>s. sanitize_path_component sid = Some s \<and> sw_src_dir w = pd_dir pd @ [s]
        \<and> (\<forall>f. sw_current w = Some f \<longrightarrow> prefix (pd_dir pd @ [s]) (mf_path f))))"

text \<open>Only the writer of \<open>sid\<close> and the files below \<open>D\<close> change.\<close>

definition touches_only :: "string \<Rightarrow> path \<Rightarrow> PacketDumper \<Rightarrow> PacketDumper \<Rightarrow> bool" where
  "touches_only sid D pd pd' \<longleftrightarrow> pd_dir pd' = pd_dir pd \<and> pd_compression pd' = pd_compression pd
     \<and> (\<forall>x. x \<noteq> sid \<longrightarrow> map_of (pd_writers pd') x = map_of (pd_writers pd) x)
     \<and> (\<forall>x. x \<noteq> sid \<longrightarrow> (x \<in> set (pd_disabled pd') \<longleftrightarrow> x \<in> set (pd_disabled pd)))
     \<and> (\<forall>p. \<not> prefix D p \<longrightarrow> map_of (pd_files pd') p = map_of (pd_files pd) p)"

lemma touches_trans: "touches_only sid D a b \<Longrightarrow> touches_only sid D b c \<Longrightarrow> touches_only sid D a c"
  by (simp add: touches_only_def)

lemma touches_basic:
  "touches_only sid D pd pd" "touches_only sid D pd (note_error pd)"
  "touches_only sid D pd (disable_source sid pd)" "touches_only sid D pd (set_writer sid w pd)"
  "touches_only sid D pd (pd\<lparr>pd_metrics := m\<rparr>)"
  by (auto simp: touches_only_def note_error_def disable_source_def set_writer_def update_conv')

lemma touches_step:
  "touches_only sid D pd x \<Longrightarrow> touches_only sid D pd (note_error x)"
  "touches_only sid D pd x \<Longrightarrow> touches_only sid D pd (disable_source sid x)"
  "touches_only sid D pd x \<Longrightarrow> touches_only sid D pd (set_writer sid w x)"
  "touches_only sid D pd x \<Longrightarrow> touches_only sid D pd (x\<lparr>pd_metrics := m\<rparr>)"
  by (rule touches_trans, assumption, rule touches_basic)+

lemma touches_files:
  "(\<forall>p. \<not> prefix D p \<longrightarrow> map_of fs p = map_of (pd_files pd) p) \<Longrightarrow> touches_only sid D pd (pd\<lparr>pd_files := fs\<rparr>)"
  by (simp add: touches_only_def)

lemma append_file_outside:
  "append_file io p bs fs = (ok, fs') \<Longrightarrow> q \<noteq> p \<Longrightarrow> map_of fs' q = map_of fs q"
  by (auto simp: append_file_def Let_def update_conv')

lemma open_minute_file_path:
  assumes "open_minute_file io D m l c fs = (Some f, fs')"
  shows "mf_path f = D @ [minute_filename c m]"
  using assms unfolding open_minute_file_def Let_def
  by (auto simp add: split_beta split: if_split_asm)

lemma open_cases:
  assumes "(if a then (n, x) else if b then (n, y) else if c then (if d then (s, z) else (n, u)) else (s, y)) = (r, w)"
  shows "w = x \<or> w = y \<or> w = z \<or> w = u"
  using assms by (cases a; cases b; cases c; cases d; simp)

lemma open_minute_file_outside:
  assumes "open_minute_file io D m l c fs = (r, fs')" "\<not> prefix D q"
  shows "map_of fs' q = map_of fs q"
proof -
  let ?p = "D @ [minute_filename c m]"
  let ?fs1 = "AList.update ?p (case map_of fs ?p of Some b \<Rightarrow> b | None \<Rightarrow> []) fs"
  have q: "q \<noteq> ?p" using assms(2) by auto
  obtain ok fs2 where a: "append_file io ?p (pcap_global_header l) ?fs1 = (ok, fs2)" by fastforce
  have f2: "map_of fs2 q = map_of fs q" using append_file_outside[OF a q] q by (simp add: update_conv')
  have "fs' = fs \<or> fs' = ?fs1 \<or> fs' = fs2 \<or> fs' = AList.delete ?p fs2"
    using assms(1) unfolding open_minute_file_def Let_def a prod.case
    by (rule open_cases)
  then show "map_of fs' q = map_of fs q"
    using q f2 by (auto simp: update_conv' delete_conv')
qed

lemma if_both: "P x \<Longrightarrow> P y \<Longrightarrow> P (if b then x else y)"
  by simp

lemma write_to_touches:
  assumes "prefix D (mf_path cur)"
  shows "touches_only sid D pd (write_to io pkt cur pd)"
proof -
  obtain ok fs where a: "append_file io (mf_path cur) (pcap_record pkt) (pd_files pd) = (ok, fs)" by fastforce
  let ?pd1 = "pd\<lparr>pd_files := fs\<rparr>"
  let ?pd2 = "if raw_timestamp_us pkt div MICROS_PER_MINUTE < mf_minute_key cur
    then ?pd1\<lparr>pd_metrics := metric_inc CaptureDumpLateMinutePackets (pd_metrics ?pd1)\<rparr> else ?pd1"
  have "map_of fs q = map_of (pd_files pd) q" if "\<not> prefix D q" for q
    using append_file_outside[OF a, of q] assms that by (cases "q = mf_path cur") simp_all
  then have 1: "touches_only sid D pd ?pd1" by (intro touches_files) simp
  have 2: "touches_only sid D pd ?pd2"
    using 1 touches_step(4)[OF 1] by (rule if_both[rotated])
  have "touches_only sid D pd (if ok then ?pd2 else note_error ?pd2)"
    using 2 touches_step(1)[OF 2] by (rule if_both)
  then show ?thesis unfolding write_to_def Let_def a prod.case .
qed

lemma write_to_writers [simp]: "pd_writers (write_to io pkt cur pd) = pd_writers pd"
  "pd_dir (write_to io pkt cur pd) = pd_dir pd" "pd_disabled (write_to io pkt cur pd) = pd_disabled pd"
  "pd_compression (write_to io pkt cur pd) = pd_compression pd"
  by (simp_all add: write_to_def Let_def note_error_def split_beta)

lemma writers_ok_update:
  assumes "writers_ok pd" "sanitize_path_component sid = Some s" "sw_src_dir w = pd_dir pd @ [s]"
    and "\<And>f. sw_current w = Some f \<Longrightarrow> prefix (pd_dir pd @ [s]) (mf_path f)"
    and "pd_writers pd' = AList.update sid w (pd_writers pd)" "pd_dir pd' = pd_dir pd"
  shows "writers_ok pd'"
  using assms unfolding writers_ok_def by (simp add: update_conv')

lemma writers_ok_same:
  "writers_ok pd \<Longrightarrow> pd_writers pd' = pd_writers pd \<Longrightarrow> pd_dir pd' = pd_dir pd \<Longrightarrow> writers_ok pd'"
  by (simp add: writers_ok_def)

lemma update_update: "AList.update k v (AList.update k w m) = AList.update k v m"
  by (induction m) auto

lemma write_with_effect:
  assumes ok: "writers_ok pd" and s: "sanitize_path_component (raw_source_id pkt) = Some s"
    and w: "sw_src_dir w = pd_dir pd @ [s]" "\<And>f. sw_current w = Some f \<Longrightarrow> prefix (pd_dir pd @ [s]) (mf_path f)"
  shows "touches_only (raw_source_id pkt) (pd_dir pd @ [s]) pd (write_with io pkt w pd)
    \<and> writers_ok (write_with io pkt w pd)"
proof (cases "sw_link_type w \<noteq> raw_link_type pkt")
  case True
  then show ?thesis using ok by (simp add: write_with_def Let_def touches_basic writers_ok_same note_error_def)
next
  case False
  let ?sid = "raw_source_id pkt" and ?D = "pd_dir pd @ [s]"
  let ?m = "raw_timestamp_us pkt div MICROS_PER_MINUTE"
  let ?new = "case sw_current w of None \<Rightarrow> True | Some cur \<Rightarrow> ?m > mf_minute_key cur"
  show ?thesis
  proof (cases ?new)
    case True
    let ?pd1 = "set_writer ?sid (w\<lparr>sw_current := None\<rparr>) pd"
    obtain mf fs where o: "open_minute_file io ?D ?m (sw_link_type w) (pd_compression pd) (pd_files pd) = (mf, fs)"
      by fastforce
    let ?pd2 = "?pd1\<lparr>pd_files := fs\<rparr>"
    have t2: "touches_only ?sid ?D pd ?pd2"
      using open_minute_file_outside[OF o]
      by (intro touches_trans[OF touches_basic(4) touches_files]) (simp add: set_writer_def)
    show ?thesis
    proof (cases mf)
      case None
      have "write_with io pkt w pd = disable_source ?sid (note_error ?pd2)"
        using False True o None by (simp add: write_with_def Let_def w(1) set_writer_def)
      moreover have "writers_ok (disable_source ?sid (note_error ?pd2))"
        by (rule writers_ok_update[OF ok s, of "w\<lparr>sw_current := None\<rparr>"])
          (simp_all add: w disable_source_def note_error_def set_writer_def)
      ultimately show ?thesis using t2 by (simp only: touches_step)
    next
      case (Some f)
      have f: "prefix ?D (mf_path f)"
        using open_minute_file_path[of io ?D ?m "sw_link_type w" "pd_compression pd" "pd_files pd" f fs] o Some by simp
      let ?w = "w\<lparr>sw_current := Some f\<rparr>"
      have eq: "write_with io pkt w pd = write_to io pkt f (set_writer ?sid ?w ?pd2)"
        using False True o Some by (simp add: write_with_def Let_def w(1) set_writer_def)
      have "writers_ok (write_to io pkt f (set_writer ?sid ?w ?pd2))"
        by (rule writers_ok_update[OF ok s, of ?w]) (simp_all add: w f set_writer_def update_update)
      then show ?thesis
        unfolding eq using touches_trans[OF touches_step(3)[OF t2] write_to_touches[OF f]] by blast
    qed
  next
    case old: False
    then obtain cur where cur: "sw_current w = Some cur" by (cases "sw_current w") auto
    have eq: "write_with io pkt w pd = write_to io pkt cur pd"
      using False old cur by (simp add: write_with_def Let_def)
    show ?thesis
      unfolding eq using write_to_touches[OF w(2)[OF cur]] ok by (auto intro: writers_ok_same)
  qed
qed

lemma dump_write_effect:
  assumes "writers_ok pd"
  shows "writers_ok (dump_write io pkt pd) \<and>
    (\<forall>D. (\<forall>s. sanitize_path_component (raw_source_id pkt) = Some s \<longrightarrow> D = pd_dir pd @ [s]) \<longrightarrow>
       touches_only (raw_source_id pkt) D pd (dump_write io pkt pd))"
proof (cases "is_heartbeat pkt \<or> raw_source_id pkt \<in> set (pd_disabled pd)")
  case True
  then show ?thesis using assms by (auto simp: dump_write_def Let_def touches_basic)
next
  case False
  let ?sid = "raw_source_id pkt"
  have refused: "writers_ok (disable_source ?sid (note_error pd))"
    "touches_only ?sid D pd (disable_source ?sid (note_error pd))" for D
    using assms touches_trans[OF touches_basic(2) touches_basic(3)]
    by (auto simp: disable_source_def note_error_def elim: writers_ok_same)
  show ?thesis
  proof (cases "map_of (pd_writers pd) ?sid")
    case (Some w)
    then obtain s where s: "sanitize_path_component ?sid = Some s" "sw_src_dir w = pd_dir pd @ [s]"
      "\<And>f. sw_current w = Some f \<Longrightarrow> prefix (pd_dir pd @ [s]) (mf_path f)"
      using assms unfolding writers_ok_def by blast
    then show ?thesis using write_with_effect[OF assms s] False Some by (simp add: dump_write_def Let_def)
  next
    case None
    show ?thesis
    proof (cases "sanitize_path_component ?sid")
      case None2: None
      then show ?thesis using False None
        using refused by (simp add: dump_write_def Let_def open_source_dir_def)
    next
      case (Some s)
      let ?D = "pd_dir pd @ [s]"
      show ?thesis
      proof (cases "io_mkdir io ?D")
        case True
        let ?w = "\<lparr>sw_src_dir = ?D, sw_link_type = raw_link_type pkt, sw_current = None\<rparr>"
        let ?pd1 = "set_writer ?sid ?w pd"
        have "writers_ok ?pd1"
          by (rule writers_ok_update[OF assms Some, of ?w]) (simp_all add: set_writer_def)
        then have "touches_only ?sid ?D ?pd1 (write_with io pkt ?w ?pd1) \<and> writers_ok (write_with io pkt ?w ?pd1)"
          using write_with_effect[of ?pd1 pkt s ?w io] Some by (simp add: set_writer_def)
        moreover have "dump_write io pkt pd = write_with io pkt ?w ?pd1"
          using False None Some True by (simp add: dump_write_def Let_def open_source_dir_def)
        ultimately show ?thesis using Some by (auto dest: touches_trans[OF touches_basic(4)])
      next
        case nodir: False
        then show ?thesis using False None Some
          using refused by (simp add: dump_write_def Let_def open_source_dir_def)
      qed
    qed
  qed
qed

section \<open>One source with a file system that works\<close>

definition label_ok :: "int \<Rightarrow> bool" where
  "label_ok m \<longleftrightarrow> 0 \<le> label_year m \<and> label_year m \<le> 9999"

lemma minute_filename_inj:
  assumes "label_ok m" "label_ok m'" "minute_filename c m = minute_filename c m'"
  shows "m = m'"
proof -
  have "parse_dump_filename (minute_filename c k) = Some k" if "label_ok k" for k
  proof -
    have n: "minute_filename c k = minute_label k @ ''.pcap'' \<or> minute_filename c k = minute_label k @ ''.pcap.snappy''"
      unfolding minute_filename_def
      by (rule PcapCompression.exhaust[of c]) (simp_all only: PcapCompression.case append.simps append_Nil2 simp_thms)
    have k: "0 \<le> label_year k" "label_year k \<le> 9999" using that unfolding label_ok_def by blast+
    show ?thesis
      by (rule parse_dump_filename_iff[THEN iffD2, OF conjI[OF k(1) conjI[OF k(2) n]]])
  qed
  note named = this
  have "Some m = parse_dump_filename (minute_filename c m')"
    using named[OF assms(1)] unfolding assms(3) by (rule sym)
  then have "Some m = Some m'" unfolding named[OF assms(2)] .
  then show ?thesis by (rule option.inject[THEN iffD1])
qed

definition next_minute :: "int option \<Rightarrow> RawPacket \<Rightarrow> int" where
  "next_minute cur p = (case cur of None \<Rightarrow> pkt_minute p | Some c \<Rightarrow> max c (pkt_minute p))"

fun last_minute :: "int option \<Rightarrow> RawPacket list \<Rightarrow> int option" where
  "last_minute cur [] = cur"
| "last_minute cur (p # ps) = last_minute (Some (next_minute cur p)) ps"

lemma placed_snoc:
  "placed cur (ps @ [p]) = placed cur ps @ [(next_minute (last_minute cur ps) p, p)]"
  "last_minute cur (ps @ [p]) = Some (next_minute (last_minute cur ps) p)"
  by (induction ps arbitrary: cur) (simp_all add: next_minute_def Let_def)

lemma minute_packets_snoc:
  "minute_packets (xs @ [(m, p)]) k = minute_packets xs k @ (if m = k then [p] else [])"
  by (simp add: minute_packets_def)

lemma last_minute_bound:
  "last_minute cur ps = Some m \<Longrightarrow> x \<in> set (placed cur ps) \<Longrightarrow> fst x \<le> m"
proof (induction ps arbitrary: m rule: rev_induct)
  case (snoc p ps)
  then show ?case
  proof (cases "last_minute cur ps")
    case None
    then have "ps = []" by (cases ps rule: rev_cases) (simp_all add: placed_snoc)
    then show ?thesis using snoc.prems by (simp add: Let_def next_minute_def)
  next
    case (Some c)
    have m: "m = max c (pkt_minute p)" and x: "x \<in> set (placed cur ps) \<or> x = (m, p)"
      using snoc.prems Some by (auto simp: placed_snoc next_minute_def)
    from x show ?thesis using snoc.IH[OF Some] m by auto
  qed
qed simp

lemma minute_packets_later:
  assumes "last_minute None ps = None \<or> (\<exists>c. last_minute None ps = Some c \<and> c < m)"
  shows "minute_packets (placed None ps) m = []"
proof (cases ps rule: rev_cases)
  case Nil
  then show ?thesis by (simp add: minute_packets_def)
next
  case snoc
  then obtain c where c: "last_minute None ps = Some c" "c < m" using assms by (auto simp: placed_snoc)
  then show ?thesis using last_minute_bound[OF c(1)] by (fastforce simp: minute_packets_def filter_empty_conv)
qed

lemma last_minute_label:
  "(\<And>p. p \<in> set ps \<Longrightarrow> label_ok (pkt_minute p)) \<Longrightarrow> last_minute None ps = Some m \<Longrightarrow> label_ok m"
  by (induction ps arbitrary: m rule: rev_induct)
    (auto simp: placed_snoc next_minute_def max_def split: option.splits if_splits)

lemma append_file_ok:
  "io_ok io \<Longrightarrow> append_file io p bs fs =
     (True, AList.update p ((case map_of fs p of Some b \<Rightarrow> b | None \<Rightarrow> []) @ bs) fs)"
  by (simp add: append_file_def io_ok_def)

lemma header_not_empty [simp]: "pcap_global_header l \<noteq> []" "[] \<noteq> pcap_global_header l"
  by (simp_all add: pcap_global_header_def to_le_bytes_def numeral_eq_Suc)

lemma write_to_ok:
  assumes "io_ok io"
  shows "\<exists>ms. write_to io pkt cur pd = pd\<lparr>pd_metrics := ms, pd_files := AList.update (mf_path cur)
    ((case map_of (pd_files pd) (mf_path cur) of Some b \<Rightarrow> b | None \<Rightarrow> []) @ pcap_record pkt) (pd_files pd)\<rparr>"
  by (cases pd) (auto simp: write_to_def Let_def append_file_ok[OF assms])

lemma open_minute_file_ok:
  assumes "io_ok io"
  shows "\<exists>fs'. open_minute_file io D m l c fs =
      (Some \<lparr>mf_minute_key = m, mf_path = D @ [minute_filename c m]\<rparr>, fs')
    \<and> (\<forall>q. map_of fs' q =
         (if q = D @ [minute_filename c m] then Some (started l (map_of fs q)) else map_of fs q))"
  using assms unfolding open_minute_file_def Let_def append_file_ok[OF assms]
  by (cases "map_of fs (D @ [minute_filename c m])") (simp_all add: io_ok_def update_conv' started_def)

text \<open>The contents after the packets \<open>xs\<close> with their minutes, on a directory that was \<open>fs0\<close>.\<close>

definition holds_packets ::
  "path \<Rightarrow> PcapCompression \<Rightarrow> u32 \<Rightarrow> (path \<times> bytes) list \<Rightarrow> (int \<times> RawPacket) list \<Rightarrow> (path \<times> bytes) list \<Rightarrow> bool" where
  "holds_packets D c l fs0 xs fs \<longleftrightarrow> (\<forall>m. label_ok m \<longrightarrow>
     map_of fs (D @ [minute_filename c m]) =
       file_content l (map_of fs0 (D @ [minute_filename c m])) (minute_packets xs m))"

lemma holds_packets_snoc:
  assumes "holds_packets D c l fs0 xs fs" "label_ok M"
    and new: "\<And>q. map_of fs' q = (if q = D @ [minute_filename c M]
      then Some ((if minute_packets xs M = [] then started l (map_of fs q) else the (map_of fs q)) @ pcap_record p)
      else map_of fs q)"
  shows "holds_packets D c l fs0 (xs @ [(M, p)]) fs'"
  unfolding holds_packets_def
proof (intro allI impI)
  fix m assume m: "label_ok m"
  let ?old = "map_of fs0 (D @ [minute_filename c m])"
  have old: "map_of fs (D @ [minute_filename c m]) = file_content l ?old (minute_packets xs m)"
    using assms(1) m by (simp add: holds_packets_def)
  show "map_of fs' (D @ [minute_filename c m]) = file_content l ?old (minute_packets (xs @ [(M, p)]) m)"
  proof (cases "m = M")
    case True
    then show ?thesis using old by (simp add: new minute_packets_snoc file_content_def)
  next
    case False
    then have "minute_filename c m \<noteq> minute_filename c M" using minute_filename_inj[OF m assms(2)] by blast
    then show ?thesis using old False by (simp add: new minute_packets_snoc)
  qed
qed

definition writer_at :: "path \<Rightarrow> u32 \<Rightarrow> PcapCompression \<Rightarrow> int option \<Rightarrow> SourceWriter" where
  "writer_at D l c cur = \<lparr>sw_src_dir = D, sw_link_type = l,
     sw_current = map_option (\<lambda>m. \<lparr>mf_minute_key = m, mf_path = D @ [minute_filename c m]\<rparr>) cur\<rparr>"

lemma write_with_ok:
  assumes io: "io_ok io" and l: "raw_link_type p = l"
    and w: "map_of (pd_writers pd) (raw_source_id p) = Some (writer_at D l c (last_minute None ps))"
    and c: "pd_compression pd = c" and h: "holds_packets D c l fs0 (placed None ps) (pd_files pd)"
    and lab: "label_ok (pkt_minute p)" "\<And>m. last_minute None ps = Some m \<Longrightarrow> label_ok m"
  shows "\<exists>pd'. write_with io p (writer_at D l c (last_minute None ps)) pd = pd'
    \<and> pd_disabled pd' = pd_disabled pd \<and> pd_compression pd' = c
    \<and> map_of (pd_writers pd') (raw_source_id p) = Some (writer_at D l c (last_minute None (ps @ [p])))
    \<and> holds_packets D c l fs0 (placed None (ps @ [p])) (pd_files pd')"
proof -
  let ?sid = "raw_source_id p"
  let ?cur = "last_minute None ps" let ?w = "writer_at D l c ?cur"
  let ?M = "next_minute ?cur p"
  let ?p = "D @ [minute_filename c ?M]"
  let ?f = "\<lparr>mf_minute_key = ?M, mf_path = ?p\<rparr>"
  have M: "label_ok ?M" using lab by (cases ?cur) (simp_all add: next_minute_def max_def)
  have at: "pkt_minute p = raw_timestamp_us p div MICROS_PER_MINUTE" by (simp add: pkt_minute_def)
  show ?thesis
  proof (cases "\<exists>m. ?cur = Some m \<and> pkt_minute p \<le> m")
    case True
    then obtain m where m: "?cur = Some m" "pkt_minute p \<le> m" by blast
    have Mm: "?M = m" using m by (simp add: next_minute_def)
    obtain ms where to: "write_to io p ?f pd = pd\<lparr>pd_metrics := ms, pd_files := AList.update ?p
        ((case map_of (pd_files pd) ?p of Some b \<Rightarrow> b | None \<Rightarrow> []) @ pcap_record p) (pd_files pd)\<rparr>"
      using write_to_ok[OF io, of p ?f pd] by auto
    have eq: "write_with io p ?w pd = write_to io p ?f pd"
      using m Mm by (simp add: write_with_def Let_def writer_at_def l at)
    have "ps \<noteq> []" using m by auto
    then have ne: "minute_packets (placed None ps) m \<noteq> []"
      using m by (cases ps rule: rev_cases) (simp_all add: placed_snoc minute_packets_snoc)
    then obtain b where b: "map_of (pd_files pd) ?p = Some b"
      using h M by (simp add: holds_packets_def file_content_def Mm)
    show ?thesis
      unfolding eq to using w M h b ne
      by (simp add: c placed_snoc m(1) Mm[unfolded m(1)] update_conv' holds_packets_snoc)
  next
    case False
    then have M': "?M = pkt_minute p" by (cases ?cur) (auto simp: next_minute_def)
    have none: "minute_packets (placed None ps) ?M = []"
      by (rule minute_packets_later) (use False M' in \<open>cases ?cur; force\<close>)
    let ?wn = "?w\<lparr>sw_current := None\<rparr>" let ?wf = "?w\<lparr>sw_current := Some ?f\<rparr>"
    obtain fs where o: "open_minute_file io D ?M l c (pd_files pd) = (Some ?f, fs)"
      and fs: "\<And>q. map_of fs q = (if q = ?p then Some (started l (map_of (pd_files pd) q)) else map_of (pd_files pd) q)"
      using open_minute_file_ok[OF io, of D ?M l c "pd_files pd"] by blast
    let ?pd2 = "set_writer ?sid ?wf (set_writer ?sid ?wn pd\<lparr>pd_files := fs\<rparr>)"
    have eq: "write_with io p ?w pd = write_to io p ?f ?pd2"
      using False o M' by (cases ?cur) (auto simp: write_with_def Let_def writer_at_def l at set_writer_def c)
    obtain ms where to: "write_to io p ?f ?pd2 = ?pd2\<lparr>pd_metrics := ms, pd_files := AList.update ?p
        ((case map_of (pd_files ?pd2) ?p of Some b \<Rightarrow> b | None \<Rightarrow> []) @ pcap_record p) (pd_files ?pd2)\<rparr>"
      using write_to_ok[OF io, of p ?f ?pd2] by auto
    show ?thesis
    proof (rule exI, rule conjI[OF trans[OF eq to]], intro conjI)
      show "holds_packets D c l fs0 (placed None (ps @ [p])) (pd_files (?pd2\<lparr>pd_metrics := ms, pd_files := AList.update ?p
          ((case map_of (pd_files ?pd2) ?p of Some b \<Rightarrow> b | None \<Rightarrow> []) @ pcap_record p) (pd_files ?pd2)\<rparr>))"
        unfolding placed_snoc
        by (rule holds_packets_snoc[OF h M]) (simp add: update_conv' set_writer_def fs none)
    qed (simp_all add: c placed_snoc update_conv' set_writer_def writer_at_def)
  qed
qed

text \<open>What holds of the dumper for the source \<open>sid\<close>, of directory \<open>D\<close>, once the packets \<open>ps\<close> were written.\<close>

definition source_inv ::
  "string \<Rightarrow> path \<Rightarrow> u32 \<Rightarrow> PcapCompression \<Rightarrow> (path \<times> bytes) list \<Rightarrow> RawPacket list \<Rightarrow> PacketDumper \<Rightarrow> bool" where
  "source_inv sid D l c fs0 ps pd \<longleftrightarrow> sid \<notin> set (pd_disabled pd) \<and> pd_compression pd = c
     \<and> map_of (pd_writers pd) sid = (if ps = [] then None else Some (writer_at D l c (last_minute None ps)))
     \<and> holds_packets D c l fs0 (placed None ps) (pd_files pd)"

lemma source_inv_other:
  assumes "source_inv sid D l c fs0 ps pd" "touches_only x E pd pd'" "x \<noteq> sid"
    and "\<And>f. \<not> prefix E (D @ [f])"
  shows "source_inv sid D l c fs0 ps pd'"
  using assms unfolding source_inv_def touches_only_def holds_packets_def by simp

lemma source_inv_own:
  assumes inv: "source_inv (raw_source_id p) D l c fs0 ps pd"
    and D: "sanitize_path_component (raw_source_id p) = Some s" "D = pd_dir pd @ [s]"
    and io: "io_ok io" and p: "\<not> is_heartbeat p" "raw_link_type p = l"
    and lab: "\<And>q. q \<in> set (p # ps) \<Longrightarrow> label_ok (pkt_minute q)"
  shows "source_inv (raw_source_id p) D l c fs0 (ps @ [p]) (dump_write io p pd)"
proof -
  let ?sid = "raw_source_id p" let ?w = "writer_at D l c (last_minute None ps)"
  have last: "label_ok m" if "last_minute None ps = Some m" for m
    using last_minute_label[of ps m] lab that by simp
  have known: "map_of (pd_writers pd) ?sid = Some ?w \<Longrightarrow> ps \<noteq> [] \<Longrightarrow> ?thesis"
    using write_with_ok[OF io p(2), of pd D c ps fs0] inv lab last p
    by (auto simp: source_inv_def dump_write_def Let_def)
  show ?thesis
  proof (cases "ps = []")
    case False
    then show ?thesis using known inv by (simp add: source_inv_def)
  next
    case True
    have w: "\<lparr>sw_src_dir = D, sw_link_type = raw_link_type p, sw_current = None\<rparr> = ?w"
      by (simp add: writer_at_def True p(2))
    have mk: "io_mkdir io D" using io by (simp add: io_ok_def)
    have "dump_write io p pd = write_with io p ?w (set_writer ?sid ?w pd)"
      using inv p(1) True mk
      by (simp add: dump_write_def Let_def open_source_dir_def D(1) D(2)[symmetric] source_inv_def w prefix_def)
        (simp add: D(2))
    moreover have "map_of (pd_writers (set_writer ?sid ?w pd)) ?sid = Some ?w"
      by (simp add: set_writer_def update_conv')
    ultimately show ?thesis
      using write_with_ok[OF io p(2), of "set_writer ?sid ?w pd" D c ps fs0] inv lab last
      by (auto simp: source_inv_def set_writer_def)
  qed
qed

lemma source_inv_wrong_link:
  assumes "source_inv (raw_source_id p) D l c fs0 ps pd" "ps \<noteq> []" "raw_link_type p \<noteq> l"
  shows "source_inv (raw_source_id p) D l c fs0 ps (dump_write io p pd)"
  using assms
  by (auto simp: source_inv_def dump_write_def Let_def write_with_def writer_at_def note_error_def)

section \<open>Properties\<close>

text \<open>The link type of a source is that of its first packet.\<close>

definition first_of :: "string \<Rightarrow> RawPacket list \<Rightarrow> RawPacket option" where
  "first_of sid ps = find (\<lambda>p. \<not> is_heartbeat p \<and> raw_source_id p = sid) ps"

definition pinned :: "string \<Rightarrow> RawPacket list \<Rightarrow> u32" where
  "pinned sid ps = (case first_of sid ps of None \<Rightarrow> 0 | Some q \<Rightarrow> raw_link_type q)"

lemma first_of_snoc:
  "first_of sid (ps @ [p]) =
     (case first_of sid ps of Some q \<Rightarrow> Some q
      | None \<Rightarrow> if \<not> is_heartbeat p \<and> raw_source_id p = sid then Some p else None)"
  unfolding first_of_def by (induction ps) auto

lemma first_of_none: "first_of sid ps = None \<Longrightarrow> of_source sid l ps = []"
  unfolding first_of_def of_source_def by (induction ps) (auto split: if_splits)

lemma first_of_some: "first_of sid ps = Some q \<Longrightarrow> raw_link_type q = l \<Longrightarrow> of_source sid l ps \<noteq> []"
  unfolding first_of_def of_source_def by (induction ps) (auto split: if_splits)

definition call_ok :: "string \<Rightarrow> string \<Rightarrow> dump_io \<times> RawPacket \<Rightarrow> bool" where
  "call_ok sid s x \<longleftrightarrow>
     (if raw_source_id (snd x) = sid
      then is_heartbeat (snd x) \<or> (io_ok (fst x) \<and> label_ok (pkt_minute (snd x)))
      else sanitize_path_component (raw_source_id (snd x)) \<noteq> Some s)"

lemma dump_run_inv:
  assumes s: "sanitize_path_component sid = Some s"
    and calls: "list_all (call_ok sid s) cs"
    and pin: "\<And>q. first_of sid (map snd cs) = Some q \<Longrightarrow> raw_link_type q = l"
  shows "writers_ok (dump_run cs (PacketDumper_new dir c ms fs))
    \<and> pd_dir (dump_run cs (PacketDumper_new dir c ms fs)) = dir
    \<and> source_inv sid (dir @ [s]) l c fs (of_source sid l (map snd cs)) (dump_run cs (PacketDumper_new dir c ms fs))"
  using calls pin
proof (induction cs rule: rev_induct)
  case Nil
  show ?case
    by (simp add: dump_run_def PacketDumper_new_def writers_ok_def source_inv_def of_source_def
        holds_packets_def file_content_def minute_packets_def)
next
  case (snoc x cs)
  obtain io p where x: "x = (io, p)" by fastforce
  let ?pd = "dump_run cs (PacketDumper_new dir c ms fs)" and ?ps = "map snd cs"
  let ?D = "dir @ [s]"
  have IH: "writers_ok ?pd" "pd_dir ?pd = dir" "source_inv sid ?D l c fs (of_source sid l ?ps) ?pd"
    using snoc by (simp_all add: first_of_snoc)
  have step: "dump_run (cs @ [x]) (PacketDumper_new dir c ms fs) = dump_write io p ?pd"
    by (simp add: dump_run_def x)
  let ?E = "case sanitize_path_component (raw_source_id p) of Some t \<Rightarrow> dir @ [t] | None \<Rightarrow> ?D @ [[], []]"
  have eff: "writers_ok (dump_write io p ?pd)" "touches_only (raw_source_id p) ?E ?pd (dump_write io p ?pd)"
    using dump_write_effect[OF IH(1), of pkt io for pkt io] IH(2) by auto
  have dir: "pd_dir (dump_write io p ?pd) = dir" using eff(2) IH(2) by (simp add: touches_only_def)
  have ok: "call_ok sid s (io, p)" using snoc.prems(1) x by simp
  have "source_inv sid ?D l c fs (of_source sid l (?ps @ [p])) (dump_write io p ?pd)"
  proof (cases "raw_source_id p = sid")
    case False
    then have "sanitize_path_component (raw_source_id p) \<noteq> Some s" using ok by (simp add: call_ok_def)
    then have "\<not> prefix ?E (?D @ [f])" for f
      by (auto split: option.splits simp: prefix_def)
    then show ?thesis using source_inv_other[OF IH(3) eff(2) False] False by (simp add: of_source_def)
  next
    case own: True
    show ?thesis
    proof (cases "is_heartbeat p")
      case True
      then show ?thesis using IH(3) by (simp add: of_source_def dump_write_def Let_def)
    next
      case traffic: False
      then have io: "io_ok io" and lab: "label_ok (pkt_minute p)" using ok own by (simp_all add: call_ok_def)
      show ?thesis
      proof (cases "raw_link_type p = l")
        case True
        have "label_ok (pkt_minute q)" if "q \<in> set (of_source sid l ?ps)" for q
          using that snoc.prems(1) by (auto simp: of_source_def list_all_iff call_ok_def)
        then have "source_inv sid ?D l c fs (of_source sid l ?ps @ [p]) (dump_write io p ?pd)"
          unfolding own[symmetric]
          by (intro source_inv_own[OF _ s[folded own] _ io traffic True])
            (use IH(2,3) own lab in \<open>auto\<close>)
        then show ?thesis using own traffic True by (simp add: of_source_def)
      next
        case False
        have "first_of sid ?ps \<noteq> None"
        proof
          assume "first_of sid ?ps = None"
          then have "first_of sid (map snd (cs @ [x])) = Some p" using own traffic x by (simp add: first_of_snoc)
          then show False using snoc.prems(2) False by blast
        qed
        then obtain q where q: "first_of sid ?ps = Some q" by blast
        have "of_source sid l ?ps \<noteq> []"
          by (rule first_of_some[OF q]) (use snoc.prems(2)[of q] q in \<open>simp add: first_of_snoc\<close>)
        then show ?thesis
          using source_inv_wrong_link[of p ?D l c fs _ ?pd io] IH(3) own False by (simp add: of_source_def)
      qed
    qed
  qed
  then show ?case unfolding step using eff(1) dir x by simp
qed

text \<open>C22: The file of a source for a minute holds what it held before the run, or the pcap header when
  it is new or empty, and then one record for every packet placed in that minute, in order of
  arrival, and nothing else: packets of the first link type the source showed, each in the latest
  minute seen so far. Without such a packet the file stays as it was. The source's own calls all
  succeed and its packets lie in years 0 to 9999. The packets of the other sources interleave at
  will and their calls may fail in any way; these have ids of another directory, since two ids
  that sanitise alike share their files (\<open>sanitised_ids_collide\<close>).\<close>

theorem dump_files_exact:
  assumes "sanitize_path_component sid = Some s"
    and "list_all (call_ok sid s) cs" "label_ok m"
  shows "map_of (pd_files (dump_run cs (PacketDumper_new dir c ms fs))) (dir @ [s, minute_filename c m]) =
    (let ps = map snd cs; l = pinned sid ps
     in file_content l (map_of fs (dir @ [s, minute_filename c m]))
          (minute_packets (placed None (of_source sid l ps)) m))"
proof -
  have "raw_link_type q = pinned sid (map snd cs)" if "first_of sid (map snd cs) = Some q" for q
    using that by (simp add: pinned_def)
  from dump_run_inv[OF assms(1,2) this] show ?thesis
    using assms(3) by (simp add: source_inv_def holds_packets_def Let_def)
qed

definition working_io :: dump_io where
  "working_io = \<lparr>io_mkdir = \<lambda>p. True, io_open = \<lambda>p. Opened, io_reopen = \<lambda>p. True, io_metadata = \<lambda>p. True,
     io_write = \<lambda>p bs. length bs\<rparr>"

definition broken_io :: dump_io where
  "broken_io = working_io\<lparr>io_write := \<lambda>p bs. 10\<rparr>"

definition dumped_packet :: "string \<Rightarrow> int \<Rightarrow> bytes \<Rightarrow> RawPacket" where
  "dumped_packet sid ts d = \<lparr>raw_timestamp_us = ts, raw_caplen = of_nat (length d), raw_wirelen = of_nat (length d),
     raw_link_type = 1, raw_data = d, raw_source_id = sid, raw_process = None\<rparr>"

definition dumped_calls :: "(dump_io \<times> RawPacket) list" where
  "dumped_calls = [(working_io, dumped_packet ''eth0'' 60000001 [1, 2]), (broken_io, dumped_packet ''eth1'' 60000002 [3]),
     (working_io, dumped_packet ''eth0'' 180000000 [4]), (working_io, dumped_packet ''eth0'' 60000003 [5])]"

lemma label_years: "label_ok 1" "label_ok 3"
  by code_simp+

definition dumped_before :: "(path \<times> bytes) list" where
  "dumped_before = [([''dump'', ''eth0'', ''19700101T0003.pcap''], [9])]"

theorem dump_files_exact_witness:
  "map_of (pd_files (dump_run dumped_calls (PacketDumper_new [''dump''] Uncompressed (\<lambda>_. 0) dumped_before)))
      ([''dump''] @ [''eth0'', minute_filename Uncompressed 1]) =
     Some (pcap_global_header 1 @ pcap_record (dumped_packet ''eth0'' 60000001 [1, 2]))
   \<and> map_of (pd_files (dump_run dumped_calls (PacketDumper_new [''dump''] Uncompressed (\<lambda>_. 0) dumped_before)))
      ([''dump''] @ [''eth0'', minute_filename Uncompressed 3]) =
     Some ([9] @ pcap_record (dumped_packet ''eth0'' 180000000 [4])
       @ pcap_record (dumped_packet ''eth0'' 60000003 [5]))"
proof -
  have labels: "minute_label 1 = ''19700101T0001''" "minute_label 3 = ''19700101T0003''" by code_simp+
  have c: "list_all (call_ok ''eth0'' ''eth0'') dumped_calls"
    by (simp add: dumped_calls_def call_ok_def dumped_packet_def io_ok_def working_io_def pkt_minute_def
        MICROS_PER_MINUTE_def label_years sanitize_path_component_def path_char_ok_def is_cont_def Let_def)
  have s: "sanitize_path_component ''eth0'' = Some ''eth0''"
    by (simp add: sanitize_path_component_def path_char_ok_def is_cont_def Let_def)
  have "of_source ''eth0'' 1 (map snd dumped_calls) = [dumped_packet ''eth0'' 60000001 [1, 2],
      dumped_packet ''eth0'' 180000000 [4], dumped_packet ''eth0'' 60000003 [5]]"
    by (simp add: dumped_calls_def of_source_def dumped_packet_def is_heartbeat_def HEARTBEAT_PACKET_LEN_def)
  moreover have "pinned ''eth0'' (map snd dumped_calls) = 1"
    by (simp add: dumped_calls_def pinned_def first_of_def dumped_packet_def is_heartbeat_def HEARTBEAT_PACKET_LEN_def)
  moreover have "minute_filename Uncompressed 1 = ''19700101T0001.pcap''"
    "minute_filename Uncompressed 3 = ''19700101T0003.pcap''" by (simp_all add: minute_filename_def labels)
  then have "map_of dumped_before ([''dump''] @ [''eth0'', minute_filename Uncompressed 1]) = None"
    "map_of dumped_before ([''dump''] @ [''eth0'', minute_filename Uncompressed 3]) = Some [9]"
    by (simp_all add: dumped_before_def)
  moreover have "pkt_minute (dumped_packet sid 60000001 d) = 1" "pkt_minute (dumped_packet sid 180000000 d) = 3"
    "pkt_minute (dumped_packet sid 60000003 d) = 1" for sid d
    by (simp_all add: dumped_packet_def pkt_minute_def MICROS_PER_MINUTE_def)
  ultimately show ?thesis
    using dump_files_exact[OF s c label_years(1), of "[''dump'']" Uncompressed "\<lambda>_. 0" dumped_before]
      dump_files_exact[OF s c label_years(2), of "[''dump'']" Uncompressed "\<lambda>_. 0" dumped_before]
    by (simp only: Let_def) (simp add: minute_packets_def file_content_def started_def Let_def)
qed

text \<open>Two source ids that differ only in a replaced character share one directory and its files.\<close>

theorem sanitised_ids_collide:
  "sanitize_path_component ''zone/a'' = sanitize_path_component ''zone_a''"
  "sanitize_path_component ''zone/a'' = Some ''zone_a''"
  by (simp_all add: sanitize_path_component_def path_char_ok_def is_cont_def Let_def)

text \<open>A sweep goes by the wall clock, the dumper by the packets' time: the file a source has open may be
  swept while the dumper still writes to it.\<close>

theorem open_file_swept:
  "(case map_of (pd_writers (dump_write working_io (dumped_packet ''eth0'' 60000001 [1])
       (PacketDumper_new [''dump''] Uncompressed (\<lambda>_. 0) []))) ''eth0'' of
     None \<Rightarrow> False
   | Some w \<Rightarrow> map_option mf_path (sw_current w) = Some [''dump'', ''eth0'', ''19700101T0001.pcap'']) \<and>
   sw_attempts (run_sweep (Listing [Dirent \<lparr>sd_is_dir = True, sd_files = Listing
       [Dirent \<lparr>df_path = [''dump'', ''eth0'', ''19700101T0001.pcap''], df_name = Some ''19700101T0001.pcap'',
          df_size = Some 41\<rparr>]\<rparr>]) (\<lambda>seen p. Removed) \<lparr>max_age_hours = 1, max_size_mb = 0\<rparr> 10800) =
     [[''dump'', ''eth0'', ''19700101T0001.pcap'']]"
proof -
  have l: "minute_label 1 = ''19700101T0001''" by code_simp
  have s: "sanitize_path_component ''eth0'' = Some ''eth0''"
    by (simp add: sanitize_path_component_def path_char_ok_def is_cont_def Let_def)
  have w: "minute_filename Uncompressed 1 = ''19700101T0001.pcap''" by (simp add: minute_filename_def l)
  have "sw_attempts (run_sweep (Listing [Dirent \<lparr>sd_is_dir = True, sd_files = Listing
       [Dirent \<lparr>df_path = [''dump'', ''eth0'', ''19700101T0001.pcap''], df_name = Some ''19700101T0001.pcap'',
          df_size = Some 41\<rparr>]\<rparr>]) (\<lambda>seen p. Removed) \<lparr>max_age_hours = 1, max_size_mb = 0\<rparr> 10800) =
     [[''dump'', ''eth0'', ''19700101T0001.pcap'']]"
    by (simp add: run_sweep_def sample_names system_time_to_minute_key_def Let_def try_unlink_def)
  moreover have "source_inv ''eth0'' ([''dump''] @ [''eth0'']) 1 Uncompressed []
      (of_source ''eth0'' 1 (map snd [(working_io, dumped_packet ''eth0'' 60000001 [1])]))
      (dump_run [(working_io, dumped_packet ''eth0'' 60000001 [1])] (PacketDumper_new [''dump''] Uncompressed (\<lambda>_. 0) []))"
    by (rule dump_run_inv[OF s, THEN conjunct2, THEN conjunct2])
      (auto simp: call_ok_def dumped_packet_def io_ok_def working_io_def pkt_minute_def MICROS_PER_MINUTE_def
        label_years first_of_def split: if_splits)
  then have "map_of (pd_writers (dump_write working_io (dumped_packet ''eth0'' 60000001 [1])
       (PacketDumper_new [''dump''] Uncompressed (\<lambda>_. 0) []))) ''eth0'' = Some (writer_at [''dump'', ''eth0''] 1 Uncompressed (Some 1))"
    by (simp add: source_inv_def dump_run_def of_source_def dumped_packet_def is_heartbeat_def HEARTBEAT_PACKET_LEN_def
        next_minute_def pkt_minute_def MICROS_PER_MINUTE_def)
  ultimately show ?thesis by (simp add: writer_at_def w)
qed

end
