(* ===== verification/Cloud_Probe.thy ===== *)
theory Cloud_Probe
  imports Capture Synth Pcap_Dump
begin

text \<open>
  \<^verbatim>\<open>server/h-capture/src/cloud_probe.rs\<close>: the batch parser and the receive loop. A received
  message is its list of frames. The dumper writes at once and counts on counters of its own;
  flushes and throttled log lines are left out. Offsets are within the message, whose length is
  the bound of every index.
\<close>

section \<open>Batches\<close>

definition BATCH_HDR_LEN :: nat where "BATCH_HDR_LEN = 24"
definition PKT_HDR_LEN :: nat where "PKT_HDR_LEN = 16"
definition PKT_DATA_LEN_FIELD :: nat where "PKT_DATA_LEN_FIELD = 2"

datatype BatchError = BatchTruncated (needed: nat) (have_bytes: nat) (at_offset: nat)

definition hex_byte :: "u8 \<Rightarrow> string" where
  "hex_byte b = [''0123456789abcdef'' ! unat (drop_bit 4 b), ''0123456789abcdef'' ! unat (b AND 15)]"

definition format_uuid :: "bytes \<Rightarrow> string" where
  "format_uuid bs =
     (let part = (\<lambda>i n. concat (map hex_byte (take n (drop i bs)))) in
      part 0 4 @ ''-'' @ part 4 2 @ ''-'' @ part 6 2 @ ''-'' @ part 8 2 @ ''-'' @ part 10 6)"

definition read_u32_be :: "bytes \<Rightarrow> nat \<Rightarrow> u32" where
  "read_u32_be bs off = be_word [bs ! off, bs ! (off + 1), bs ! (off + 2), bs ! (off + 3)]"

text \<open>The loop over the packet records, from an offset.\<close>

fun parse_records :: "bytes \<Rightarrow> nat \<Rightarrow> nat \<Rightarrow> BatchError + RawPacket list" where
  "parse_records bs 0 offset = Inr []"
| "parse_records bs (Suc n) offset =
     (let total = length bs; record_header_len = PKT_DATA_LEN_FIELD + PKT_HDR_LEN in
      if total - offset < record_header_len
      then Inl (BatchTruncated (record_header_len - (total - offset)) (total - offset) offset)
      else
        let pkt_data_len = unat (be_word [bs ! offset, bs ! (offset + 1)] :: u16);
            offset1 = offset + PKT_DATA_LEN_FIELD;
            tv_sec = read_u32_be bs offset1;
            tv_usec = read_u32_be bs (offset1 + 4);
            caplen = read_u32_be bs (offset1 + 8);
            wirelen = read_u32_be bs (offset1 + 12);
            offset2 = offset1 + PKT_HDR_LEN
        in if total - offset2 < pkt_data_len
           then Inl (BatchTruncated (pkt_data_len - (total - offset2)) (total - offset2) offset2)
           else
             case parse_records bs n (offset2 + pkt_data_len) of
               Inl e \<Rightarrow> Inl e
             | Inr out \<Rightarrow> Inr (\<lparr>raw_timestamp_us = uint tv_sec * 1000000 + uint tv_usec,
                  raw_caplen = caplen, raw_wirelen = wirelen, raw_link_type = LINKTYPE_ETHERNET,
                  raw_data = take pkt_data_len (drop offset2 bs), raw_source_id = [],
                  raw_process = None\<rparr> # out))"

definition parse_batch :: "bytes \<Rightarrow> BatchError + (string \<times> RawPacket list)" where
  "parse_batch bs =
     (let total = length bs in
      if total < BATCH_HDR_LEN then Inl (BatchTruncated (BATCH_HDR_LEN - total) total 0)
      else
        let uuid = format_uuid (take 16 (drop 8 bs));
            pkts_num = unat (be_word [bs ! 2, bs ! 3] :: u16)
        in case parse_records bs pkts_num BATCH_HDR_LEN of
             Inl e \<Rightarrow> Inl e
           | Inr out \<Rightarrow> Inr (uuid, out))"

section \<open>The receive loop\<close>

record CloudProbe =
  cp_txs :: "RawPacket channel list"
  cp_metrics :: "CaptureMetric MetricsWorker"
  cp_tracker :: HeartbeatTracker
  batch_count :: u64
  pkt_count :: u64
  hb_count :: u64
  cp_dumper :: "PacketDumper option"

text \<open>\<open>None\<close> is an error of the socket. \<open>flatten_message\<close> concatenates the frames.\<close>

type_synonym zmq_message = "bytes list option"

definition flatten_message :: "bytes list \<Rightarrow> bytes" where
  "flatten_message frames = concat frames"

text \<open>One packet of a batch; false once a channel is closed, which ends the source.\<close>

definition cloud_packet :: "(string \<Rightarrow> u64) \<Rightarrow> dump_calls \<Rightarrow> string \<Rightarrow> RawPacket \<Rightarrow> CloudProbe \<Rightarrow> bool \<times> CloudProbe" where
  "cloud_packet hash io uuid pkt0 s =
     (let pkt = pkt0\<lparr>raw_source_id := uuid\<rparr>;
          is_hb = is_heartbeat pkt;
          (hb, tracker) = on_packet (cp_tracker s) pkt;
          s1 = s\<lparr>cp_tracker := tracker\<rparr>;
          (ok, s2) = (case hb of
             None \<Rightarrow> (True, s1)
           | Some h \<Rightarrow>
               (let (sent, txs) = routing_send hash (cp_txs s1) h in
                if \<not> sent then (False, s1\<lparr>cp_txs := txs\<rparr>)
                else (True, s1\<lparr>cp_txs := txs, hb_count := hb_count s1 + 1,
                       cp_metrics := metric_inc CaptureHeartbeatsEmitted (cp_metrics s1)\<rparr>)))
      in if \<not> ok then (False, s2)
         else
           let d = dump_packet io pkt (cp_dumper s2);
               truncated = (raw_caplen pkt < raw_wirelen pkt);
               (sent, txs) = routing_send hash (cp_txs s2) pkt;
               s3 = s2\<lparr>cp_dumper := d, cp_txs := txs\<rparr>
           in if \<not> sent then (False, s3)
              else if is_hb
              then (True, s3\<lparr>hb_count := hb_count s3 + 1,
                          cp_metrics := metric_inc CaptureHeartbeatsEmitted (cp_metrics s3)\<rparr>)
              else (True, s3\<lparr>pkt_count := pkt_count s3 + 1,
                          cp_metrics :=
                            (let m = metric_inc CapturePacketsReceived (cp_metrics s3)
                             in if truncated then metric_inc CaptureTruncatedPackets m else m)\<rparr>))"

fun cloud_packets :: "(string \<Rightarrow> u64) \<Rightarrow> dump_calls \<Rightarrow> string \<Rightarrow> RawPacket list \<Rightarrow> CloudProbe \<Rightarrow> bool \<times> CloudProbe" where
  "cloud_packets hash io uuid [] s = (True, s)"
| "cloud_packets hash io uuid (p # ps) s =
     (let (ok, s') = cloud_packet hash io uuid p s
      in if ok then cloud_packets hash io uuid ps s' else (False, s'))"

definition cloud_message :: "(string \<Rightarrow> u64) \<Rightarrow> dump_calls \<Rightarrow> zmq_message \<Rightarrow> CloudProbe \<Rightarrow> bool \<times> CloudProbe" where
  "cloud_message hash io msg s =
     (case msg of
        None \<Rightarrow> (True, s\<lparr>cp_metrics := metric_inc CaptureReadErrors (cp_metrics s)\<rparr>)
      | Some frames \<Rightarrow>
          (case parse_batch (flatten_message frames) of
             Inl e \<Rightarrow> (True, s\<lparr>cp_metrics := metric_inc CaptureZmqBatchesDropped (cp_metrics s)\<rparr>)
           | Inr (uuid, pkts) \<Rightarrow>
               cloud_packets hash io uuid pkts
                 (s\<lparr>cp_metrics := metric_inc CaptureBatchesReceived (cp_metrics s),
                   batch_count := batch_count s + 1\<rparr>)))"

fun cloud_run :: "(string \<Rightarrow> u64) \<Rightarrow> dump_calls \<Rightarrow> zmq_message list \<Rightarrow> CloudProbe \<Rightarrow> CloudProbe" where
  "cloud_run hash io [] s = s"
| "cloud_run hash io (m # ms) s =
     (let (ok, s') = cloud_message hash io m s in if ok then cloud_run hash io ms s' else s')"

section \<open>Batches printed\<close>

text \<open>What a cloud-probe sends: a header with any version and key bits, and one record per packet.\<close>

record probe_packet =
  pp_sec :: u32
  pp_usec :: u32
  pp_caplen :: u32
  pp_wirelen :: u32
  pp_data :: bytes

definition packet_record :: "probe_packet \<Rightarrow> bytes" where
  "packet_record p =
     to_be_bytes 2 (of_nat (length (pp_data p)) :: u16) @ to_be_bytes 4 (pp_sec p)
     @ to_be_bytes 4 (pp_usec p) @ to_be_bytes 4 (pp_caplen p) @ to_be_bytes 4 (pp_wirelen p) @ pp_data p"

definition print_batch :: "u16 \<Rightarrow> u32 \<Rightarrow> bytes \<Rightarrow> probe_packet list \<Rightarrow> bytes" where
  "print_batch version keybit uuid pkts =
     to_be_bytes 2 version @ to_be_bytes 2 (of_nat (length pkts) :: u16) @ to_be_bytes 4 keybit @ uuid
     @ concat (map packet_record pkts)"

definition probe_raw :: "probe_packet \<Rightarrow> RawPacket" where
  "probe_raw p =
     \<lparr>raw_timestamp_us = uint (pp_sec p) * 1000000 + uint (pp_usec p), raw_caplen = pp_caplen p,
      raw_wirelen = pp_wirelen p, raw_link_type = LINKTYPE_ETHERNET, raw_data = pp_data p,
      raw_source_id = [], raw_process = None\<rparr>"

lemma to_be_bytes_nths:
  "[to_be_bytes 4 w ! 0, to_be_bytes 4 w ! 1, to_be_bytes 4 w ! 2, to_be_bytes 4 w ! 3] = to_be_bytes 4 w"
  by (simp add: to_be_bytes_4)

lemma read_u32_at:
  assumes "bs = pre @ to_be_bytes 4 (w :: u32) @ rest" "length pre = off"
  shows "read_u32_be bs off = w"
proof -
  have "bs ! off = to_be_bytes 4 w ! 0" "bs ! (off + 1) = to_be_bytes 4 w ! 1"
    "bs ! (off + 2) = to_be_bytes 4 w ! 2" "bs ! (off + 3) = to_be_bytes 4 w ! 3"
    using assms(2) unfolding assms(1) by (simp_all add: nth_append)
  then show ?thesis by (simp only: read_u32_be_def to_be_bytes_nths be_word_ports)
qed

lemma read_u16_at:
  assumes "bs = pre @ to_be_bytes 2 (w :: u16) @ rest" "length pre = off"
  shows "be_word [bs ! off, bs ! (off + 1)] = w"
proof -
  have "bs ! off = to_be_bytes 2 w ! 0" "bs ! (off + 1) = to_be_bytes 2 w ! 1"
    using assms(2) unfolding assms(1) by (simp_all add: nth_append)
  moreover have "[to_be_bytes 2 w ! 0, to_be_bytes 2 w ! 1] = to_be_bytes 2 w" by (simp add: to_be_bytes_2)
  ultimately show ?thesis by (simp only: be_word_ports)
qed

lemma parse_record_printed:
  assumes "bs = pre @ packet_record p @ rest" "length (pp_data p) < 2 ^ 16"
  shows "parse_records bs (Suc n) (length pre) =
    (case parse_records bs n (length (pre @ packet_record p)) of
       Inl e \<Rightarrow> Inl e | Inr out \<Rightarrow> Inr (probe_raw p # out))"
proof -
  let ?dl = "of_nat (length (pp_data p)) :: u16"
  note bs = assms(1)[unfolded packet_record_def]
  have dl: "be_word [bs ! length pre, bs ! (length pre + 1)] = ?dl"
    by (rule read_u16_at[where pre = pre]) (simp_all add: bs)
  have sec: "read_u32_be bs (length pre + 2) = pp_sec p"
    by (rule read_u32_at[where pre = "pre @ to_be_bytes 2 ?dl"]) (simp_all add: bs)
  have usec: "read_u32_be bs (length pre + 2 + 4) = pp_usec p"
    by (rule read_u32_at[where pre = "pre @ to_be_bytes 2 ?dl @ to_be_bytes 4 (pp_sec p)"]) (simp_all add: bs)
  have cap: "read_u32_be bs (length pre + 2 + 8) = pp_caplen p"
    by (rule read_u32_at[where pre = "pre @ to_be_bytes 2 ?dl @ to_be_bytes 4 (pp_sec p)
          @ to_be_bytes 4 (pp_usec p)"]) (simp_all add: bs)
  have wire: "read_u32_be bs (length pre + 2 + 12) = pp_wirelen p"
    by (rule read_u32_at[where pre = "pre @ to_be_bytes 2 ?dl @ to_be_bytes 4 (pp_sec p)
          @ to_be_bytes 4 (pp_usec p) @ to_be_bytes 4 (pp_caplen p)"]) (simp_all add: bs)
  have ul: "unat ?dl = length (pp_data p)" using assms(2) by (rule u16_of_nat)
  have data: "take (length (pp_data p)) (drop (length pre + 2 + 16) bs) = pp_data p" by (simp add: bs)
  have len: "length bs = length pre + 18 + length (pp_data p) + length rest" by (simp add: bs)
  have nxt: "length pre + 2 + 16 + length (pp_data p) = length (pre @ packet_record p)"
    by (simp add: packet_record_def)
  show ?thesis
    unfolding parse_records.simps Let_def PKT_DATA_LEN_FIELD_def PKT_HDR_LEN_def dl sec usec cap wire ul data nxt
      probe_raw_def
    by (simp add: len)
qed

lemma parse_records_printed:
  assumes "\<forall>p\<in>set pkts. length (pp_data p) < 2 ^ 16"
  shows "bs = pre @ concat (map packet_record pkts) @ rest \<Longrightarrow>
    parse_records bs (length pkts) (length pre) = Inr (map probe_raw pkts)"
  using assms
proof (induction pkts arbitrary: pre)
  case (Cons p pkts)
  have "bs = pre @ packet_record p @ (concat (map packet_record pkts) @ rest)" using Cons.prems(1) by simp
  from parse_record_printed[OF this, of "length pkts"]
  show ?case using Cons.IH[of "pre @ packet_record p"] Cons.prems by (simp del: parse_records.simps)
qed simp

text \<open>A message that ends inside a record.\<close>

lemma parse_record_short:
  assumes "bs = take m (pre @ packet_record p @ rest)" "length (pp_data p) < 2 ^ 16"
    and "length pre \<le> m" "m < length (pre @ packet_record p)"
  shows "\<exists>e. parse_records bs (Suc n) (length pre) = Inl e \<and> at_offset e + have_bytes e = m"
proof -
  have len: "length bs = m" using assms(1,4) by simp
  show ?thesis
  proof (cases "m < length pre + 18")
    case True
    then have "m - length pre < 18" using assms(3) by simp
    then show ?thesis
      using assms(3) by (simp add: len PKT_DATA_LEN_FIELD_def PKT_HDR_LEN_def Let_def)
  next
    case False
    let ?dl = "of_nat (length (pp_data p)) :: u16"
    have "\<exists>t. bs = pre @ to_be_bytes 2 ?dl @ t"
      using assms(1) False by (simp add: packet_record_def)
    then obtain t where t: "bs = pre @ to_be_bytes 2 ?dl @ t" ..
    have dl: "be_word [bs ! length pre, bs ! (length pre + 1)] = ?dl"
      by (rule read_u16_at[where pre = pre]) (simp_all add: t)
    have ul: "unat ?dl = length (pp_data p)" using assms(2) by (rule u16_of_nat)
    have short: "m - (length pre + 2 + 16) < length (pp_data p)"
      using assms(4) False by (simp add: packet_record_def)
    show ?thesis
      unfolding parse_records.simps Let_def PKT_DATA_LEN_FIELD_def PKT_HDR_LEN_def dl ul len
      using False short by simp
  qed
qed

lemma parse_records_short:
  assumes "\<forall>p\<in>set pkts. length (pp_data p) < 2 ^ 16"
  shows "bs = take m (pre @ concat (map packet_record pkts)) \<Longrightarrow> length pre \<le> m \<Longrightarrow>
    m < length (pre @ concat (map packet_record pkts)) \<Longrightarrow>
    \<exists>e. parse_records bs (length pkts) (length pre) = Inl e \<and> at_offset e + have_bytes e = m"
  using assms
proof (induction pkts arbitrary: pre)
  case (Cons p pkts)
  show ?case
  proof (cases "m < length (pre @ packet_record p)")
    case True
    then show ?thesis
      using parse_record_short[of bs m pre p "concat (map packet_record pkts)" "length pkts"] Cons.prems
      by (simp del: parse_records.simps)
  next
    case False
    then have bs: "bs = pre @ packet_record p @ take (m - length (pre @ packet_record p)) (concat (map packet_record pkts))"
      using Cons.prems(1,2) by simp
    have "\<exists>e. parse_records bs (length pkts) (length (pre @ packet_record p)) = Inl e \<and> at_offset e + have_bytes e = m"
      by (rule Cons.IH) (use Cons.prems False in auto)
    then show ?thesis
      using parse_record_printed[OF bs, of "length pkts"] Cons.prems by (auto simp del: parse_records.simps)
  qed
qed simp

lemma print_batch_header:
  "print_batch v kb uuid pkts @ rest =
    (to_be_bytes 2 v @ to_be_bytes 2 (of_nat (length pkts) :: u16) @ to_be_bytes 4 kb @ uuid)
    @ concat (map packet_record pkts) @ rest"
  by (simp add: print_batch_def)

text \<open>The fields of the header, when the message holds it.\<close>

lemma parse_batch_header:
  assumes "bs = to_be_bytes 2 v @ to_be_bytes 2 (of_nat n :: u16) @ to_be_bytes 4 kb @ uuid @ rest"
    and "length uuid = 16" "n < 2 ^ 16"
  shows "parse_batch bs = (case parse_records bs n 24 of Inl e \<Rightarrow> Inl e | Inr out \<Rightarrow> Inr (format_uuid uuid, out))"
proof -
  have num: "be_word [bs ! 2, bs ! 3] = (of_nat n :: u16)"
    using read_u16_at[of bs "to_be_bytes 2 v" "of_nat n" "to_be_bytes 4 kb @ uuid @ rest" 2] assms(1) by simp
  have un: "unat (of_nat n :: u16) = n" using assms(3) by (rule u16_of_nat)
  have id: "take 16 (drop 8 bs) = uuid" using assms(1,2) by simp
  have "24 \<le> length bs" using assms(1,2) by simp
  then show ?thesis unfolding parse_batch_def Let_def num un id BATCH_HDR_LEN_def by simp
qed

section \<open>Runs\<close>

definition accepted_packets :: "zmq_message \<Rightarrow> RawPacket list" where
  "accepted_packets msg =
     (case msg of None \<Rightarrow> []
      | Some frames \<Rightarrow>
          (case parse_batch (flatten_message frames) of Inl e \<Rightarrow> []
           | Inr (uuid, pkts) \<Rightarrow> map (\<lambda>p. p\<lparr>raw_source_id := uuid\<rparr>) pkts))"

definition malformed :: "zmq_message \<Rightarrow> bool" where
  "malformed msg \<longleftrightarrow> (\<exists>frames e. msg = Some frames \<and> parse_batch (flatten_message frames) = Inl e)"

definition traffic :: "RawPacket list \<Rightarrow> RawPacket list" where
  "traffic ps = filter (\<lambda>p. \<not> is_heartbeat p) ps"

lemma traffic_simps [simp]: "traffic [] = []" "traffic (ps @ qs) = traffic ps @ traffic qs"
  "traffic (p # ps) = (if is_heartbeat p then [] else [p]) @ traffic ps"
  by (simp_all add: traffic_def)

text \<open>What the source has sent and counted since a state, as long as every channel is open.\<close>

definition cloud_sent :: "(string \<Rightarrow> u64) \<Rightarrow> dump_calls \<Rightarrow> CloudProbe \<Rightarrow> RawPacket list \<Rightarrow> CloudProbe \<Rightarrow> bool" where
  "cloud_sent hash io s ps s' \<longleftrightarrow>
     (\<exists>qs. cp_txs s' = sends hash qs (cp_txs s) \<and> traffic qs = traffic ps)
     \<and> cp_metrics s' CapturePacketsReceived =
         cp_metrics s CapturePacketsReceived + of_nat (length (traffic ps))
     \<and> cp_dumper s' = dump_packets io ps (cp_dumper s)"

lemma sends_open: "routes_open txs \<Longrightarrow> routes_open (sends hash ps txs)"
  by (induction ps arbitrary: txs) (simp_all add: routing_send_open)

lemma cloud_sent_trans:
  assumes "cloud_sent hash io s ps s'" "cloud_sent hash io s' qs s''"
  shows "cloud_sent hash io s (ps @ qs) s''"
proof -
  obtain xs ys where "cp_txs s' = sends hash xs (cp_txs s)" "traffic xs = traffic ps"
    "cp_txs s'' = sends hash ys (cp_txs s')" "traffic ys = traffic qs"
    using assms by (auto simp: cloud_sent_def)
  then show ?thesis
    using assms by (auto simp: cloud_sent_def add.assoc intro!: exI[of _ "xs @ ys"])
qed

lemma cloud_sent_open: "cloud_sent hash io s ps s' \<Longrightarrow> routes_open (cp_txs s) \<Longrightarrow> routes_open (cp_txs s')"
  by (auto simp: cloud_sent_def sends_open)

lemma on_packet_hb: "fst (on_packet t p) = Some h \<Longrightarrow> is_heartbeat h"
  by (auto simp: on_packet_def Let_def heartbeat_is_heartbeat split: if_splits)

lemma cloud_packet_sent:
  assumes "routes_open (cp_txs s)"
  shows "fst (cloud_packet hash io uuid p s)
    \<and> cloud_sent hash io s [p\<lparr>raw_source_id := uuid\<rparr>] (snd (cloud_packet hash io uuid p s))
    \<and> cp_metrics (snd (cloud_packet hash io uuid p s)) CaptureZmqBatchesDropped =
        cp_metrics s CaptureZmqBatchesDropped"
proof -
  let ?p = "p\<lparr>raw_source_id := uuid\<rparr>"
  obtain hb t where o: "on_packet (cp_tracker s) ?p = (hb, t)" by fastforce
  let ?hbs = "case_option [] (\<lambda>h. [h]) hb"
  have hbs: "traffic ?hbs = []" using on_packet_hb[of "cp_tracker s" ?p] o by (cases hb) auto
  define txs1 where "txs1 = sends hash ?hbs (cp_txs s)"
  have open1: "routes_open txs1" unfolding txs1_def using assms by (rule sends_open)
  have sent: "fst (routing_send hash txs1 ?p)" using routing_send_open(1)[OF open1] .
  have sent_hb: "fst (routing_send hash (cp_txs s) h)" for h using routing_send_open(1)[OF assms] .
  have txs: "cp_txs (snd (cloud_packet hash io uuid p s)) = sends hash (?hbs @ [?p]) (cp_txs s)"
    and ok: "fst (cloud_packet hash io uuid p s)"
    and ms: "cp_metrics (snd (cloud_packet hash io uuid p s)) CapturePacketsReceived =
        cp_metrics s CapturePacketsReceived + of_nat (length (traffic [?p]))"
      "cp_metrics (snd (cloud_packet hash io uuid p s)) CaptureZmqBatchesDropped =
        cp_metrics s CaptureZmqBatchesDropped"
    and dump: "cp_dumper (snd (cloud_packet hash io uuid p s)) = dump_packets io [?p] (cp_dumper s)"
    using sent sent_hb unfolding txs1_def
    by (cases hb; simp add: cloud_packet_def o Let_def split_beta metric_inc_def metric_add_def)+
  then show ?thesis
    using hbs dump by (auto simp: cloud_sent_def intro!: exI[of _ "?hbs @ [?p]"])
qed

lemma cloud_packets_sent:
  "routes_open (cp_txs s) \<Longrightarrow>
    fst (cloud_packets hash io uuid ps s)
    \<and> cloud_sent hash io s (map (\<lambda>p. p\<lparr>raw_source_id := uuid\<rparr>) ps) (snd (cloud_packets hash io uuid ps s))
    \<and> cp_metrics (snd (cloud_packets hash io uuid ps s)) CaptureZmqBatchesDropped =
        cp_metrics s CaptureZmqBatchesDropped"
proof (induction ps arbitrary: s)
  case Nil
  have "cloud_sent hash io s [] s" by (auto simp: cloud_sent_def intro!: exI[of _ "[]"])
  then show ?case by simp
next
  case (Cons p ps)
  obtain ok s1 where s1: "cloud_packet hash io uuid p s = (ok, s1)" by fastforce
  then have one: "ok" "cloud_sent hash io s [p\<lparr>raw_source_id := uuid\<rparr>] s1"
    "cp_metrics s1 CaptureZmqBatchesDropped = cp_metrics s CaptureZmqBatchesDropped"
    using cloud_packet_sent[OF Cons.prems, of hash io uuid p] by auto
  have "routes_open (cp_txs s1)" using cloud_sent_open[OF one(2) Cons.prems] .
  then show ?case using Cons.IH[of s1] one s1 cloud_sent_trans[OF one(2)] by fastforce
qed

lemma cloud_message_sent:
  assumes "routes_open (cp_txs s)"
  shows "fst (cloud_message hash io m s)
    \<and> cloud_sent hash io s (accepted_packets m) (snd (cloud_message hash io m s))
    \<and> cp_metrics (snd (cloud_message hash io m s)) CaptureZmqBatchesDropped =
        cp_metrics s CaptureZmqBatchesDropped + (if malformed m then 1 else 0)"
proof -
  have counted: "cloud_sent hash io s [] (s\<lparr>cp_metrics := metric_inc x (cp_metrics s)\<rparr>)"
    if "x \<noteq> CapturePacketsReceived" for x
    using that by (auto simp: cloud_sent_def metric_inc_def metric_add_def intro!: exI[of _ "[]"])
  show ?thesis
  proof (cases m)
    case None
    then show ?thesis using counted[of CaptureReadErrors]
      by (simp add: cloud_message_def accepted_packets_def malformed_def metric_inc_def metric_add_def)
  next
    case (Some frames)
    show ?thesis
    proof (cases "parse_batch (flatten_message frames)")
      case (Inl e)
      then show ?thesis using counted[of CaptureZmqBatchesDropped] Some
        by (simp add: cloud_message_def accepted_packets_def malformed_def metric_inc_def metric_add_def)
    next
      case (Inr up)
      obtain uuid pkts where up: "up = (uuid, pkts)" by (cases up)
      let ?s1 = "s\<lparr>cp_metrics := metric_inc CaptureBatchesReceived (cp_metrics s), batch_count := batch_count s + 1\<rparr>"
      have "cloud_sent hash io s ps s' = cloud_sent hash io ?s1 ps s'" for ps s'
        by (simp add: cloud_sent_def metric_inc_def metric_add_def)
      then show ?thesis
        using cloud_packets_sent[of ?s1 hash io uuid pkts] assms Some Inr up
        by (simp add: cloud_message_def accepted_packets_def malformed_def metric_inc_def metric_add_def)
    qed
  qed
qed

lemma cloud_run_sent:
  "routes_open (cp_txs s) \<Longrightarrow>
    cloud_sent hash io s (concat (map accepted_packets ms)) (cloud_run hash io ms s)
    \<and> cp_metrics (cloud_run hash io ms s) CaptureZmqBatchesDropped =
        cp_metrics s CaptureZmqBatchesDropped + of_nat (length (filter malformed ms))"
proof (induction ms arbitrary: s)
  case Nil
  then show ?case by (auto simp: cloud_sent_def intro!: exI[of _ "[]"])
next
  case (Cons m ms)
  obtain ok s1 where s1: "cloud_message hash io m s = (ok, s1)" by fastforce
  then have one: "ok" "cloud_sent hash io s (accepted_packets m) s1"
    "cp_metrics s1 CaptureZmqBatchesDropped = cp_metrics s CaptureZmqBatchesDropped + (if malformed m then 1 else 0)"
    using cloud_message_sent[OF Cons.prems, of hash io m] by auto
  have "routes_open (cp_txs s1)" using cloud_sent_open[OF one(2) Cons.prems] .
  then show ?case using Cons.IH[of s1] one s1 cloud_sent_trans[OF one(2)] by (auto simp: add.assoc)
qed

section \<open>Properties\<close>

text \<open>C26: A batch is parsed back to the packets it was printed from, whatever its version and key
  bits and whatever follows it, and every strict prefix of it is refused as a whole with an
  error that accounts for the length of the message.\<close>

theorem batch_all_or_nothing:
  assumes "length uuid = 16" "length pkts < 2 ^ 16" "\<forall>p\<in>set pkts. length (pp_data p) < 2 ^ 16"
  shows "parse_batch (print_batch v kb uuid pkts @ rest) = Inr (format_uuid uuid, map probe_raw pkts)
    \<and> (\<forall>m<length (print_batch v kb uuid pkts).
         \<exists>e. parse_batch (take m (print_batch v kb uuid pkts)) = Inl e \<and> at_offset e + have_bytes e = m)"
proof (intro conjI allI impI)
  let ?hdr = "to_be_bytes 2 v @ to_be_bytes 2 (of_nat (length pkts) :: u16) @ to_be_bytes 4 kb @ uuid"
  let ?recs = "concat (map packet_record pkts)"
  have hdr: "length ?hdr = 24" using assms(1) by simp
  have full: "print_batch v kb uuid pkts @ rest = ?hdr @ ?recs @ rest" by (rule print_batch_header)
  show "parse_batch (print_batch v kb uuid pkts @ rest) = Inr (format_uuid uuid, map probe_raw pkts)"
    using parse_batch_header[of "print_batch v kb uuid pkts @ rest" v "length pkts" kb uuid "?recs @ rest"]
      parse_records_printed[OF assms(3) full] assms(1,2) full hdr by simp
  fix m assume m: "m < length (print_batch v kb uuid pkts)"
  let ?bs = "take m (print_batch v kb uuid pkts)"
  have batch: "print_batch v kb uuid pkts = ?hdr @ ?recs" by (simp add: print_batch_def)
  show "\<exists>e. parse_batch ?bs = Inl e \<and> at_offset e + have_bytes e = m"
  proof (cases "m < 24")
    case True
    then show ?thesis using m by (auto simp: parse_batch_def BATCH_HDR_LEN_def Let_def)
  next
    case False
    then have bs: "?bs = to_be_bytes 2 v @ to_be_bytes 2 (of_nat (length pkts) :: u16) @ to_be_bytes 4 kb
        @ uuid @ take (m - 24) ?recs"
      using hdr by (simp add: batch)
    obtain e where "parse_records ?bs (length pkts) 24 = Inl e" "at_offset e + have_bytes e = m"
      using parse_records_short[OF assms(3), of ?bs m ?hdr] False m hdr by (auto simp: batch)
    then show ?thesis using parse_batch_header[OF bs assms(1,2)] by simp
  qed
qed

definition sample_probe_packets :: "probe_packet list" where
  "sample_probe_packets =
     [\<lparr>pp_sec = 1, pp_usec = 2, pp_caplen = 3, pp_wirelen = 5, pp_data = [9, 8, 7]\<rparr>,
      \<lparr>pp_sec = 1, pp_usec = 3, pp_caplen = 0, pp_wirelen = 0, pp_data = []\<rparr>]"

theorem batch_all_or_nothing_witness:
  "parse_batch (print_batch 2 0 (replicate 16 0xAB) sample_probe_packets @ [1]) =
      Inr (format_uuid (replicate 16 0xAB), map probe_raw sample_probe_packets)
    \<and> (\<exists>e. parse_batch (take 40 (print_batch 2 0 (replicate 16 0xAB) sample_probe_packets)) = Inl e
           \<and> at_offset e + have_bytes e = 40)"
proof -
  have "40 < length (print_batch 2 0 (replicate 16 0xAB) sample_probe_packets)"
    by (simp add: print_batch_def packet_record_def sample_probe_packets_def)
  then show ?thesis
    using batch_all_or_nothing[of "replicate 16 0xAB" sample_probe_packets 2 0 "[1]"]
    by (auto simp: sample_probe_packets_def)
qed

text \<open>C25: While the channels are open, the source forwards, apart from heartbeats, exactly the packets
  of the well-formed batches, each under the identifier of its batch, in order and to the
  channel of that identifier; a malformed batch adds nothing but one to its counter, the packet
  counter counts what was forwarded, and the dumper, if there is one, is given each packet once.\<close>

theorem cloud_run_exact:
  assumes "routes_open (cp_txs s)" and "i < length (cp_txs s)"
  shows "traffic (ch_queue (cp_txs (cloud_run hash io ms s) ! i)) =
      traffic (ch_queue (cp_txs s ! i))
      @ filter (\<lambda>p. routing_index hash (length (cp_txs s)) (raw_source_id p) = i)
          (traffic (concat (map accepted_packets ms)))
    \<and> cp_metrics (cloud_run hash io ms s) CapturePacketsReceived =
        cp_metrics s CapturePacketsReceived + of_nat (length (traffic (concat (map accepted_packets ms))))
    \<and> cp_metrics (cloud_run hash io ms s) CaptureZmqBatchesDropped =
        cp_metrics s CaptureZmqBatchesDropped + of_nat (length (filter malformed ms))
    \<and> cp_dumper (cloud_run hash io ms s) =
        dump_packets io (concat (map accepted_packets ms)) (cp_dumper s)"
proof -
  let ?route = "\<lambda>p. routing_index hash (length (cp_txs s)) (raw_source_id p) = i"
  obtain qs where qs: "cp_txs (cloud_run hash io ms s) = sends hash qs (cp_txs s)"
    "traffic qs = traffic (concat (map accepted_packets ms))"
    using cloud_run_sent[OF assms(1), of hash io ms] by (auto simp: cloud_sent_def)
  have "traffic (filter ?route qs) = filter ?route (traffic qs)" by (simp add: traffic_def conj_commute)
  then show ?thesis
    using cloud_run_sent[OF assms(1), of hash io ms] qs sends_queue[OF assms, of hash qs]
    by (simp add: cloud_sent_def)
qed

definition sample_cloud :: CloudProbe where
  "sample_cloud = \<lparr>cp_txs = [\<lparr>ch_queue = [], ch_capacity = 8, ch_closed = False\<rparr>], cp_metrics = (\<lambda>m. 0),
     cp_tracker = [], batch_count = 0, pkt_count = 0, hb_count = 0,
     cp_dumper = Some (PacketDumper_new [''dump''] Uncompressed (\<lambda>m. 0) [])\<rparr>"

definition sample_messages :: "zmq_message list" where
  "sample_messages = [Some [print_batch 2 0 (replicate 16 0) sample_probe_packets], None, Some [[1, 2]]]"

theorem cloud_run_exact_witness:
  "traffic (ch_queue (cp_txs (cloud_run (\<lambda>sid. 0) (\<lambda>d p. working_io) sample_messages sample_cloud) ! 0)) =
      traffic (ch_queue (cp_txs sample_cloud ! 0))
      @ filter (\<lambda>p. routing_index (\<lambda>sid. 0) (length (cp_txs sample_cloud)) (raw_source_id p) = 0)
          (traffic (concat (map accepted_packets sample_messages)))
    \<and> cp_metrics (cloud_run (\<lambda>sid. 0) (\<lambda>d p. working_io) sample_messages sample_cloud) CapturePacketsReceived =
        cp_metrics sample_cloud CapturePacketsReceived
        + of_nat (length (traffic (concat (map accepted_packets sample_messages))))
    \<and> cp_metrics (cloud_run (\<lambda>sid. 0) (\<lambda>d p. working_io) sample_messages sample_cloud) CaptureZmqBatchesDropped =
        cp_metrics sample_cloud CaptureZmqBatchesDropped + of_nat (length (filter malformed sample_messages))
    \<and> cp_dumper (cloud_run (\<lambda>sid. 0) (\<lambda>d p. working_io) sample_messages sample_cloud) =
        dump_packets (\<lambda>d p. working_io) (concat (map accepted_packets sample_messages)) (cp_dumper sample_cloud)"
  by (rule cloud_run_exact) (simp_all add: sample_cloud_def routes_open_def)

end
