(* ===== verification/Spec2Isabelle.thy ===== *)
theory Spec2Isabelle
  imports Flow Joiner Aggregator Write_Buffer Proxy_Pair Llm_Stage Agents Ebpf Cloud_Probe
begin

text \<open>
  \<^bold>\<open>Heron, a passive monitor for LLM traffic: the packet-to-turn pipeline\<close>

  The program captures packets, follows TCP flows, reads HTTP and server-sent events out of them,
  recognises calls of LLM APIs, and derives metrics and agent turns. The stages of the server run
  as tasks that hand values to each other through channels; each stage is sharded by a hash. This
  development models the stages from the eBPF probes and the decoder to the stored turn, function
  by function, and proves what each promises to the next. All paths below are under \<^verbatim>\<open>src/server\<close>.

  \<^bold>\<open>Theories and sources\<close>

  \<^item> \<open>Prelude\<close>: machine integers, the containers \<open>HashMap\<close> and \<open>BTreeMap\<close> as association lists, runs, and
    the locales (below). \<open>Rust_Text\<close>: UTF-8, trimming, case, lines and radix parsing of \<open>str\<close>.
    \<open>F64\<close>: IEEE 754 addition, division and conversion on bit patterns.
  \<^item> \<open>Net\<close>: \<^verbatim>\<open>h-protocol/src/net.rs\<close>, \<^verbatim>\<open>model.rs\<close>, \<^verbatim>\<open>h-capture/src/packet.rs\<close>: flow keys, packets, events.
    \<open>Decode\<close>: \<^verbatim>\<open>h-protocol/src/de\<close>, the cursor and the L2 to L4 decoders.
  \<^item> \<open>Http_Body\<close>, \<open>Sse\<close>, \<open>Http\<close>: \<^verbatim>\<open>h-protocol/src/http.rs\<close>: body framing and chunked decoding, the splitter
    of event streams, and the request/response parser with its buffers and states.
  \<^item> \<open>Tcp\<close>: \<^verbatim>\<open>h-protocol/src/tcp.rs\<close>: reassembly with the out-of-order map, the flow state machine, the
    flow table of a worker and its sweep. \<open>Flow\<close>: \<^verbatim>\<open>flow.rs\<close>, \<^verbatim>\<open>h-capture/src/routing.rs\<close> and
    \<^verbatim>\<open>heartbeat.rs\<close>: channels, dispatch by hash, heartbeats.
  \<^item> \<open>Synth\<close>: \<^verbatim>\<open>h-capture/src/synth.rs\<close>: frames made of plaintext. \<open>Ebpf\<close>: \<^verbatim>\<open>h-ebpf-common\<close>, \<^verbatim>\<open>h-ebpf-prog\<close> and
    \<^verbatim>\<open>h-capture/src/ebpf\<close>: the probes on the TLS library, the ring, the pump and the drain loop. \<open>Capture\<close>:
    what the sources share. \<open>Cloud_Probe\<close>: \<^verbatim>\<open>cloud_probe.rs\<close>: batches of a remote probe. \<open>Calendar\<close>, \<open>Pcap_Dump\<close>:
    \<^verbatim>\<open>pcap_dump.rs\<close>: minute labels, and the dump of packets to a file per source and minute.
    \<open>Pcap_Retention\<close>: \<^verbatim>\<open>pcap_retention.rs\<close>: the sweep of these files.
  \<^item> \<open>Joiner\<close>: \<^verbatim>\<open>h-protocol/src/joiner.rs\<close>: pairs requests, SSE events and responses of a flow.
  \<^item> \<open>Llm\<close>: the records of \<^verbatim>\<open>h-llm/src/model.rs\<close> and \<^verbatim>\<open>h-common/src/agent.rs\<close>. \<open>Json\<close>: the values of
    \<open>serde_json\<close> and \<^verbatim>\<open>parsed_json.rs\<close>. \<open>Wire_Api\<close>: the trait \<open>WireApi\<close> as a record of its methods and
    \<^verbatim>\<open>wire_api_registry.rs\<close>. \<open>Token_Estimator\<close>: \<^verbatim>\<open>token_estimator.rs\<close> and the estimators of the OpenAI
    wire APIs. \<open>Anthropic\<close>, \<open>Openai_Chat\<close>, \<open>Openai_Responses\<close>, \<open>Gemini\<close>: the four wire APIs of
    \<^verbatim>\<open>wire_apis/\<close>; \<open>Wire_Registry\<close>: their default registry. \<open>Session_Id\<close>, \<open>Agents\<close>: \<^verbatim>\<open>agents/\<close>, the
    session identifiers, the six agent profiles and their registry. \<open>Processor\<close>: \<^verbatim>\<open>processor.rs\<close>,
    \<^verbatim>\<open>agent_classifier.rs\<close>, \<^verbatim>\<open>profile.rs\<close> and the body cap. \<open>Llm_Stage\<close>: the worker loop of \<^verbatim>\<open>stage.rs\<close>.
  \<^item> \<open>Active_Calls\<close>, \<open>Bucket\<close>, \<open>Aggregator\<close>: \<^verbatim>\<open>h-metrics/src\<close>: the in-flight table that all shards share,
    the windows and rows, the aggregator of a shard.
  \<^item> \<open>Write_Buffer\<close>: \<^verbatim>\<open>h-storage/src/buffer.rs\<close> and \<^verbatim>\<open>h-common/src/throttle.rs\<close>.
  \<^item> \<open>Turn\<close>, \<open>Proxy_Pair\<close>: \<^verbatim>\<open>h-turn/src/tracker.rs\<close> and \<^verbatim>\<open>proxy_pair.rs\<close>: calls of a session become turns;
    turns that are copies of one call, seen at several points, are grouped.

  A struct is a record and an enum a datatype with the names of the source (prefixed where two
  structs share a field name); a method takes and returns the record; a loop is a recursive
  function or a fold. A panic is \<open>None\<close>, an error a value of the source's error type, a stop of a
  task a boolean.

  \<^bold>\<open>What the lemmas show\<close>

  \<^item> Bytes. Decoding yields the header fields and the exact payload (\<open>decode_ipv4_frame\<close>); reassembly
    only ever yields a prefix of the stream (\<open>reassembly_prefix\<close>), and without a wrap, within the
    bound of the out-of-order map and without shorter retransmissions all of it (\<open>reassembly_complete\<close>).
  \<^item> Capture. What an application writes to a TLS connection comes out of probes, ring, pump,
    synthesizer, decoder and reassembly unchanged (\<open>ebpf_stream_reassembled\<close>), and after any loss of records
    still as one contiguous part, which begins at the first record taken when no handshake was
    synthesized (\<open>ebpf_loss_never_splices\<close>). A batch of a remote probe is taken whole or not at all, and
    its packets are forwarded and dumped once each. Dump files gain exactly the packets of their
    minute (\<open>dump_files_exact\<close>); a sweep removes exactly what the limits ask for and never a foreign file or
    one of the last two minutes.
  \<^item> HTTP. Chunked bodies and event streams do not depend on how the network cut them
    (\<open>chunked_body_any_segmentation\<close>, \<open>sse_any_segmentation\<close>); whole requests and streamed responses parse
    to the expected events; every call of the parser is a run of the abstract exchange machine
    (\<open>parse_alternates\<close>) and returns (\<open>parse_returns\<close>).
  \<^item> Flows. Workers keep their invariant over any run, sources do not disturb each other (\<open>source_isolation\<close>), both
    directions of a connection reach one worker, sweeps remove exactly what is stale.
  \<^item> Calls. The joiner pairs an exchange in any interleaving; detection is first-match in two passes;
    start and completion of a call agree on its key, so that through joiner, processor and in-flight
    table an exchange is one call (\<open>exchange_becomes_one_call\<close> below); streamed messages are assembled
    whatever the interleaving of their blocks; the stage loses and duplicates nothing. The readers of
    the Chat and Gemini streams equal declarative readings of the whole stream (\<open>chat_stream_read\<close>,
    \<open>gemini_stream_read\<close>), the Responses reader puts in the announced items exactly when the
    output of the completed event is missing or empty; routes do not overlap; a conversation keeps its
    session identifier (\<open>session_id_stable\<close>).
  \<^item> Metrics and turns. The in-flight table refines the map of open calls; the rows of a metrics shard
    add up to what was written; the turns of a run and its discarded parts partition the calls;
    groups of proxy copies are sound, disjoint and complete for clusters; the write buffer hands
    over every record once and in order.
  \<^item> Defects. Some theorems exhibit runs in which the code does not do what it means to, for example
    \<open>reassembly_wrap_stalls\<close>, \<open>syn_splices_stale_segment\<close>, \<open>read_chunk_panics_iff\<close>, \<open>registry_entry_leaks\<close>,
    \<open>informational_response_ends_exchange\<close>, \<open>no_argument_tool_input_lost\<close>, \<open>two_choices_merged\<close>,
    \<open>unfinished_stream_lost\<close>, \<open>plain_history_splits_session\<close>, \<open>developer_between_prompts_splits_session\<close>, \<open>long_write_leaves_gap\<close>, \<open>reconnect_reuses_tuple\<close>,
    \<open>open_file_swept\<close>.

  \<^bold>\<open>Interfaces\<close>

  \<open>kv_table\<close> states what a key/value container promises; its interpretations \<open>hm\<close> and \<open>bt\<close> carry the flow
  table, the joiner, the in-flight table and the session buffers. \<open>incremental_reader\<close> states that a
  reader's result does not change when bytes are appended; it is interpreted on the chunk reader and
  on the event splitter, and gives independence of segmentation. \<open>machine_invariant\<close> lifts an
  invariant from a step to a run; it is interpreted on the flow worker. \<open>metric_column\<close> states when a
  column of a metrics bucket adds up; it is interpreted on the call, token, error and latency columns.
  \<open>wire_api\<close> states what registry, processor and profiles rely on in a wire API; it is interpreted on all
  four. \<open>keyed_fold\<close> relates merging fragments into a map by key to grouping them first; it is
  interpreted on the tool calls of a Chat stream and the candidates of a Gemini stream. \<open>session_anchor\<close>
  states when the anchor of a session survives into the next request; it is interpreted on the body
  readers of all four wire APIs.

  \<^bold>\<open>Bounds and fuel\<close>

  \<open>parse_loop\<close> has as fuel a measure of parser state and buffers that every step decreases
  (\<open>parse_step_decreases\<close>), so \<open>parse\<close> never runs out. \<open>finalize_loop\<close> has one unit more than there are
  buffered request times, and every round removes one (\<open>finalize_loop_parts\<close>). \<open>to_radix\<close> has one unit per
  digit of the widest number it prints. All other recursions are proved to terminate. Sequence
  numbers, counters, token counts and lengths from the wire are words of their width, with wrapping
  and saturating operations as in a release build; timestamps (\<open>i64\<close> microseconds) are integers.

  \<^bold>\<open>Parameters\<close>

  Third-party code is an argument: \<open>httparse\<close> and \<open>flate2\<close> (record \<open>libs\<close>, with what the parser
  relies on as a named hypothesis), \<open>serde_json\<close>'s reading and printing, the tokenizer, the hash
  functions of the shards, the \<open>tdigest\<close> sketch, the iteration order of one \<open>HashMap\<close>, and UUIDs.
  So are the helpers of the kernel (record \<open>bpf_helpers\<close>: room in the ring, user memory, clock), the
  outcomes of file system calls (record \<open>dump_io\<close>, the directory listing of a sweep and the outcome of each
  removal) and the links under \<^verbatim>\<open>/proc\<close>.
  Trait objects (wire APIs, agent profiles, the token estimator) are records of functions. The shared
  in-flight table is behind a mutex, so several shards are a sequence of its operations.

  \<^bold>\<open>Not modelled, and why\<close>

  The loops around libpcap, attaching the eBPF probes (ELF and signature scan, rescan of processes),
  the SQL of the storage backends, the HTTP API, the console and the scripts are I/O or glue. The
  dumper writes at once: its buffers, their flushes and the snappy encoder are left out. Log output,
  \<open>Display\<close> implementations and task spawning have no effect on the data here. Open: the shard loops
  of \<^verbatim>\<open>h-metrics\<close> and \<^verbatim>\<open>h-turn\<close>, which wire the modelled steps to channels; the configuration.
\<close>

section \<open>Lemmas\<close>

lemma start_then_complete:
  assumes "active_ok a" "length dims = 4" "open_count a < 2 ^ 30 - 1" "map_of (open_calls a) k = None"
  shows "map_of (open_calls (active_complete k (fst (active_start k dims t a)))) = map_of (open_calls a)"
  using active_complete_ok(2)[OF active_start_ok(1)[OF assms(1-3), of k t]] active_start_ok(2)[OF assms(1-3), of k t] assms(4)
  by (auto simp: fun_eq_iff)

section \<open>Properties\<close>

text \<open>C15: Joiner, LLM processor and in-flight table together: when the parsed events of a flow,
  interleaved with those of others, are a request, its SSE events and its response, and a wire
  API claims the request, then the joiner's output for the flow makes exactly one start and
  one completion, with the same call key and the status of the response, and opening and
  closing that call leaves the in-flight table as it was.\<close>

theorem exchange_becomes_one_call:
  assumes "pending_ok j"
    and "filter (\<lambda>e. pe_key (fst e) = Some k) evs
      = (HttpRequest q, u0) # map (\<lambda>(e, u). (SseEvent e, u)) es @ [(HttpResponse r, xid)]"
    and "list_all (\<lambda>e. spares k (req_timestamp_us q) (fst e)) evs"
    and d: "detect js (lp_wire_apis lp) q (from_bytes (req_body q)) = Some (api, info)"
  shows "\<exists>s c agent.
      concat (map (\<lambda>ev. llm_events js lp (uid, ev)) (filter (\<lambda>o'. je_key o' = Some k) (snd (joiner_run j evs))))
        = [LlmStart s, LlmComplete c agent]
      \<and> start_call_key s = call_key c \<and> lc_wire_api c = wa_name api \<and> lc_status_code c = Some (resp_status r)
      \<and> (\<forall>a dims t. active_ok a \<and> length dims = 4 \<and> open_count a < 2 ^ 30 - 1 \<and> map_of (open_calls a) (call_key c) = None \<longrightarrow>
           map_of (open_calls (active_complete (call_key c) (fst (active_start (start_call_key s) dims t a)))) = map_of (open_calls a))"
proof -
  have out: "filter (\<lambda>o'. je_key o' = Some k) (snd (joiner_run j evs)) = [JRequest q, JExchange xid q r (map fst es)]"
    using assms(1-3) by (rule run_from_request)
  obtain lp2 c agent where c: "llm_on_exchange js uid q r (map fst es) lp = Some (lp2, [LlmComplete c agent])"
    "call_key c = \<lparr>ck_source_id = source_id (req_flow_key q), ck_client = req_client_addr q,
        ck_server = req_server_addr q, ck_request_time_us = req_timestamp_us q\<rparr>"
    "lc_wire_api c = wa_name api" "lc_status_code c = Some (resp_status r)"
    using on_exchange_shape[OF d] by blast
  obtain s where s: "snd (llm_on_request js q lp) = [LlmStart s]" "start_call_key s = call_key c"
    using d c(2) by (auto simp: llm_on_request_def start_call_key_def)
  have "concat (map (\<lambda>ev. llm_events js lp (uid, ev)) [JRequest q, JExchange xid q r (map fst es)]) = [LlmStart s, LlmComplete c agent]"
    using s(1) c(1) by (simp add: llm_events_def llm_process_def split_beta)
  then show ?thesis unfolding out using s(2) c(3,4) start_then_complete by metis
qed

theorem exchange_becomes_one_call_witness:
  "\<exists>s c agent. concat (map (\<lambda>ev. llm_events sample_json_lib (lw_processor sample_worker) (''u'', ev))
      (filter (\<lambda>o'. je_key o' = Some (req_flow_key sample_llm_request))
        (snd (joiner_run (HttpJoiner_new (\<lambda>_. 0)) [(HttpRequest sample_llm_request, []), (HttpResponse sample_llm_response, [])]))))
      = [LlmStart s, LlmComplete c agent] \<and> start_call_key s = call_key c"
proof -
  let ?k = "req_flow_key sample_llm_request" and ?evs = "[(HttpRequest sample_llm_request, []), (HttpResponse sample_llm_response, [])]"
  have ok: "pending_ok (HttpJoiner_new (\<lambda>_. 0))" by (simp add: pending_ok_def HttpJoiner_new_def hm.valid_empty)
  have f: "filter (\<lambda>e. pe_key (fst e) = Some ?k) ?evs
      = (HttpRequest sample_llm_request, []) # map (\<lambda>(e, u). (SseEvent e, u)) [] @ [(HttpResponse sample_llm_response, [])]"
    by (simp add: sample_llm_request_def sample_llm_response_def)
  have sp: "list_all (\<lambda>e. spares ?k (req_timestamp_us sample_llm_request) (fst e)) ?evs" by simp
  show ?thesis using exchange_becomes_one_call[OF ok f sp sample_detected, of "''u''"] by blast
qed

end
